(* ===== verification/Prelude.thy ===== *)
theory Prelude
  imports Complex_Main "HOL-Library.AList"
begin

text \<open>
  Shared material of the development: Python values as the program handles them after JSON
  decoding (\<open>pyval\<close>), results that may raise (\<open>'a res\<close>), dictionaries as ordered association
  lists, and the few string operations the program uses (\<open>split\<close>, \<open>join\<close>, \<open>strip\<close>,
  \<open>startswith\<close>). A Python \<open>str\<close> is a \<open>string\<close> whose characters are the code points below 256.
  The lemmas are collected in \<open>res_simps\<close>, \<open>dict_simps\<close> and \<open>str_simps\<close>.
\<close>

named_theorems res_simps "results that may raise"
named_theorems dict_simps "Python dictionaries"
named_theorems str_simps "strings"

section \<open>Values\<close>

datatype pyfloat = Finite rat | PosInf | NegInf | NotANumber

datatype pyval =
    PNone
  | PBool bool
  | PInt int
  | PFloat pyfloat
  | PStr string
  | PList "pyval list"
  | PDict "(string \<times> pyval) list"
  | PDateTime int

text \<open>A point in time is a number of microseconds; only Python values that have not been through JSON
  hold one.\<close>

type_synonym timestamp = int

definition seconds :: "int \<Rightarrow> timestamp" where
  "seconds n = n * 1000000"

type_synonym pydict = "(string \<times> pyval) list"

text \<open>Python's truth value testing.\<close>

fun truthy :: "pyval \<Rightarrow> bool" where
  "truthy PNone = False"
| "truthy (PBool b) = b"
| "truthy (PInt n) = (n \<noteq> 0)"
| "truthy (PFloat f) = (f \<noteq> Finite 0)"
| "truthy (PStr s) = (s \<noteq> [])"
| "truthy (PList xs) = (xs \<noteq> [])"
| "truthy (PDict d) = (d \<noteq> [])"
| "truthy (PDateTime t) = True"

abbreviation truthy_str :: "string option \<Rightarrow> bool" where
  "truthy_str s \<equiv> s \<noteq> None \<and> s \<noteq> Some []"

fun opt_str :: "string option \<Rightarrow> pyval" where
  "opt_str None = PNone"
| "opt_str (Some s) = PStr s"

section \<open>Results\<close>

text \<open>
  An exception is a value: its class, without the message. \<open>OutOfModel\<close> marks the formatting
  of a float or a container by an f-string, which no caller in the program does.
\<close>

datatype pyexc =
    ValueError
  | TypeError
  | KeyError
  | AttributeError
  | IndexError
  | FilterError
  | AuthenticationException
  | ValidationException
  | ResourceNotFoundException
  | PydanticValidationError
  | ZeroDivisionError
  | OverflowError
  | IntegrityError
  | SQLAlchemyError
  | OutOfModel

type_synonym 'a res = "pyexc + 'a"

fun res_bind :: "'e + 'a \<Rightarrow> ('a \<Rightarrow> 'e + 'b) \<Rightarrow> 'e + 'b" where
  "res_bind (Inl e) f = Inl e"
| "res_bind (Inr x) f = f x"

fun res_map :: "('a \<Rightarrow> 'b) \<Rightarrow> 'e + 'a \<Rightarrow> 'e + 'b" where
  "res_map f (Inl e) = Inl e"
| "res_map f (Inr x) = Inr (f x)"

text \<open>A Python list comprehension or loop whose body may raise: the first exception wins.\<close>

fun traverse :: "('a \<Rightarrow> 'e + 'b) \<Rightarrow> 'a list \<Rightarrow> 'e + 'b list" where
  "traverse f [] = Inr []"
| "traverse f (x # xs) = res_bind (f x) (\<lambda>y. res_map (Cons y) (traverse f xs))"

fun is_ok :: "'e + 'a \<Rightarrow> bool" where
  "is_ok (Inl _) = False"
| "is_ok (Inr _) = True"

lemma res_bind_Inr [res_simps]:
  "res_bind r f = Inr y \<longleftrightarrow> (\<exists>x. r = Inr x \<and> f x = Inr y)"
  by (cases r) auto

lemma res_bind_Inl [res_simps]:
  "res_bind r f = Inl e \<longleftrightarrow> r = Inl e \<or> (\<exists>x. r = Inr x \<and> f x = Inl e)"
  by (cases r) auto

lemma res_map_Inr [res_simps]: "res_map f r = Inr y \<longleftrightarrow> (\<exists>x. r = Inr x \<and> y = f x)"
  by (cases r) auto

lemma res_map_Inl [res_simps]: "res_map f r = Inl e \<longleftrightarrow> r = Inl e"
  by (cases r) auto

lemma res_bind_cong [fundef_cong]:
  "r = r' \<Longrightarrow> (\<And>x. r' = Inr x \<Longrightarrow> f x = g x) \<Longrightarrow> res_bind r f = res_bind r' g"
  by (cases r') auto

lemma traverse_cong [fundef_cong]:
  "xs = ys \<Longrightarrow> (\<And>x. x \<in> set ys \<Longrightarrow> f x = g x) \<Longrightarrow> traverse f xs = traverse g ys"
  by (induction ys arbitrary: xs) auto

lemma traverse_Inr_iff:
  "traverse f xs = Inr ys \<longleftrightarrow> list_all2 (\<lambda>x y. f x = Inr y) xs ys"
proof (induction xs arbitrary: ys)
  case (Cons x xs)
  then show ?case by (cases ys) (auto simp: res_simps)
qed auto

lemma traverse_length: "traverse f xs = Inr ys \<Longrightarrow> length ys = length xs"
  by (auto simp: traverse_Inr_iff dest: list_all2_lengthD)

lemma traverse_mem:
  "traverse f xs = Inr ys \<Longrightarrow> y \<in> set ys \<Longrightarrow> \<exists>x \<in> set xs. f x = Inr y"
  by (induction xs arbitrary: ys) (auto simp: res_simps)

lemma traverse_Inl: "traverse f xs = Inl e \<Longrightarrow> \<exists>x \<in> set xs. f x = Inl e"
  by (induction xs) (auto simp: res_simps)

lemma traverse_ok: "(\<And>x. x \<in> set xs \<Longrightarrow> is_ok (f x)) \<Longrightarrow> is_ok (traverse f xs)"
proof (induction xs)
  case (Cons x xs)
  then have "is_ok (f x)" and "is_ok (traverse f xs)" by auto
  then show ?case by (cases "f x"; cases "traverse f xs") auto
qed simp

lemma traverse_map_Inr: "traverse (\<lambda>x. Inr (f x)) xs = Inr (map f xs)"
  by (induction xs) auto

lemma is_ok_iff: "is_ok r \<longleftrightarrow> (\<exists>x. r = Inr x)"
  by (cases r) auto

section \<open>Dictionaries\<close>

text \<open>
  A \<open>dict\<close> is an association list in insertion order. \<open>map_of\<close> is \<open>d.get\<close>, \<open>AList.update\<close>
  is \<open>d[k] = v\<close> (an existing key keeps its place, a new one goes to the end) and
  \<open>AList.delete\<close> is \<open>d.pop(k, None)\<close>.
\<close>

definition dget :: "(string \<times> 'v) list \<Rightarrow> string \<Rightarrow> 'v option" where
  "dget d k = map_of d k"

definition dget_default :: "pydict \<Rightarrow> string \<Rightarrow> pyval \<Rightarrow> pyval" where
  "dget_default d k v = (case dget d k of None \<Rightarrow> v | Some x \<Rightarrow> x)"

abbreviation dget_none :: "pydict \<Rightarrow> string \<Rightarrow> pyval" where
  "dget_none d k \<equiv> dget_default d k PNone"

definition has_key :: "(string \<times> 'v) list \<Rightarrow> string \<Rightarrow> bool" where
  "has_key d k = (k \<in> fst ` set d)"

definition dset :: "(string \<times> 'v) list \<Rightarrow> string \<Rightarrow> 'v \<Rightarrow> (string \<times> 'v) list" where
  "dset d k v = AList.update k v d"

definition dpop :: "(string \<times> 'v) list \<Rightarrow> string \<Rightarrow> (string \<times> 'v) list" where
  "dpop d k = AList.delete k d"

definition wf_dict :: "(string \<times> 'v) list \<Rightarrow> bool" where
  "wf_dict d = distinct (map fst d)"

lemma dget_dset [dict_simps]: "dget (dset d k v) = (dget d)(k \<mapsto> v)"
  by (auto simp: dget_def dset_def update_conv')

lemma dget_dset_same [simp]: "dget (dset d k v) k = Some v"
  by (simp add: dget_dset)

lemma dget_dset_other [simp]: "k' \<noteq> k \<Longrightarrow> dget (dset d k v) k' = dget d k'"
  by (simp add: dget_dset)

lemma dget_dpop [dict_simps]: "dget (dpop d k) = (dget d)(k := None)"
  by (auto simp: dget_def dpop_def delete_conv')

lemma dget_dpop_same [simp]: "dget (dpop d k) k = None"
  by (simp add: dget_dpop)

lemma dget_dpop_other [simp]: "k' \<noteq> k \<Longrightarrow> dget (dpop d k) k' = dget d k'"
  by (simp add: dget_dpop)

lemma has_key_dget [dict_simps]: "has_key d k \<longleftrightarrow> dget d k \<noteq> None"
  by (simp add: has_key_def dget_def map_of_eq_None_iff)

lemma dset_nonempty [simp]: "dset d k v \<noteq> []"
  by (cases d) (auto simp: dset_def)

lemma wf_dset [intro]: "wf_dict d \<Longrightarrow> wf_dict (dset d k v)"
  by (simp add: wf_dict_def dset_def distinct_update)

lemma wf_dpop [intro]: "wf_dict d \<Longrightarrow> wf_dict (dpop d k)"
  by (simp add: wf_dict_def dpop_def distinct_delete)

lemma dget_Nil [simp]: "dget [] k = None"
  by (simp add: dget_def)

lemma dget_Cons [simp]: "dget ((k, v) # d) k' = (if k' = k then Some v else dget d k')"
  by (simp add: dget_def)

lemma wf_dict_Nil [simp]: "wf_dict []"
  by (simp add: wf_dict_def)

lemma wf_dict_Cons [simp]: "wf_dict ((k, v) # d) \<longleftrightarrow> dget d k = None \<and> wf_dict d"
  by (auto simp: wf_dict_def dget_def map_of_eq_None_iff)

lemma dget_default_Nil [simp]: "dget_default [] k v = v"
  by (simp add: dget_default_def)

lemma dget_default_Cons [simp]:
  "dget_default ((k, x) # d) k' v = (if k' = k then x else dget_default d k' v)"
  by (simp add: dget_default_def)

lemma dget_SomeD: "dget d k = Some v \<Longrightarrow> (k, v) \<in> set d"
  by (simp add: dget_def map_of_SomeD)

lemma size_dget [termination_simp]: "dget d k = Some v \<Longrightarrow> size v < Suc (size_list (size_prod (\<lambda>x. 0) size) d)"
  by (drule dget_SomeD, induction d) auto

section \<open>Lists\<close>

text \<open>First occurrences in order, past those already seen: the \<open>seen\<close> loop, and \<open>dict.fromkeys\<close>.\<close>

fun first_seen :: "'a list \<Rightarrow> 'a list \<Rightarrow> 'a list" where
  "first_seen seen [] = []"
| "first_seen seen (n # ns) =
     (if List.member seen n then first_seen seen ns else n # first_seen (n # seen) ns)"

abbreviation fromkeys :: "'a list \<Rightarrow> 'a list" where
  "fromkeys \<equiv> first_seen []"

lemma set_first_seen [simp]: "set (first_seen seen ns) = set ns - set seen"
  by (induction seen ns rule: first_seen.induct) auto

lemma distinct_first_seen [simp]: "distinct (first_seen seen ns)"
  by (induction seen ns rule: first_seen.induct) (auto simp: set_first_seen)

lemma first_seen_distinct: "distinct xs \<Longrightarrow> set xs \<inter> set seen = {} \<Longrightarrow> first_seen seen xs = xs"
  by (induction seen xs rule: first_seen.induct) auto

section \<open>Strings\<close>

text \<open>\<open>s.split(c)\<close>: never empty, and one piece more than there are separators.\<close>

fun split_on :: "char \<Rightarrow> string \<Rightarrow> string list" where
  "split_on c [] = [[]]"
| "split_on c (x # xs) =
     (if x = c then [] # split_on c xs
      else (case split_on c xs of [] \<Rightarrow> [[x]] | y # ys \<Rightarrow> (x # y) # ys))"

text \<open>\<open>c.join(xs)\<close>.\<close>

fun join_with :: "char \<Rightarrow> string list \<Rightarrow> string" where
  "join_with c [] = []"
| "join_with c [x] = x"
| "join_with c (x # y # xs) = x @ c # join_with c (y # xs)"

lemma split_on_nonempty [simp]: "split_on c s \<noteq> []"
  by (induction s) (auto split: list.splits)

lemma split_on_append [str_simps]: "c \<notin> set x \<Longrightarrow> split_on c (x @ c # s) = x # split_on c s"
  by (induction x) auto

lemma split_on_free [str_simps]: "c \<notin> set x \<Longrightarrow> split_on c x = [x]"
  by (induction x) auto

lemma split_join:
  "xs \<noteq> [] \<Longrightarrow> \<forall>x \<in> set xs. c \<notin> set x \<Longrightarrow> split_on c (join_with c xs) = xs"
  by (induction c xs rule: join_with.induct) (auto simp: str_simps)

lemma join_split: "join_with c (split_on c s) = s"
proof (induction s)
  case (Cons x s)
  obtain y ys where "split_on c s = y # ys"
    by (cases "split_on c s") auto
  with Cons show ?case by (cases ys) auto
qed simp

lemma split_on_pieces_free: "p \<in> set (split_on c s) \<Longrightarrow> c \<notin> set p"
  by (induction s arbitrary: p) (auto split: if_splits list.splits)

text \<open>Whitespace as \<open>str.isspace\<close> has it, for the code points below 256.\<close>

definition py_isspace :: "char \<Rightarrow> bool" where
  "py_isspace c =
     (let n = (of_char c :: nat) in (9 \<le> n \<and> n \<le> 13) \<or> (28 \<le> n \<and> n \<le> 32) \<or> n = 133 \<or> n = 160)"

definition py_strip :: "string \<Rightarrow> string" where
  "py_strip s = rev (dropWhile py_isspace (rev (dropWhile py_isspace s)))"

definition starts_with :: "string \<Rightarrow> string \<Rightarrow> bool" where
  "starts_with p s = (take (length p) s = p)"

lemma starts_with_append [simp]: "starts_with p (p @ s)"
  by (simp add: starts_with_def)

lemma starts_with_iff: "starts_with p s \<longleftrightarrow> (\<exists>r. s = p @ r)"
  by (auto simp: starts_with_def) (metis append_take_drop_id)

text \<open>Decimal rendering of an integer, and the string an f-string makes of a value.\<close>

fun show_nat :: "nat \<Rightarrow> string" where
  "show_nat n =
     (if n < 10 then [char_of (48 + n)] else show_nat (n div 10) @ [char_of (48 + n mod 10)])"

declare show_nat.simps [simp del]

definition show_int :: "int \<Rightarrow> string" where
  "show_int n = (if n < 0 then CHR ''-'' # show_nat (nat (- n)) else show_nat (nat n))"

fun fstr :: "pyval \<Rightarrow> string res" where
  "fstr PNone = Inr ''None''"
| "fstr (PBool True) = Inr ''True''"
| "fstr (PBool False) = Inr ''False''"
| "fstr (PInt n) = Inr (show_int n)"
| "fstr (PStr s) = Inr s"
| "fstr (PFloat _) = Inl OutOfModel"
| "fstr (PList _) = Inl OutOfModel"
| "fstr (PDict _) = Inl OutOfModel"
| "fstr (PDateTime _) = Inl OutOfModel"

lemma py_strip_Nil [simp]: "py_strip [] = []"
  by (simp add: py_strip_def)

end
