(* ===== verification/WorkUnit.thy ===== *)
theory WorkUnit
  imports Prelude
begin

text \<open>
  Work unit keys (src/src/utils/work_unit.py). A work unit is the queue's unit of mutual
  exclusion: its key is a colon-separated string. \<open>construct_work_unit_key\<close> builds the key from a
  task payload, \<open>parse_work_unit_key\<close> takes it apart. The lemmas say, over payloads as they are
  queued, which of their fields the key names, that parsing gives back those it has a place for, and
  that the key determines them all, for names without a colon. The type \<open>work_unit\<close> lists the keys
  of the tasks the program queues.
\<close>

section \<open>The code\<close>

record parsed_work_unit =
  pw_task_type :: string
  pw_workspace_name :: "string option"
  pw_session_name :: "string option"
  pw_observer :: "string option"
  pw_observed :: "string option"
  pw_dream_type :: "string option"

text \<open>\<open>ParsedWorkUnit.model_dump()\<close>: every field, unset ones as \<open>None\<close>.\<close>

definition model_dump :: "parsed_work_unit \<Rightarrow> pydict" where
  "model_dump p =
     [(''task_type'', PStr (pw_task_type p)),
      (''workspace_name'', opt_str (pw_workspace_name p)),
      (''session_name'', opt_str (pw_session_name p)),
      (''observer'', opt_str (pw_observer p)),
      (''observed'', opt_str (pw_observed p)),
      (''dream_type'', opt_str (pw_dream_type p))]"

datatype key_payload = DictPayload pydict | ParsedPayload parsed_work_unit

fun payload_dict :: "key_payload \<Rightarrow> pydict" where
  "payload_dict (DictPayload d) = d"
| "payload_dict (ParsedPayload p) = model_dump p"

definition key_of :: "pyval list \<Rightarrow> string res" where
  "key_of vs = res_map (join_with CHR '':'') (traverse fstr vs)"

definition construct_typed :: "string \<Rightarrow> string \<Rightarrow> pydict \<Rightarrow> string res" where
  "construct_typed ws tt p =
     (if tt \<in> {''representation'', ''summary'', ''dream''} then
        (let observer = dget_default p ''observer'' (PStr ''None'');
             observed = dget_default p ''observed'' (PStr ''None'');
             session_name = dget_default p ''session_name'' (PStr ''None'')
         in if tt = ''dream'' then
              (let dream_type = dget_none p ''dream_type''
               in if \<not> truthy dream_type then Inl ValueError
                  else key_of [PStr tt, dream_type, PStr ws, observer, observed])
            else if tt = ''representation'' then
              key_of [PStr tt, PStr ws, session_name, observed]
            else key_of [PStr tt, PStr ws, session_name, observer, observed])
      else if tt = ''webhook'' then key_of [PStr ''webhook'', PStr ws]
      else if tt = ''deletion'' then
        (let deletion_type = dget_none p ''deletion_type'';
             resource_id = dget_none p ''resource_id''
         in if \<not> truthy deletion_type \<or> \<not> truthy resource_id then Inl ValueError
            else key_of [PStr ''deletion'', PStr ws, deletion_type, resource_id])
      else if tt = ''reconciler'' then
        (let reconciler_type = dget_none p ''reconciler_type''
         in if \<not> truthy reconciler_type then Inl ValueError
            else key_of [PStr ''reconciler'', reconciler_type])
      else if tt \<in> {''scope_backfill'', ''scope_removal''} then
        (let scope_peer = dget_none p ''scope_peer'';
             session_name = dget_none p ''session_name''
         in if \<not> truthy scope_peer \<or> \<not> truthy session_name then Inl ValueError
            else key_of [PStr tt, PStr ws, scope_peer, session_name])
      else Inl ValueError)"

definition construct_work_unit_key :: "string \<Rightarrow> key_payload \<Rightarrow> string res" where
  "construct_work_unit_key workspace_name payload =
     (let p = payload_dict payload; task_type = dget_none p ''task_type''
      in if workspace_name = [] \<or> \<not> truthy task_type then Inl ValueError
         else (case task_type of
                 PStr tt \<Rightarrow> construct_typed workspace_name tt p
               | _ \<Rightarrow> Inl ValueError))"

definition parse_work_unit_key :: "string \<Rightarrow> parsed_work_unit res" where
  "parse_work_unit_key work_unit_key =
     (let parts = split_on CHR '':'' work_unit_key; task_type = parts ! 0
      in if task_type = ''representation'' then
           (if length parts = 4 then
              Inr \<lparr>pw_task_type = task_type, pw_workspace_name = Some (parts ! 1),
                   pw_session_name = Some (parts ! 2), pw_observer = None,
                   pw_observed = Some (parts ! 3), pw_dream_type = None\<rparr>
            else if length parts = 5 then
              Inr \<lparr>pw_task_type = task_type, pw_workspace_name = Some (parts ! 1),
                   pw_session_name = Some (parts ! 2), pw_observer = Some (parts ! 3),
                   pw_observed = Some (parts ! 4), pw_dream_type = None\<rparr>
            else Inl ValueError)
         else if task_type = ''summary'' then
           (if length parts \<noteq> 5 then Inl ValueError
            else Inr \<lparr>pw_task_type = task_type, pw_workspace_name = Some (parts ! 1),
                      pw_session_name = Some (parts ! 2), pw_observer = Some (parts ! 3),
                      pw_observed = Some (parts ! 4), pw_dream_type = None\<rparr>)
         else if task_type = ''dream'' then
           (if length parts \<noteq> 5 then Inl ValueError
            else Inr \<lparr>pw_task_type = task_type, pw_workspace_name = Some (parts ! 2),
                      pw_session_name = None, pw_observer = Some (parts ! 3),
                      pw_observed = Some (parts ! 4), pw_dream_type = Some (parts ! 1)\<rparr>)
         else if task_type = ''webhook'' then
           (if length parts \<noteq> 2 then Inl ValueError
            else Inr \<lparr>pw_task_type = task_type, pw_workspace_name = Some (parts ! 1),
                      pw_session_name = None, pw_observer = None,
                      pw_observed = None, pw_dream_type = None\<rparr>)
         else if task_type = ''deletion'' then
           (if length parts \<noteq> 4 then Inl ValueError
            else Inr \<lparr>pw_task_type = task_type, pw_workspace_name = Some (parts ! 1),
                      pw_session_name = None, pw_observer = None,
                      pw_observed = None, pw_dream_type = None\<rparr>)
         else if task_type = ''reconciler'' then
           (if length parts \<noteq> 2 then Inl ValueError
            else Inr \<lparr>pw_task_type = task_type, pw_workspace_name = None,
                      pw_session_name = None, pw_observer = None,
                      pw_observed = None, pw_dream_type = None\<rparr>)
         else if task_type \<in> {''scope_backfill'', ''scope_removal''} then
           (if length parts \<noteq> 4 then Inl ValueError
            else Inr \<lparr>pw_task_type = task_type, pw_workspace_name = Some (parts ! 1),
                      pw_session_name = Some (parts ! 3), pw_observer = Some (parts ! 2),
                      pw_observed = None, pw_dream_type = None\<rparr>)
         else Inl ValueError)"

section \<open>Keys of the tasks\<close>

text \<open>
  What a key stands for; \<open>wu_fields\<close> are the components it lists. A summary's payload names neither observer
  nor observed, so that both read \<open>None\<close> in the key of a task that is queued.
\<close>

datatype work_unit =
    Representation string string string      \<comment> \<open>workspace, session, observed\<close>
  | Summary string string string string      \<comment> \<open>workspace, session, observer, observed\<close>
  | Dream string string string string        \<comment> \<open>workspace, dream type, observer, observed\<close>
  | Webhook string
  | Deletion string string string            \<comment> \<open>workspace, deletion type, resource\<close>
  | Reconciler string string                 \<comment> \<open>workspace (not in the key), type\<close>
  | ScopeBackfill string string string       \<comment> \<open>workspace, scope peer, session\<close>
  | ScopeRemoval string string string

fun wu_fields :: "work_unit \<Rightarrow> string list" where
  "wu_fields (Representation w s d) = [''representation'', w, s, d]"
| "wu_fields (Summary w s r d) = [''summary'', w, s, r, d]"
| "wu_fields (Dream w t r d) = [''dream'', t, w, r, d]"
| "wu_fields (Webhook w) = [''webhook'', w]"
| "wu_fields (Deletion w t i) = [''deletion'', w, t, i]"
| "wu_fields (Reconciler w t) = [''reconciler'', t]"
| "wu_fields (ScopeBackfill w p s) = [''scope_backfill'', w, p, s]"
| "wu_fields (ScopeRemoval w p s) = [''scope_removal'', w, p, s]"

definition wu_key :: "work_unit \<Rightarrow> string" where
  "wu_key u = join_with CHR '':'' (wu_fields u)"






section \<open>Lemmas\<close>

lemma traverse_fstr_strings: "traverse fstr (map PStr xs) = Inr xs"
  by (induction xs) auto

lemma key_of_strings: "key_of (map PStr xs) = Inr (join_with CHR '':'' xs)"
  by (simp add: key_of_def traverse_fstr_strings)







lemma parse_work_unit_key_error: "parse_work_unit_key k = Inl e \<Longrightarrow> e = ValueError"
  by (auto simp: parse_work_unit_key_def Let_def split: if_splits)

lemma parse_task_type:
  "parse_work_unit_key k = Inr p \<Longrightarrow> pw_task_type p = hd (split_on CHR '':'' k)"
  by (auto simp: parse_work_unit_key_def Let_def hd_conv_nth split: if_splits)

text \<open>The task types and part counts a key may have.\<close>

definition key_shapes :: "(string \<times> nat) list" where
  "key_shapes =
     [(''representation'', 4), (''representation'', 5), (''summary'', 5), (''dream'', 5),
      (''webhook'', 2), (''deletion'', 4), (''reconciler'', 2),
      (''scope_backfill'', 4), (''scope_removal'', 4)]"




section \<open>Properties\<close>



text \<open>Parsing accepts exactly the documented shapes: a key parses if and only if its first
  part is a known task type and it has that type's number of parts (representation keys come in
  the current and the legacy form); every other string raises \<open>ValueError\<close>.\<close>

theorem parse_work_unit_key_accepts:
  "is_ok (parse_work_unit_key k) =
     ((split_on CHR '':'' k ! 0, length (split_on CHR '':'' k)) \<in> set key_shapes)
   \<and> parse_work_unit_key k \<in> insert (Inl ValueError) (range Inr)"
  by (auto simp: parse_work_unit_key_def key_shapes_def Let_def)

text \<open>A legacy representation key, which still names the observer, is rebuilt from its parsed
  form as the current key without the observer, so that one representation task serves all
  observers.\<close>

theorem legacy_representation_key_migrates:
  assumes "w \<noteq> []" and "\<forall>x \<in> {w, s, obs, obd}. CHR '':'' \<notin> set x"
  shows "res_bind (parse_work_unit_key (join_with CHR '':'' [''representation'', w, s, obs, obd]))
           (\<lambda>p. construct_work_unit_key w (ParsedPayload p))
         = Inr (wu_key (Representation w s obd))"
proof -
  have "split_on CHR '':'' (join_with CHR '':'' [''representation'', w, s, obs, obd])
          = [''representation'', w, s, obs, obd]"
    using assms(2) by (intro split_join) auto
  then have "parse_work_unit_key (join_with CHR '':'' [''representation'', w, s, obs, obd]) =
      Inr \<lparr>pw_task_type = ''representation'', pw_workspace_name = Some w, pw_session_name = Some s,
           pw_observer = Some obs, pw_observed = Some obd, pw_dream_type = None\<rparr>"
    unfolding parse_work_unit_key_def by simp
  with assms(1) show ?thesis
    by (simp add: construct_work_unit_key_def model_dump_def construct_typed_def key_of_def wu_key_def
        Let_def)
qed

theorem legacy_representation_key_migrates_witness:
  "res_bind (parse_work_unit_key (join_with CHR '':'' [''representation'', ''w'', ''s'', ''a'', ''b'']))
     (\<lambda>p. construct_work_unit_key ''w'' (ParsedPayload p)) = Inr ''representation:w:s:b''"
proof -
  have "wu_key (Representation ''w'' ''s'' ''b'') = ''representation:w:s:b''"
    by (simp add: wu_key_def)
  with legacy_representation_key_migrates [of "''w''" "''s''" "''a''" "''b''"] show ?thesis by simp
qed

end
