(* ===== verification/Config.thy ===== *)
theory Config
  imports Prelude
begin

text \<open>
  Hierarchical configuration (src/src/utils/config_helpers.py, src/src/utils/json_coerce.py and
  the resolved models of src/src/schemas/configuration.py). Message, session and workspace
  configurations are dictionaries; the more specific level wins field by field, and custom
  instructions follow a rule of their own. Pydantic's lax coercion of booleans and integers and
  the tokenizer are parameters (\<open>validators\<close>). Dictionaries are values here: the in-place merge of
  the code only ever writes into the dictionary it builds, except that an extra nested dictionary
  of a level is shared with the merged one; the resolved configuration does not read those.
\<close>

section \<open>JSON narrowing\<close>

fun as_dict :: "pyval \<Rightarrow> pydict option" where
  "as_dict (PDict d) = Some d"
| "as_dict _ = None"

fun as_list :: "pyval \<Rightarrow> pyval list option" where
  "as_list (PList xs) = Some xs"
| "as_list _ = None"

fun as_str :: "pyval \<Rightarrow> string option" where
  "as_str (PStr s) = Some s"
| "as_str _ = None"

fun as_int :: "pyval \<Rightarrow> int option" where
  "as_int (PInt n) = Some n"
| "as_int _ = None"

text \<open>\<open>as_dict(v) or {}\<close>.\<close>

definition dict_or_empty :: "pyval \<Rightarrow> pydict" where
  "dict_or_empty v = (case as_dict v of None \<Rightarrow> [] | Some d \<Rightarrow> d)"

lemma dict_or_empty_simps [simp]:
  "dict_or_empty (PDict d) = d" "dict_or_empty PNone = []"
  by (simp_all add: dict_or_empty_def)

section \<open>Merging\<close>

fun deep_update :: "pydict \<Rightarrow> pydict \<Rightarrow> pydict" where
  "deep_update base [] = base"
| "deep_update base ((key, PNone) # rest) = deep_update base rest"
| "deep_update base ((key, PDict nested) # rest) =
     deep_update
       (case dget base key of
          Some (PDict existing) \<Rightarrow> dset base key (PDict (deep_update existing nested))
        | _ \<Rightarrow> dset base key (PDict nested)) rest"
| "deep_update base ((key, value) # rest) = deep_update (dset base key value) rest"

definition resolve_level :: "string \<times> pydict \<Rightarrow> string \<Rightarrow> bool \<Rightarrow> pyval \<times> string" where
  "resolve_level lvl modname shared_fallback =
     (let level_name = fst lvl; level = snd lvl;
          value = dget_none (dict_or_empty (dget_none level modname)) ''custom_instructions''
      in if value = PNone \<and> shared_fallback
         then (dget_none level ''custom_instructions'', level_name @ ''.shared'')
         else (value, level_name @ ''.'' @ modname))"

fun resolve_custom_instructions ::
  "(string \<times> pydict) list \<Rightarrow> string \<Rightarrow> bool \<Rightarrow> string option \<times> string option" where
  "resolve_custom_instructions [] modname shared_fallback = (None, None)"
| "resolve_custom_instructions (lvl # levels) modname shared_fallback =
     (case resolve_level lvl modname shared_fallback of
        (PStr value, source) \<Rightarrow>
          (if py_strip value = [] then None else Some (py_strip value), Some source)
      | _ \<Rightarrow> resolve_custom_instructions levels modname shared_fallback)"

definition normalize_configuration_dict :: "pydict \<Rightarrow> pydict" where
  "normalize_configuration_dict raw =
     (let reasoning_present = has_key raw ''reasoning'';
          reasoning = dict_or_empty (dget_none raw ''reasoning'');
          reasoning_enabled_explicit = (dget_none reasoning ''enabled'' \<noteq> PNone);
          deriver = dict_or_empty (dget_none raw ''deriver'');
          reasoning1 =
            (if \<not> reasoning_enabled_explicit \<and> dget_none deriver ''enabled'' \<noteq> PNone
             then dset reasoning ''enabled'' (PBool (truthy (dget_none deriver ''enabled'')))
             else reasoning);
          reasoning2 =
            (if \<not> reasoning_enabled_explicit \<and> dget_none raw ''skip_deriver'' = PBool True
             then dset reasoning1 ''enabled'' (PBool False)
             else reasoning1);
          normalized =
            (if reasoning_present \<or> reasoning2 \<noteq> [] then dset raw ''reasoning'' (PDict reasoning2)
             else raw)
      in dpop (dpop normalized ''deriver'') ''skip_deriver'')"

section \<open>The resolved configuration\<close>

record reasoning_configuration =
  rea_enabled :: bool
  rea_instructions :: "string option"
  rea_source :: "string option"

record peer_card_configuration =
  pc_use :: bool
  pc_create :: bool
  pc_instructions :: "string option"
  pc_source :: "string option"

record summary_configuration =
  sum_enabled :: bool
  sum_short :: int
  sum_long :: int
  sum_instructions :: "string option"
  sum_source :: "string option"

record dream_configuration =
  dr_enabled :: bool
  dr_instructions :: "string option"
  dr_source :: "string option"

record dialectic_configuration =
  dia_instructions :: "string option"
  dia_source :: "string option"

record resolved_configuration =
  rc_reasoning :: reasoning_configuration
  rc_peer_card :: peer_card_configuration
  rc_summary :: summary_configuration
  rc_dream :: dream_configuration
  rc_dialectic :: dialectic_configuration

record settings =
  DERIVER_ENABLED :: bool
  PEER_CARD_ENABLED :: bool
  SUMMARY_ENABLED :: bool
  MESSAGES_PER_SHORT_SUMMARY :: int
  MESSAGES_PER_LONG_SUMMARY :: int
  DREAM_ENABLED :: bool
  MAX_CUSTOM_INSTRUCTIONS_TOKENS :: int

text \<open>What the code takes from packages: pydantic's coercion to \<open>bool\<close> and \<open>int\<close>, tiktoken.\<close>

record validators =
  lax_bool :: "pyval \<Rightarrow> bool option"
  lax_int :: "pyval \<Rightarrow> int option"
  estimate_tokens :: "string \<Rightarrow> int"

definition validate_custom_instructions_budget ::
  "validators \<Rightarrow> settings \<Rightarrow> string option \<Rightarrow> string option res" where
  "validate_custom_instructions_budget vd st custom_instructions =
     (case custom_instructions of
        None \<Rightarrow> Inr None
      | Some s \<Rightarrow>
          if py_strip s = [] then Inr (Some s)
          else if MAX_CUSTOM_INSTRUCTIONS_TOKENS st \<le> 0 then Inl PydanticValidationError
          else if estimate_tokens vd s > MAX_CUSTOM_INSTRUCTIONS_TOKENS st
          then Inl PydanticValidationError
          else Inr (Some s))"

definition require :: "(pyval \<Rightarrow> 'a option) \<Rightarrow> pydict \<Rightarrow> string \<Rightarrow> 'a res" where
  "require conv d k =
     (case dget d k of
        None \<Rightarrow> Inl PydanticValidationError
      | Some v \<Rightarrow> (case conv v of None \<Rightarrow> Inl PydanticValidationError | Some x \<Rightarrow> Inr x))"

text \<open>A field declared \<open>str | None = None\<close>.\<close>

definition optional_str :: "pydict \<Rightarrow> string \<Rightarrow> string option res" where
  "optional_str d k =
     (case dget_none d k of
        PNone \<Rightarrow> Inr None
      | PStr s \<Rightarrow> Inr (Some s)
      | _ \<Rightarrow> Inl PydanticValidationError)"

definition instructions_of ::
  "validators \<Rightarrow> settings \<Rightarrow> pydict \<Rightarrow> (string option \<times> string option) res" where
  "instructions_of vd st d =
     res_bind (optional_str d ''custom_instructions'') (\<lambda>raw.
     res_bind (validate_custom_instructions_budget vd st raw) (\<lambda>ci.
     res_map (\<lambda>src. (ci, src)) (optional_str d ''custom_instructions_source'')))"

definition migrate_deriver_to_reasoning :: "pydict \<Rightarrow> pydict" where
  "migrate_deriver_to_reasoning config =
     (if has_key config ''deriver'' \<and> \<not> has_key config ''reasoning''
      then dset (dpop config ''deriver'') ''reasoning'' (dget_none config ''deriver'')
      else config)"

definition resolved_reasoning ::
  "validators \<Rightarrow> settings \<Rightarrow> pydict \<Rightarrow> reasoning_configuration res" where
  "resolved_reasoning vd st d =
     res_bind (require (lax_bool vd) d ''enabled'') (\<lambda>e.
     res_map (\<lambda>(ci, src). \<lparr>rea_enabled = e, rea_instructions = ci, rea_source = src\<rparr>)
       (instructions_of vd st d))"

definition resolved_peer_card ::
  "validators \<Rightarrow> settings \<Rightarrow> pydict \<Rightarrow> peer_card_configuration res" where
  "resolved_peer_card vd st d =
     res_bind (require (lax_bool vd) d ''use'') (\<lambda>u.
     res_bind (require (lax_bool vd) d ''create'') (\<lambda>c.
     res_map (\<lambda>(ci, src). \<lparr>pc_use = u, pc_create = c, pc_instructions = ci, pc_source = src\<rparr>)
       (instructions_of vd st d)))"

definition resolved_summary ::
  "validators \<Rightarrow> settings \<Rightarrow> pydict \<Rightarrow> summary_configuration res" where
  "resolved_summary vd st d =
     res_bind (require (lax_bool vd) d ''enabled'') (\<lambda>e.
     res_bind (require (lax_int vd) d ''messages_per_short_summary'') (\<lambda>s.
     res_bind (require (lax_int vd) d ''messages_per_long_summary'') (\<lambda>l.
     res_map (\<lambda>(ci, src). \<lparr>sum_enabled = e, sum_short = s, sum_long = l,
                           sum_instructions = ci, sum_source = src\<rparr>)
       (instructions_of vd st d))))"

definition resolved_dream ::
  "validators \<Rightarrow> settings \<Rightarrow> pydict \<Rightarrow> dream_configuration res" where
  "resolved_dream vd st d =
     res_bind (require (lax_bool vd) d ''enabled'') (\<lambda>e.
     res_map (\<lambda>(ci, src). \<lparr>dr_enabled = e, dr_instructions = ci, dr_source = src\<rparr>)
       (instructions_of vd st d))"

definition resolved_dialectic ::
  "validators \<Rightarrow> settings \<Rightarrow> pydict \<Rightarrow> dialectic_configuration res" where
  "resolved_dialectic vd st d =
     res_map (\<lambda>(ci, src). \<lparr>dia_instructions = ci, dia_source = src\<rparr>) (instructions_of vd st d)"

definition model_validate ::
  "validators \<Rightarrow> settings \<Rightarrow> pydict \<Rightarrow> resolved_configuration res" where
  "model_validate vd st raw =
     (let d = migrate_deriver_to_reasoning raw in
      res_bind (res_bind (require as_dict d ''reasoning'') (resolved_reasoning vd st)) (\<lambda>rea.
      res_bind (res_bind (require as_dict d ''peer_card'') (resolved_peer_card vd st)) (\<lambda>pc.
      res_bind (res_bind (require as_dict d ''summary'') (resolved_summary vd st)) (\<lambda>sm.
      res_bind (res_bind (require as_dict d ''dream'') (resolved_dream vd st)) (\<lambda>dr.
      res_bind (if has_key d ''dialectic''
                then res_bind (require as_dict d ''dialectic'') (resolved_dialectic vd st)
                else Inr \<lparr>dia_instructions = None, dia_source = None\<rparr>) (\<lambda>dia.
      Inr \<lparr>rc_reasoning = rea, rc_peer_card = pc, rc_summary = sm, rc_dream = dr,
           rc_dialectic = dia\<rparr>))))))"

section \<open>Resolution\<close>

definition default_config :: "settings \<Rightarrow> pydict" where
  "default_config st =
     [(''reasoning'', PDict [(''enabled'', PBool (DERIVER_ENABLED st)), (''custom_instructions'', PNone)]),
      (''peer_card'', PDict [(''use'', PBool (PEER_CARD_ENABLED st)), (''create'', PBool (PEER_CARD_ENABLED st))]),
      (''summary'', PDict [(''enabled'', PBool (SUMMARY_ENABLED st)),
                           (''messages_per_short_summary'', PInt (MESSAGES_PER_SHORT_SUMMARY st)),
                           (''messages_per_long_summary'', PInt (MESSAGES_PER_LONG_SUMMARY st))]),
      (''dream'', PDict [(''enabled'', PBool (DREAM_ENABLED st))]),
      (''dialectic'', PDict [])]"

text \<open>The levels that exist, normalized, most specific first.\<close>

definition config_levels ::
  "pydict option \<Rightarrow> pydict option \<Rightarrow> pydict option \<Rightarrow> (string \<times> pydict) list" where
  "config_levels message session workspace =
     concat (map (\<lambda>(name, raw). case raw of None \<Rightarrow> []
                                  | Some d \<Rightarrow> [(name, normalize_configuration_dict d)])
       [(''message'', message), (''session'', session), (''workspace'', workspace)])"

definition merged_config :: "settings \<Rightarrow> (string \<times> pydict) list \<Rightarrow> pydict" where
  "merged_config st levels = foldl (\<lambda>c (_, level). deep_update c level) (default_config st) (rev levels)"

definition set_instructions ::
  "(string \<times> pydict) list \<Rightarrow> string \<Rightarrow> pydict \<Rightarrow> pydict res" where
  "set_instructions levels modname config =
     (case resolve_custom_instructions levels modname (modname \<noteq> ''peer_card'') of
        (value, source) \<Rightarrow>
          (case dget config modname of
             None \<Rightarrow> Inl KeyError
           | Some (PDict m) \<Rightarrow>
               Inr (dset config modname
                 (PDict (dset (dset m ''custom_instructions'' (opt_str value))
                              ''custom_instructions_source'' (opt_str source))))
           | Some _ \<Rightarrow> Inl TypeError))"

definition instruction_modules :: "string list" where
  "instruction_modules = [''reasoning'', ''summary'', ''dialectic'', ''dream'', ''peer_card'']"

fun apply_instructions ::
  "(string \<times> pydict) list \<Rightarrow> string list \<Rightarrow> pydict \<Rightarrow> pydict res" where
  "apply_instructions levels [] config = Inr config"
| "apply_instructions levels (m # ms) config =
     res_bind (set_instructions levels m config) (apply_instructions levels ms)"

definition get_configuration ::
  "validators \<Rightarrow> settings \<Rightarrow> pydict option \<Rightarrow> pydict option \<Rightarrow> pydict option
     \<Rightarrow> resolved_configuration res" where
  "get_configuration vd st message session workspace =
     (let levels = config_levels message session workspace in
      res_bind (apply_instructions levels instruction_modules (merged_config st levels))
        (model_validate vd st))"

section \<open>Lemmas on merging\<close>

definition path_get :: "pydict \<Rightarrow> string \<Rightarrow> string \<Rightarrow> pyval" where
  "path_get d m f = dget_none (dict_or_empty (dget_none d m)) f"

fun is_dict :: "pyval \<Rightarrow> bool" where
  "is_dict (PDict _) = True"
| "is_dict _ = False"

text \<open>A module's section of a level: absent, \<open>None\<close>, or a dictionary of scalars.\<close>

fun scalar_section :: "pyval \<Rightarrow> bool" where
  "scalar_section PNone = True"
| "scalar_section (PDict d) = (wf_dict d \<and> (\<forall>(k, v) \<in> set d. \<not> is_dict v))"
| "scalar_section _ = False"

definition well_shaped :: "pydict \<Rightarrow> bool" where
  "well_shaped d = (wf_dict d \<and> (\<forall>m \<in> set instruction_modules. scalar_section (dget_none d m)))"

fun merge_val :: "pyval option \<Rightarrow> pyval option \<Rightarrow> pyval option" where
  "merge_val b None = b"
| "merge_val b (Some PNone) = b"
| "merge_val (Some (PDict e)) (Some (PDict n)) = Some (PDict (deep_update e n))"
| "merge_val b (Some v) = Some v"

lemma dget_deep_update:
  "wf_dict u \<Longrightarrow> dget (deep_update b u) k = merge_val (dget b k) (dget u k)"
proof (induction b u rule: deep_update.induct)
  case (3 base key nested rest)
  then show ?case by (auto split: option.splits pyval.splits)
qed auto

lemma merge_val_scalar:
  "\<not> is_dict v \<Longrightarrow> merge_val b (Some v) = (if v = PNone then b else Some v)"
  by (cases v; cases b) (auto simp: fun_upd_def)

lemma dget_none_deep_update_scalar:
  assumes "wf_dict u" and "\<forall>(k, v) \<in> set u. \<not> is_dict v"
  shows "dget_none (deep_update b u) f = (if dget_none u f = PNone then dget_none b f else dget_none u f)"
proof (cases "dget u f")
  case None
  with assms(1) show ?thesis by (simp add: dget_default_def dget_deep_update)
next
  case (Some v)
  with assms(2) have "\<not> is_dict v" by (auto dest: dget_SomeD)
  with Some assms(1) show ?thesis
    by (simp add: dget_default_def dget_deep_update merge_val_scalar)
qed

lemma path_get_deep_update:
  assumes "wf_dict l" and "scalar_section (dget_none l m)" and "dget b m = Some (PDict e)"
  shows "path_get (deep_update b l) m f =
           (if path_get l m f = PNone then path_get b m f else path_get l m f)"
    and "\<exists>e'. dget (deep_update b l) m = Some (PDict e')"
proof -
  consider "dget l m = None" | "dget l m = Some PNone" | n where "dget l m = Some (PDict n)"
    using assms(2) by (auto simp: dget_default_def split: option.splits elim: scalar_section.elims)
  then have "path_get (deep_update b l) m f =
           (if path_get l m f = PNone then path_get b m f else path_get l m f)
         \<and> (\<exists>e'. dget (deep_update b l) m = Some (PDict e'))"
  proof cases
    case 3
    then have "scalar_section (PDict n)" using assms(2) by (simp add: dget_default_def)
    then have n: "wf_dict n" "\<forall>(k, v) \<in> set n. \<not> is_dict v" by auto
    have "dget (deep_update b l) m = Some (PDict (deep_update e n))"
      using assms 3 by (simp add: dget_deep_update)
    then show ?thesis
      using 3 assms(3) dget_none_deep_update_scalar [OF n]
      by (simp add: path_get_def dget_default_def)
  qed (use assms in \<open>auto simp: path_get_def dget_default_def dget_deep_update\<close>)
  then show "path_get (deep_update b l) m f =
           (if path_get l m f = PNone then path_get b m f else path_get l m f)"
    and "\<exists>e'. dget (deep_update b l) m = Some (PDict e')" by auto
qed

text \<open>The value of the most specific level that sets one.\<close>

fun first_set :: "pyval list \<Rightarrow> pyval" where
  "first_set [] = PNone"
| "first_set (v # vs) = (if v = PNone then first_set vs else v)"

lemma merged_config_Cons:
  "merged_config st ((n, l) # ls) = deep_update (merged_config st ls) l"
  by (simp add: merged_config_def)

lemma merged_config_section:
  assumes "\<forall>(n, l) \<in> set ls. well_shaped l" and "m \<in> set instruction_modules"
  shows "path_get (merged_config st ls) m f =
           first_set (map (\<lambda>(n, l). path_get l m f) ls @ [path_get (default_config st) m f])
       \<and> (\<exists>e. dget (merged_config st ls) m = Some (PDict e))"
  using assms(1)
proof (induction ls)
  case Nil
  show ?case using assms(2) by (auto simp: merged_config_def default_config_def instruction_modules_def)
next
  case (Cons x ls)
  obtain n l where x: "x = (n, l)" by force
  from Cons obtain e where e: "dget (merged_config st ls) m = Some (PDict e)" by auto
  have "wf_dict l" "scalar_section (dget_none l m)"
    using Cons.prems x assms(2) by (auto simp: well_shaped_def)
  note step = path_get_deep_update [OF this e]
  show ?case using Cons step by (auto simp: x merged_config_Cons)
qed

lemma dset_same: "dget d k = Some v \<Longrightarrow> dset d k v = d"
  by (induction d) (auto simp: dset_def split: if_splits)

lemma dset_dset: "dset (dset d k v) k w = dset d k w"
  by (induction d) (auto simp: dset_def)

lemma dpop_absent: "dget d k = None \<Longrightarrow> dpop d k = d"
  by (induction d) (auto simp: dpop_def split: if_splits)

lemma dict_or_empty_scalar:
  "scalar_section v \<Longrightarrow> wf_dict (dict_or_empty v) \<and> (\<forall>(k, x) \<in> set (dict_or_empty v). \<not> is_dict x)"
  by (cases v) (auto simp: dict_or_empty_def wf_dict_def)

lemma set_dset: "(k', x) \<in> set (dset d k v) \<Longrightarrow> (k', x) \<in> set d \<or> x = v"
  by (induction d) (auto simp: dset_def split: if_splits)

lemma scalar_dset:
  "scalar_section (PDict d) \<Longrightarrow> \<not> is_dict v \<Longrightarrow> scalar_section (PDict (dset d k v))"
  by (auto dest!: set_dset)

lemma dget_none_dset [simp]:
  "dget_none (dset d k v) k' = (if k' = k then v else dget_none d k')"
  by (simp add: dget_default_def dget_dset)

lemma dget_none_dpop [simp]:
  "dget_none (dpop d k) k' = (if k' = k then PNone else dget_none d k')"
  by (simp add: dget_default_def dget_dpop)

lemma normalize_wf: "wf_dict d \<Longrightarrow> wf_dict (normalize_configuration_dict d)"
  by (simp add: normalize_configuration_dict_def Let_def wf_dpop wf_dset)

lemma normalize_other:
  "k \<notin> {''reasoning'', ''deriver'', ''skip_deriver''} \<Longrightarrow>
   dget_none (normalize_configuration_dict d) k = dget_none d k"
  by (simp add: normalize_configuration_dict_def Let_def)

lemma normalize_reasoning_scalar:
  "well_shaped d \<Longrightarrow> scalar_section (dget_none (normalize_configuration_dict d) ''reasoning'')"
proof -
  assume "well_shaped d"
  then have "scalar_section (dget_none d ''reasoning'')"
    by (simp add: well_shaped_def instruction_modules_def)
  then have "scalar_section (PDict (dict_or_empty (dget_none d ''reasoning'')))"
    using dict_or_empty_scalar by simp
  moreover from this have "scalar_section (PDict (dset (dict_or_empty (dget_none d ''reasoning'')) k (PBool b)))"
    for k b by (rule scalar_dset) simp
  moreover from this have "scalar_section (PDict (dset (dset (dict_or_empty (dget_none d ''reasoning'')) k (PBool b)) k' (PBool b')))"
    for k b k' b' by (rule scalar_dset) simp
  ultimately show ?thesis
    using \<open>scalar_section (dget_none d ''reasoning'')\<close>
    by (simp add: normalize_configuration_dict_def Let_def del: scalar_section.simps(2))
qed

lemma normalize_dget_other:
  "k \<notin> {''reasoning'', ''deriver'', ''skip_deriver''} \<Longrightarrow>
   dget (normalize_configuration_dict d) k = dget d k"
  by (simp add: normalize_configuration_dict_def Let_def)

lemma normalize_no_legacy:
  "\<not> has_key (normalize_configuration_dict d) ''deriver''"
  "\<not> has_key (normalize_configuration_dict d) ''skip_deriver''"
  by (simp_all add: normalize_configuration_dict_def Let_def has_key_dget dget_dpop)

lemma normalize_reasoning_enabled:
  "path_get (normalize_configuration_dict d) ''reasoning'' ''enabled'' =
     (if path_get d ''reasoning'' ''enabled'' \<noteq> PNone then path_get d ''reasoning'' ''enabled''
      else if dget_none d ''skip_deriver'' = PBool True then PBool False
      else if path_get d ''deriver'' ''enabled'' \<noteq> PNone
      then PBool (truthy (path_get d ''deriver'' ''enabled'')) else PNone)"
proof -
  let ?r = "dict_or_empty (dget_none d ''reasoning'')"
  let ?d = "dict_or_empty (dget_none d ''deriver'')"
  have r: "dget_none ?r ''enabled'' \<noteq> PNone \<Longrightarrow> ?r \<noteq> []" by auto
  have a: "\<not> has_key d ''reasoning'' \<Longrightarrow> ?r = []"
    by (simp add: has_key_dget dget_default_def)
  show ?thesis
  proof (cases "dget_none ?r ''enabled'' = PNone")
    case False
    with r show ?thesis
      by (simp add: normalize_configuration_dict_def Let_def path_get_def)
  next
    case True
    then show ?thesis
      by (cases "dget_none d ''skip_deriver'' = PBool True"; cases "dget_none ?d ''enabled'' = PNone";
          cases "has_key d ''reasoning'' \<or> ?r \<noteq> []")
        (simp_all add: normalize_configuration_dict_def Let_def path_get_def a)
  qed
qed

lemma normalize_well_shaped: "well_shaped d \<Longrightarrow> well_shaped (normalize_configuration_dict d)"
proof -
  assume d: "well_shaped d"
  have "scalar_section (dget_none (normalize_configuration_dict d) m)"
    if "m \<in> set instruction_modules" for m
  proof (cases "m = ''reasoning''")
    case True
    with normalize_reasoning_scalar [OF d] show ?thesis by simp
  next
    case False
    with that d show ?thesis
      by (subst normalize_other) (auto simp: instruction_modules_def well_shaped_def)
  qed
  with d show ?thesis by (simp add: well_shaped_def normalize_wf)
qed

lemma normalize_idem:
  "normalize_configuration_dict (normalize_configuration_dict d) = normalize_configuration_dict d"
proof -
  let ?n = "normalize_configuration_dict d"
  have n: "dget ?n ''deriver'' = None" "dget ?n ''skip_deriver'' = None"
    by (simp_all add: normalize_configuration_dict_def Let_def dget_dpop)
  then have n': "dget_none ?n ''deriver'' = PNone" "dget_none ?n ''skip_deriver'' = PNone"
    by (simp_all add: dget_default_def)
  show ?thesis
  proof (cases "has_key ?n ''reasoning''")
    case True
    then have "\<exists>r. dget ?n ''reasoning'' = Some (PDict r)"
      by (auto simp: normalize_configuration_dict_def Let_def has_key_dget dget_dpop dget_dset
          dget_default_def split: if_splits)
    then obtain r where r: "dget ?n ''reasoning'' = Some (PDict r)" ..
    with True n' show ?thesis
      by (subst normalize_configuration_dict_def)
        (simp add: Let_def dget_default_def dset_same dpop_absent n)
  next
    case False
    with n' show ?thesis
      by (subst normalize_configuration_dict_def)
        (simp add: Let_def has_key_dget dget_default_def dpop_absent n)
  qed
qed

definition raw_shaped :: "pydict option \<Rightarrow> bool" where
  "raw_shaped raw = (case raw of None \<Rightarrow> True | Some d \<Rightarrow> well_shaped d)"

lemma config_levels_shaped:
  assumes "raw_shaped msg" and "raw_shaped ses" and "raw_shaped wsp"
  shows "\<forall>(n, l) \<in> set (config_levels msg ses wsp). well_shaped l"
  using assms normalize_well_shaped
  by (auto simp: config_levels_def raw_shaped_def split: option.splits)

lemma path_get_section: "dget d m = Some (PDict e) \<Longrightarrow> path_get d m f = dget_none e f"
  by (simp add: path_get_def dget_default_def)

lemma path_get_dset:
  "path_get (dset d m (PDict e)) k f = (if k = m then dget_none e f else path_get d k f)"
  by (simp add: path_get_def)

lemma set_instructions_Inr:
  "set_instructions ls m c = Inr c' \<longleftrightarrow>
     (\<exists>e. dget c m = Some (PDict e) \<and>
          c' = dset c m (PDict
            (dset (dset e ''custom_instructions''
                     (opt_str (fst (resolve_custom_instructions ls m (m \<noteq> ''peer_card'')))))
                  ''custom_instructions_source''
                     (opt_str (snd (resolve_custom_instructions ls m (m \<noteq> ''peer_card'')))))))"
  by (auto simp: set_instructions_def split: option.splits pyval.splits prod.splits)

lemma set_instructions_frame:
  assumes "set_instructions ls m c = Inr c'"
  shows "f \<notin> {''custom_instructions'', ''custom_instructions_source''} \<Longrightarrow> path_get c' k f = path_get c k f"
    and "k \<noteq> m \<Longrightarrow> dget c' k = dget c k"
    and "path_get c' m ''custom_instructions''
           = opt_str (fst (resolve_custom_instructions ls m (m \<noteq> ''peer_card'')))"
    and "path_get c' m ''custom_instructions_source''
           = opt_str (snd (resolve_custom_instructions ls m (m \<noteq> ''peer_card'')))"
    and "\<exists>e. dget c' m = Some (PDict e)"
  using assms by (auto simp: set_instructions_Inr path_get_dset path_get_section)

lemma apply_instructions_frame:
  "apply_instructions ls ms c = Inr c' \<Longrightarrow>
   f \<notin> {''custom_instructions'', ''custom_instructions_source''} \<Longrightarrow> path_get c' k f = path_get c k f"
  by (induction ms arbitrary: c) (auto simp: res_simps set_instructions_frame(1))

lemma apply_instructions_untouched:
  "apply_instructions ls ms c = Inr c' \<Longrightarrow> k \<notin> set ms \<Longrightarrow> dget c' k = dget c k"
  by (induction ms arbitrary: c) (auto simp: res_simps set_instructions_frame(2))

lemma apply_instructions_set:
  assumes "apply_instructions ls ms c = Inr c'" and "distinct ms" and "m \<in> set ms"
  shows "path_get c' m ''custom_instructions''
           = opt_str (fst (resolve_custom_instructions ls m (m \<noteq> ''peer_card'')))
       \<and> path_get c' m ''custom_instructions_source''
           = opt_str (snd (resolve_custom_instructions ls m (m \<noteq> ''peer_card'')))
       \<and> (\<exists>e. dget c' m = Some (PDict e))"
  using assms
proof (induction ms arbitrary: c)
  case (Cons x xs)
  then obtain c1 where c1: "set_instructions ls x c = Inr c1" "apply_instructions ls xs c1 = Inr c'"
    by (auto simp: res_simps)
  show ?case
  proof (cases "m = x")
    case True
    then have "dget c' m = dget c1 m"
      using apply_instructions_untouched [OF c1(2)] Cons.prems by simp
    then show ?thesis
      using set_instructions_frame(3-5) [OF c1(1)] True by (simp add: path_get_def dget_default_def)
  next
    case False
    with Cons c1 show ?thesis by simp
  qed
qed simp

lemma apply_instructions_ok:
  "\<forall>m \<in> set ms. \<exists>e. dget c m = Some (PDict e) \<Longrightarrow> \<exists>c'. apply_instructions ls ms c = Inr c'"
proof (induction ms arbitrary: c)
  case (Cons x xs)
  then obtain e where "dget c x = Some (PDict e)" by auto
  then obtain c1 where c1: "set_instructions ls x c = Inr c1"
    by (simp add: set_instructions_Inr)
  have "\<forall>m \<in> set xs. \<exists>e. dget c1 m = Some (PDict e)"
    using Cons.prems set_instructions_frame(2,5) [OF c1] by (metis list.set_intros(2))
  with Cons.IH c1 show ?case by simp
qed simp

lemma require_Inr [res_simps]: "require f d k = Inr x \<longleftrightarrow> (\<exists>v. dget d k = Some v \<and> f v = Some x)"
  by (auto simp: require_def split: option.splits)

lemma as_dict_Some [res_simps]: "as_dict v = Some d \<longleftrightarrow> v = PDict d"
  by (cases v) auto

lemma require_path:
  "require as_dict d m = Inr e \<Longrightarrow> require f e k = Inr x \<Longrightarrow> f (path_get d m k) = Some x"
  by (auto simp: res_simps path_get_def dget_default_def)

lemma optional_str_Inr: "optional_str d k = Inr r \<longleftrightarrow> dget_none d k = opt_str r"
  by (cases "dget_none d k"; cases r) (auto simp: optional_str_def)

lemma budget_keeps: "validate_custom_instructions_budget vd st r = Inr r' \<Longrightarrow> r' = r"
  by (auto simp: validate_custom_instructions_budget_def split: option.splits if_splits)

lemma instructions_of_Inr:
  "instructions_of vd st d = Inr (ci, src) \<Longrightarrow>
   dget_none d ''custom_instructions'' = opt_str ci \<and>
   dget_none d ''custom_instructions_source'' = opt_str src"
  by (auto simp: instructions_of_def res_simps optional_str_Inr dest!: budget_keeps)

lemma opt_str_inject [simp]: "opt_str a = opt_str b \<longleftrightarrow> a = b"
  by (cases a; cases b) auto

lemma opt_str_eq [simp]: "opt_str a = PStr s \<longleftrightarrow> a = Some s" "opt_str a = PNone \<longleftrightarrow> a = None"
  by (cases a; auto)+

lemma no_migration: "dget d ''reasoning'' \<noteq> None \<Longrightarrow> migrate_deriver_to_reasoning d = d"
  by (simp add: migrate_deriver_to_reasoning_def has_key_dget)

lemma budget_error: "validate_custom_instructions_budget vd st r = Inl e \<Longrightarrow> e = PydanticValidationError"
  by (auto simp: validate_custom_instructions_budget_def split: option.splits if_splits)

lemma optional_str_error: "optional_str d k = Inl e \<Longrightarrow> e = PydanticValidationError"
  by (auto simp: optional_str_def split: pyval.splits)

lemma require_error: "require f d k = Inl e \<Longrightarrow> e = PydanticValidationError"
  by (auto simp: require_def split: option.splits)

lemma instructions_of_error: "instructions_of vd st d = Inl e \<Longrightarrow> e = PydanticValidationError"
  by (auto simp: instructions_of_def res_simps dest: budget_error optional_str_error)

lemmas validation_errors = require_error instructions_of_error

lemma model_validate_error: "model_validate vd st d = Inl e \<Longrightarrow> e = PydanticValidationError"
  by (auto simp: model_validate_def Let_def res_simps resolved_reasoning_def resolved_peer_card_def
      resolved_summary_def resolved_dream_def resolved_dialectic_def
      dest: validation_errors split: if_splits)

fun module_instructions :: "resolved_configuration \<Rightarrow> string \<Rightarrow> string option \<times> string option" where
  "module_instructions c m =
     (if m = ''reasoning'' then (rea_instructions (rc_reasoning c), rea_source (rc_reasoning c))
      else if m = ''peer_card'' then (pc_instructions (rc_peer_card c), pc_source (rc_peer_card c))
      else if m = ''summary'' then (sum_instructions (rc_summary c), sum_source (rc_summary c))
      else if m = ''dream'' then (dr_instructions (rc_dream c), dr_source (rc_dream c))
      else (dia_instructions (rc_dialectic c), dia_source (rc_dialectic c)))"

lemma model_validate_parts:
  assumes "model_validate vd st d = Inr c" and "dget d ''reasoning'' \<noteq> None"
  obtains r p s t where "dget d ''reasoning'' = Some (PDict r)" "resolved_reasoning vd st r = Inr (rc_reasoning c)"
    and "dget d ''peer_card'' = Some (PDict p)" "resolved_peer_card vd st p = Inr (rc_peer_card c)"
    and "dget d ''summary'' = Some (PDict s)" "resolved_summary vd st s = Inr (rc_summary c)"
    and "dget d ''dream'' = Some (PDict t)" "resolved_dream vd st t = Inr (rc_dream c)"
    and "\<And>x. dget d ''dialectic'' = Some x \<Longrightarrow>
            \<exists>u. x = PDict u \<and> resolved_dialectic vd st u = Inr (rc_dialectic c)"
proof -
  from assms obtain rea pc sm dr dia where
      1: "res_bind (require as_dict d ''reasoning'') (resolved_reasoning vd st) = Inr rea"
    and 2: "res_bind (require as_dict d ''peer_card'') (resolved_peer_card vd st) = Inr pc"
    and 3: "res_bind (require as_dict d ''summary'') (resolved_summary vd st) = Inr sm"
    and 4: "res_bind (require as_dict d ''dream'') (resolved_dream vd st) = Inr dr"
    and 5: "(if has_key d ''dialectic''
             then res_bind (require as_dict d ''dialectic'') (resolved_dialectic vd st)
             else Inr \<lparr>dia_instructions = None, dia_source = None\<rparr>) = Inr dia"
    and c: "c = \<lparr>rc_reasoning = rea, rc_peer_card = pc, rc_summary = sm, rc_dream = dr,
                 rc_dialectic = dia\<rparr>"
    unfolding model_validate_def Let_def no_migration [OF assms(2)]
    by (simp only: res_bind_Inr sum.inject) blast
  have sec: "res_bind (require as_dict d k) f = Inr x \<Longrightarrow> \<exists>e. dget d k = Some (PDict e) \<and> f e = Inr x"
    for k x and f :: "pydict \<Rightarrow> 'b res"
    by (auto simp: res_simps)
  have "dget d ''dialectic'' = Some x \<Longrightarrow> \<exists>u. x = PDict u \<and> resolved_dialectic vd st u = Inr dia" for x
    using 5 by (auto simp: has_key_dget res_simps)
  with sec [OF 1] sec [OF 2] sec [OF 3] sec [OF 4] show thesis
    using that by (auto simp: c)
qed

lemma resolved_reasoning_Inr:
  "resolved_reasoning vd st d = Inr x \<Longrightarrow>
     lax_bool vd (dget_none d ''enabled'') = Some (rea_enabled x) \<and>
     dget_none d ''custom_instructions'' = opt_str (rea_instructions x) \<and>
     dget_none d ''custom_instructions_source'' = opt_str (rea_source x)"
  by (auto simp: resolved_reasoning_def res_simps dget_default_def dest!: instructions_of_Inr)

lemma resolved_peer_card_Inr:
  "resolved_peer_card vd st d = Inr x \<Longrightarrow>
     lax_bool vd (dget_none d ''use'') = Some (pc_use x) \<and>
     lax_bool vd (dget_none d ''create'') = Some (pc_create x) \<and>
     dget_none d ''custom_instructions'' = opt_str (pc_instructions x) \<and>
     dget_none d ''custom_instructions_source'' = opt_str (pc_source x)"
  by (auto simp: resolved_peer_card_def res_simps dget_default_def dest!: instructions_of_Inr)

lemma resolved_summary_Inr:
  "resolved_summary vd st d = Inr x \<Longrightarrow>
     lax_bool vd (dget_none d ''enabled'') = Some (sum_enabled x) \<and>
     lax_int vd (dget_none d ''messages_per_short_summary'') = Some (sum_short x) \<and>
     lax_int vd (dget_none d ''messages_per_long_summary'') = Some (sum_long x) \<and>
     dget_none d ''custom_instructions'' = opt_str (sum_instructions x) \<and>
     dget_none d ''custom_instructions_source'' = opt_str (sum_source x)"
  by (auto simp: resolved_summary_def res_simps dget_default_def dest!: instructions_of_Inr)

lemma resolved_dream_Inr:
  "resolved_dream vd st d = Inr x \<Longrightarrow>
     lax_bool vd (dget_none d ''enabled'') = Some (dr_enabled x) \<and>
     dget_none d ''custom_instructions'' = opt_str (dr_instructions x) \<and>
     dget_none d ''custom_instructions_source'' = opt_str (dr_source x)"
  by (auto simp: resolved_dream_def res_simps dget_default_def dest!: instructions_of_Inr)

lemma resolved_dialectic_Inr:
  "resolved_dialectic vd st d = Inr x \<Longrightarrow>
     dget_none d ''custom_instructions'' = opt_str (dia_instructions x) \<and>
     dget_none d ''custom_instructions_source'' = opt_str (dia_source x)"
  by (auto simp: resolved_dialectic_def res_simps dest!: instructions_of_Inr)

lemmas resolved_Inr = resolved_reasoning_Inr resolved_peer_card_Inr resolved_summary_Inr
  resolved_dream_Inr resolved_dialectic_Inr

lemma model_validate_fields:
  assumes "model_validate vd st d = Inr c" and "dget d ''reasoning'' \<noteq> None"
  shows "lax_bool vd (path_get d ''reasoning'' ''enabled'') = Some (rea_enabled (rc_reasoning c))
     \<and> lax_bool vd (path_get d ''peer_card'' ''use'') = Some (pc_use (rc_peer_card c))
     \<and> lax_bool vd (path_get d ''peer_card'' ''create'') = Some (pc_create (rc_peer_card c))
     \<and> lax_bool vd (path_get d ''summary'' ''enabled'') = Some (sum_enabled (rc_summary c))
     \<and> lax_int vd (path_get d ''summary'' ''messages_per_short_summary'') = Some (sum_short (rc_summary c))
     \<and> lax_int vd (path_get d ''summary'' ''messages_per_long_summary'') = Some (sum_long (rc_summary c))
     \<and> lax_bool vd (path_get d ''dream'' ''enabled'') = Some (dr_enabled (rc_dream c))"
proof (rule model_validate_parts [OF assms], goal_cases)
  case (1 r p s t)
  show ?case
    unfolding path_get_section [OF 1(1)] path_get_section [OF 1(3)] path_get_section [OF 1(5)]
      path_get_section [OF 1(7)]
    using resolved_reasoning_Inr [OF 1(2)] resolved_peer_card_Inr [OF 1(4)]
      resolved_summary_Inr [OF 1(6)] resolved_dream_Inr [OF 1(8)]
    by (intro conjI) (elim conjE, assumption)+
qed

lemma model_validate_instructions:
  assumes "model_validate vd st d = Inr c" and "dget d ''reasoning'' \<noteq> None"
    and "dget d ''dialectic'' \<noteq> None" and "m \<in> set instruction_modules"
  shows "path_get d m ''custom_instructions'' = opt_str (fst (module_instructions c m))
       \<and> path_get d m ''custom_instructions_source'' = opt_str (snd (module_instructions c m))"
proof (rule model_validate_parts [OF assms(1,2)], goal_cases)
  case (1 r p s t)
  from assms(3) obtain x where x: "dget d ''dialectic'' = Some x" by blast
  from 1(9) [OF x] x obtain u where u: "dget d ''dialectic'' = Some (PDict u)"
      "resolved_dialectic vd st u = Inr (rc_dialectic c)" by blast
  note parts = resolved_reasoning_Inr [OF 1(2)] resolved_peer_card_Inr [OF 1(4)]
    resolved_summary_Inr [OF 1(6)] resolved_dream_Inr [OF 1(8)] resolved_dialectic_Inr [OF u(2)]
  have "m = ''reasoning'' \<or> m = ''summary'' \<or> m = ''dialectic'' \<or> m = ''dream'' \<or> m = ''peer_card''"
    using assms(4) by (simp add: instruction_modules_def)
  then show ?case
    by (elim disjE) (simp_all only: path_get_section [OF 1(1)] path_get_section [OF 1(3)]
      path_get_section [OF 1(5)] path_get_section [OF 1(7)] path_get_section [OF u(1)] parts
      module_instructions.simps fst_conv snd_conv refl if_True, simp_all)
qed

lemma get_configuration_parts:
  assumes "get_configuration vd st msg ses wsp = Inr c"
  shows "\<exists>d. apply_instructions (config_levels msg ses wsp) instruction_modules
                 (merged_config st (config_levels msg ses wsp)) = Inr d
           \<and> model_validate vd st d = Inr c \<and> (\<forall>m \<in> set instruction_modules. dget d m \<noteq> None)"
proof -
  let ?ls = "config_levels msg ses wsp"
  from assms obtain d where d: "apply_instructions ?ls instruction_modules (merged_config st ?ls) = Inr d"
    and v: "model_validate vd st d = Inr c"
    by (auto simp: get_configuration_def Let_def res_simps)
  have "distinct instruction_modules" by (simp add: instruction_modules_def)
  note set = apply_instructions_set [OF d this]
  have "dget d m \<noteq> None" if "m \<in> set instruction_modules" for m
    using set [OF that] by auto
  with d v show ?thesis by blast
qed

definition effective :: "settings \<Rightarrow> (string \<times> pydict) list \<Rightarrow> string \<Rightarrow> string \<Rightarrow> pyval" where
  "effective st levels m f =
     first_set (map (\<lambda>(n, l). path_get l m f) levels @ [path_get (default_config st) m f])"

section \<open>Properties\<close>

text \<open>What one level says about a module's instructions, with where it says so, and the first level that says a
  string.\<close>

definition stated_instructions :: "string \<Rightarrow> string \<times> pydict \<Rightarrow> pyval \<times> string" where
  "stated_instructions m lvl =
     (let (level_name, level) = lvl; value = path_get level m ''custom_instructions''
      in if value \<noteq> PNone \<or> m = ''peer_card'' then (value, level_name @ ''.'' @ m)
         else (dget_none level ''custom_instructions'', level_name @ ''.shared''))"

definition effective_instructions :: "(string \<times> pydict) list \<Rightarrow> string \<Rightarrow> string option \<times> string option" where
  "effective_instructions levels m =
     (case filter (\<lambda>(v, src). as_str v \<noteq> None) (map (stated_instructions m) levels) of
        [] \<Rightarrow> (None, None)
      | (v, src) # _ \<Rightarrow> (let text = py_strip (the (as_str v)) in (if text = [] then None else Some text, Some src)))"

lemma resolve_effective:
  "resolve_custom_instructions levels m (m \<noteq> ''peer_card'') = effective_instructions levels m"
proof (induction levels)
  case (Cons lvl levels)
  have "resolve_level lvl m (m \<noteq> ''peer_card'') = stated_instructions m lvl"
    by (auto simp: resolve_level_def stated_instructions_def path_get_def Let_def split: prod.split)
  with Cons.IH show ?case
    by (auto simp: effective_instructions_def Let_def split: prod.splits pyval.splits)
qed (simp add: effective_instructions_def)

text \<open>C6. Precedence of configuration levels: whenever resolution succeeds, each of the seven switches and numbers
  is the value of the most specific of message, session and workspace configuration (after legacy keys are
  normalized) that sets it, and the deployment's default when none does; a \<open>None\<close> never overrides. The
  instructions of each of the five modules, with the source recorded for them, are those of the most specific
  level that states a string for the module, its own or (but for the peer card) the level's shared one: stripped,
  and none when blank.\<close>

theorem configuration_precedence:
  assumes "get_configuration vd st msg ses wsp = Inr c"
    and "raw_shaped msg" and "raw_shaped ses" and "raw_shaped wsp"
  defines "eff \<equiv> effective st (config_levels msg ses wsp)"
  shows "lax_bool vd (eff ''reasoning'' ''enabled'') = Some (rea_enabled (rc_reasoning c))
       \<and> lax_bool vd (eff ''peer_card'' ''use'') = Some (pc_use (rc_peer_card c))
       \<and> lax_bool vd (eff ''peer_card'' ''create'') = Some (pc_create (rc_peer_card c))
       \<and> lax_bool vd (eff ''summary'' ''enabled'') = Some (sum_enabled (rc_summary c))
       \<and> lax_int vd (eff ''summary'' ''messages_per_short_summary'') = Some (sum_short (rc_summary c))
       \<and> lax_int vd (eff ''summary'' ''messages_per_long_summary'') = Some (sum_long (rc_summary c))
       \<and> lax_bool vd (eff ''dream'' ''enabled'') = Some (dr_enabled (rc_dream c))
       \<and> effective_instructions (config_levels msg ses wsp) ''reasoning''
           = (rea_instructions (rc_reasoning c), rea_source (rc_reasoning c))
       \<and> effective_instructions (config_levels msg ses wsp) ''peer_card''
           = (pc_instructions (rc_peer_card c), pc_source (rc_peer_card c))
       \<and> effective_instructions (config_levels msg ses wsp) ''summary''
           = (sum_instructions (rc_summary c), sum_source (rc_summary c))
       \<and> effective_instructions (config_levels msg ses wsp) ''dream''
           = (dr_instructions (rc_dream c), dr_source (rc_dream c))
       \<and> effective_instructions (config_levels msg ses wsp) ''dialectic''
           = (dia_instructions (rc_dialectic c), dia_source (rc_dialectic c))"
proof -
  from assms(1) obtain d where d: "apply_instructions (config_levels msg ses wsp) instruction_modules
      (merged_config st (config_levels msg ses wsp)) = Inr d" and v: "model_validate vd st d = Inr c"
    and n: "\<forall>m \<in> set instruction_modules. dget d m \<noteq> None"
    using get_configuration_parts by blast
  have e: "path_get d m f = eff m f"
    if "m \<in> set instruction_modules" "f \<notin> {''custom_instructions'', ''custom_instructions_source''}" for m f
    using apply_instructions_frame [OF d that(2)] that(1)
      merged_config_section [OF config_levels_shaped [OF assms(2-4)] that(1)]
    by (simp add: eff_def effective_def)
  have r: "dget d ''reasoning'' \<noteq> None" "dget d ''dialectic'' \<noteq> None" using n by (simp_all add: instruction_modules_def)
  have i: "effective_instructions (config_levels msg ses wsp) m = module_instructions c m"
    if "m \<in> set instruction_modules" for m
  proof -
    have "distinct instruction_modules" by (simp add: instruction_modules_def)
    from apply_instructions_set [OF d this that] model_validate_instructions [OF v r that] show ?thesis
      by (simp add: resolve_effective prod_eq_iff del: module_instructions.simps)
  qed
  from model_validate_fields [OF v r(1)] show ?thesis
    by (simp add: e i instruction_modules_def)
qed

definition example_validators :: validators where
  "example_validators =
     \<lparr>lax_bool = (\<lambda>v. case v of PBool b \<Rightarrow> Some b | _ \<Rightarrow> None),
      lax_int = (\<lambda>v. case v of PInt n \<Rightarrow> Some n | _ \<Rightarrow> None),
      estimate_tokens = (\<lambda>s. int (length s))\<rparr>"

definition example_settings :: settings where
  "example_settings =
     \<lparr>DERIVER_ENABLED = True, PEER_CARD_ENABLED = True, SUMMARY_ENABLED = True,
      MESSAGES_PER_SHORT_SUMMARY = 20, MESSAGES_PER_LONG_SUMMARY = 60, DREAM_ENABLED = True,
      MAX_CUSTOM_INSTRUCTIONS_TOKENS = 100\<rparr>"

abbreviation example_session :: pydict where
  "example_session \<equiv> [(''custom_instructions'', PStr ''be brief''),
     (''summary'', PDict [(''enabled'', PBool False)])]"

abbreviation example_workspace :: pydict where
  "example_workspace \<equiv> [(''deriver'', PDict [(''enabled'', PBool False)]),
     (''summary'', PDict [(''enabled'', PBool True), (''custom_instructions'', PStr ''be long'')])]"

lemmas config_eval = get_configuration_def config_levels_def normalize_configuration_dict_def
  merged_config_def default_config_def instruction_modules_def set_instructions_def
  resolve_level_def model_validate_def migrate_deriver_to_reasoning_def require_def
  resolved_reasoning_def resolved_peer_card_def resolved_summary_def resolved_dream_def
  resolved_dialectic_def instructions_of_def optional_str_def validate_custom_instructions_budget_def
  example_validators_def example_settings_def

lemma example_configuration:
  "is_ok (get_configuration example_validators example_settings None (Some example_session)
         (Some example_workspace))"
  by code_simp

lemma example_shaped:
  "raw_shaped None" "raw_shaped (Some example_session)" "raw_shaped (Some example_workspace)"
  by (simp_all add: raw_shaped_def well_shaped_def instruction_modules_def)

theorem configuration_precedence_witness:
  "\<exists>c. get_configuration example_validators example_settings None (Some example_session)
         (Some example_workspace) = Inr c
     \<and> \<not> sum_enabled (rc_summary c) \<and> \<not> rea_enabled (rc_reasoning c) \<and> dr_enabled (rc_dream c)
     \<and> sum_instructions (rc_summary c) = Some ''be brief'' \<and> pc_instructions (rc_peer_card c) = None"
proof -
  from example_configuration obtain c where c: "get_configuration example_validators example_settings None
      (Some example_session) (Some example_workspace) = Inr c"
    unfolding is_ok_iff by blast
  have e: "effective example_settings (config_levels None (Some example_session) (Some example_workspace))
             ''summary'' ''enabled'' = PBool False"
    "effective example_settings (config_levels None (Some example_session) (Some example_workspace))
             ''reasoning'' ''enabled'' = PBool False"
    "effective example_settings (config_levels None (Some example_session) (Some example_workspace))
             ''dream'' ''enabled'' = PBool True"
    by code_simp+
  have b: "lax_bool example_validators (PBool x) = Some x" for x
    by (simp add: example_validators_def)
  have "effective_instructions (config_levels None (Some example_session) (Some example_workspace)) ''summary''
      = (Some ''be brief'', Some ''session.shared'')"
    "effective_instructions (config_levels None (Some example_session) (Some example_workspace)) ''peer_card'' = (None, None)"
    by code_simp+
  then have "\<not> sum_enabled (rc_summary c) \<and> \<not> rea_enabled (rc_reasoning c) \<and> dr_enabled (rc_dream c)
      \<and> sum_instructions (rc_summary c) = Some ''be brief'' \<and> pc_instructions (rc_peer_card c) = None"
    using configuration_precedence [OF c example_shaped] by (simp add: e b)
  with c show ?thesis by blast
qed

text \<open>Custom instructions: if no level before \<open>lvl\<close> (in the order message, session,
  workspace) sets an instruction string for a module and \<open>lvl\<close> does, then \<open>lvl\<close>'s string, stripped,
  is the module's instructions whatever the less specific levels say, a blank string being an
  explicit none; a level's shared string counts for every module but the peer card.\<close>

theorem custom_instructions_most_specific_level:
  assumes "get_configuration vd st msg ses wsp = Inr c"
    and "config_levels msg ses wsp = before @ lvl # after"
    and "m \<in> set instruction_modules"
    and "\<forall>l \<in> set before. as_str (fst (resolve_level l m (m \<noteq> ''peer_card''))) = None"
    and "resolve_level lvl m (m \<noteq> ''peer_card'') = (PStr v, src)"
  shows "module_instructions c m =
           (if py_strip v = [] then None else Some (py_strip v), Some src)"
proof -
  from get_configuration_parts [OF assms(1)] obtain d where
      d: "apply_instructions (config_levels msg ses wsp) instruction_modules
            (merged_config st (config_levels msg ses wsp)) = Inr d"
    and v: "model_validate vd st d = Inr c" and n: "\<forall>m \<in> set instruction_modules. dget d m \<noteq> None"
    by blast
  have "resolve_custom_instructions (before @ lvl # after) m (m \<noteq> ''peer_card'') =
          (if py_strip v = [] then None else Some (py_strip v), Some src)"
    using assms(4,5) by (induction before) (auto split: prod.splits pyval.splits)
  moreover have "distinct instruction_modules" by (simp add: instruction_modules_def)
  note apply_instructions_set [OF d this assms(3)]
  moreover have "dget d ''reasoning'' \<noteq> None" "dget d ''dialectic'' \<noteq> None"
    using n by (auto simp: instruction_modules_def)
  note model_validate_instructions [OF v this assms(3)]
  ultimately show ?thesis by (simp add: assms(2) prod_eq_iff del: module_instructions.simps)
qed

theorem custom_instructions_most_specific_level_witness:
  "\<exists>c. get_configuration example_validators example_settings None (Some example_session)
         (Some example_workspace) = Inr c
     \<and> module_instructions c ''summary'' = (Some ''be brief'', Some ''session.shared'')"
proof -
  let ?ses = "(''session'', normalize_configuration_dict example_session)"
  let ?wsp = "(''workspace'', normalize_configuration_dict example_workspace)"
  from example_configuration obtain c where c: "get_configuration example_validators example_settings None
      (Some example_session) (Some example_workspace) = Inr c"
    unfolding is_ok_iff by blast
  have l: "config_levels None (Some example_session) (Some example_workspace) = [] @ ?ses # [?wsp]"
    by (simp add: config_levels_def)
  have m: "''summary'' \<in> set instruction_modules" by (simp add: instruction_modules_def)
  have r: "resolve_level ?ses ''summary'' (''summary'' \<noteq> ''peer_card'') = (PStr ''be brief'', ''session.shared'')"
    by code_simp
  have s: "py_strip ''be brief'' = ''be brief''" by code_simp
  from custom_instructions_most_specific_level [OF c l m _ r] c s show ?thesis by auto
qed

text \<open>Legacy keys: normalization keeps an explicit \<open>reasoning.enabled\<close>; without one,
  \<open>skip_deriver: true\<close> turns reasoning off and otherwise \<open>deriver.enabled\<close> decides; the legacy keys
  are gone, all other keys keep their values, and normalizing twice changes nothing.\<close>

theorem normalize_configuration_legacy:
  "path_get (normalize_configuration_dict d) ''reasoning'' ''enabled'' =
     (if path_get d ''reasoning'' ''enabled'' \<noteq> PNone then path_get d ''reasoning'' ''enabled''
      else if dget_none d ''skip_deriver'' = PBool True then PBool False
      else if path_get d ''deriver'' ''enabled'' \<noteq> PNone
      then PBool (truthy (path_get d ''deriver'' ''enabled'')) else PNone)
   \<and> \<not> has_key (normalize_configuration_dict d) ''deriver''
   \<and> \<not> has_key (normalize_configuration_dict d) ''skip_deriver''
   \<and> (\<forall>k. k \<in> {''reasoning'', ''deriver'', ''skip_deriver''}
          \<or> dget (normalize_configuration_dict d) k = dget d k)
   \<and> normalize_configuration_dict (normalize_configuration_dict d) = normalize_configuration_dict d"
  using normalize_reasoning_enabled normalize_no_legacy normalize_dget_other normalize_idem by blast

text \<open>Errors of resolution: for configurations whose sections are dictionaries of scalars, the
  only exception \<open>get_configuration\<close> can raise is pydantic's validation error; it never fails while
  merging levels or writing the resolved instructions.\<close>

theorem get_configuration_error:
  assumes "raw_shaped msg" and "raw_shaped ses" and "raw_shaped wsp"
    and "get_configuration vd st msg ses wsp = Inl e"
  shows "e = PydanticValidationError"
proof -
  let ?ls = "config_levels msg ses wsp"
  have "\<forall>m \<in> set instruction_modules. \<exists>x. dget (merged_config st ?ls) m = Some (PDict x)"
    using merged_config_section [OF config_levels_shaped [OF assms(1-3)]] by blast
  from apply_instructions_ok [OF this] obtain d where
    "apply_instructions ?ls instruction_modules (merged_config st ?ls) = Inr d" by blast
  with assms(4) have "model_validate vd st d = Inl e"
    by (simp add: get_configuration_def)
  then show ?thesis by (rule model_validate_error)
qed

theorem get_configuration_error_witness:
  "get_configuration example_validators (example_settings\<lparr>MAX_CUSTOM_INSTRUCTIONS_TOKENS := 0\<rparr>)
     None (Some example_session) (Some example_workspace) = Inl PydanticValidationError"
proof -
  have "\<not> is_ok (get_configuration example_validators (example_settings\<lparr>MAX_CUSTOM_INSTRUCTIONS_TOKENS := 0\<rparr>)
     None (Some example_session) (Some example_workspace))"
    by code_simp
  then obtain e where e: "get_configuration example_validators
      (example_settings\<lparr>MAX_CUSTOM_INSTRUCTIONS_TOKENS := 0\<rparr>)
      None (Some example_session) (Some example_workspace) = Inl e"
    by (metis is_ok.elims(3))
  from get_configuration_error [OF example_shaped this] e show ?thesis by simp
qed

end
