(* ===== verification/Lifecycle.thy ===== *)
theory Lifecycle
  imports Prelude
begin

text \<open>
  The tables that hold workspaces, peers, sessions, messages and memberships (src/src/models.py,
  the columns the modelled code reads) and the deletion lifecycle filters over them
  (src/src/crud/lifecycle.py). A table is a list of rows; a clause is a predicate on rows of a
  database state. The lemmas relate the self-contained EXISTS of an identity to the row-wise
  filter of its row.
\<close>

section \<open>Rows\<close>

record workspace_row =
  ws_id :: string
  ws_name :: string
  ws_configuration :: pydict
  ws_deleted_at :: "int option"

record peer_row =
  pe_id :: string
  pe_name :: string
  pe_workspace :: string
  pe_internal_metadata :: pydict
  pe_configuration :: pydict
  pe_deleted_at :: "int option"

record session_row =
  se_id :: string
  se_name :: string
  se_workspace :: string
  se_configuration :: pydict
  se_deleted_at :: "int option"

record message_row =
  ms_id :: int
  ms_public_id :: string
  ms_session :: string
  ms_peer :: string
  ms_workspace :: string
  ms_content :: string
  ms_token_count :: int
  ms_seq :: int
  ms_deleted_at :: "int option"

record session_peer_row =
  sp_workspace :: string
  sp_session :: string
  sp_peer :: string
  sp_configuration :: pydict
  sp_left_at :: "int option"

record tables =
  t_workspaces :: "workspace_row list"
  t_peers :: "peer_row list"
  t_sessions :: "session_row list"
  t_messages :: "message_row list"
  t_session_peers :: "session_peer_row list"

section \<open>Row-wise liveness\<close>

definition workspace_live :: "tables \<Rightarrow> string \<Rightarrow> bool" where
  "workspace_live db workspace_name =
     list_ex (\<lambda>w. ws_name w = workspace_name \<and> ws_deleted_at w = None) (t_workspaces db)"

definition peer_live :: "tables \<Rightarrow> string \<Rightarrow> string \<Rightarrow> bool" where
  "peer_live db workspace_name peer_name =
     list_ex (\<lambda>p. pe_workspace p = workspace_name \<and> pe_name p = peer_name \<and> pe_deleted_at p = None)
       (t_peers db)"

definition session_live :: "tables \<Rightarrow> string \<Rightarrow> string \<Rightarrow> bool" where
  "session_live db workspace_name session_name =
     list_ex (\<lambda>s. se_workspace s = workspace_name \<and> se_name s = session_name \<and> se_deleted_at s = None)
       (t_sessions db)"

definition live_workspace_row :: "workspace_row \<Rightarrow> bool" where
  "live_workspace_row w = (ws_deleted_at w = None)"

definition live_peer_row :: "tables \<Rightarrow> peer_row \<Rightarrow> bool" where
  "live_peer_row db p = (pe_deleted_at p = None \<and> workspace_live db (pe_workspace p))"

definition live_session_row :: "tables \<Rightarrow> session_row \<Rightarrow> bool" where
  "live_session_row db s = (se_deleted_at s = None \<and> workspace_live db (se_workspace s))"

definition live_message_row :: "tables \<Rightarrow> message_row \<Rightarrow> bool" where
  "live_message_row db m =
     (ms_deleted_at m = None \<and> workspace_live db (ms_workspace m)
      \<and> session_live db (ms_workspace m) (ms_session m) \<and> peer_live db (ms_workspace m) (ms_peer m))"

definition live_session_peer_row :: "tables \<Rightarrow> session_peer_row \<Rightarrow> bool" where
  "live_session_peer_row db sp =
     (workspace_live db (sp_workspace sp) \<and> session_live db (sp_workspace sp) (sp_session sp)
      \<and> peer_live db (sp_workspace sp) (sp_peer sp))"

section \<open>Liveness of one identity\<close>

datatype primitive_kind = WorkspaceKind | PeerKind | SessionKind | MessageKind

record primitive_identity =
  id_kind :: primitive_kind
  id_workspace_uid :: string
  id_uid :: string

definition make_identity :: "primitive_kind \<Rightarrow> string \<Rightarrow> string \<Rightarrow> primitive_identity res" where
  "make_identity kind workspace_uid uid =
     (if kind = WorkspaceKind \<and> uid \<noteq> workspace_uid then Inl ValueError
      else Inr \<lparr>id_kind = kind, id_workspace_uid = workspace_uid, id_uid = uid\<rparr>)"

definition primitive_liveness_clause :: "tables \<Rightarrow> primitive_identity \<Rightarrow> bool" where
  "primitive_liveness_clause db i =
     list_ex (\<lambda>w. ws_id w = id_workspace_uid i \<and> ws_deleted_at w = None \<and>
       (case id_kind i of
          WorkspaceKind \<Rightarrow> True
        | PeerKind \<Rightarrow>
            list_ex (\<lambda>p. pe_workspace p = ws_name w \<and> pe_id p = id_uid i \<and> pe_deleted_at p = None)
              (t_peers db)
        | SessionKind \<Rightarrow>
            list_ex (\<lambda>s. se_workspace s = ws_name w \<and> se_id s = id_uid i \<and> se_deleted_at s = None)
              (t_sessions db)
        | MessageKind \<Rightarrow>
            list_ex (\<lambda>m. ms_workspace m = ws_name w
                \<and> list_ex (\<lambda>s. se_workspace s = ms_workspace m \<and> se_name s = ms_session m
                              \<and> se_deleted_at s = None) (t_sessions db)
                \<and> list_ex (\<lambda>p. pe_workspace p = ms_workspace m \<and> pe_name p = ms_peer m
                              \<and> pe_deleted_at p = None) (t_peers db)
                \<and> ms_public_id m = id_uid i \<and> ms_deleted_at m = None)
              (t_messages db)))
       (t_workspaces db)"

section \<open>Lemmas\<close>

text \<open>The unique keys of the schema (the nanoid keys and the names within a workspace).\<close>

definition keys_unique :: "tables \<Rightarrow> bool" where
  "keys_unique db =
     (distinct (map ws_id (t_workspaces db)) \<and> distinct (map ws_name (t_workspaces db))
      \<and> distinct (map pe_id (t_peers db)) \<and> distinct (map se_id (t_sessions db))
      \<and> distinct (map ms_public_id (t_messages db)))"

lemma distinct_map_eq:
  "distinct (map f xs) \<Longrightarrow> x \<in> set xs \<Longrightarrow> y \<in> set xs \<Longrightarrow> f x = f y \<Longrightarrow> x = y"
  by (metis distinct_map inj_onD)

lemma unique_workspace:
  assumes "keys_unique db" "w \<in> set (t_workspaces db)" "w' \<in> set (t_workspaces db)"
  shows "ws_id w = ws_id w' \<longleftrightarrow> w = w'" and "ws_name w = ws_name w' \<longleftrightarrow> w = w'"
  using assms distinct_map_eq [of ws_id] distinct_map_eq [of ws_name]
  by (auto simp: keys_unique_def)

lemma unique_peer:
  "keys_unique db \<Longrightarrow> p \<in> set (t_peers db) \<Longrightarrow> p' \<in> set (t_peers db) \<Longrightarrow> pe_id p = pe_id p' \<longleftrightarrow> p = p'"
  using distinct_map_eq [of pe_id] by (auto simp: keys_unique_def)

lemma unique_session:
  "keys_unique db \<Longrightarrow> p \<in> set (t_sessions db) \<Longrightarrow> p' \<in> set (t_sessions db) \<Longrightarrow> se_id p = se_id p' \<longleftrightarrow> p = p'"
  using distinct_map_eq [of se_id] by (auto simp: keys_unique_def)

lemma unique_message:
  "keys_unique db \<Longrightarrow> p \<in> set (t_messages db) \<Longrightarrow> p' \<in> set (t_messages db) \<Longrightarrow>
   ms_public_id p = ms_public_id p' \<longleftrightarrow> p = p'"
  using distinct_map_eq [of ms_public_id] by (auto simp: keys_unique_def)

lemma workspace_live_row:
  "keys_unique db \<Longrightarrow> w \<in> set (t_workspaces db) \<Longrightarrow> workspace_live db (ws_name w) = live_workspace_row w"
  by (auto simp: workspace_live_def list_ex_iff live_workspace_row_def unique_workspace(2))

text \<open>The rows of a workspace, and the identity of a row.\<close>

datatype primitive_row = PeerRow peer_row | SessionRow session_row | MessageRow message_row

fun row_identity :: "string \<Rightarrow> primitive_row \<Rightarrow> primitive_identity res" where
  "row_identity wuid (PeerRow p) = make_identity PeerKind wuid (pe_id p)"
| "row_identity wuid (SessionRow s) = make_identity SessionKind wuid (se_id s)"
| "row_identity wuid (MessageRow m) = make_identity MessageKind wuid (ms_public_id m)"

fun row_workspace :: "primitive_row \<Rightarrow> string" where
  "row_workspace (PeerRow p) = pe_workspace p"
| "row_workspace (SessionRow s) = se_workspace s"
| "row_workspace (MessageRow m) = ms_workspace m"

fun row_in :: "tables \<Rightarrow> primitive_row \<Rightarrow> bool" where
  "row_in db (PeerRow p) = (p \<in> set (t_peers db))"
| "row_in db (SessionRow s) = (s \<in> set (t_sessions db))"
| "row_in db (MessageRow m) = (m \<in> set (t_messages db))"

fun live_row :: "tables \<Rightarrow> primitive_row \<Rightarrow> bool" where
  "live_row db (PeerRow p) = live_peer_row db p"
| "live_row db (SessionRow s) = live_session_row db s"
| "live_row db (MessageRow m) = live_message_row db m"

lemma liveness_in_workspace:
  assumes "keys_unique db" and "w \<in> set (t_workspaces db)" and "id_workspace_uid i = ws_id w"
  shows "primitive_liveness_clause db i =
     (ws_deleted_at w = None \<and>
       (case id_kind i of
          WorkspaceKind \<Rightarrow> True
        | PeerKind \<Rightarrow>
            (\<exists>p \<in> set (t_peers db). pe_workspace p = ws_name w \<and> pe_id p = id_uid i \<and> pe_deleted_at p = None)
        | SessionKind \<Rightarrow>
            (\<exists>s \<in> set (t_sessions db). se_workspace s = ws_name w \<and> se_id s = id_uid i \<and> se_deleted_at s = None)
        | MessageKind \<Rightarrow>
            (\<exists>m \<in> set (t_messages db). ms_workspace m = ws_name w
               \<and> session_live db (ms_workspace m) (ms_session m) \<and> peer_live db (ms_workspace m) (ms_peer m)
               \<and> ms_public_id m = id_uid i \<and> ms_deleted_at m = None)))"
  using assms unique_workspace(1) [OF assms(1)]
  by (cases "id_kind i") (auto simp: primitive_liveness_clause_def list_ex_iff session_live_def peer_live_def)

section \<open>Properties\<close>

text \<open>The two liveness checks agree: for a stored peer, session or message and the workspace
  it names, the self-contained EXISTS over its stable identity holds exactly when the row-wise
  filter keeps the row, under the schema's unique keys.\<close>

theorem liveness_clause_agrees_with_row_filter:
  assumes "keys_unique db" and "row_in db r" and "w \<in> set (t_workspaces db)"
    and "ws_name w = row_workspace r" and "row_identity (ws_id w) r = Inr i"
  shows "primitive_liveness_clause db i = live_row db r"
proof (cases r)
  case (PeerRow p)
  with assms have i: "i = \<lparr>id_kind = PeerKind, id_workspace_uid = ws_id w, id_uid = pe_id p\<rparr>"
    by (simp add: make_identity_def)
  show ?thesis
    using assms PeerRow unique_peer [OF assms(1)] workspace_live_row [OF assms(1,3)]
    by (subst liveness_in_workspace [OF assms(1,3)])
      (auto simp: i live_peer_row_def live_workspace_row_def)
next
  case (SessionRow s)
  with assms have i: "i = \<lparr>id_kind = SessionKind, id_workspace_uid = ws_id w, id_uid = se_id s\<rparr>"
    by (simp add: make_identity_def)
  show ?thesis
    using assms SessionRow unique_session [OF assms(1)] workspace_live_row [OF assms(1,3)]
    by (subst liveness_in_workspace [OF assms(1,3)])
      (auto simp: i live_session_row_def live_workspace_row_def)
next
  case (MessageRow m)
  with assms have i: "i = \<lparr>id_kind = MessageKind, id_workspace_uid = ws_id w, id_uid = ms_public_id m\<rparr>"
    by (simp add: make_identity_def)
  show ?thesis
    using assms MessageRow unique_message [OF assms(1)] workspace_live_row [OF assms(1,3)]
    by (subst liveness_in_workspace [OF assms(1,3)])
      (auto simp: i live_message_row_def live_workspace_row_def)
qed

definition example_tables :: tables where
  "example_tables =
     \<lparr>t_workspaces = [\<lparr>ws_id = ''W1'', ws_name = ''w'', ws_configuration = [], ws_deleted_at = None\<rparr>],
      t_peers = [\<lparr>pe_id = ''P1'', pe_name = ''alice'', pe_workspace = ''w'', pe_internal_metadata = [],
                  pe_configuration = [], pe_deleted_at = None\<rparr>,
                 \<lparr>pe_id = ''P2'', pe_name = ''scope.work'', pe_workspace = ''w'',
                  pe_internal_metadata = [(''kind'', PStr ''scope'')],
                  pe_configuration = [], pe_deleted_at = None\<rparr>],
      t_sessions = [\<lparr>se_id = ''S1'', se_name = ''s'', se_workspace = ''w'', se_configuration = [],
                     se_deleted_at = Some 7\<rparr>,
                    \<lparr>se_id = ''S2'', se_name = ''open'', se_workspace = ''w'', se_configuration = [],
                     se_deleted_at = None\<rparr>],
      t_messages = [\<lparr>ms_id = 1, ms_public_id = ''M1'', ms_session = ''s'', ms_peer = ''alice'',
                     ms_workspace = ''w'', ms_content = ''hi'', ms_token_count = 1, ms_seq = 1,
                     ms_deleted_at = None\<rparr>],
      t_session_peers = [\<lparr>sp_workspace = ''w'', sp_session = ''open'', sp_peer = ''alice'',
                          sp_configuration = [], sp_left_at = None\<rparr>,
                         \<lparr>sp_workspace = ''w'', sp_session = ''open'', sp_peer = ''scope.work'',
                          sp_configuration = [], sp_left_at = None\<rparr>]\<rparr>"

theorem liveness_clause_agrees_with_row_filter_witness:
  "primitive_liveness_clause example_tables
     \<lparr>id_kind = MessageKind, id_workspace_uid = ''W1'', id_uid = ''M1''\<rparr>
   = live_row example_tables (MessageRow (hd (t_messages example_tables)))
   \<and> \<not> live_row example_tables (MessageRow (hd (t_messages example_tables)))"
proof -
  let ?m = "hd (t_messages example_tables)" and ?w = "hd (t_workspaces example_tables)"
  have k: "keys_unique example_tables" by (simp add: keys_unique_def example_tables_def)
  have r: "row_in example_tables (MessageRow ?m)" by (simp add: example_tables_def)
  have w: "?w \<in> set (t_workspaces example_tables)" by (simp add: example_tables_def)
  have n: "ws_name ?w = row_workspace (MessageRow ?m)" by (simp add: example_tables_def)
  have i: "row_identity (ws_id ?w) (MessageRow ?m) =
             Inr \<lparr>id_kind = MessageKind, id_workspace_uid = ''W1'', id_uid = ''M1''\<rparr>"
    by (simp add: example_tables_def make_identity_def)
  have "\<not> live_row example_tables (MessageRow ?m)" by code_simp
  with liveness_clause_agrees_with_row_filter [OF k r w n i] show ?thesis by blast
qed

end
