(* ===== verification/Security.thy ===== *)
theory Security
  imports Lifecycle
begin

text \<open>
  Keys and route authorization (src/src/security.py), the scope namespace (src/src/utils/scopes.py),
  the membership and scope lookups authorization makes (src/src/crud/session.py,
  src/src/crud/scope.py), the scope name rule (src/src/schemas/api.py) and the key endpoint
  (src/src/routers/keys.py). PyJWT's \<open>encode\<close> and \<open>decode\<close> are fields of the environment
  \<open>auth_env\<close>; claims keep the JSON type the token carries. Database reads are functions of the
  table state.
\<close>

section \<open>The scope namespace\<close>

definition SCOPE_PEER_PREFIX :: string where
  "SCOPE_PEER_PREFIX = ''scope.''"

definition scope_peer_name :: "string \<Rightarrow> string" where
  "scope_peer_name scope_name = SCOPE_PEER_PREFIX @ scope_name"

definition is_scope_peer_name :: "string \<Rightarrow> bool" where
  "is_scope_peer_name name = starts_with SCOPE_PEER_PREFIX name"

definition scope_name_from_peer :: "string \<Rightarrow> string res" where
  "scope_name_from_peer peer_name =
     (if \<not> is_scope_peer_name peer_name then Inl ValueError
      else Inr (drop (length SCOPE_PEER_PREFIX) peer_name))"

definition is_scope_peer :: "string \<Rightarrow> pydict option \<Rightarrow> bool" where
  "is_scope_peer name internal_metadata =
     (is_scope_peer_name name \<and>
      (case internal_metadata of
         None \<Rightarrow> False
       | Some d \<Rightarrow> d \<noteq> [] \<and> dget d ''kind'' = Some (PStr ''scope'')))"

definition validate_no_scope_peer_names :: "string list \<Rightarrow> unit res" where
  "validate_no_scope_peer_names names =
     (if filter is_scope_peer_name names \<noteq> [] then Inl ValidationException else Inr ())"

text \<open>\<open>RESOURCE_NAME_PATTERN\<close>, \<open>^[a-zA-Z0-9_-]+$\<close>, under \<open>re.fullmatch\<close>.\<close>

definition resource_char :: "char \<Rightarrow> bool" where
  "resource_char c =
     (let n = (of_char c :: nat)
      in (97 \<le> n \<and> n \<le> 122) \<or> (65 \<le> n \<and> n \<le> 90) \<or> (48 \<le> n \<and> n \<le> 57) \<or> n = 95 \<or> n = 45)"

definition resource_name :: "string \<Rightarrow> bool" where
  "resource_name s = (s \<noteq> [] \<and> list_all resource_char s)"

definition SCOPE_NAME_MAX_LENGTH :: nat where
  "SCOPE_NAME_MAX_LENGTH = 512 - length SCOPE_PEER_PREFIX"

definition validate_scope_name :: "string \<Rightarrow> string res" where
  "validate_scope_name name =
     (if \<not> (1 \<le> length name \<and> length name \<le> SCOPE_NAME_MAX_LENGTH) then Inl ValueError
      else if starts_with SCOPE_PEER_PREFIX name then Inl ValueError
      else if \<not> resource_name name then Inl ValueError
      else Inr name)"

section \<open>Keys\<close>

record jwt_params =
  jp_t :: pyval
  jp_exp :: pyval
  jp_ad :: pyval
  jp_w :: pyval
  jp_p :: pyval
  jp_s :: pyval
  jp_sc :: pyval

datatype jwt_error = ExpiredSignatureError | InvalidAudienceError | OtherPyJWTError

record auth_env =
  USE_AUTH :: bool
  JWT_SECRET :: "string option"
  now_iso :: string
  jwt_encode :: "pydict \<Rightarrow> string \<Rightarrow> string"
  jwt_decode :: "string \<Rightarrow> string \<Rightarrow> string option \<Rightarrow> jwt_error + pydict"

definition NAMED_SCOPE_AUDIENCE :: string where
  "NAMED_SCOPE_AUDIENCE = ''honcho:named-scope''"

definition default_jwt_params :: "string \<Rightarrow> jwt_params" where
  "default_jwt_params t =
     \<lparr>jp_t = PStr t, jp_exp = PNone, jp_ad = PNone, jp_w = PNone, jp_p = PNone, jp_s = PNone,
      jp_sc = PNone\<rparr>"

definition validate_named_scope_key :: "jwt_params \<Rightarrow> unit res" where
  "validate_named_scope_key params =
     (case jp_sc params of
        PStr sc \<Rightarrow>
          if sc = [] then Inl ValueError
          else (case validate_scope_name sc of
                  Inl _ \<Rightarrow> Inl PydanticValidationError
                | Inr _ \<Rightarrow>
                    (case jp_w params of
                       PStr w \<Rightarrow>
                         if w = [] then Inl ValueError
                         else if truthy (jp_ad params) \<or> jp_p params \<noteq> PNone \<or> jp_s params \<noteq> PNone
                         then Inl ValueError
                         else Inr ()
                     | _ \<Rightarrow> Inl ValueError))
      | _ \<Rightarrow> Inl ValueError)"

definition jwt_payload :: "jwt_params \<Rightarrow> pydict" where
  "jwt_payload params =
     filter (\<lambda>(k, v). v \<noteq> PNone)
       [(''t'', jp_t params), (''exp'', jp_exp params), (''ad'', jp_ad params), (''w'', jp_w params),
        (''p'', jp_p params), (''s'', jp_s params), (''sc'', jp_sc params)]"

definition create_jwt :: "auth_env \<Rightarrow> jwt_params \<Rightarrow> string res" where
  "create_jwt env params =
     res_bind (if jp_sc params \<noteq> PNone then validate_named_scope_key params else Inr ()) (\<lambda>_.
     let payload =
       (if jp_sc params \<noteq> PNone
        then dset (jwt_payload params) ''aud'' (PStr NAMED_SCOPE_AUDIENCE)
        else jwt_payload params)
     in (case JWT_SECRET env of
           None \<Rightarrow> Inl ValueError
         | Some secret \<Rightarrow>
             if secret = [] then Inl ValueError else Inr (jwt_encode env payload secret)))"

definition create_admin_jwt :: "auth_env \<Rightarrow> string res" where
  "create_admin_jwt env = create_jwt env ((default_jwt_params [])\<lparr>jp_ad := PBool True\<rparr>)"

definition scope_requires_workspace :: "pyval \<Rightarrow> pyval \<Rightarrow> pyval \<Rightarrow> bool" where
  "scope_requires_workspace peer session workspace =
     ((truthy peer \<or> truthy session) \<and> \<not> truthy workspace)"

text \<open>\<open>decoded[k] or None\<close> where the key is present, else the default of the field.\<close>

definition scope_claim :: "pydict \<Rightarrow> string \<Rightarrow> pyval" where
  "scope_claim decoded k = (if truthy (dget_none decoded k) then dget_none decoded k else PNone)"

definition decode_token :: "auth_env \<Rightarrow> string \<Rightarrow> string \<Rightarrow> pydict res" where
  "decode_token env token secret =
     (case jwt_decode env token secret None of
        Inr decoded \<Rightarrow> Inr decoded
      | Inl InvalidAudienceError \<Rightarrow>
          (case jwt_decode env token secret (Some NAMED_SCOPE_AUDIENCE) of
             Inl _ \<Rightarrow> Inl AuthenticationException
           | Inr decoded \<Rightarrow>
               if \<not> has_key decoded ''sc'' then Inl AuthenticationException else Inr decoded)
      | Inl _ \<Rightarrow> Inl AuthenticationException)"

definition params_of_claims :: "auth_env \<Rightarrow> pydict \<Rightarrow> jwt_params res" where
  "params_of_claims env decoded =
     (let params = (default_jwt_params (now_iso env))
            \<lparr>jp_t := dget_default decoded ''t'' (PStr (now_iso env)),
             jp_ad := dget_none decoded ''ad'',
             jp_w := scope_claim decoded ''w'',
             jp_p := scope_claim decoded ''p'',
             jp_s := scope_claim decoded ''s''\<rparr>
      in res_bind
           (if has_key decoded ''sc'' then
              (if dget decoded ''aud'' \<noteq> Some (PStr NAMED_SCOPE_AUDIENCE) then Inl AuthenticationException
               else (let params = params\<lparr>jp_sc := dget_none decoded ''sc''\<rparr>
                     in (case validate_named_scope_key params of
                           Inl _ \<Rightarrow> Inl AuthenticationException
                         | Inr _ \<Rightarrow> Inr params)))
            else Inr params)
           (\<lambda>params.
              if scope_requires_workspace (jp_p params) (jp_s params) (jp_w params)
              then Inl AuthenticationException else Inr params))"

definition verify_jwt :: "auth_env \<Rightarrow> string \<Rightarrow> jwt_params res" where
  "verify_jwt env token =
     (case JWT_SECRET env of
        None \<Rightarrow> Inl ValueError
      | Some secret \<Rightarrow>
          if secret = [] then Inl ValueError
          else res_bind (decode_token env token secret) (params_of_claims env))"

text \<open>The key endpoint: \<open>POST /keys\<close>, behind \<open>require_auth(admin=True)\<close>.\<close>

datatype endpoint_error = DisabledException | InvalidRequest

definition create_key ::
  "auth_env \<Rightarrow> string option \<Rightarrow> string option \<Rightarrow> string option \<Rightarrow> int option \<Rightarrow> string option
     \<Rightarrow> endpoint_error + string" where
  "create_key env workspace_id peer_id session_id expires_at scope_id =
     (if \<not> USE_AUTH env then Inl DisabledException
      else if \<not> (truthy_str workspace_id \<or> truthy_str peer_id \<or> truthy_str session_id \<or> truthy_str scope_id)
      then Inl InvalidRequest
      else if scope_requires_workspace (opt_str peer_id) (opt_str session_id) (opt_str workspace_id)
      then Inl InvalidRequest
      else (case create_jwt env
              \<lparr>jp_t = PStr (now_iso env),
               jp_exp = (case expires_at of None \<Rightarrow> PNone | Some n \<Rightarrow> PInt n),
               jp_ad = PNone, jp_w = opt_str workspace_id, jp_p = opt_str peer_id,
               jp_s = opt_str session_id, jp_sc = opt_str scope_id\<rparr> of
              Inl _ \<Rightarrow> Inl InvalidRequest
            | Inr key \<Rightarrow> Inr key))"

section \<open>Lookups\<close>

definition is_peer_in_session :: "tables \<Rightarrow> string \<Rightarrow> string \<Rightarrow> string \<Rightarrow> bool" where
  "is_peer_in_session db workspace_name session_name peer_name =
     list_ex (\<lambda>r. sp_workspace r = workspace_name \<and> sp_session r = session_name
                  \<and> sp_peer r = peer_name \<and> sp_left_at r = None \<and> live_session_peer_row db r)
       (t_session_peers db)"

definition get_scope_or_raise :: "tables \<Rightarrow> string \<Rightarrow> string \<Rightarrow> peer_row res" where
  "get_scope_or_raise db workspace_name scope_name =
     (case List.find (\<lambda>p. pe_workspace p = workspace_name \<and> pe_name p = scope_peer_name scope_name
                          \<and> live_peer_row db p) (t_peers db) of
        None \<Rightarrow> Inl ResourceNotFoundException
      | Some peer \<Rightarrow>
          if \<not> is_scope_peer (pe_name peer) (Some (pe_internal_metadata peer))
          then Inl ResourceNotFoundException else Inr peer)"

section \<open>Route authorization\<close>

record auth_request =
  ar_admin :: bool
  ar_workspace :: "string option"
  ar_peer :: "string option"
  ar_session :: "string option"
  ar_allow_member_read :: bool
  ar_allow_scope :: bool
  ar_scope :: "string option"
  ar_authorize_body :: bool

definition str_of_val :: "pyval \<Rightarrow> string" where
  "str_of_val v = (case v of PStr s \<Rightarrow> s | _ \<Rightarrow> [])"

text \<open>The branch for named-scope keys.\<close>

definition auth_named_scope :: "tables \<Rightarrow> auth_request \<Rightarrow> jwt_params \<Rightarrow> jwt_params res" where
  "auth_named_scope db req jp =
     (if \<not> ar_allow_scope req \<or> \<not> truthy_str (ar_workspace req)
         \<or> jp_w jp \<noteq> opt_str (ar_workspace req)
         \<or> (ar_scope req \<noteq> None \<and> opt_str (ar_scope req) \<noteq> jp_sc jp)
      then Inl AuthenticationException
      else res_bind (get_scope_or_raise db (the (ar_workspace req)) (str_of_val (jp_sc jp))) (\<lambda>scope.
        if truthy_str (ar_session req)
           \<and> \<not> is_peer_in_session db (the (ar_workspace req)) (the (ar_session req)) (pe_name scope)
        then Inl AuthenticationException else Inr jp))"

text \<open>The checks in the order of the code. A peer claim that is not a string, which only a holder of the secret can
  sign, is refused here; in the code the membership query refuses it, with a database error for an exception.\<close>

definition auth :: "auth_env \<Rightarrow> tables \<Rightarrow> string option \<Rightarrow> auth_request \<Rightarrow> jwt_params res" where
  "auth env db credentials req =
     (if \<not> USE_AUTH env then Inr ((default_jwt_params [])\<lparr>jp_ad := PBool True\<rparr>)
      else if \<not> truthy_str credentials then Inl AuthenticationException
      else res_bind (verify_jwt env (the credentials)) (\<lambda>jp.
        if truthy (jp_ad jp) then Inr jp
        else if ar_admin req then Inl AuthenticationException
        else if jp_sc jp \<noteq> PNone then auth_named_scope db req jp
        else if ar_authorize_body req
             \<or> \<not> (truthy_str (ar_session req) \<or> truthy_str (ar_peer req) \<or> truthy_str (ar_workspace req))
        then Inr jp
        else if truthy_str (ar_workspace req) \<and> jp_w jp \<noteq> opt_str (ar_workspace req)
        then Inl AuthenticationException
        else if jp_s jp \<noteq> PNone then
          (if \<not> truthy_str (ar_session req) \<or> jp_s jp \<noteq> opt_str (ar_session req)
           then Inl AuthenticationException else Inr jp)
        else if jp_p jp \<noteq> PNone then
          (if truthy_str (ar_peer req) \<and> jp_p jp = opt_str (ar_peer req) then Inr jp
           else if ar_allow_member_read req \<and> truthy_str (ar_session req) \<and> truthy_str (ar_workspace req)
                \<and> (case jp_p jp of
                       PStr p \<Rightarrow> is_peer_in_session db (the (ar_workspace req)) (the (ar_session req)) p
                     | _ \<Rightarrow> False)
           then Inr jp
           else Inl AuthenticationException)
        else if jp_w jp \<noteq> PNone then Inr jp
        else Inl AuthenticationException))"

text \<open>\<open>require_auth\<close>: a route names its parameters; a path parameter wins over a query one, and an
  empty path value falls through to the query.\<close>

record route =
  rt_admin :: bool
  rt_workspace :: "string option"
  rt_peer :: "string option"
  rt_session :: "string option"
  rt_allow_member_read :: bool
  rt_allow_scope :: bool
  rt_scope :: "string option"
  rt_authorize_body :: bool

definition route_param ::
  "(string \<times> string) list \<Rightarrow> (string \<times> string) list \<Rightarrow> string option \<Rightarrow> string option" where
  "route_param path query name =
     (if truthy_str name then
        (if truthy_str (dget path (the name)) then dget path (the name) else dget query (the name))
      else None)"

definition require_auth ::
  "auth_env \<Rightarrow> tables \<Rightarrow> route \<Rightarrow> (string \<times> string) list \<Rightarrow> (string \<times> string) list
     \<Rightarrow> string option \<Rightarrow> jwt_params res" where
  "require_auth env db rt path query credentials =
     auth env db credentials
       \<lparr>ar_admin = rt_admin rt,
        ar_workspace = route_param path query (rt_workspace rt),
        ar_peer = route_param path query (rt_peer rt),
        ar_session = route_param path query (rt_session rt),
        ar_allow_member_read = rt_allow_member_read rt,
        ar_allow_scope = rt_allow_scope rt,
        ar_scope = (if truthy_str (rt_scope rt) then dget path (the (rt_scope rt)) else None),
        ar_authorize_body = rt_authorize_body rt\<rparr>"

text \<open>Scope options of the read endpoints.\<close>

datatype scope_option = NoScope | OneScope string | ScopeList "string list"

definition bind_scope_key :: "scope_option \<Rightarrow> jwt_params \<Rightarrow> scope_option res" where
  "bind_scope_key scope jp =
     (case jp_sc jp of
        PNone \<Rightarrow> Inr scope
      | PStr sc \<Rightarrow>
          if scope \<noteq> NoScope \<and> scope \<noteq> OneScope sc then Inl AuthenticationException
          else Inr (OneScope sc)
      | _ \<Rightarrow> Inl AuthenticationException)"

definition validate_scope_read_option :: "bool \<Rightarrow> string option \<Rightarrow> jwt_params \<Rightarrow> unit res" where
  "validate_scope_read_option has_filters session_id jp =
     (if has_filters then Inl ValidationException
      else if truthy_str session_id then Inl ValidationException
      else if jp_p jp \<noteq> PNone then Inl AuthenticationException
      else Inr ())"

section \<open>Lemmas\<close>

definition valid_scope_claims :: "jwt_params \<Rightarrow> bool" where
  "valid_scope_claims jp =
     (case (jp_sc jp, jp_w jp) of
        (PStr sc, PStr w) \<Rightarrow>
          validate_scope_name sc = Inr sc \<and> w \<noteq> [] \<and> \<not> truthy (jp_ad jp)
          \<and> jp_p jp = PNone \<and> jp_s jp = PNone
      | _ \<Rightarrow> False)"

lemma validate_scope_name_Inr: "validate_scope_name n = Inr m \<Longrightarrow> m = n"
  by (auto simp: validate_scope_name_def split: if_splits)

lemma validate_named_scope_key_Inr: "validate_named_scope_key jp = Inr u \<Longrightarrow> valid_scope_claims jp"
  by (auto simp: validate_named_scope_key_def valid_scope_claims_def validate_scope_name_Inr
      split: pyval.splits if_splits sum.splits)

lemma scope_claim_cases: "scope_claim d k = PNone \<or> truthy (scope_claim d k)"
  by (simp add: scope_claim_def)

definition key_shape :: "jwt_params \<Rightarrow> bool" where
  "key_shape jp =
     ((jp_w jp = PNone \<or> truthy (jp_w jp)) \<and> (jp_p jp = PNone \<or> truthy (jp_p jp))
      \<and> (jp_s jp = PNone \<or> truthy (jp_s jp))
      \<and> (jp_p jp = PNone \<and> jp_s jp = PNone \<or> jp_w jp \<noteq> PNone)
      \<and> (jp_sc jp = PNone \<or> valid_scope_claims jp))"

lemma params_of_claims_shape:
  assumes "params_of_claims env d = Inr jp"
  shows "key_shape jp"
proof -
  define ps where "ps = (default_jwt_params (now_iso env))
            \<lparr>jp_t := dget_default d ''t'' (PStr (now_iso env)), jp_ad := dget_none d ''ad'',
             jp_w := scope_claim d ''w'', jp_p := scope_claim d ''p'', jp_s := scope_claim d ''s''\<rparr>"
  have claims: "jp_w ps = scope_claim d ''w''" "jp_p ps = scope_claim d ''p''"
    "jp_s ps = scope_claim d ''s''" "jp_sc ps = PNone"
    by (simp_all add: ps_def default_jwt_params_def)
  have "jp = ps \<or> (\<exists>v. jp = ps\<lparr>jp_sc := v\<rparr> \<and> validate_named_scope_key jp = Inr ())"
    and ws: "\<not> scope_requires_workspace (jp_p jp) (jp_s jp) (jp_w jp)"
    using assms unfolding params_of_claims_def Let_def ps_def [symmetric]
    by (auto simp: res_simps split: if_splits sum.splits)
  then have "jp_sc jp = PNone \<or> valid_scope_claims jp"
    and same: "jp_w jp = scope_claim d ''w''" "jp_p jp = scope_claim d ''p''" "jp_s jp = scope_claim d ''s''"
    using claims by (auto dest: validate_named_scope_key_Inr)
  moreover have "jp_w jp = PNone \<or> truthy (jp_w jp)" "jp_p jp = PNone \<or> truthy (jp_p jp)"
    "jp_s jp = PNone \<or> truthy (jp_s jp)"
    by (simp_all only: same scope_claim_cases)
  ultimately show ?thesis
    using ws by (auto simp: key_shape_def scope_requires_workspace_def)
qed

lemma verify_jwt_shape: "verify_jwt env tok = Inr jp \<Longrightarrow> key_shape jp"
  by (auto simp: verify_jwt_def res_simps params_of_claims_shape split: option.splits if_splits)

text \<open>A successful authorization on a server that uses keys, taken apart.\<close>

lemma auth_Inr:
  assumes "auth env db cred req = Inr jp" and "USE_AUTH env"
  shows "\<exists>tok. cred = Some tok \<and> verify_jwt env tok = Inr jp"
  using assms
  by (auto simp: auth_def res_simps auth_named_scope_def split: if_splits)

lemma auth_disabled:
  "\<not> USE_AUTH env \<Longrightarrow> auth env db cred req = Inr ((default_jwt_params [])\<lparr>jp_ad := PBool True\<rparr>)"
  by (simp add: auth_def)

lemma auth_key_shape: "auth env db cred req = Inr jp \<Longrightarrow> USE_AUTH env \<Longrightarrow> key_shape jp"
  using auth_Inr verify_jwt_shape by blast

definition self_authorizing :: "auth_request \<Rightarrow> bool" where
  "self_authorizing req =
     (ar_authorize_body req
      \<or> \<not> (truthy_str (ar_session req) \<or> truthy_str (ar_peer req) \<or> truthy_str (ar_workspace req)))"

lemma auth_scope_branch:
  assumes "auth env db cred req = Inr jp" and "USE_AUTH env" and "\<not> truthy (jp_ad jp)"
    and "jp_sc jp \<noteq> PNone"
  shows "\<not> ar_admin req \<and> auth_named_scope db req jp = Inr jp"
  using assms by (auto simp: auth_def res_simps auth_named_scope_def split: if_splits)

lemma auth_resource_branch:
  assumes "auth env db cred req = Inr jp" and "USE_AUTH env" and "\<not> truthy (jp_ad jp)"
    and "jp_sc jp = PNone" and "\<not> self_authorizing req"
  shows "\<not> ar_admin req
       \<and> (truthy_str (ar_workspace req) \<longrightarrow> jp_w jp = opt_str (ar_workspace req))
       \<and> (if jp_s jp \<noteq> PNone then truthy_str (ar_session req) \<and> jp_s jp = opt_str (ar_session req)
          else if jp_p jp \<noteq> PNone then
            (truthy_str (ar_peer req) \<and> jp_p jp = opt_str (ar_peer req))
            \<or> (\<exists>w s p. ar_allow_member_read req \<and> ar_workspace req = Some w \<and> ar_session req = Some s
                  \<and> jp_p jp = PStr p \<and> is_peer_in_session db w s p)
          else jp_w jp \<noteq> PNone)"
proof -
  obtain tok where tok: "cred = Some tok" "verify_jwt env tok = Inr jp"
    using auth_Inr [OF assms(1,2)] by blast
  have "tok \<noteq> []" using assms(1,2) tok(1) by (auto simp: auth_def)
  with assms tok show ?thesis
    by (simp add: auth_def self_authorizing_def split: if_splits pyval.splits) auto?
qed

text \<open>
  PyJWT as documented, for the claim lists keys are minted with: distinct names, an integer \<open>exp\<close> at most, strings
  else. With a secret that is not empty, \<open>decode\<close> at the time \<open>now\<close> of what \<open>encode\<close> produced with it is refused as
  expired once \<open>exp\<close> is reached, before the audience is looked at; else a token with an audience is refused to a
  caller that names none and returned to one that names it, and one without is returned.
\<close>

definition mintable :: "pydict \<Rightarrow> bool" where
  "mintable c \<longleftrightarrow> distinct (map fst c)
     \<and> list_all (\<lambda>(k, v). if k = ''exp'' then (\<exists>n. v = PInt n)
                          else k \<in> {''t'', ''w'', ''p'', ''s'', ''sc'', ''aud''} \<and> (\<exists>s. v = PStr s)) c"

definition expired :: "int \<Rightarrow> pydict \<Rightarrow> bool" where
  "expired now c \<longleftrightarrow> (case dget c ''exp'' of Some (PInt n) \<Rightarrow> n \<le> now | _ \<Rightarrow> False)"

definition pyjwt_roundtrip :: "auth_env \<Rightarrow> int \<Rightarrow> bool" where
  "pyjwt_roundtrip env now =
     (\<forall>c k. mintable c \<and> k \<noteq> [] \<longrightarrow>
        (let token = jwt_encode env c k
         in if expired now c then \<forall>aud. jwt_decode env token k aud = Inl ExpiredSignatureError
            else case dget c ''aud'' of
                   Some (PStr a) \<Rightarrow>
                     jwt_decode env token k None = Inl InvalidAudienceError \<and> jwt_decode env token k (Some a) = Inr c
                 | _ \<Rightarrow> jwt_decode env token k None = Inr c))"

lemma pyjwt_expired:
  "pyjwt_roundtrip env now \<Longrightarrow> mintable c \<Longrightarrow> k \<noteq> [] \<Longrightarrow> expired now c \<Longrightarrow>
   jwt_decode env (jwt_encode env c k) k aud = Inl ExpiredSignatureError"
  unfolding pyjwt_roundtrip_def by (drule spec [of _ c], drule spec [of _ k]) (simp add: Let_def)

lemma pyjwt_no_aud:
  "pyjwt_roundtrip env now \<Longrightarrow> mintable c \<Longrightarrow> k \<noteq> [] \<Longrightarrow> \<not> expired now c \<Longrightarrow> dget c ''aud'' = None \<Longrightarrow>
   jwt_decode env (jwt_encode env c k) k None = Inr c"
  unfolding pyjwt_roundtrip_def by (drule spec [of _ c], drule spec [of _ k]) (simp add: Let_def)

lemma pyjwt_aud:
  "pyjwt_roundtrip env now \<Longrightarrow> mintable c \<Longrightarrow> k \<noteq> [] \<Longrightarrow> \<not> expired now c \<Longrightarrow> dget c ''aud'' = Some (PStr a) \<Longrightarrow>
   jwt_decode env (jwt_encode env c k) k None = Inl InvalidAudienceError
   \<and> jwt_decode env (jwt_encode env c k) k (Some a) = Inr c"
  unfolding pyjwt_roundtrip_def by (drule spec [of _ c], drule spec [of _ k]) (simp add: Let_def)

fun norm_claim :: "string option \<Rightarrow> pyval" where
  "norm_claim (Some (x # xs)) = PStr (x # xs)"
| "norm_claim _ = PNone"

lemma norm_claim_alt: "norm_claim v = (if truthy_str v then opt_str v else PNone)"
  by (cases v rule: norm_claim.cases) auto

definition minted :: "auth_env \<Rightarrow> string option \<Rightarrow> string option \<Rightarrow> string option \<Rightarrow> int option \<Rightarrow> string option \<Rightarrow> jwt_params" where
  "minted env w p s expiry sc =
     \<lparr>jp_t = PStr (now_iso env), jp_exp = (case expiry of None \<Rightarrow> PNone | Some n \<Rightarrow> PInt n), jp_ad = PNone, jp_w = opt_str w, jp_p = opt_str p,
      jp_s = opt_str s, jp_sc = opt_str sc\<rparr>"

lemma dget_jwt_payload:
  "dget (jwt_payload (minted env w p s expiry sc)) k =
     (if k = ''t'' then Some (PStr (now_iso env))
      else if k = ''exp'' then map_option PInt expiry
      else if k = ''w'' then map_option PStr w
      else if k = ''p'' then map_option PStr p
      else if k = ''s'' then map_option PStr s
      else if k = ''sc'' then map_option PStr sc
      else None)"
  by (cases w; cases p; cases s; cases expiry; cases sc) (simp_all add: jwt_payload_def minted_def)

lemma create_key_Inr:
  assumes "create_key env w p s expiry sc = Inr key"
  obtains secret where "JWT_SECRET env = Some secret" and "secret \<noteq> []"
    and "\<not> scope_requires_workspace (opt_str p) (opt_str s) (opt_str w)"
    and "sc \<noteq> None \<Longrightarrow> validate_named_scope_key (minted env w p s expiry sc) = Inr ()"
    and "key = jwt_encode env
           (if sc \<noteq> None then dset (jwt_payload (minted env w p s expiry sc)) ''aud'' (PStr NAMED_SCOPE_AUDIENCE)
            else jwt_payload (minted env w p s expiry sc)) secret"
proof -
  from assms have c: "create_jwt env (minted env w p s expiry sc) = Inr key"
    and g: "\<not> scope_requires_workspace (opt_str p) (opt_str s) (opt_str w)"
    by (auto simp: create_key_def minted_def split: if_splits sum.splits)
  have sc: "jp_sc (minted env w p s expiry sc) \<noteq> PNone \<longleftrightarrow> sc \<noteq> None"
    by (cases sc) (simp_all add: minted_def)
  from c show thesis
    using g by (auto simp: create_jwt_def Let_def res_simps sc intro!: that split: option.splits if_splits)
qed

lemma mintable_minted: "mintable (jwt_payload (minted env w p s expiry sc))"
  by (cases w; cases p; cases s; cases expiry; cases sc) (simp_all add: mintable_def jwt_payload_def minted_def)

lemma mintable_audience: "mintable (dset (jwt_payload (minted env w p s expiry sc)) ''aud'' (PStr a))"
  by (cases w; cases p; cases s; cases expiry; cases sc) (simp_all add: mintable_def jwt_payload_def minted_def dset_def)

lemma expired_minted:
  "expired now (jwt_payload (minted env w p s expiry sc)) = (case expiry of None \<Rightarrow> False | Some n \<Rightarrow> n \<le> now)"
  "expired now (dset (jwt_payload (minted env w p s expiry sc)) ''aud'' v) = (case expiry of None \<Rightarrow> False | Some n \<Rightarrow> n \<le> now)"
  by (cases expiry; simp add: expired_def dget_jwt_payload)+

lemma validate_scope_key_exp: "validate_named_scope_key (params\<lparr>jp_exp := v\<rparr>) = validate_named_scope_key params"
  by (cases "jp_sc params"; cases "jp_w params") (auto simp: validate_named_scope_key_def split: sum.split)

lemma scope_claim_jwt_payload:
  "dget d k = map_option PStr v \<Longrightarrow> scope_claim d k = norm_claim v"
  by (cases v rule: norm_claim.cases) (simp_all add: scope_claim_def dget_default_def)

lemma params_of_minted:
  assumes d: "\<And>k. dget d k = (if k = ''aud'' then a else dget (jwt_payload (minted env w p s expiry sc)) k)"
    and sc: "sc \<noteq> None \<Longrightarrow> a = Some (PStr NAMED_SCOPE_AUDIENCE)"
    and "\<not> scope_requires_workspace (opt_str p) (opt_str s) (opt_str w)"
    and v: "sc \<noteq> None \<Longrightarrow> validate_named_scope_key (minted env w p s expiry sc) = Inr ()"
  shows "params_of_claims env d = Inr \<lparr>jp_t = PStr (now_iso env), jp_exp = PNone, jp_ad = PNone,
           jp_w = norm_claim w, jp_p = norm_claim p, jp_s = norm_claim s, jp_sc = opt_str sc\<rparr>"
proof -
  have g: "dget d ''t'' = Some (PStr (now_iso env))" "dget d ''ad'' = None"
    "dget d ''sc'' = map_option PStr sc" "dget d ''aud'' = a"
    using d by (simp_all add: dget_jwt_payload)
  have c: "scope_claim d ''w'' = norm_claim w" "scope_claim d ''p'' = norm_claim p"
    "scope_claim d ''s'' = norm_claim s"
    using d by (auto simp: dget_jwt_payload intro!: scope_claim_jwt_payload)
  have ws: "\<not> scope_requires_workspace (norm_claim p) (norm_claim s) (norm_claim w)"
    using assms(3) by (cases w rule: norm_claim.cases; cases p rule: norm_claim.cases;
        cases s rule: norm_claim.cases) (simp_all add: scope_requires_workspace_def)
  show ?thesis
  proof (cases sc)
    case None
    then show ?thesis using g c ws
      by (simp add: params_of_claims_def default_jwt_params_def dget_default_def has_key_dget)
  next
    case (Some n)
    have vs: "valid_scope_claims (minted env w p s expiry sc)"
      by (rule validate_named_scope_key_Inr) (rule v, simp add: Some)
    then have n: "p = None" "s = None" "norm_claim w = opt_str w" "w \<noteq> None"
      by (cases w rule: norm_claim.cases; cases p; cases s; simp add: valid_scope_claims_def minted_def Some)+
    then have "validate_named_scope_key \<lparr>jp_t = PStr (now_iso env), jp_exp = PNone, jp_ad = PNone,
        jp_w = norm_claim w, jp_p = norm_claim p, jp_s = norm_claim s, jp_sc = PStr n\<rparr> = Inr ()"
      using v n validate_scope_key_exp [of PNone "minted env w p s expiry sc"] by (simp add: minted_def Some)
    then show ?thesis using g c ws sc Some
      by (simp add: params_of_claims_def default_jwt_params_def dget_default_def has_key_dget)
  qed
qed

lemma verify_minted:
  assumes "create_key env w p s expiry sc = Inr key" and rt: "pyjwt_roundtrip env now"
  shows "verify_jwt env key = (if \<exists>n. expiry = Some n \<and> n \<le> now then Inl AuthenticationException else Inr \<lparr>jp_t = PStr (now_iso env), jp_exp = PNone, jp_ad = PNone,
           jp_w = norm_claim w, jp_p = norm_claim p, jp_s = norm_claim s, jp_sc = opt_str sc\<rparr>)"
proof -
  let ?c = "jwt_payload (minted env w p s expiry sc)"
  let ?aud = "dset ?c ''aud'' (PStr NAMED_SCOPE_AUDIENCE)"
  obtain secret where k: "JWT_SECRET env = Some secret" "secret \<noteq> []"
    and ws: "\<not> scope_requires_workspace (opt_str p) (opt_str s) (opt_str w)"
    and v: "sc \<noteq> None \<Longrightarrow> validate_named_scope_key (minted env w p s expiry sc) = Inr ()"
    and key: "key = jwt_encode env (if sc \<noteq> None then ?aud else ?c) secret"
    using create_key_Inr [OF assms(1)] by blast
  let ?d = "if sc \<noteq> None then ?aud else ?c"
  show ?thesis
  proof (cases "\<exists>n. expiry = Some n \<and> n \<le> now")
    case True
    then have "expired now ?c" "expired now ?aud" by (auto simp: expired_minted)
    then have "jwt_decode env key secret None = Inl ExpiredSignatureError"
      unfolding key using pyjwt_expired [OF rt mintable_minted k(2)] pyjwt_expired [OF rt mintable_audience k(2)]
      by (cases sc) (simp_all only: if_True if_False simp_thms option.simps)
    then show ?thesis using True k by (simp add: verify_jwt_def decode_token_def)
  next
    case fresh: False
  then have live: "\<not> expired now ?c" "\<not> expired now ?aud" by (auto simp: expired_minted split: option.splits)
  have "decode_token env key secret = Inr ?d"
  proof (cases sc)
    case None
    then have "dget ?c ''aud'' = None" by (simp add: dget_jwt_payload)
    then have "jwt_decode env (jwt_encode env ?c secret) secret None = Inr ?c"
      by (rule pyjwt_no_aud [OF rt mintable_minted k(2) live(1)])
    then show ?thesis by (simp add: decode_token_def key None)
  next
    case (Some n)
    have "jwt_decode env (jwt_encode env ?aud secret) secret None = Inl InvalidAudienceError
        \<and> jwt_decode env (jwt_encode env ?aud secret) secret (Some NAMED_SCOPE_AUDIENCE) = Inr ?aud"
      by (rule pyjwt_aud [OF rt mintable_audience k(2) live(2)]) simp
    moreover have "has_key ?aud ''sc''"
      by (simp add: has_key_dget dget_jwt_payload Some)
    ultimately show ?thesis by (simp add: decode_token_def key Some)
  qed
  moreover have "params_of_claims env ?d = Inr \<lparr>jp_t = PStr (now_iso env), jp_exp = PNone,
      jp_ad = PNone, jp_w = norm_claim w, jp_p = norm_claim p, jp_s = norm_claim s, jp_sc = opt_str sc\<rparr>"
    by (rule params_of_minted [where expiry = expiry and a = "if sc \<noteq> None then Some (PStr NAMED_SCOPE_AUDIENCE) else None"])
      (simp_all add: dget_dset dget_jwt_payload ws v)
  ultimately show ?thesis using fresh by (auto simp: verify_jwt_def k)
  qed
qed

text \<open>What a key that names no scope stands for, by its narrowest claim, and the rows that make a
  peer a member of a session.\<close>

datatype authority = SessionKey pyval pyval | PeerKey pyval pyval | WorkspaceKey pyval | EmptyKey

definition authority_of :: "jwt_params \<Rightarrow> authority" where
  "authority_of jp =
     (if jp_s jp \<noteq> PNone then SessionKey (jp_w jp) (jp_s jp)
      else if jp_p jp \<noteq> PNone then PeerKey (jp_w jp) (jp_p jp)
      else if jp_w jp \<noteq> PNone then WorkspaceKey (jp_w jp) else EmptyKey)"

definition active_member :: "tables \<Rightarrow> string \<Rightarrow> string \<Rightarrow> string \<Rightarrow> bool" where
  "active_member db w s p =
     (\<exists>r \<in> set (t_session_peers db). sp_workspace r = w \<and> sp_session r = s \<and> sp_peer r = p
        \<and> sp_left_at r = None \<and> workspace_live db w \<and> session_live db w s \<and> peer_live db w p)"

lemma is_peer_in_session_active: "is_peer_in_session db w s p = active_member db w s p"
  by (auto simp: is_peer_in_session_def active_member_def list_ex_iff live_session_peer_row_def)

text \<open>The policy: which requests a resource key may make (an empty name counts as none).\<close>

fun req_names :: "string option \<Rightarrow> pyval \<Rightarrow> bool" where
  "req_names (Some (c # cs)) v = (v = PStr (c # cs))"
| "req_names _ v = False"

fun req_unnamed :: "string option \<Rightarrow> bool" where
  "req_unnamed (Some (c # cs)) = False"
| "req_unnamed _ = True"

fun permits :: "tables \<Rightarrow> auth_request \<Rightarrow> authority \<Rightarrow> bool" where
  "permits db req (SessionKey w s) =
     ((req_unnamed (ar_workspace req) \<or> req_names (ar_workspace req) w) \<and> req_names (ar_session req) s)"
| "permits db req (PeerKey w p) =
     ((req_unnamed (ar_workspace req) \<or> req_names (ar_workspace req) w)
      \<and> (req_names (ar_peer req) p
         \<or> (ar_allow_member_read req \<and>
            (\<exists>ws s n. req_names (ar_workspace req) (PStr ws) \<and> req_names (ar_session req) (PStr s)
                \<and> p = PStr n \<and> active_member db ws s n))))"
| "permits db req (WorkspaceKey w) = (req_unnamed (ar_workspace req) \<or> req_names (ar_workspace req) w)"
| "permits db req EmptyKey = False"

lemma req_unnamed_truthy: "req_unnamed v \<longleftrightarrow> \<not> truthy_str v"
  by (cases v rule: req_unnamed.cases) auto

lemma req_names_truthy: "req_names v x \<longleftrightarrow> truthy_str v \<and> x = opt_str v"
  by (cases v rule: req_unnamed.cases) auto

subsection \<open>A concrete server for the witnesses\<close>

text \<open>An encoding that meets \<open>pyjwt_roundtrip\<close> at the time 100: each character is preceded by an \<open>a\<close>, each field
  ends with a \<open>b\<close>, the secret comes first, and an integer is as many \<open>x\<close> behind its sign.\<close>

fun field_code :: "string \<Rightarrow> string" where
  "field_code [] = [CHR ''b'']"
| "field_code (c # cs) = CHR ''a'' # c # field_code cs"

fun push_char :: "char \<Rightarrow> string list \<Rightarrow> string list" where
  "push_char c [] = [[c]]"
| "push_char c (f # fs) = (c # f) # fs"

fun fields_of :: "string \<Rightarrow> string list" where
  "fields_of [] = []"
| "fields_of [c] = [[]]"
| "fields_of (c # x # s) = (if c = CHR ''b'' then [] # fields_of (x # s) else push_char x (fields_of s))"

definition value_code :: "pyval \<Rightarrow> string" where
  "value_code v =
     (case v of
        PStr s \<Rightarrow> CHR ''s'' # s
      | PInt n \<Rightarrow> (if n < 0 then CHR ''-'' else CHR ''+'') # replicate (nat \<bar>n\<bar>) CHR ''x''
      | _ \<Rightarrow> [])"

fun value_of :: "string \<Rightarrow> pyval" where
  "value_of [] = PNone"
| "value_of (c # s) =
     (if c = CHR ''s'' then PStr s else if c = CHR ''-'' then PInt (- int (length s)) else PInt (int (length s)))"

fun claims_of :: "string list \<Rightarrow> pydict" where
  "claims_of (k # v # r) = (k, value_of v) # claims_of r"
| "claims_of _ = []"

definition demo_encode :: "pydict \<Rightarrow> string \<Rightarrow> string" where
  "demo_encode c k = concat (map field_code (k # concat (map (\<lambda>(x, v). [x, value_code v]) c)))"

definition demo_decode :: "string \<Rightarrow> string \<Rightarrow> string option \<Rightarrow> jwt_error + pydict" where
  "demo_decode token k aud =
     (case fields_of token of
        [] \<Rightarrow> Inl OtherPyJWTError
      | s # r \<Rightarrow>
          if s \<noteq> k then Inl OtherPyJWTError
          else if expired 100 (claims_of r) then Inl ExpiredSignatureError
          else if dget (claims_of r) ''aud'' = map_option PStr aud then Inr (claims_of r)
          else Inl InvalidAudienceError)"

lemma fields_of_code: "fields_of (field_code f @ s) = f # fields_of s"
proof (induction f)
  case Nil
  then show ?case by (cases s) auto
qed simp

lemma fields_of_codes: "fields_of (concat (map field_code fs)) = fs"
  by (induction fs) (simp_all add: fields_of_code)

lemma claims_of_pairs: "mintable c \<Longrightarrow> claims_of (concat (map (\<lambda>(x, v). [x, value_code v]) c)) = c"
  by (induction c) (auto simp: mintable_def value_code_def split: if_splits)

definition demo_env :: auth_env where
  "demo_env =
     \<lparr>USE_AUTH = True, JWT_SECRET = Some ''k'', now_iso = ''T'',
      jwt_encode = demo_encode, jwt_decode = demo_decode\<rparr>"

lemma mintable_audience_text: "mintable c \<Longrightarrow> dget c ''aud'' = Some v \<Longrightarrow> \<exists>a. v = PStr a"
  by (auto simp: mintable_def list_all_iff dest!: dget_SomeD)

lemma demo_decodes:
  "mintable c \<Longrightarrow> jwt_decode demo_env (jwt_encode demo_env c k) k aud =
     (if expired 100 c then Inl ExpiredSignatureError
      else if dget c ''aud'' = map_option PStr aud then Inr c else Inl InvalidAudienceError)"
  by (simp add: demo_env_def demo_encode_def demo_decode_def fields_of_code fields_of_codes claims_of_pairs)

lemma demo_env_roundtrip: "pyjwt_roundtrip demo_env 100"
  unfolding pyjwt_roundtrip_def Let_def
proof (intro allI impI, elim conjE)
  fix c and k :: string assume c: "mintable c"
  show "if expired 100 c then \<forall>aud. jwt_decode demo_env (jwt_encode demo_env c k) k aud = Inl ExpiredSignatureError
     else case dget c ''aud'' of
        Some (PStr a) \<Rightarrow>
          jwt_decode demo_env (jwt_encode demo_env c k) k None = Inl InvalidAudienceError
          \<and> jwt_decode demo_env (jwt_encode demo_env c k) k (Some a) = Inr c
      | _ \<Rightarrow> jwt_decode demo_env (jwt_encode demo_env c k) k None = Inr c"
  proof (cases "dget c ''aud''")
    case (Some v)
    then obtain a where "v = PStr a" using mintable_audience_text [OF c] by blast
    with Some show ?thesis by (simp add: demo_decodes [OF c])
  qed (simp add: demo_decodes [OF c])
qed

section \<open>Properties\<close>

text \<open>C2. Workspace isolation: with authentication on, a key that is not an admin key and passes a
  route that names a workspace carries exactly that workspace, unless the handler authorizes the
  body itself; a named-scope key is held to it even then.\<close>

theorem auth_workspace_isolation:
  assumes "auth env db cred req = Inr jp" and "USE_AUTH env" and "\<not> truthy (jp_ad jp)"
    and "req_names (ar_workspace req) (PStr w)" and "ar_authorize_body req \<longrightarrow> jp_sc jp \<noteq> PNone"
  shows "jp_w jp = PStr w \<and> \<not> ar_admin req"
proof (cases "jp_sc jp = PNone")
  case True
  with assms(4,5) have "\<not> self_authorizing req"
    by (simp add: self_authorizing_def req_names_truthy)
  from auth_resource_branch [OF assms(1-3) True this] assms(4) show ?thesis
    by (simp add: req_names_truthy)
next
  case False
  from auth_scope_branch [OF assms(1-3) False] assms(4) show ?thesis
    by (auto simp: auth_named_scope_def req_names_truthy split: if_splits)
qed

text \<open>C19. Resource keys get exactly their authority: on a route that is not left to its handler, a
  non-admin key without a scope passes if and only if the policy permits its narrowest claim. A
  session key reaches its own session, a peer key its own peer and, on member-read routes, the
  sessions in which it has an active membership row, a workspace key anything in its workspace; a
  narrower key never falls back to its workspace.\<close>

theorem auth_resource_key_policy:
  assumes "USE_AUTH env" and "verify_jwt env (c # cs) = Inr jp" and "\<not> truthy (jp_ad jp)"
    and "jp_sc jp = PNone" and "\<not> self_authorizing req"
  shows "auth env db (Some (c # cs)) req =
     (if \<not> ar_admin req \<and> permits db req (authority_of jp) then Inr jp
      else Inl AuthenticationException)"
  using assms
  by (cases "ar_workspace req" rule: req_unnamed.cases; cases "ar_session req" rule: req_unnamed.cases;
      cases "ar_peer req" rule: req_unnamed.cases; cases "jp_p jp";
      simp add: auth_def self_authorizing_def authority_of_def is_peer_in_session_active)

text \<open>C9. A named-scope key never degrades to its workspace: wherever it passes, the route opted
  in to such keys and needs no admin, names the key's workspace and no other scope, the scope is a
  live peer of the workspace that carries the reserved name and the internal kind flag, and a route
  that names a session names one the scope is an active member of.\<close>

theorem auth_scope_key_never_degrades:
  assumes "auth env db cred req = Inr jp" and "jp_sc jp \<noteq> PNone"
  shows "\<exists>w sc. jp_w jp = PStr w \<and> jp_sc jp = PStr sc \<and> ar_allow_scope req \<and> \<not> ar_admin req
     \<and> req_names (ar_workspace req) (PStr w) \<and> (ar_scope req = None \<or> ar_scope req = Some sc)
     \<and> (\<exists>p \<in> set (t_peers db). pe_workspace p = w \<and> pe_name p = ''scope.'' @ sc \<and> live_peer_row db p
           \<and> dget (pe_internal_metadata p) ''kind'' = Some (PStr ''scope''))
     \<and> (\<forall>s. req_names (ar_session req) (PStr s) \<longrightarrow> active_member db w s (''scope.'' @ sc))"
proof -
  have on: "USE_AUTH env"
    using assms by (cases "USE_AUTH env") (auto simp: auth_disabled default_jwt_params_def)
  have "valid_scope_claims jp"
    using auth_key_shape [OF assms(1) on] assms(2) by (simp add: key_shape_def)
  then obtain w sc where c: "jp_w jp = PStr w" "jp_sc jp = PStr sc" "\<not> truthy (jp_ad jp)" "w \<noteq> []"
    by (auto simp: valid_scope_claims_def split: pyval.splits)
  from auth_scope_branch [OF assms(1) on c(3) assms(2)]
  have adm: "\<not> ar_admin req" and br: "auth_named_scope db req jp = Inr jp" by auto
  from br c have req: "ar_allow_scope req" "ar_workspace req = Some w"
    "ar_scope req = None \<or> ar_scope req = Some sc"
    by (cases "ar_workspace req"; cases "ar_scope req"; auto simp: auth_named_scope_def split: if_splits)+
  from br c req obtain p where p: "get_scope_or_raise db w sc = Inr p"
    and m: "\<not> truthy_str (ar_session req) \<or> is_peer_in_session db w (the (ar_session req)) (pe_name p)"
    by (auto simp: auth_named_scope_def str_of_val_def res_simps split: if_splits)
  from p have row: "p \<in> set (t_peers db)" "pe_workspace p = w" "pe_name p = ''scope.'' @ sc"
    "live_peer_row db p" "dget (pe_internal_metadata p) ''kind'' = Some (PStr ''scope'')"
    by (auto simp: get_scope_or_raise_def is_scope_peer_def scope_peer_name_def SCOPE_PEER_PREFIX_def
        find_Some_iff split: option.splits if_splits)
  have "\<forall>s. req_names (ar_session req) (PStr s) \<longrightarrow> active_member db w s (''scope.'' @ sc)"
    using m row(3) by (cases "ar_session req" rule: req_unnamed.cases)
      (auto simp: is_peer_in_session_active)
  moreover have "req_names (ar_workspace req) (PStr w)"
    using req(2) c(4) by (simp add: req_names_truthy)
  ultimately show ?thesis
    using c(1,2) adm req(1,3) row by blast
qed

text \<open>C28. A key verifies to what it was minted for: whatever the key endpoint signs is accepted by verification until
  its expiry, if it has one, and with the workspace, peer, session and scope it was asked for (empty names dropped),
  never with the admin claim; from then on it is refused. PyJWT's part is its documented behaviour on the claims
  keys are minted with.\<close>

theorem minted_key_verifies:
  assumes "create_key env w p s expiry sc = Inr key" and "pyjwt_roundtrip env now"
  shows "verify_jwt env key =
    (if \<exists>n. expiry = Some n \<and> n \<le> now then Inl AuthenticationException
     else Inr \<lparr>jp_t = PStr (now_iso env), jp_exp = PNone, jp_ad = PNone,
           jp_w = norm_claim w, jp_p = norm_claim p, jp_s = norm_claim s, jp_sc = opt_str sc\<rparr>)"
  by (rule verify_minted [OF assms])

text \<open>No key from the key endpoint opens an admin route, so a minted key cannot mint another.\<close>

theorem minted_key_not_admin:
  assumes "create_key env w p s expiry sc = Inr key" and "pyjwt_roundtrip env now" and "ar_admin req"
  shows "auth env db (Some key) req = Inl AuthenticationException"
proof -
  have "USE_AUTH env" using assms(1) by (auto simp: create_key_def split: if_splits)
  then show ?thesis
    using verify_minted [OF assms(1,2)] assms(3) by (simp add: auth_def)
qed

text \<open>The scope namespace is closed: the peer behind a valid scope name is recognised as a
  scope peer, its name leads back to the scope and fits the peer name limit, no user-supplied list
  of peer names may contain it, and it is outside the charset of names the API accepts.\<close>

theorem scope_namespace_closed:
  assumes "validate_scope_name n = Inr m"
  shows "is_scope_peer_name (scope_peer_name n) \<and> scope_name_from_peer (scope_peer_name n) = Inr n
     \<and> length (scope_peer_name n) \<le> 512
     \<and> validate_no_scope_peer_names (xs @ scope_peer_name n # ys) = Inl ValidationException
     \<and> \<not> resource_name (scope_peer_name n)"
  using assms
  by (auto simp: validate_scope_name_def SCOPE_NAME_MAX_LENGTH_def SCOPE_PEER_PREFIX_def
      is_scope_peer_name_def scope_peer_name_def scope_name_from_peer_def validate_no_scope_peer_names_def
      resource_name_def resource_char_def starts_with_def split: if_splits)

section \<open>Witnesses\<close>

definition demo_request :: auth_request where
  "demo_request =
     \<lparr>ar_admin = False, ar_workspace = Some ''w'', ar_peer = None, ar_session = Some ''open'',
      ar_allow_member_read = True, ar_allow_scope = True, ar_scope = None, ar_authorize_body = False\<rparr>"

definition demo_key :: "jwt_params \<Rightarrow> string" where
  "demo_key jp = (case create_jwt demo_env jp of Inr k \<Rightarrow> k | Inl _ \<Rightarrow> [])"

definition peer_params :: jwt_params where
  "peer_params = (default_jwt_params ''T'')\<lparr>jp_w := PStr ''w'', jp_p := PStr ''alice''\<rparr>"

definition scope_params :: jwt_params where
  "scope_params = (default_jwt_params ''T'')\<lparr>jp_w := PStr ''w'', jp_sc := PStr ''work''\<rparr>"

theorem auth_workspace_isolation_witness:
  "auth demo_env example_tables (Some (demo_key peer_params)) demo_request = Inr peer_params
   \<and> jp_w peer_params = PStr ''w''"
proof -
  have a: "auth demo_env example_tables (Some (demo_key peer_params)) demo_request = Inr peer_params"
    by code_simp
  have u: "USE_AUTH demo_env" "\<not> truthy (jp_ad peer_params)"
    "req_names (ar_workspace demo_request) (PStr ''w'')"
    "ar_authorize_body demo_request \<longrightarrow> jp_sc peer_params \<noteq> PNone"
    by code_simp+
  from auth_workspace_isolation [OF a u] a show ?thesis by simp
qed

theorem auth_resource_key_policy_witness:
  "auth demo_env example_tables (Some (demo_key peer_params)) demo_request = Inr peer_params"
proof -
  obtain c cs where k: "demo_key peer_params = c # cs"
    by (cases "demo_key peer_params") (auto simp: demo_key_def create_jwt_def demo_env_def peer_params_def
        default_jwt_params_def demo_encode_def)
  have v: "verify_jwt demo_env (demo_key peer_params) = Inr peer_params" by code_simp
  have h: "USE_AUTH demo_env" "\<not> truthy (jp_ad peer_params)" "jp_sc peer_params = PNone"
    "\<not> self_authorizing demo_request" "\<not> ar_admin demo_request"
    by code_simp+
  have "active_member example_tables ''w'' ''open'' ''alice''"
    unfolding is_peer_in_session_active [symmetric] by code_simp
  then have "permits example_tables demo_request (authority_of peer_params)"
    by (simp add: authority_of_def peer_params_def default_jwt_params_def demo_request_def)
  with auth_resource_key_policy [OF h(1) v [unfolded k] h(2-4), of example_tables] k h(5)
  show ?thesis by simp
qed

theorem auth_scope_key_never_degrades_witness:
  "auth demo_env example_tables (Some (demo_key scope_params)) demo_request = Inr scope_params
   \<and> active_member example_tables ''w'' ''open'' ''scope.work''"
proof -
  have a: "auth demo_env example_tables (Some (demo_key scope_params)) demo_request = Inr scope_params"
    by code_simp
  have "jp_sc scope_params \<noteq> PNone" by code_simp
  from auth_scope_key_never_degrades [OF a this] a show ?thesis
    by (auto simp: scope_params_def default_jwt_params_def demo_request_def)
qed

theorem minted_key_verifies_witness:
  "\<exists>key late. create_key demo_env (Some ''w'') None None (Some 200) (Some ''work'') = Inr key
     \<and> verify_jwt demo_env key = Inr scope_params
     \<and> create_key demo_env (Some ''w'') None None (Some 50) (Some ''work'') = Inr late
     \<and> verify_jwt demo_env late = Inl AuthenticationException"
proof -
  have "is_ok (create_key demo_env (Some ''w'') None None (Some 200) (Some ''work''))"
    "is_ok (create_key demo_env (Some ''w'') None None (Some 50) (Some ''work''))" by code_simp+
  then obtain key late where k: "create_key demo_env (Some ''w'') None None (Some 200) (Some ''work'') = Inr key"
    "create_key demo_env (Some ''w'') None None (Some 50) (Some ''work'') = Inr late"
    by (auto simp: is_ok_iff)
  have "scope_params = \<lparr>jp_t = PStr (now_iso demo_env), jp_exp = PNone, jp_ad = PNone,
      jp_w = norm_claim (Some ''w''), jp_p = norm_claim None, jp_s = norm_claim None,
      jp_sc = opt_str (Some ''work'')\<rparr>"
    by code_simp
  with minted_key_verifies [OF k(1) demo_env_roundtrip] minted_key_verifies [OF k(2) demo_env_roundtrip] k
  show ?thesis by auto
qed

theorem minted_key_not_admin_witness:
  "\<exists>key. create_key demo_env (Some ''w'') (Some ''alice'') None None None = Inr key
     \<and> auth demo_env example_tables (Some key) (demo_request\<lparr>ar_admin := True\<rparr>) = Inl AuthenticationException"
proof -
  have "is_ok (create_key demo_env (Some ''w'') (Some ''alice'') None None None)" by code_simp
  then obtain key where k: "create_key demo_env (Some ''w'') (Some ''alice'') None None None = Inr key"
    by (auto simp: is_ok_iff)
  have "ar_admin (demo_request\<lparr>ar_admin := True\<rparr>)" by simp
  from minted_key_not_admin [OF k demo_env_roundtrip this] k show ?thesis by blast
qed

theorem scope_namespace_closed_witness:
  "scope_name_from_peer ''scope.work'' = Inr ''work''
   \<and> validate_no_scope_peer_names [''alice'', ''scope.work''] = Inl ValidationException"
proof -
  have v: "validate_scope_name ''work'' = Inr ''work''" by code_simp
  have n: "scope_peer_name ''work'' = ''scope.work''" by code_simp
  from scope_namespace_closed [OF v, of "[''alice'']" "[]"] n show ?thesis by simp
qed

end
