(* ===== verification/ScopePeers.thy ===== *)
theory ScopePeers
  imports Security Config "HOL-Library.Char_ord" "HOL-Library.List_Lexorder"
begin

text \<open>
  The reserved peer names of scopes (src/src/crud/peer.py), resolution of scope names to their
  backing peers and the per-session backfill status kept in a scope peer's internal metadata
  (src/src/crud/scope.py). JSONB's \<open>||\<close> and \<open>#-\<close> are written out on \<open>pyval\<close>.
\<close>

section \<open>Reserved names\<close>

definition PEER_NAME_MAX_LENGTH :: nat where
  "PEER_NAME_MAX_LENGTH = 512"

definition NUL :: char where
  "NUL = char_of (0 :: nat)"

definition reject_impossible_peer_names :: "string list \<Rightarrow> unit res" where
  "reject_impossible_peer_names names =
     (if list_ex (\<lambda>n. List.member n NUL) names then Inl ValidationException
      else if list_ex (\<lambda>n. length n > PEER_NAME_MAX_LENGTH) names then Inl ValidationException
      else Inr ())"

definition validate_new_peer_names :: "string list \<Rightarrow> unit res" where
  "validate_new_peer_names names =
     res_bind (validate_no_scope_peer_names names) (\<lambda>_.
       if list_ex (\<lambda>n. \<not> resource_name n) names then Inl ValidationException else Inr ())"

definition scope_peer_clause :: "peer_row \<Rightarrow> bool" where
  "scope_peer_clause p =
     (starts_with SCOPE_PEER_PREFIX (pe_name p)
      \<and> dget (pe_internal_metadata p) ''kind'' = Some (PStr ''scope''))"

definition reserved_name_candidates :: "string list \<Rightarrow> string list res" where
  "reserved_name_candidates names =
     res_map (\<lambda>_. sort (remdups (filter is_scope_peer_name names))) (reject_impossible_peer_names names)"

definition peers_named :: "tables \<Rightarrow> string \<Rightarrow> string list \<Rightarrow> peer_row list" where
  "peers_named db workspace_name names =
     filter (\<lambda>p. pe_workspace p = workspace_name \<and> List.member names (pe_name p)) (t_peers db)"

definition reject_scope_observed :: "tables \<Rightarrow> string \<Rightarrow> string list \<Rightarrow> unit res" where
  "reject_scope_observed db workspace_name names =
     res_bind (reserved_name_candidates names) (\<lambda>candidates.
       if candidates = [] then Inr ()
       else
         (let rows = peers_named db workspace_name candidates;
              flagged = map pe_name (filter scope_peer_clause rows);
              existing = map pe_name rows
          in if flagged \<noteq> [] then Inl ValidationException
             else if filter (\<lambda>n. \<not> List.member existing n) candidates \<noteq> [] then Inl ValidationException
             else Inr ()))"

definition scope_peer_names :: "tables \<Rightarrow> string \<Rightarrow> string list \<Rightarrow> string list res" where
  "scope_peer_names db workspace_name names =
     res_map (\<lambda>candidates.
       if candidates = [] then []
       else remdups (map pe_name (filter scope_peer_clause (peers_named db workspace_name candidates))))
       (reserved_name_candidates names)"

definition reject_scope_peers :: "tables \<Rightarrow> string \<Rightarrow> string list \<Rightarrow> unit res" where
  "reject_scope_peers db workspace_name names =
     res_bind (scope_peer_names db workspace_name names) (\<lambda>offenders.
       if offenders \<noteq> [] then Inl ValidationException else Inr ())"

section \<open>Resolving scopes\<close>

text \<open>\<open>{peer.name: peer for peer in rows}\<close>: a later row replaces an earlier one.\<close>

definition live_peers_by_name :: "tables \<Rightarrow> string \<Rightarrow> string list \<Rightarrow> (string \<times> peer_row) list" where
  "live_peers_by_name db workspace_name names =
     foldl (\<lambda>d p. dset d (pe_name p) p) []
       (filter (live_peer_row db) (peers_named db workspace_name names))"

definition resolve_one_scope :: "(string \<times> peer_row) list \<Rightarrow> string \<Rightarrow> string res" where
  "resolve_one_scope peers_by_name name =
     (case dget peers_by_name (scope_peer_name name) of
        None \<Rightarrow> Inl ResourceNotFoundException
      | Some peer \<Rightarrow>
          if \<not> is_scope_peer (pe_name peer) (Some (pe_internal_metadata peer)) then Inl ValidationException
          else Inr (scope_peer_name name))"

definition resolve_scope_peers :: "tables \<Rightarrow> string \<Rightarrow> string list \<Rightarrow> string list res" where
  "resolve_scope_peers db workspace_name scope_names =
     (let requested = first_seen [] scope_names; peer_names = map scope_peer_name requested
      in if peer_names = [] then Inr []
         else traverse (resolve_one_scope (live_peers_by_name db workspace_name peer_names)) requested)"

section \<open>Backfill status\<close>

definition BACKFILL_STATUS_KEY :: string where
  "BACKFILL_STATUS_KEY = ''backfill_status''"

text \<open>JSONB concatenation: objects merge, anything else is concatenated as arrays.\<close>

fun as_array :: "pyval \<Rightarrow> pyval list" where
  "as_array (PList xs) = xs"
| "as_array v = [v]"

fun jsonb_concat :: "pyval \<Rightarrow> pyval \<Rightarrow> pyval" where
  "jsonb_concat (PDict a) (PDict b) = PDict (foldl (\<lambda>d (k, v). dset d k v) a b)"
| "jsonb_concat a b = PList (as_array a @ as_array b)"

text \<open>\<open>backfill_entry\<close> is the status of one session: its state, the time of the change and the
  number of copied documents when there is one.\<close>

datatype backfill_state = BackfillPending | BackfillCompleted | BackfillFailed

fun backfill_state_value :: "backfill_state \<Rightarrow> string" where
  "backfill_state_value BackfillPending = ''pending''"
| "backfill_state_value BackfillCompleted = ''completed''"
| "backfill_state_value BackfillFailed = ''failed''"

definition backfill_entry :: "string \<Rightarrow> backfill_state \<Rightarrow> int option \<Rightarrow> pydict" where
  "backfill_entry now_isoformat state docs_copied =
     (let entry = [(''state'', PStr (backfill_state_value state)), (''updated_at'', PStr now_isoformat)]
      in (case docs_copied of None \<Rightarrow> entry | Some n \<Rightarrow> dset entry ''docs_copied'' (PInt n)))"

definition merge_backfill_status :: "string \<Rightarrow> pydict \<Rightarrow> pydict \<Rightarrow> pydict" where
  "merge_backfill_status session_name entry internal_metadata =
     (let merged_status =
            jsonb_concat (case dget internal_metadata BACKFILL_STATUS_KEY of None \<Rightarrow> PDict [] | Some v \<Rightarrow> v)
              (PDict [(session_name, PDict entry)])
      in (case jsonb_concat (PDict internal_metadata) (PDict [(BACKFILL_STATUS_KEY, merged_status)]) of
            PDict d \<Rightarrow> d
          | _ \<Rightarrow> internal_metadata))"

definition update_peers :: "(peer_row \<Rightarrow> bool) \<Rightarrow> (peer_row \<Rightarrow> peer_row) \<Rightarrow> tables \<Rightarrow> tables" where
  "update_peers P f db = db\<lparr>t_peers := map (\<lambda>p. if P p then f p else p) (t_peers db)\<rparr>"

definition update_scope_backfill_status ::
  "string \<Rightarrow> tables \<Rightarrow> string \<Rightarrow> string \<Rightarrow> string \<Rightarrow> backfill_state \<Rightarrow> int option \<Rightarrow> tables res" where
  "update_scope_backfill_status now_isoformat db workspace_name scope_peer session_name state docs_copied =
     (let entry = backfill_entry now_isoformat state docs_copied;
          is_row = (\<lambda>p. pe_workspace p = workspace_name \<and> pe_name p = scope_peer)
      in if \<not> list_ex is_row (t_peers db) then Inl ResourceNotFoundException
         else Inr (update_peers is_row (\<lambda>p. p\<lparr>pe_internal_metadata :=
                merge_backfill_status session_name entry (pe_internal_metadata p)\<rparr>) db))"

text \<open>\<open>internal_metadata #- {backfill_status, <session>}\<close>; deleting an index of an array is not modelled.\<close>

definition clear_status :: "string \<Rightarrow> pydict \<Rightarrow> pydict" where
  "clear_status session_name internal_metadata =
     (case dget internal_metadata BACKFILL_STATUS_KEY of
        Some (PDict status) \<Rightarrow>
          dset internal_metadata BACKFILL_STATUS_KEY (PDict (dpop status session_name))
      | _ \<Rightarrow> internal_metadata)"

definition clear_scope_backfill_status :: "tables \<Rightarrow> string \<Rightarrow> string \<Rightarrow> string \<Rightarrow> tables" where
  "clear_scope_backfill_status db workspace_name scope_peer session_name =
     update_peers (\<lambda>p. pe_workspace p = workspace_name \<and> pe_name p = scope_peer)
       (\<lambda>p. p\<lparr>pe_internal_metadata := clear_status session_name (pe_internal_metadata p)\<rparr>) db"

definition get_scope_backfill_status :: "tables \<Rightarrow> string \<Rightarrow> string \<Rightarrow> pydict res" where
  "get_scope_backfill_status db workspace_name scope_name =
     res_map (\<lambda>peer.
       (case dget_default (pe_internal_metadata peer) BACKFILL_STATUS_KEY (PDict []) of
          PDict status \<Rightarrow> status
        | _ \<Rightarrow> []))
       (get_scope_or_raise db workspace_name scope_name)"

section \<open>Lemmas\<close>

definition possible_name :: "string \<Rightarrow> bool" where
  "possible_name n \<longleftrightarrow> NUL \<notin> set n \<and> length n \<le> 512"

lemma reject_impossible_iff:
  "reject_impossible_peer_names ns = (if \<forall>n \<in> set ns. possible_name n then Inr () else Inl ValidationException)"
  by (auto simp: reject_impossible_peer_names_def list_ex_iff possible_name_def PEER_NAME_MAX_LENGTH_def
      not_less [symmetric])

lemma candidates_iff:
  "reserved_name_candidates ns =
     (if \<forall>n \<in> set ns. possible_name n then Inr (sort (remdups (filter is_scope_peer_name ns)))
      else Inl ValidationException)"
  by (simp add: reserved_name_candidates_def reject_impossible_iff)

lemma scope_peer_clause_is_scope_peer:
  "scope_peer_clause p = is_scope_peer (pe_name p) (Some (pe_internal_metadata p))"
  by (auto simp: scope_peer_clause_def is_scope_peer_def is_scope_peer_name_def)

lemma dget_foldl_rows:
  "dget (foldl (\<lambda>d p. dset d (f p) p) d rows) k = Some r \<Longrightarrow> r \<in> set rows \<and> f r = k \<or> dget d k = Some r"
  by (induction rows arbitrary: d) (fastforce simp: dget_dset split: if_splits)+

lemma foldl_rows_None:
  "dget (foldl (\<lambda>d p. dset d (f p) p) d rows) k = None \<longleftrightarrow> dget d k = None \<and> (\<forall>r \<in> set rows. f r \<noteq> k)"
  by (induction rows arbitrary: d) (auto simp: dget_dset)

lemma scope_peer_name_inject [simp]: "scope_peer_name a = scope_peer_name b \<longleftrightarrow> a = b"
  by (simp add: scope_peer_name_def)

lemma resolve_one_Inr:
  assumes "resolve_one_scope (live_peers_by_name db w (map scope_peer_name ns)) n = Inr r"
  shows "r = scope_peer_name n \<and> (\<exists>p \<in> set (t_peers db). pe_workspace p = w \<and> pe_name p = scope_peer_name n
           \<and> live_peer_row db p \<and> scope_peer_clause p)"
  using assms
  by (auto simp: resolve_one_scope_def live_peers_by_name_def peers_named_def scope_peer_clause_is_scope_peer
      split: option.splits if_splits dest!: dget_foldl_rows)

lemma resolve_one_error:
  "resolve_one_scope d n = Inl e \<Longrightarrow> e \<in> {ResourceNotFoundException, ValidationException}"
  by (auto simp: resolve_one_scope_def split: option.splits if_splits)

text \<open>Merging one key into an object.\<close>

lemma merge_backfill_status_dict:
  assumes "dget d BACKFILL_STATUS_KEY = None \<and> st = [] \<or> dget d BACKFILL_STATUS_KEY = Some (PDict st)"
  shows "merge_backfill_status s e d = dset d BACKFILL_STATUS_KEY (PDict (dset st s (PDict e)))"
  using assms by (auto simp: merge_backfill_status_def Let_def)

definition status_of :: "pydict \<Rightarrow> pydict" where
  "status_of d = (case dget d BACKFILL_STATUS_KEY of Some (PDict st) \<Rightarrow> st | _ \<Rightarrow> [])"

definition status_shaped :: "pydict \<Rightarrow> bool" where
  "status_shaped d = (case dget d BACKFILL_STATUS_KEY of None \<Rightarrow> True | Some v \<Rightarrow> is_dict v)"

lemma merge_status:
  assumes "status_shaped d"
  shows "merge_backfill_status s e d = dset d BACKFILL_STATUS_KEY (PDict (dset (status_of d) s (PDict e)))"
proof (rule merge_backfill_status_dict)
  show "dget d BACKFILL_STATUS_KEY = None \<and> status_of d = []
      \<or> dget d BACKFILL_STATUS_KEY = Some (PDict (status_of d))"
    using assms
    by (auto simp: status_shaped_def status_of_def elim: is_dict.elims split: option.splits)
qed

definition peer_names_unique :: "tables \<Rightarrow> bool" where
  "peer_names_unique db \<longleftrightarrow> distinct (map (\<lambda>p. (pe_workspace p, pe_name p)) (t_peers db))"

lemma peer_row_unique:
  assumes "peer_names_unique db" and "p \<in> set (t_peers db)" and "q \<in> set (t_peers db)"
    and "pe_workspace p = pe_workspace q" and "pe_name p = pe_name q"
  shows "p = q"
  using assms distinct_map_eq [of "\<lambda>p. (pe_workspace p, pe_name p)" "t_peers db" p q]
  by (simp add: peer_names_unique_def)

lemma get_scope_or_raise_Inr:
  "get_scope_or_raise db w n = Inr p \<Longrightarrow>
   p \<in> set (t_peers db) \<and> pe_workspace p = w \<and> pe_name p = scope_peer_name n \<and> live_peer_row db p
   \<and> scope_peer_clause p"
  by (auto simp: get_scope_or_raise_def find_Some_iff scope_peer_clause_is_scope_peer
      split: option.splits if_splits)

lemma get_scope_or_raise_unique:
  assumes "peer_names_unique db" and "p \<in> set (t_peers db)" and "pe_workspace p = w"
    and "pe_name p = scope_peer_name n" and "live_peer_row db p" and "scope_peer_clause p"
  shows "get_scope_or_raise db w n = Inr p"
proof -
  have "\<exists>q. List.find (\<lambda>p. pe_workspace p = w \<and> pe_name p = scope_peer_name n \<and> live_peer_row db p)
      (t_peers db) = Some q"
    using assms by (auto simp: find_None_iff simp flip: not_None_eq)
  then obtain q where q: "List.find (\<lambda>p. pe_workspace p = w \<and> pe_name p = scope_peer_name n
      \<and> live_peer_row db p) (t_peers db) = Some q" by blast
  then have "q = p"
    using assms peer_row_unique by (auto simp: find_Some_iff)
  with q assms(6) show ?thesis
    by (simp add: get_scope_or_raise_def scope_peer_clause_is_scope_peer)
qed

text \<open>Rewriting the internal metadata of rows keeps names, workspaces and liveness.\<close>

lemma live_after_metadata:
  "live_peer_row (update_peers P (\<lambda>p. p\<lparr>pe_internal_metadata := f p\<rparr>) db)
     (q\<lparr>pe_internal_metadata := d\<rparr>) = live_peer_row db q"
  "live_peer_row (update_peers P (\<lambda>p. p\<lparr>pe_internal_metadata := f p\<rparr>) db) q = live_peer_row db q"
  by (simp_all add: live_peer_row_def workspace_live_def update_peers_def)

lemma names_after_metadata:
  "peer_names_unique db \<Longrightarrow> peer_names_unique (update_peers P (\<lambda>p. p\<lparr>pe_internal_metadata := f p\<rparr>) db)"
  by (auto simp: peer_names_unique_def update_peers_def comp_def if_distrib cong: if_cong)

section \<open>Properties\<close>

text \<open>The observed position refuses scopes, present and future: a list of names passes exactly when
  every name can be a stored peer name and every reserved one is the name of existing peers none of
  which is a scope; everything else raises \<open>ValidationException\<close>.\<close>

theorem reject_scope_observed_outcome:
  "reject_scope_observed db w ns =
     (if \<forall>n \<in> set ns. possible_name n \<and> (is_scope_peer_name n \<longrightarrow>
           (\<exists>p \<in> set (t_peers db). pe_workspace p = w \<and> pe_name p = n)
           \<and> (\<forall>p \<in> set (t_peers db). pe_workspace p = w \<and> pe_name p = n \<longrightarrow> \<not> scope_peer_clause p))
      then Inr () else Inl ValidationException)"
proof (cases "\<forall>n \<in> set ns. possible_name n")
  case True
  let ?cs = "sort (remdups (filter is_scope_peer_name ns))"
  have cs: "set ?cs = {n \<in> set ns. is_scope_peer_name n}" by simp
  have rows: "p \<in> set (peers_named db w ?cs) \<longleftrightarrow>
      p \<in> set (t_peers db) \<and> pe_workspace p = w \<and> pe_name p \<in> set ns \<and> is_scope_peer_name (pe_name p)" for p
    using cs by (auto simp: peers_named_def)
  have emp: "?cs = [] \<longleftrightarrow> (\<forall>n \<in> set ns. \<not> is_scope_peer_name n)"
    using cs by (metis (mono_tags, lifting) empty_iff mem_Collect_eq set_empty subsetI subset_empty)
  have fl: "map pe_name (filter scope_peer_clause (peers_named db w ?cs)) = [] \<longleftrightarrow>
      (\<forall>p \<in> set (t_peers db). pe_workspace p = w \<and> pe_name p \<in> set ns \<longrightarrow> \<not> scope_peer_clause p)"
    using rows by (auto simp: filter_empty_conv scope_peer_clause_def is_scope_peer_name_def)
  have ms: "filter (\<lambda>n. \<not> List.member (map pe_name (peers_named db w ?cs)) n) ?cs = [] \<longleftrightarrow>
      (\<forall>n \<in> set ns. is_scope_peer_name n \<longrightarrow> (\<exists>p \<in> set (t_peers db). pe_workspace p = w \<and> pe_name p = n))"
    using rows cs by (fastforce simp: filter_empty_conv)
  have sc: "scope_peer_clause p \<Longrightarrow> is_scope_peer_name (pe_name p)" for p
    by (simp add: scope_peer_clause_def is_scope_peer_name_def)
  have "reject_scope_observed db w ns =
     (if ?cs = [] then Inr ()
      else if map pe_name (filter scope_peer_clause (peers_named db w ?cs)) \<noteq> [] then Inl ValidationException
      else if filter (\<lambda>n. \<not> List.member (map pe_name (peers_named db w ?cs)) n) ?cs \<noteq> []
      then Inl ValidationException else Inr ())"
    unfolding reject_scope_observed_def candidates_iff if_P [OF True] res_bind.simps Let_def ..
  then show ?thesis
    unfolding emp fl ms using True sc by auto
qed (auto simp: reject_scope_observed_def candidates_iff)

theorem reject_scope_observed_outcome_witness:
  "reject_scope_observed example_tables ''w'' [''alice'', ''scope.work''] = Inl ValidationException
   \<and> reject_scope_observed example_tables ''w'' [''alice''] = Inr ()"
  unfolding reject_scope_observed_outcome by code_simp

text \<open>Scope names resolve to the scopes they name: the result lists, once each and in the order
  first asked for, the reserved names of the requested scopes, each of them a live peer of the
  workspace that carries the kind flag; an unknown scope or a squatter on its name raises.\<close>

theorem resolve_scope_peers_correct:
  "case resolve_scope_peers db w ns of
     Inr peers \<Rightarrow> peers = map scope_peer_name (first_seen [] ns) \<and> distinct peers
       \<and> set peers = scope_peer_name ` set ns
       \<and> list_all (\<lambda>n. list_ex (\<lambda>p. pe_workspace p = w \<and> pe_name p = n \<and> live_peer_row db p
            \<and> scope_peer_clause p) (t_peers db)) peers
   | Inl e \<Rightarrow> e \<in> {ResourceNotFoundException, ValidationException}"
proof (cases "resolve_scope_peers db w ns")
  case (Inl e)
  then have "\<exists>d n. resolve_one_scope d n = Inl e"
    by (auto simp: resolve_scope_peers_def Let_def split: if_splits dest!: traverse_Inl)
  with Inl resolve_one_error show ?thesis by auto
next
  case (Inr peers)
  let ?d = "live_peers_by_name db w (map scope_peer_name (first_seen [] ns))"
  have "traverse (resolve_one_scope ?d) (first_seen [] ns) = Inr peers"
    using Inr by (auto simp: resolve_scope_peers_def Let_def split: if_splits)
  note tr = this
  from tr have all: "list_all2 (\<lambda>n r. resolve_one_scope ?d n = Inr r) (first_seen [] ns) peers"
    by (simp add: traverse_Inr_iff)
  then have "list_all2 (\<lambda>n r. r = scope_peer_name n) (first_seen [] ns) peers"
    by (rule list_all2_mono) (simp add: resolve_one_Inr)
  then have eq: "peers = map scope_peer_name (first_seen [] ns)"
    by (induction rule: list_all2_induct) auto
  have "\<forall>r \<in> set peers. \<exists>n. resolve_one_scope ?d n = Inr r"
    using traverse_mem [OF tr] by blast
  then have "\<forall>r \<in> set peers. \<exists>p \<in> set (t_peers db). pe_workspace p = w \<and> pe_name p = r
      \<and> live_peer_row db p \<and> scope_peer_clause p"
    using resolve_one_Inr [of db w "first_seen [] ns"] by (metis (no_types, lifting))
  moreover have "distinct peers"
    unfolding eq distinct_map by (simp add: distinct_first_seen inj_on_def)
  moreover have "set peers = scope_peer_name ` set ns"
    unfolding eq by (simp add: set_first_seen)
  ultimately show ?thesis
    using Inr eq by (simp add: list_all_iff list_ex_iff set_first_seen)
qed

text \<open>Backfill status round trip: after one session's status is written, reading the scope's status
  gives that session the new entry and every other session its old one, and the peer is still the
  same scope, so concurrent writers of different sessions never lose each other's entry.\<close>

theorem backfill_status_roundtrip:
  assumes "peer_names_unique db" and "get_scope_or_raise db w n = Inr p"
    and "status_shaped (pe_internal_metadata p)"
    and "update_scope_backfill_status now db w (scope_peer_name n) s st docs = Inr db'"
  shows "\<exists>status. get_scope_backfill_status db' w n = Inr status
     \<and> dget status s = Some (PDict (backfill_entry now st docs))
     \<and> (\<forall>s'. s' \<noteq> s \<longrightarrow> dget status s' = dget (status_of (pe_internal_metadata p)) s')"
proof -
  let ?P = "\<lambda>q. pe_workspace q = w \<and> pe_name q = scope_peer_name n"
  let ?f = "\<lambda>q. merge_backfill_status s (backfill_entry now st docs) (pe_internal_metadata q)"
  let ?m = "dset (pe_internal_metadata p) BACKFILL_STATUS_KEY
     (PDict (dset (status_of (pe_internal_metadata p)) s (PDict (backfill_entry now st docs))))"
  let ?p = "p\<lparr>pe_internal_metadata := ?m\<rparr>"
  have db': "db' = update_peers ?P (\<lambda>q. q\<lparr>pe_internal_metadata := ?f q\<rparr>) db"
    using assms(4) by (auto simp: update_scope_backfill_status_def Let_def split: if_splits)
  note row = get_scope_or_raise_Inr [OF assms(2)]
  have m: "?f p = ?m" by (rule merge_status [OF assms(3)])
  have "p\<lparr>pe_internal_metadata := ?f p\<rparr> \<in> set (t_peers db')"
    using row unfolding db' update_peers_def by (auto intro!: image_eqI [of _ _ p])
  then have mem: "?p \<in> set (t_peers db')" by (simp only: m)
  have "live_peer_row db' ?p" using row unfolding db' live_after_metadata(2)
    by (auto simp: live_peer_row_def)
  moreover have "scope_peer_clause ?p"
    using row by (auto simp: scope_peer_clause_def BACKFILL_STATUS_KEY_def)
  ultimately have "get_scope_or_raise db' w n = Inr ?p"
    using row mem names_after_metadata [OF assms(1)] unfolding db'
    by (intro get_scope_or_raise_unique) auto
  then have "get_scope_backfill_status db' w n =
      Inr (dset (status_of (pe_internal_metadata p)) s (PDict (backfill_entry now st docs)))"
    by (simp add: get_scope_backfill_status_def dget_default_def)
  then show ?thesis by simp
qed

theorem backfill_status_roundtrip_witness:
  "\<exists>db' status. update_scope_backfill_status ''T'' example_tables ''w'' ''scope.work'' ''open''
       BackfillCompleted (Some 3) = Inr db'
     \<and> get_scope_backfill_status db' ''w'' ''work'' = Inr status
     \<and> dget status ''open'' = Some (PDict (backfill_entry ''T'' BackfillCompleted (Some 3)))"
proof -
  have u: "peer_names_unique example_tables" by code_simp
  have "is_ok (get_scope_or_raise example_tables ''w'' ''work'')" by code_simp
  then obtain p where p: "get_scope_or_raise example_tables ''w'' ''work'' = Inr p"
    unfolding is_ok_iff by blast
  have "p \<in> set (t_peers example_tables) \<and> pe_name p = ''scope.work''"
    using get_scope_or_raise_Inr [OF p] by (simp add: scope_peer_name_def SCOPE_PEER_PREFIX_def)
  then have sh: "status_shaped (pe_internal_metadata p)"
    by (auto simp: example_tables_def status_shaped_def BACKFILL_STATUS_KEY_def)
  have n: "scope_peer_name ''work'' = ''scope.work''" by code_simp
  have "is_ok (update_scope_backfill_status ''T'' example_tables ''w'' (scope_peer_name ''work'') ''open''
       BackfillCompleted (Some 3))"
    by code_simp
  then obtain db' where d: "update_scope_backfill_status ''T'' example_tables ''w'' (scope_peer_name ''work'')
      ''open'' BackfillCompleted (Some 3) = Inr db'"
    unfolding is_ok_iff by blast
  from backfill_status_roundtrip [OF u p sh d] d n show ?thesis by auto
qed

end
