(* ===== verification/QueuePayload.thy ===== *)
theory QueuePayload
  imports Config WorkUnit
begin

text \<open>
  Queue payloads (src/src/utils/queue_payload.py). A payload model is a record of its fields;
  \<open>model_dump(mode="json", exclude_none=True)\<close> is the JSON dictionary of its fields in declaration
  order without the \<open>None\<close> ones. pydantic's rendering of a datetime is the parameter \<open>isoformat\<close>. The
  lemmas show that a payload holds exactly what it was created from, and that the resolved
  configuration survives the queue.
\<close>

section \<open>Dumping models\<close>

definition RETRY_ATTEMPTS_PAYLOAD_KEY :: string where
  "RETRY_ATTEMPTS_PAYLOAD_KEY = ''_retry_attempts''"

definition exclude_none :: "pydict \<Rightarrow> pydict" where
  "exclude_none d = filter (\<lambda>(k, v). v \<noteq> PNone) d"

definition opt_int :: "int option \<Rightarrow> pyval" where
  "opt_int n = (case n of None \<Rightarrow> PNone | Some i \<Rightarrow> PInt i)"

definition dump_instructions :: "string option \<Rightarrow> string option \<Rightarrow> pydict" where
  "dump_instructions ci src =
     [(''custom_instructions'', opt_str ci), (''custom_instructions_source'', opt_str src)]"

definition dump_configuration :: "resolved_configuration \<Rightarrow> pydict" where
  "dump_configuration c =
     [(''reasoning'', PDict (exclude_none
         ((''enabled'', PBool (rea_enabled (rc_reasoning c)))
          # dump_instructions (rea_instructions (rc_reasoning c)) (rea_source (rc_reasoning c))))),
      (''peer_card'', PDict (exclude_none
         ((''use'', PBool (pc_use (rc_peer_card c))) # (''create'', PBool (pc_create (rc_peer_card c)))
          # dump_instructions (pc_instructions (rc_peer_card c)) (pc_source (rc_peer_card c))))),
      (''summary'', PDict (exclude_none
         ((''enabled'', PBool (sum_enabled (rc_summary c)))
          # (''messages_per_short_summary'', PInt (sum_short (rc_summary c)))
          # (''messages_per_long_summary'', PInt (sum_long (rc_summary c)))
          # dump_instructions (sum_instructions (rc_summary c)) (sum_source (rc_summary c))))),
      (''dream'', PDict (exclude_none
         ((''enabled'', PBool (dr_enabled (rc_dream c)))
          # dump_instructions (dr_instructions (rc_dream c)) (dr_source (rc_dream c))))),
      (''dialectic'', PDict (exclude_none
         (dump_instructions (dia_instructions (rc_dialectic c)) (dia_source (rc_dialectic c)))))]"

section \<open>Payload models\<close>

record representation_payload =
  rp_session_name :: string
  rp_content :: string
  rp_observers :: "string list"
  rp_observed :: string
  rp_created_at :: timestamp
  rp_configuration :: resolved_configuration

definition dump_representation :: "(timestamp \<Rightarrow> string) \<Rightarrow> representation_payload \<Rightarrow> pydict" where
  "dump_representation isoformat p =
     [(''task_type'', PStr ''representation''),
      (''session_name'', PStr (rp_session_name p)),
      (''content'', PStr (rp_content p)),
      (''observers'', PList (map PStr (rp_observers p))),
      (''observed'', PStr (rp_observed p)),
      (''created_at'', PStr (isoformat (rp_created_at p))),
      (''configuration'', PDict (dump_configuration (rp_configuration p)))]"

record summary_payload =
  sy_session_name :: string
  sy_message_seq_in_session :: int
  sy_configuration :: resolved_configuration
  sy_message_public_id :: "string option"

definition dump_summary :: "summary_payload \<Rightarrow> pydict" where
  "dump_summary p =
     exclude_none
       [(''task_type'', PStr ''summary''),
        (''session_name'', PStr (sy_session_name p)),
        (''message_seq_in_session'', PInt (sy_message_seq_in_session p)),
        (''configuration'', PDict (dump_configuration (sy_configuration p))),
        (''message_public_id'', opt_str (sy_message_public_id p))]"

definition create_webhook_payload :: "string \<Rightarrow> pydict \<Rightarrow> pydict" where
  "create_webhook_payload event_type data =
     [(''task_type'', PStr ''webhook''), (''event_type'', PStr event_type), (''data'', PDict data)]"

datatype dream_type = OMNI | CARD_REFRESH

fun dream_type_value :: "dream_type \<Rightarrow> string" where
  "dream_type_value OMNI = ''omni''"
| "dream_type_value CARD_REFRESH = ''card_refresh''"

record dream_payload =
  dp_dream_type :: dream_type
  dp_observer :: string
  dp_observed :: string
  dp_session_name :: "string option"
  dp_trigger_reason :: "string option"
  dp_delay_reason :: "string option"
  dp_documents_since_last_dream_at_schedule :: "int option"
  dp_document_threshold :: "int option"
  dp_rebuild :: bool

definition create_dream_payload :: "dream_payload \<Rightarrow> pydict" where
  "create_dream_payload p =
     exclude_none
       [(''task_type'', PStr ''dream''),
        (''dream_type'', PStr (dream_type_value (dp_dream_type p))),
        (''observer'', PStr (dp_observer p)),
        (''observed'', PStr (dp_observed p)),
        (''session_name'', opt_str (dp_session_name p)),
        (''trigger_reason'', opt_str (dp_trigger_reason p)),
        (''delay_reason'', opt_str (dp_delay_reason p)),
        (''documents_since_last_dream_at_schedule'', opt_int (dp_documents_since_last_dream_at_schedule p)),
        (''document_threshold'', opt_int (dp_document_threshold p)),
        (''rebuild'', PBool (dp_rebuild p))]"

datatype scope_task_type = ScopeBackfillTask | ScopeRemovalTask

fun scope_task_value :: "scope_task_type \<Rightarrow> string" where
  "scope_task_value ScopeBackfillTask = ''scope_backfill''"
| "scope_task_value ScopeRemovalTask = ''scope_removal''"

definition create_scope_task_payload :: "scope_task_type \<Rightarrow> string \<Rightarrow> string \<Rightarrow> pydict" where
  "create_scope_task_payload task_type scope_peer session_name =
     [(''task_type'', PStr (scope_task_value task_type)), (''scope_peer'', PStr scope_peer),
      (''session_name'', PStr session_name)]"

datatype deletion_type = SessionDeletion | ObservationDeletion | WorkspaceDeletion

fun deletion_type_value :: "deletion_type \<Rightarrow> string" where
  "deletion_type_value SessionDeletion = ''session''"
| "deletion_type_value ObservationDeletion = ''observation''"
| "deletion_type_value WorkspaceDeletion = ''workspace''"

definition create_deletion_payload :: "deletion_type \<Rightarrow> string \<Rightarrow> pydict" where
  "create_deletion_payload deletion_type resource_id =
     [(''task_type'', PStr ''deletion''), (''deletion_type'', PStr (deletion_type_value deletion_type)),
      (''resource_id'', PStr resource_id)]"

section \<open>Creating a payload from a message\<close>

text \<open>\<open>isinstance(v, int)\<close>: a Python \<open>bool\<close> is an \<open>int\<close>.\<close>

fun is_int :: "pyval \<Rightarrow> bool" where
  "is_int (PInt _) = True"
| "is_int (PBool _) = True"
| "is_int _ = False"

fun is_str :: "pyval \<Rightarrow> bool" where
  "is_str (PStr _) = True"
| "is_str _ = False"

text \<open>Any exception raised inside the \<open>try\<close> leaves it as a \<open>ValueError\<close>.\<close>

fun wrap_value_error :: "'a res \<Rightarrow> 'a res" where
  "wrap_value_error (Inl _) = Inl ValueError"
| "wrap_value_error (Inr x) = Inr x"

definition representation_payload_of ::
  "(timestamp \<Rightarrow> string) \<Rightarrow> pydict \<Rightarrow> string \<Rightarrow> resolved_configuration \<Rightarrow> string list option
     \<Rightarrow> string option \<Rightarrow> pydict res" where
  "representation_payload_of isoformat message session_name configuration observers observed =
     (case dget_none message ''content'' of
        PStr content \<Rightarrow>
          (case dget_none message ''created_at'' of
             PDateTime created_at \<Rightarrow>
               (case observers of
                  None \<Rightarrow> Inl ValueError
                | Some obs \<Rightarrow>
                    if obs = [] then Inl ValueError
                    else (case observed of
                            None \<Rightarrow> Inl ValueError
                          | Some od \<Rightarrow>
                              Inr (dump_representation isoformat
                                \<lparr>rp_session_name = session_name, rp_content = content,
                                 rp_observers = obs, rp_observed = od, rp_created_at = created_at,
                                 rp_configuration = configuration\<rparr>)))
           | _ \<Rightarrow> Inl TypeError)
      | _ \<Rightarrow> Inl TypeError)"

definition summary_payload_of ::
  "pydict \<Rightarrow> string \<Rightarrow> resolved_configuration \<Rightarrow> int option \<Rightarrow> pydict res" where
  "summary_payload_of message session_name configuration message_seq_in_session =
     (case message_seq_in_session of
        None \<Rightarrow> Inl ValueError
      | Some seq \<Rightarrow>
          (let dump = (\<lambda>pid. Inr (dump_summary
                 \<lparr>sy_session_name = session_name, sy_message_seq_in_session = seq,
                  sy_configuration = configuration, sy_message_public_id = pid\<rparr>))
           in (case dget_none message ''message_public_id'' of
                 PNone \<Rightarrow> dump None
               | PStr pid \<Rightarrow> if py_strip pid = [] then Inl ValueError else dump (Some pid)
               | _ \<Rightarrow> Inl ValueError)))"

definition create_payload ::
  "(timestamp \<Rightarrow> string) \<Rightarrow> pydict \<Rightarrow> resolved_configuration \<Rightarrow> string \<Rightarrow> int option
     \<Rightarrow> string list option \<Rightarrow> string option \<Rightarrow> pydict res" where
  "create_payload isoformat message configuration task_type message_seq_in_session observers observed =
     (if \<not> is_str (dget_none message ''workspace_name'') then Inl TypeError
      else (case dget_none message ''session_name'' of
              PStr session_name \<Rightarrow>
                if \<not> is_int (dget_none message ''message_id'') then Inl TypeError
                else wrap_value_error
                  (if task_type = ''representation''
                   then representation_payload_of isoformat message session_name configuration observers observed
                   else if task_type = ''summary''
                   then summary_payload_of message session_name configuration message_seq_in_session
                   else Inl ValueError)
            | _ \<Rightarrow> Inl TypeError))"

section \<open>Lemmas\<close>

named_theorems payload_simps "lookups in payloads"

lemma exclude_none_Nil [simp]: "exclude_none [] = []"
  by (simp add: exclude_none_def)

lemma exclude_none_Cons [simp]:
  "exclude_none ((k, v) # d) = (if v = PNone then exclude_none d else (k, v) # exclude_none d)"
  by (simp add: exclude_none_def)

lemma dget_exclude_none:
  "wf_dict d \<Longrightarrow> dget (exclude_none d) k = (if dget d k = Some PNone then None else dget d k)"
  by (induction d) (auto split: if_splits)

lemma dget_none_exclude_none [simp]: "wf_dict d \<Longrightarrow> dget_none (exclude_none d) k = dget_none d k"
  by (simp add: dget_default_def dget_exclude_none)

lemma opt_int_simps [simp]: "opt_int None = PNone" "opt_int (Some n) = PInt n"
  by (simp_all add: opt_int_def)

lemma wf_dump_instructions [simp]: "wf_dict (dump_instructions ci src)"
  by (simp add: dump_instructions_def)

lemma dget_dump_instructions [simp]:
  "dget (dump_instructions ci src) k =
     (if k = ''custom_instructions'' then Some (opt_str ci)
      else if k = ''custom_instructions_source'' then Some (opt_str src) else None)"
  by (simp add: dump_instructions_def)

lemma dget_none_dump_instructions [simp]:
  "dget_none (dump_instructions ci src) k =
     (if k = ''custom_instructions'' then opt_str ci
      else if k = ''custom_instructions_source'' then opt_str src else PNone)"
  by (simp add: dget_default_def)

text \<open>What the program relies on of pydantic's coercions: a JSON boolean and a JSON integer are
  themselves. A configuration fits the budget when each of its instruction texts does.\<close>

definition lossless :: "validators \<Rightarrow> bool" where
  "lossless vd = ((\<forall>b. lax_bool vd (PBool b) = Some b) \<and> (\<forall>n. lax_int vd (PInt n) = Some n))"

definition instructions_fit :: "validators \<Rightarrow> settings \<Rightarrow> string option \<Rightarrow> bool" where
  "instructions_fit vd st ci = is_ok (validate_custom_instructions_budget vd st ci)"

definition fits_budget :: "validators \<Rightarrow> settings \<Rightarrow> resolved_configuration \<Rightarrow> bool" where
  "fits_budget vd st c =
     (\<forall>m \<in> set instruction_modules. instructions_fit vd st (fst (module_instructions c m)))"

lemma instructions_fit_iff:
  "instructions_fit vd st ci \<longleftrightarrow> validate_custom_instructions_budget vd st ci = Inr ci"
  by (auto simp: instructions_fit_def is_ok_iff dest: budget_keeps)

lemma optional_str_opt: "dget_none d k = opt_str v \<Longrightarrow> optional_str d k = Inr v"
  by (simp add: optional_str_Inr)

lemma instructions_of_dump:
  assumes "instructions_fit vd st ci"
    and "dget_none d ''custom_instructions'' = opt_str ci"
    and "dget_none d ''custom_instructions_source'' = opt_str src"
  shows "instructions_of vd st d = Inr (ci, src)"
  using assms by (simp add: instructions_of_def optional_str_opt instructions_fit_iff)

lemma require_dump:
  "dget d k = Some v \<Longrightarrow> conv v = Some x \<Longrightarrow> require conv d k = Inr x"
  by (simp add: require_def)

lemma exclude_none_value:
  "wf_dict d \<Longrightarrow> dget d k = Some v \<Longrightarrow> v \<noteq> PNone \<Longrightarrow> dget (exclude_none d) k = Some v"
  by (simp add: dget_exclude_none)

lemma model_validate_dump:
  assumes "lossless vd" and "fits_budget vd st c"
  shows "model_validate vd st (dump_configuration c) = Inr c"
proof -
  have fit: "instructions_fit vd st (rea_instructions (rc_reasoning c))"
    "instructions_fit vd st (sum_instructions (rc_summary c))"
    "instructions_fit vd st (dia_instructions (rc_dialectic c))"
    "instructions_fit vd st (dr_instructions (rc_dream c))"
    "instructions_fit vd st (pc_instructions (rc_peer_card c))"
    using assms(2) by (simp_all add: fits_budget_def instruction_modules_def)
  have conv: "lax_bool vd (PBool b) = Some b" "lax_int vd (PInt n) = Some n" for b n
    using assms(1) by (simp_all add: lossless_def)
  have "resolved_reasoning vd st (exclude_none ((''enabled'', PBool (rea_enabled (rc_reasoning c)))
      # dump_instructions (rea_instructions (rc_reasoning c)) (rea_source (rc_reasoning c)))) = Inr (rc_reasoning c)"
    by (simp add: resolved_reasoning_def require_dump conv instructions_of_dump [OF fit(1)])
  moreover have "resolved_peer_card vd st (exclude_none ((''use'', PBool (pc_use (rc_peer_card c)))
      # (''create'', PBool (pc_create (rc_peer_card c)))
      # dump_instructions (pc_instructions (rc_peer_card c)) (pc_source (rc_peer_card c)))) = Inr (rc_peer_card c)"
    by (simp add: resolved_peer_card_def require_dump conv instructions_of_dump [OF fit(5)])
  moreover have "resolved_summary vd st (exclude_none ((''enabled'', PBool (sum_enabled (rc_summary c)))
      # (''messages_per_short_summary'', PInt (sum_short (rc_summary c)))
      # (''messages_per_long_summary'', PInt (sum_long (rc_summary c)))
      # dump_instructions (sum_instructions (rc_summary c)) (sum_source (rc_summary c)))) = Inr (rc_summary c)"
    by (simp add: resolved_summary_def require_dump conv instructions_of_dump [OF fit(2)])
  moreover have "resolved_dream vd st (exclude_none ((''enabled'', PBool (dr_enabled (rc_dream c)))
      # dump_instructions (dr_instructions (rc_dream c)) (dr_source (rc_dream c)))) = Inr (rc_dream c)"
    by (simp add: resolved_dream_def require_dump conv instructions_of_dump [OF fit(4)])
  moreover have "resolved_dialectic vd st (exclude_none
      (dump_instructions (dia_instructions (rc_dialectic c)) (dia_source (rc_dialectic c)))) = Inr (rc_dialectic c)"
    by (simp add: resolved_dialectic_def instructions_of_dump [OF fit(3)])
  ultimately show ?thesis
    by (simp add: model_validate_def migrate_deriver_to_reasoning_def dump_configuration_def
        require_def has_key_def)
qed

lemma wrap_value_error_Inr: "wrap_value_error r = Inr x \<longleftrightarrow> r = Inr x"
  by (cases r) auto

lemma wrap_value_error_Inl: "wrap_value_error r = Inl e \<longleftrightarrow> e = ValueError \<and> \<not> is_ok r"
  by (cases r) auto

lemma is_ok_wrap [simp]: "is_ok (wrap_value_error r) = is_ok r"
  by (cases r) auto

lemma representation_payload_of_Inr:
  "representation_payload_of isoformat m s c observers observed = Inr p \<longleftrightarrow>
   (\<exists>content t obs od. dget_none m ''content'' = PStr content \<and> dget_none m ''created_at'' = PDateTime t
      \<and> observers = Some obs \<and> obs \<noteq> [] \<and> observed = Some od
      \<and> p = dump_representation isoformat
          \<lparr>rp_session_name = s, rp_content = content, rp_observers = obs, rp_observed = od,
           rp_created_at = t, rp_configuration = c\<rparr>)"
  by (auto simp: representation_payload_of_def split: pyval.splits option.splits if_splits)

lemma eq_opt_str [simp]:
  "PStr s = opt_str r \<longleftrightarrow> r = Some s" "PNone = opt_str r \<longleftrightarrow> r = None"
  "PBool b \<noteq> opt_str r" "PInt n \<noteq> opt_str r" "PFloat x \<noteq> opt_str r" "PList l \<noteq> opt_str r"
  "PDict d \<noteq> opt_str r" "PDateTime t \<noteq> opt_str r"
  by (cases r; auto)+

lemma summary_payload_of_Inr:
  "summary_payload_of m s c sq = Inr p \<longleftrightarrow>
   (\<exists>n pid. sq = Some n \<and> dget_none m ''message_public_id'' = opt_str pid
      \<and> (\<forall>x. pid = Some x \<longrightarrow> py_strip x \<noteq> [])
      \<and> p = dump_summary \<lparr>sy_session_name = s, sy_message_seq_in_session = n,
                            sy_configuration = c, sy_message_public_id = pid\<rparr>)"
  by (cases sq; cases "dget_none m ''message_public_id''")
    (auto simp: summary_payload_of_def Let_def)

text \<open>The identity fields every payload takes from its message.\<close>

definition well_identified :: "pydict \<Rightarrow> bool" where
  "well_identified m =
     (is_str (dget_none m ''workspace_name'') \<and> is_str (dget_none m ''session_name'')
      \<and> is_int (dget_none m ''message_id''))"

lemma is_str_iff: "is_str v \<longleftrightarrow> (\<exists>s. v = PStr s)"
  by (cases v) auto

lemma create_payload_cases:
  "create_payload isoformat m c tt sq observers observed =
     (if well_identified m then
        wrap_value_error
          (if tt = ''representation''
           then representation_payload_of isoformat m (the (as_str (dget_none m ''session_name''))) c observers observed
           else if tt = ''summary''
           then summary_payload_of m (the (as_str (dget_none m ''session_name''))) c sq
           else Inl ValueError)
      else Inl TypeError)"
  by (auto simp: create_payload_def well_identified_def is_str_iff split: pyval.splits)

lemma dget_dump_representation [payload_simps]:
  "dget (dump_representation isoformat p) ''task_type'' = Some (PStr ''representation'')"
  "dget (dump_representation isoformat p) ''session_name'' = Some (PStr (rp_session_name p))"
  "dget (dump_representation isoformat p) ''content'' = Some (PStr (rp_content p))"
  "dget (dump_representation isoformat p) ''observers'' = Some (PList (map PStr (rp_observers p)))"
  "dget (dump_representation isoformat p) ''observed'' = Some (PStr (rp_observed p))"
  "dget (dump_representation isoformat p) ''observer'' = None"
  "dget (dump_representation isoformat p) ''configuration''
     = Some (PDict (dump_configuration (rp_configuration p)))"
  by (simp_all add: dump_representation_def)

lemma dget_dump_summary [payload_simps]:
  "dget (dump_summary p) ''task_type'' = Some (PStr ''summary'')"
  "dget (dump_summary p) ''session_name'' = Some (PStr (sy_session_name p))"
  "dget (dump_summary p) ''observer'' = None"
  "dget (dump_summary p) ''observed'' = None"
  "dget (dump_summary p) ''message_seq_in_session'' = Some (PInt (sy_message_seq_in_session p))"
  "dget (dump_summary p) ''configuration'' = Some (PDict (dump_configuration (sy_configuration p)))"
  by (simp_all add: dump_summary_def)

section \<open>Properties\<close>

text \<open>The resolved configuration survives the queue: whatever payload a message gives, the
  configuration stored in it validates again, at the worker, to exactly the configuration it was
  queued with, provided the instruction texts are within the budget there and pydantic reads JSON
  booleans and integers as themselves.\<close>

theorem configuration_survives_queue:
  assumes "create_payload isoformat m c tt sq observers observed = Inr p"
    and "lossless vd" and "fits_budget vd st c"
  shows "\<exists>d. dget p ''configuration'' = Some (PDict d) \<and> model_validate vd st d = Inr c"
proof -
  have "dget p ''configuration'' = Some (PDict (dump_configuration c))"
    using assms(1)
    by (auto simp: create_payload_cases wrap_value_error_Inr representation_payload_of_Inr
        summary_payload_of_Inr payload_simps split: if_splits)
  with model_validate_dump [OF assms(2,3)] show ?thesis by blast
qed

text \<open>What \<open>create_payload\<close> accepts, and how it fails: it succeeds exactly for a message that
  names its workspace, session and id and, for a representation, has text content, a creation time,
  at least one observer and an observed peer, or, for a summary, a sequence number and no blank
  public id. A bad identity field raises \<open>TypeError\<close>, everything else \<open>ValueError\<close>.\<close>

theorem create_payload_outcome:
  "create_payload isoformat m c tt sq observers observed \<in>
     (if \<not> well_identified m then {Inl TypeError}
      else if (tt = ''representation'' \<and> is_str (dget_none m ''content'')
               \<and> dget_none m ''created_at'' \<in> range PDateTime
               \<and> observers \<notin> {None, Some []} \<and> observed \<noteq> None)
            \<or> (tt = ''summary'' \<and> sq \<noteq> None
               \<and> dget_none m ''message_public_id'' \<in> insert PNone (PStr ` {x. py_strip x \<noteq> []}))
      then range Inr else {Inl ValueError})"
proof -
  have rep: "is_ok (representation_payload_of isoformat m s c observers observed) \<longleftrightarrow>
      is_str (dget_none m ''content'') \<and> dget_none m ''created_at'' \<in> range PDateTime
      \<and> observers \<notin> {None, Some []} \<and> observed \<noteq> None" for s
    unfolding is_ok_iff representation_payload_of_Inr is_str_iff by auto
  have sy: "is_ok (summary_payload_of m s c sq) \<longleftrightarrow> sq \<noteq> None
      \<and> dget_none m ''message_public_id'' \<in> insert PNone (PStr ` {x. py_strip x \<noteq> []})" for s
    unfolding is_ok_iff summary_payload_of_Inr
    by (cases "dget_none m ''message_public_id''"; cases sq; simp; blast?)
  have w: "wrap_value_error r \<in> (if is_ok r then range Inr else {Inl ValueError})" for r :: "pydict res"
    by (cases r) auto
  show ?thesis
    using w [of "representation_payload_of isoformat m (the (as_str (dget_none m ''session_name''))) c observers observed"]
      w [of "summary_payload_of m (the (as_str (dget_none m ''session_name''))) c sq"]
    by (auto simp: create_payload_cases rep sy)
qed

section \<open>Witnesses\<close>

definition example_configuration_record :: resolved_configuration where
  "example_configuration_record =
     \<lparr>rc_reasoning = \<lparr>rea_enabled = True, rea_instructions = Some ''be brief'', rea_source = Some ''session''\<rparr>,
      rc_peer_card = \<lparr>pc_use = True, pc_create = False, pc_instructions = None, pc_source = None\<rparr>,
      rc_summary = \<lparr>sum_enabled = True, sum_short = 20, sum_long = 60, sum_instructions = None,
                     sum_source = None\<rparr>,
      rc_dream = \<lparr>dr_enabled = False, dr_instructions = None, dr_source = None\<rparr>,
      rc_dialectic = \<lparr>dia_instructions = None, dia_source = None\<rparr>\<rparr>"

definition example_message :: pydict where
  "example_message =
     [(''workspace_name'', PStr ''w''), (''session_name'', PStr ''s''), (''message_id'', PInt 7),
      (''content'', PStr ''hello''), (''peer_name'', PStr ''alice''), (''created_at'', PDateTime 5),
      (''seq_in_session'', PInt 20)]"

lemma example_validators_lossless: "lossless example_validators"
  by (simp add: lossless_def example_validators_def)

lemma example_configuration_fits: "fits_budget example_validators example_settings example_configuration_record"
  by code_simp

theorem configuration_survives_queue_witness:
  "\<exists>p d. create_payload (\<lambda>t. ''T'') example_message example_configuration_record ''representation'' None
           (Some [''alice'', ''bob'']) (Some ''alice'') = Inr p
     \<and> dget p ''configuration'' = Some (PDict d)
     \<and> model_validate example_validators example_settings d = Inr example_configuration_record"
proof -
  have "is_ok (create_payload (\<lambda>t. ''T'') example_message example_configuration_record ''representation'' None
           (Some [''alice'', ''bob'']) (Some ''alice''))"
    by code_simp
  then obtain p where p: "create_payload (\<lambda>t. ''T'') example_message example_configuration_record
      ''representation'' None (Some [''alice'', ''bob'']) (Some ''alice'') = Inr p"
    unfolding is_ok_iff by blast
  from configuration_survives_queue [OF p example_validators_lossless example_configuration_fits] p
  show ?thesis by blast
qed

end
