(* ===== verification/QueueDb.thy ===== *)
theory QueueDb
  imports Lifecycle "HOL-Library.Char_ord" "HOL-Library.List_Lexorder" "HOL-Library.Product_Lexorder"
    "HOL-Library.Option_ord"
begin

text \<open>
  The queue tables (\<open>QueueItem\<close> and \<open>ActiveQueueSession\<close> of src/src/models.py) and the queries on
  them that decide which work a deriver may claim (src/src/crud/deriver.py, the claim statement of
  src/src/deriver/queue_manager.py). A table is a list of rows in insertion order, a statement a
  function of the tables; \<open>func.now()\<close> and \<open>datetime.now(UTC)\<close> are the argument \<open>now\<close>, generated
  claim ids are an argument too. Names are ordered by code point. The locale \<open>claim_table\<close> states what
  a worker relies on of the claim statements.
\<close>

section \<open>Rows\<close>

record queue_item =
  qi_id :: int
  qi_session_id :: "string option"
  qi_work_unit_key :: string
  qi_task_type :: string
  qi_payload :: pydict
  qi_processed :: bool
  qi_error :: "string option"
  qi_created_at :: timestamp
  qi_workspace_name :: "string option"
  qi_message_id :: "int option"

record active_session =
  aq_id :: string
  aq_work_unit_key :: string
  aq_last_updated :: timestamp

record queue_db =
  qd_items :: "queue_item list"
  qd_claims :: "active_session list"
  qd_next_id :: int

text \<open>A queue record: the columns an insert gives.\<close>

record queue_record =
  qr_work_unit_key :: string
  qr_payload :: pydict
  qr_session_id :: "string option"
  qr_task_type :: string
  qr_workspace_name :: "string option"
  qr_message_id :: "int option"

record deriver_settings =
  WORKERS :: int
  POLLING_SLEEP_INTERVAL_SECONDS :: rat
  POLLING_BACKOFF_ENABLED :: bool
  POLLING_SLEEP_MAX_INTERVAL_SECONDS :: rat
  POLLING_BACKOFF_MULTIPLIER :: rat
  POLLING_JITTER_RATIO :: rat
  STALE_SESSION_TIMEOUT_MINUTES :: int
  STALE_WORK_UNIT_CLEANUP_INTERVAL_SECONDS :: rat
  REPRESENTATION_BATCH_WORK_UNIT_TARGET_TOKENS :: int
  REPRESENTATION_BATCH_TARGET_INPUT_TOKENS :: int
  REPRESENTATION_BATCH_MAX_AGE_SECONDS :: int
  FLUSH_ENABLED :: bool
  SCHEDULER :: string

section \<open>Inserting queue items\<close>

definition pending_with_key :: "queue_db \<Rightarrow> string \<Rightarrow> bool" where
  "pending_with_key qd key =
     list_ex (\<lambda>i. qi_work_unit_key i = key \<and> \<not> qi_processed i) (qd_items qd)"

definition claimed_key :: "queue_db \<Rightarrow> string \<Rightarrow> bool" where
  "claimed_key qd key = list_ex (\<lambda>c. aq_work_unit_key c = key) (qd_claims qd)"

text \<open>The partial unique indexes on pending reconciler and dream items.\<close>

definition unique_task_types :: "string list" where
  "unique_task_types = [''reconciler'', ''dream'']"

definition violates_unique_index :: "queue_db \<Rightarrow> queue_record \<Rightarrow> bool" where
  "violates_unique_index qd r =
     (List.member unique_task_types (qr_task_type r) \<and>
      list_ex (\<lambda>i. qi_task_type i = qr_task_type r \<and> \<not> qi_processed i
                   \<and> qi_work_unit_key i = qr_work_unit_key r) (qd_items qd))"

definition item_of_record :: "timestamp \<Rightarrow> int \<Rightarrow> queue_record \<Rightarrow> queue_item" where
  "item_of_record now n r =
     \<lparr>qi_id = n, qi_session_id = qr_session_id r, qi_work_unit_key = qr_work_unit_key r,
      qi_task_type = qr_task_type r, qi_payload = qr_payload r, qi_processed = False, qi_error = None,
      qi_created_at = now, qi_workspace_name = qr_workspace_name r, qi_message_id = qr_message_id r\<rparr>"

fun insert_queue_items :: "timestamp \<Rightarrow> queue_record list \<Rightarrow> queue_db \<Rightarrow> queue_db res" where
  "insert_queue_items now [] qd = Inr qd"
| "insert_queue_items now (r # rs) qd =
     (if violates_unique_index qd r then Inl IntegrityError
      else insert_queue_items now rs
             (qd\<lparr>qd_items := qd_items qd @ [item_of_record now (qd_next_id qd) r],
                 qd_next_id := qd_next_id qd + 1\<rparr>))"

section \<open>Claims\<close>

text \<open>The batch gate of a representation work unit; \<open>None\<close> when no gate applies.\<close>

definition REPRESENTATION_WORK_UNIT_PREFIX :: string where
  "REPRESENTATION_WORK_UNIT_PREFIX = ''representation:''"

definition representation_batch_threshold_clause ::
  "deriver_settings \<Rightarrow> timestamp \<Rightarrow> string \<Rightarrow> int option \<Rightarrow> timestamp option \<Rightarrow> bool option" where
  "representation_batch_threshold_clause ds now work_unit_key total_tokens oldest_created_at =
     (if FLUSH_ENABLED ds then None
      else if REPRESENTATION_BATCH_WORK_UNIT_TARGET_TOKENS ds \<le> 0 then None
      else
        (let enough = (case total_tokens of None \<Rightarrow> 0 | Some n \<Rightarrow> n)
                        \<ge> REPRESENTATION_BATCH_WORK_UNIT_TARGET_TOKENS ds;
             threshold =
               (if REPRESENTATION_BATCH_MAX_AGE_SECONDS ds > 0
                then enough \<or> (case oldest_created_at of
                                 None \<Rightarrow> False
                               | Some t \<Rightarrow> t \<le> now - seconds (REPRESENTATION_BATCH_MAX_AGE_SECONDS ds))
                else enough)
         in Some (\<not> starts_with REPRESENTATION_WORK_UNIT_PREFIX work_unit_key \<or> threshold)))"

definition unclaimed_work_unit_clause :: "queue_db \<Rightarrow> string \<Rightarrow> bool" where
  "unclaimed_work_unit_clause qd work_unit_key = (\<not> claimed_key qd work_unit_key)"

definition stale_claim_cutoff :: "deriver_settings \<Rightarrow> timestamp \<Rightarrow> timestamp" where
  "stale_claim_cutoff ds now = now - seconds (60 * STALE_SESSION_TIMEOUT_MINUTES ds)"

definition not_live_claimed_work_unit_clause ::
  "deriver_settings \<Rightarrow> timestamp \<Rightarrow> queue_db \<Rightarrow> string \<Rightarrow> bool" where
  "not_live_claimed_work_unit_clause ds now qd work_unit_key =
     (\<not> list_ex (\<lambda>c. aq_work_unit_key c = work_unit_key
                      \<and> aq_last_updated c \<ge> stale_claim_cutoff ds now) (qd_claims qd))"

text \<open>\<open>FOR UPDATE SKIP LOCKED\<close>: rows another transaction holds are left alone.\<close>

definition cleanup_stale_work_units ::
  "deriver_settings \<Rightarrow> timestamp \<Rightarrow> string list \<Rightarrow> queue_db \<Rightarrow> queue_db" where
  "cleanup_stale_work_units ds now locked qd =
     (let stale_ids = map aq_id (sort_key aq_last_updated
            (filter (\<lambda>c. aq_last_updated c < stale_claim_cutoff ds now
                         \<and> \<not> List.member locked (aq_id c)) (qd_claims qd)))
      in if stale_ids \<noteq> []
         then qd\<lparr>qd_claims := filter (\<lambda>c. \<not> List.member stale_ids (aq_id c)) (qd_claims qd)\<rparr>
         else qd)"

text \<open>\<open>INSERT ... ON CONFLICT DO NOTHING RETURNING\<close>: a row that meets an existing key or id is
  skipped and not returned.\<close>

fun claim_work_units ::
  "timestamp \<Rightarrow> (string \<times> string) list \<Rightarrow> queue_db \<Rightarrow> (string \<times> string) list \<times> queue_db" where
  "claim_work_units now [] qd = ([], qd)"
| "claim_work_units now ((key, fresh_id) # rest) qd =
     (if claimed_key qd key \<or> list_ex (\<lambda>c. aq_id c = fresh_id) (qd_claims qd)
      then claim_work_units now rest qd
      else (case claim_work_units now rest
                   (qd\<lparr>qd_claims := qd_claims qd @
                        [\<lparr>aq_id = fresh_id, aq_work_unit_key = key, aq_last_updated = now\<rparr>]\<rparr>) of
              (claimed, qd') \<Rightarrow> ((key, fresh_id) # claimed, qd')))"

section \<open>Which work units are claimable\<close>

definition unprocessed_items :: "queue_db \<Rightarrow> queue_item list" where
  "unprocessed_items qd = filter (\<lambda>i. \<not> qi_processed i) (qd_items qd)"

definition work_unit_keys :: "queue_db \<Rightarrow> string list" where
  "work_unit_keys qd = remdups (map qi_work_unit_key (unprocessed_items qd))"

definition min_of :: "int list \<Rightarrow> int option" where
  "min_of xs = (case xs of [] \<Rightarrow> None | y # ys \<Rightarrow> Some (fold min ys y))"

text \<open>The oldest pending item of a work unit.\<close>

definition oldest_pending :: "queue_db \<Rightarrow> string \<Rightarrow> timestamp option" where
  "oldest_pending qd key =
     min_of (map qi_created_at (filter (\<lambda>i. qi_work_unit_key i = key) (unprocessed_items qd)))"

text \<open>The rows of the token statistics: pending representation items joined with their messages.\<close>

definition token_rows :: "tables \<Rightarrow> queue_db \<Rightarrow> string \<Rightarrow> (queue_item \<times> message_row) list" where
  "token_rows db qd key =
     concat (map (\<lambda>i. map (\<lambda>m. (i, m)) (filter (\<lambda>m. qi_message_id i = Some (ms_id m)) (t_messages db)))
       (filter (\<lambda>i. qi_work_unit_key i = key \<and> starts_with REPRESENTATION_WORK_UNIT_PREFIX key)
         (unprocessed_items qd)))"

definition total_tokens_of :: "tables \<Rightarrow> queue_db \<Rightarrow> string \<Rightarrow> int option" where
  "total_tokens_of db qd key =
     (case token_rows db qd key of
        [] \<Rightarrow> None
      | rows \<Rightarrow> Some (sum_list (map (\<lambda>(i, m). ms_token_count m) rows)))"

definition oldest_tokened :: "tables \<Rightarrow> queue_db \<Rightarrow> string \<Rightarrow> timestamp option" where
  "oldest_tokened db qd key = min_of (map (\<lambda>(i, m). qi_created_at i) (token_rows db qd key))"

definition passes_threshold :: "deriver_settings \<Rightarrow> timestamp \<Rightarrow> tables \<Rightarrow> queue_db \<Rightarrow> string \<Rightarrow> bool" where
  "passes_threshold ds now db qd key =
     (case representation_batch_threshold_clause ds now key (total_tokens_of db qd key)
             (oldest_tokened db qd key) of
        None \<Rightarrow> True
      | Some b \<Rightarrow> b)"

text \<open>The available work units of one poll, oldest first, at most \<open>limit\<close> of them.\<close>

definition available_work_units ::
  "deriver_settings \<Rightarrow> timestamp \<Rightarrow> tables \<Rightarrow> nat \<Rightarrow> queue_db \<Rightarrow> string list" where
  "available_work_units ds now db limit qd =
     take limit (sort_key (\<lambda>key. (oldest_pending qd key, key))
       (filter (\<lambda>key. unclaimed_work_unit_clause qd key \<and> passes_threshold ds now db qd key)
         (work_unit_keys qd)))"

section \<open>Metrics\<close>

text \<open>The queue part of \<open>get_deriver_metrics\<close>: claimable and claimed work units, pending items and
  the age of the oldest in microseconds.\<close>

record deriver_metrics =
  dm_eligible_work_units :: nat
  dm_claimed_work_units :: nat
  dm_pending_items :: nat
  dm_oldest_pending_age :: int

definition get_deriver_metrics ::
  "deriver_settings \<Rightarrow> timestamp \<Rightarrow> tables \<Rightarrow> queue_db \<Rightarrow> deriver_metrics" where
  "get_deriver_metrics ds now db qd =
     \<lparr>dm_eligible_work_units =
        length (filter (\<lambda>key. not_live_claimed_work_unit_clause ds now qd key
                              \<and> passes_threshold ds now db qd key) (work_unit_keys qd)),
      dm_claimed_work_units =
        length (filter (\<lambda>c. aq_last_updated c \<ge> stale_claim_cutoff ds now) (qd_claims qd)),
      dm_pending_items = length (unprocessed_items qd),
      dm_oldest_pending_age =
        (case min_of (map qi_created_at (unprocessed_items qd)) of None \<Rightarrow> 0 | Some t \<Rightarrow> now - t)\<rparr>"

section \<open>Invariants\<close>

text \<open>The unique constraints: claims have distinct ids and keys, items distinct ids below the next
  identity value, and at most one pending item of a deduplicated task type per key.\<close>

definition claims_ok :: "queue_db \<Rightarrow> bool" where
  "claims_ok qd \<longleftrightarrow>
     distinct (map aq_id (qd_claims qd)) \<and> distinct (map aq_work_unit_key (qd_claims qd))"

definition unique_pending :: "queue_db \<Rightarrow> bool" where
  "unique_pending qd \<longleftrightarrow>
     (\<forall>tt \<in> set unique_task_types. distinct (map qi_work_unit_key
        (filter (\<lambda>i. qi_task_type i = tt \<and> \<not> qi_processed i) (qd_items qd))))"

definition ids_ok :: "queue_db \<Rightarrow> bool" where
  "ids_ok qd \<longleftrightarrow>
     distinct (map qi_id (qd_items qd)) \<and> (\<forall>i \<in> set (qd_items qd). qi_id i < qd_next_id qd)"

definition queue_ok :: "queue_db \<Rightarrow> bool" where
  "queue_ok qd \<longleftrightarrow> claims_ok qd \<and> unique_pending qd \<and> ids_ok qd"

named_theorems queue_simps "rows and keys of the queue tables"

lemma claimed_key_iff [queue_simps]: "claimed_key qd k \<longleftrightarrow> k \<in> aq_work_unit_key ` set (qd_claims qd)"
  by (auto simp: claimed_key_def list_ex_iff)

lemma pending_with_key_iff [queue_simps]:
  "pending_with_key qd k \<longleftrightarrow> (\<exists>i \<in> set (qd_items qd). qi_work_unit_key i = k \<and> \<not> qi_processed i)"
  by (auto simp: pending_with_key_def list_ex_iff)

lemma member_iff [queue_simps]: "List.member xs x \<longleftrightarrow> x \<in> set xs"
  by simp

lemma work_unit_keys_pending [queue_simps]: "k \<in> set (work_unit_keys qd) \<longleftrightarrow> pending_with_key qd k"
  by (auto simp: work_unit_keys_def unprocessed_items_def pending_with_key_iff)

lemma distinct_work_unit_keys [simp]: "distinct (work_unit_keys qd)"
  by (simp add: work_unit_keys_def)

lemma violates_iff [queue_simps]:
  "violates_unique_index qd r \<longleftrightarrow> qr_task_type r \<in> set unique_task_types \<and>
     qr_work_unit_key r \<in> qi_work_unit_key `
       set (filter (\<lambda>i. qi_task_type i = qr_task_type r \<and> \<not> qi_processed i) (qd_items qd))"
  by (force simp: violates_unique_index_def list_ex_iff)

lemma queue_okI:
  "claims_ok qd \<Longrightarrow> unique_pending qd \<Longrightarrow> ids_ok qd \<Longrightarrow> queue_ok qd"
  by (simp add: queue_ok_def)

lemma insert_one_ok:
  assumes "queue_ok qd" and "\<not> violates_unique_index qd r"
  shows "queue_ok (qd\<lparr>qd_items := qd_items qd @ [item_of_record now (qd_next_id qd) r],
                      qd_next_id := qd_next_id qd + 1\<rparr>)"
  using assms
  by (auto simp: queue_ok_def claims_ok_def unique_pending_def ids_ok_def violates_iff item_of_record_def
      less_imp_le)

lemma insert_queue_items_ok: "queue_ok qd \<Longrightarrow> insert_queue_items now rs qd = Inr qd' \<Longrightarrow> queue_ok qd'"
proof (induction now rs qd rule: insert_queue_items.induct)
  case (2 now r rs qd)
  then show ?case using insert_one_ok [of qd r now] by (simp split: if_splits)
qed simp

lemma insert_queue_items_appends:
  "insert_queue_items now rs qd = Inr qd' \<Longrightarrow>
   qd_claims qd' = qd_claims qd \<and>
   (\<exists>new. qd_items qd' = qd_items qd @ new
      \<and> list_all2 (\<lambda>i r. \<exists>n. i = item_of_record now n r) new rs)"
proof (induction now rs qd rule: insert_queue_items.induct)
  case (2 now r rs qd)
  let ?qd = "qd\<lparr>qd_items := qd_items qd @ [item_of_record now (qd_next_id qd) r],
                qd_next_id := qd_next_id qd + 1\<rparr>"
  from 2 obtain new where c: "qd_claims qd' = qd_claims ?qd" and i: "qd_items qd' = qd_items ?qd @ new"
    and r: "list_all2 (\<lambda>i r. \<exists>n. i = item_of_record now n r) new rs"
    by (auto split: if_splits)
  then have "qd_items qd' = qd_items qd @ (item_of_record now (qd_next_id qd) r # new)" by simp
  with c r show ?case by fastforce
qed simp

lemma insert_queue_items_error: "insert_queue_items now rs qd = Inl e \<Longrightarrow> e = IntegrityError"
  by (induction now rs qd rule: insert_queue_items.induct) (auto split: if_splits)

lemma claims_subset_ok:
  "queue_ok qd \<Longrightarrow> queue_ok (qd\<lparr>qd_claims := filter P (qd_claims qd)\<rparr>)"
  by (auto simp: queue_ok_def claims_ok_def unique_pending_def ids_ok_def distinct_map_filter)

lemma cleanup_stale_ok: "queue_ok qd \<Longrightarrow> queue_ok (cleanup_stale_work_units ds now locked qd)"
  by (simp add: cleanup_stale_work_units_def Let_def claims_subset_ok)

lemma claim_one_ok:
  assumes "queue_ok qd" and "\<not> claimed_key qd k" and "\<not> list_ex (\<lambda>c. aq_id c = a) (qd_claims qd)"
  shows "queue_ok (qd\<lparr>qd_claims := qd_claims qd @ [\<lparr>aq_id = a, aq_work_unit_key = k, aq_last_updated = t\<rparr>]\<rparr>)"
  using assms
  by (auto simp: queue_ok_def claims_ok_def unique_pending_def ids_ok_def claimed_key_iff list_ex_iff)

lemma claim_work_units_ok: "queue_ok qd \<Longrightarrow> queue_ok (snd (claim_work_units now ks qd))"
proof (induction now ks qd rule: claim_work_units.induct)
  case (2 now key a rest qd)
  then show ?case using claim_one_ok [of qd key a now] by (auto split: prod.splits)
qed simp

section \<open>The claim table as an interface\<close>

text \<open>What a worker relies on: \<open>owner\<close> reads the id that holds a key, \<open>claim\<close> takes a free key for a
  fresh id and leaves a held one alone, \<open>release\<close> gives a key up only for the id that holds it.\<close>

locale claim_table =
  fixes ok :: "'db \<Rightarrow> bool"
    and fresh :: "string \<Rightarrow> 'db \<Rightarrow> bool"
    and owner :: "'db \<Rightarrow> string \<Rightarrow> string option"
    and claim :: "string \<Rightarrow> string \<Rightarrow> 'db \<Rightarrow> 'db"
    and release :: "string \<Rightarrow> string \<Rightarrow> 'db \<Rightarrow> 'db"
  assumes claim_ok: "ok db \<Longrightarrow> ok (claim k a db)"
    and release_ok: "ok db \<Longrightarrow> ok (release a k db)"
    and fresh_owner: "ok db \<Longrightarrow> fresh a db \<Longrightarrow> owner db k \<noteq> Some a"
    and owner_claim: "ok db \<Longrightarrow> fresh a db \<Longrightarrow>
      owner (claim k a db) j = (if j = k \<and> owner db k = None then Some a else owner db j)"
    and owner_release: "ok db \<Longrightarrow>
      owner (release a k db) j = (if j = k \<and> owner db k = Some a then None else owner db j)"
begin

lemma claim_exclusive:
  "ok db \<Longrightarrow> fresh a db \<Longrightarrow> owner db k = Some b \<Longrightarrow> owner (claim k a db) k = Some b \<and> b \<noteq> a"
  using fresh_owner owner_claim by auto

lemma claim_free: "ok db \<Longrightarrow> fresh a db \<Longrightarrow> owner db k = None \<Longrightarrow> owner (claim k a db) k = Some a"
  by (simp add: owner_claim)

lemma release_foreign:
  "ok db \<Longrightarrow> owner db k = Some b \<Longrightarrow> b \<noteq> a \<Longrightarrow> owner (release a k db) k = Some b"
  by (simp add: owner_release)

text \<open>A worker that lost its key cannot take the key from the next owner by releasing late.\<close>

lemma late_release_harmless:
  assumes "ok db" and "owner db k = Some b" and "b \<noteq> a"
  shows "owner (release a k db) = owner db"
  using assms by (auto simp: owner_release)

lemma release_then_claim:
  assumes "ok db" and "owner db k = Some a" and "fresh b (release a k db)"
  shows "owner (claim k b (release a k db)) k = Some b"
  using assms by (simp add: release_ok owner_claim owner_release)

end

text \<open>\<open>_cleanup_work_unit\<close>: delete the claim by id and key; the row count tells whether there was one.\<close>

definition cleanup_work_unit :: "string \<Rightarrow> string \<Rightarrow> queue_db \<Rightarrow> bool \<times> queue_db" where
  "cleanup_work_unit aqs_id work_unit_key qd =
     (list_ex (\<lambda>c. aq_id c = aqs_id \<and> aq_work_unit_key c = work_unit_key) (qd_claims qd),
      qd\<lparr>qd_claims := filter (\<lambda>c. \<not> (aq_id c = aqs_id \<and> aq_work_unit_key c = work_unit_key))
                       (qd_claims qd)\<rparr>)"

definition claim_owner :: "queue_db \<Rightarrow> string \<Rightarrow> string option" where
  "claim_owner qd key = map_option aq_id (List.find (\<lambda>c. aq_work_unit_key c = key) (qd_claims qd))"

definition fresh_claim_id :: "string \<Rightarrow> queue_db \<Rightarrow> bool" where
  "fresh_claim_id a qd = (a \<notin> aq_id ` set (qd_claims qd))"

lemma distinct_map_mem_eq:
  "distinct (map f xs) \<Longrightarrow> x \<in> set xs \<Longrightarrow> y \<in> set xs \<Longrightarrow> f x = f y \<Longrightarrow> x = y"
  by (metis distinct_map inj_onD)

lemma claim_owner_iff:
  assumes "claims_ok qd"
  shows "claim_owner qd k = Some a \<longleftrightarrow>
    (\<exists>c \<in> set (qd_claims qd). aq_work_unit_key c = k \<and> aq_id c = a)"
proof -
  have u: "c = d" if "c \<in> set (qd_claims qd)" "d \<in> set (qd_claims qd)"
    "aq_work_unit_key c = aq_work_unit_key d" for c d
    using assms distinct_map_mem_eq that by (auto simp: claims_ok_def)
  show ?thesis
  proof (cases "List.find (\<lambda>c. aq_work_unit_key c = k) (qd_claims qd)")
    case None
    then have "\<forall>c \<in> set (qd_claims qd). aq_work_unit_key c \<noteq> k" by (simp add: find_None_iff)
    with None show ?thesis by (auto simp: claim_owner_def)
  next
    case (Some d)
    then have "d \<in> set (qd_claims qd)" "aq_work_unit_key d = k"
      by (auto simp: find_Some_iff)
    with u Some show ?thesis by (auto simp: claim_owner_def)
  qed
qed

lemma claim_owner_None: "claim_owner qd k = None \<longleftrightarrow> \<not> claimed_key qd k"
  by (auto simp: claim_owner_def find_None_iff claimed_key_iff)

lemma find_append:
  "List.find P (xs @ ys) = (case List.find P xs of None \<Rightarrow> List.find P ys | Some x \<Rightarrow> Some x)"
  by (induction xs) auto

lemma claim_owner_append:
  "claim_owner (qd\<lparr>qd_claims := qd_claims qd @ [c]\<rparr>) j =
     (case claim_owner qd j of None \<Rightarrow> if aq_work_unit_key c = j then Some (aq_id c) else None
      | Some a \<Rightarrow> Some a)"
  by (simp add: claim_owner_def find_append split: option.splits)

text \<open>One key claimed with one id.\<close>

definition claim_one :: "timestamp \<Rightarrow> string \<Rightarrow> string \<Rightarrow> queue_db \<Rightarrow> queue_db" where
  "claim_one now key fresh_id qd = snd (claim_work_units now [(key, fresh_id)] qd)"

lemma claim_one_eq:
  "fresh_claim_id a qd \<Longrightarrow> claim_one now k a qd =
     (if claimed_key qd k then qd
      else qd\<lparr>qd_claims := qd_claims qd @ [\<lparr>aq_id = a, aq_work_unit_key = k, aq_last_updated = now\<rparr>]\<rparr>)"
  by (auto simp: claim_one_def fresh_claim_id_def list_ex_iff)

lemma claims_ok_eq:
  assumes "claims_ok qd" and "c \<in> set (qd_claims qd)" and "d \<in> set (qd_claims qd)"
  shows "aq_id c = aq_id d \<longleftrightarrow> c = d" and "aq_work_unit_key c = aq_work_unit_key d \<longleftrightarrow> c = d"
  using assms distinct_map_mem_eq by (auto simp: claims_ok_def)

lemma owner_cleanup:
  assumes "claims_ok qd"
  shows "claim_owner (snd (cleanup_work_unit a k qd)) j =
    (if j = k \<and> claim_owner qd k = Some a then None else claim_owner qd j)"
proof -
  let ?qd = "snd (cleanup_work_unit a k qd)"
  have ok: "claims_ok ?qd"
    using assms by (auto simp: cleanup_work_unit_def claims_ok_def distinct_map_filter)
  have mem: "c \<in> set (qd_claims ?qd) \<longleftrightarrow> c \<in> set (qd_claims qd) \<and> \<not> (aq_id c = a \<and> aq_work_unit_key c = k)" for c
    by (auto simp: cleanup_work_unit_def)
  show ?thesis
  proof (cases "claim_owner ?qd j")
    case None
    then have n: "\<And>c. c \<in> set (qd_claims ?qd) \<Longrightarrow> aq_work_unit_key c \<noteq> j"
      by (auto simp: claim_owner_None claimed_key_iff)
    show ?thesis
    proof (cases "claim_owner qd j")
      case (Some b)
      then obtain c where c: "c \<in> set (qd_claims qd)" "aq_work_unit_key c = j" "aq_id c = b"
        using claim_owner_iff [OF assms] by blast
      with n mem have "b = a \<and> j = k" by blast
      with Some None show ?thesis by simp
    qed (simp add: None)
  next
    case (Some b)
    then obtain c where c: "c \<in> set (qd_claims ?qd)" "aq_work_unit_key c = j" "aq_id c = b"
      using claim_owner_iff [OF ok] by blast
    then have "claim_owner qd j = Some b"
      using mem claim_owner_iff [OF assms] by blast
    moreover have "\<not> (j = k \<and> b = a)" using c mem by blast
    ultimately show ?thesis using Some by auto
  qed
qed

interpretation claims: claim_table queue_ok fresh_claim_id claim_owner "\<lambda>k a. claim_one now k a"
    "\<lambda>a k. snd \<circ> cleanup_work_unit a k" for now
proof unfold_locales
  fix qd k a
  assume "queue_ok qd"
  then show "queue_ok (claim_one now k a qd)"
    unfolding claim_one_def by (rule claim_work_units_ok)
  show "queue_ok ((snd \<circ> cleanup_work_unit a k) qd)"
    using claims_subset_ok [OF \<open>queue_ok qd\<close>] by (simp add: cleanup_work_unit_def)
next
  fix qd a k
  assume "queue_ok qd" and "fresh_claim_id a qd"
  then show "claim_owner qd k \<noteq> Some a"
    by (auto simp: claim_owner_iff queue_ok_def fresh_claim_id_def)
next
  fix qd a k j
  assume "queue_ok qd" and f: "fresh_claim_id a qd"
  show "claim_owner (claim_one now k a qd) j =
      (if j = k \<and> claim_owner qd k = None then Some a else claim_owner qd j)"
    using claim_owner_None [of qd k]
    by (auto simp: claim_one_eq [OF f] claim_owner_append split: option.splits)
next
  fix qd a k j
  assume "queue_ok qd"
  then show "claim_owner ((snd \<circ> cleanup_work_unit a k) qd) j =
      (if j = k \<and> claim_owner qd k = Some a then None else claim_owner qd j)"
    by (simp add: owner_cleanup queue_ok_def)
qed

section \<open>Lemmas on claiming and sweeping\<close>

definition claim_row :: "timestamp \<Rightarrow> string \<times> string \<Rightarrow> active_session" where
  "claim_row now ka = \<lparr>aq_id = snd ka, aq_work_unit_key = fst ka, aq_last_updated = now\<rparr>"

lemma claim_work_units_frame:
  "claim_work_units now ks qd = (claimed, qd') \<Longrightarrow>
   qd_items qd' = qd_items qd \<and> qd_next_id qd' = qd_next_id qd
   \<and> qd_claims qd' = qd_claims qd @ map (claim_row now) claimed \<and> set claimed \<subseteq> set ks"
proof (induction now ks qd arbitrary: claimed qd' rule: claim_work_units.induct)
  case (2 now key f rest qd)
  show ?case
  proof (cases "claimed_key qd key \<or> list_ex (\<lambda>c. aq_id c = f) (qd_claims qd)")
    case True
    with "2.prems" have "claim_work_units now rest qd = (claimed, qd')" by simp
    from "2.IH"(1) [OF True this] show ?thesis by auto
  next
    case False
    let ?qd = "qd\<lparr>qd_claims := qd_claims qd @ [\<lparr>aq_id = f, aq_work_unit_key = key, aq_last_updated = now\<rparr>]\<rparr>"
    obtain cl qd2 where c: "claim_work_units now rest ?qd = (cl, qd2)" by fastforce
    with "2.prems" False have "claimed = (key, f) # cl" "qd' = qd2" by simp_all
    with "2.IH"(2) [OF False c] show ?thesis by (auto simp: claim_row_def)
  qed
qed simp

lemma claim_work_units_new:
  "claim_work_units now ks qd = (claimed, qd') \<Longrightarrow> (k, a) \<in> set claimed \<Longrightarrow>
   \<not> claimed_key qd k \<and> fresh_claim_id a qd"
proof (induction now ks qd arbitrary: claimed qd' rule: claim_work_units.induct)
  case (2 now key f rest qd)
  show ?case
  proof (cases "claimed_key qd key \<or> list_ex (\<lambda>c. aq_id c = f) (qd_claims qd)")
    case True
    with "2.prems" have "claim_work_units now rest qd = (claimed, qd')" by simp
    from "2.IH"(1) [OF True this "2.prems"(2)] show ?thesis .
  next
    case False
    let ?qd = "qd\<lparr>qd_claims := qd_claims qd @ [\<lparr>aq_id = f, aq_work_unit_key = key, aq_last_updated = now\<rparr>]\<rparr>"
    obtain cl qd2 where c: "claim_work_units now rest ?qd = (cl, qd2)" by fastforce
    with "2.prems"(1) False have "claimed = (key, f) # cl" by simp
    then consider "k = key" "a = f" | "(k, a) \<in> set cl" using "2.prems"(2) by auto
    then show ?thesis
    proof cases
      case 1
      with False show ?thesis by (auto simp: fresh_claim_id_def list_ex_iff)
    next
      case 2
      from "2.IH"(2) [OF False c 2] show ?thesis
        by (simp add: claimed_key_iff fresh_claim_id_def)
    qed
  qed
qed simp

lemma claim_work_units_keys_distinct:
  assumes "queue_ok qd" and "claim_work_units now ks qd = (claimed, qd')"
  shows "distinct (map fst claimed)" and "distinct (map snd claimed)"
proof -
  have "claims_ok qd'"
    using claim_work_units_ok [OF assms(1), of now ks] assms(2) by (simp add: queue_ok_def)
  then show "distinct (map fst claimed)" and "distinct (map snd claimed)"
    using claim_work_units_frame [OF assms(2)] by (auto simp: claims_ok_def claim_row_def comp_def)
qed

lemma claim_work_units_complete:
  "claim_work_units now ks qd = (claimed, qd') \<Longrightarrow> distinct (map fst ks) \<Longrightarrow> distinct (map snd ks) \<Longrightarrow>
   (k, a) \<in> set ks \<Longrightarrow> \<not> claimed_key qd k \<Longrightarrow> fresh_claim_id a qd \<Longrightarrow> (k, a) \<in> set claimed"
proof (induction now ks qd arbitrary: claimed qd' rule: claim_work_units.induct)
  case (2 now key f rest qd)
  show ?case
  proof (cases "claimed_key qd key \<or> list_ex (\<lambda>c. aq_id c = f) (qd_claims qd)")
    case True
    then have "(k, a) \<noteq> (key, f)"
      using "2.prems"(5,6) by (auto simp: fresh_claim_id_def list_ex_iff)
    with 2 True show ?thesis by auto
  next
    case False
    let ?qd = "qd\<lparr>qd_claims := qd_claims qd @ [\<lparr>aq_id = f, aq_work_unit_key = key, aq_last_updated = now\<rparr>]\<rparr>"
    obtain cl qd2 where c: "claim_work_units now rest ?qd = (cl, qd2)" by fastforce
    show ?thesis
    proof (cases "(k, a) = (key, f)")
      case True
      with 2 False c show ?thesis by auto
    next
      case other: False
      then have m: "(k, a) \<in> set rest" using "2.prems"(4) by auto
      then have "k \<noteq> key" and "a \<noteq> f" using "2.prems"(2,3) by force+
      then have "\<not> claimed_key ?qd k" and "fresh_claim_id a ?qd"
        using "2.prems"(5,6) by (auto simp: claimed_key_iff fresh_claim_id_def)
      with "2.IH"(2) [OF False c] m "2.prems"(2,3) have "(k, a) \<in> set cl" by auto
      with "2.prems"(1) False c show ?thesis by auto
    qed
  qed
qed simp

lemma swept_claims:
  assumes "claims_ok qd"
  shows "qd_claims (cleanup_stale_work_units ds now locked qd) =
    filter (\<lambda>c. aq_last_updated c \<ge> stale_claim_cutoff ds now \<or> aq_id c \<in> set locked) (qd_claims qd)"
proof -
  define stale where "stale c \<longleftrightarrow> aq_last_updated c < stale_claim_cutoff ds now \<and> aq_id c \<notin> set locked"
    for c :: active_session
  let ?ids = "map aq_id (sort_key aq_last_updated (filter stale (qd_claims qd)))"
  have ids: "set ?ids = aq_id ` {c \<in> set (qd_claims qd). stale c}" by simp
  have keep: "aq_id c \<notin> set ?ids \<longleftrightarrow> \<not> stale c" if "c \<in> set (qd_claims qd)" for c
    unfolding ids using claims_ok_eq(1) [OF assms that] that by auto
  have sweep: "qd_claims (cleanup_stale_work_units ds now locked qd) =
      (if ?ids \<noteq> [] then filter (\<lambda>c. aq_id c \<notin> set ?ids) (qd_claims qd) else qd_claims qd)"
    by (simp add: cleanup_stale_work_units_def Let_def stale_def [abs_def])
  have "qd_claims (cleanup_stale_work_units ds now locked qd) = filter (\<lambda>c. \<not> stale c) (qd_claims qd)"
  proof (cases "?ids = []")
    case True
    then have "\<forall>c \<in> set (qd_claims qd). \<not> stale c" using ids by (metis (mono_tags) keep empty_iff set_empty)
    with True show ?thesis by (simp add: sweep)
  next
    case False
    have "filter (\<lambda>c. aq_id c \<notin> set ?ids) (qd_claims qd) = filter (\<lambda>c. \<not> stale c) (qd_claims qd)"
      by (rule filter_cong [OF refl keep])
    with False sweep show ?thesis by simp
  qed
  then show ?thesis by (simp add: stale_def not_less disj_commute [of "_ \<in> _"])
qed

lemma swept_items [simp]:
  "qd_items (cleanup_stale_work_units ds now locked qd) = qd_items qd"
  by (simp add: cleanup_stale_work_units_def Let_def)

lemma unclaimed_after_sweep:
  assumes "claims_ok qd"
  shows "unclaimed_work_unit_clause (cleanup_stale_work_units ds now [] qd) k
     = not_live_claimed_work_unit_clause ds now qd k"
  by (auto simp: unclaimed_work_unit_clause_def not_live_claimed_work_unit_clause_def claimed_key_iff
      swept_claims [OF assms] list_ex_iff)

lemma swept_keys [simp]: "work_unit_keys (cleanup_stale_work_units ds now locked qd) = work_unit_keys qd"
  by (simp add: work_unit_keys_def unprocessed_items_def)

lemma swept_threshold [simp]:
  "passes_threshold ds now db (cleanup_stale_work_units ds now' locked qd) k = passes_threshold ds now db qd k"
  by (simp add: passes_threshold_def total_tokens_of_def oldest_tokened_def token_rows_def unprocessed_items_def)

lemma available_mem:
  "k \<in> set (available_work_units ds now db n qd) \<Longrightarrow>
   pending_with_key qd k \<and> \<not> claimed_key qd k \<and> passes_threshold ds now db qd k"
  by (auto simp: available_work_units_def unclaimed_work_unit_clause_def work_unit_keys_pending
      dest!: in_set_takeD)

lemma available_all:
  assumes "length (work_unit_keys qd) \<le> n"
  shows "k \<in> set (available_work_units ds now db n qd) \<longleftrightarrow>
    pending_with_key qd k \<and> \<not> claimed_key qd k \<and> passes_threshold ds now db qd k"
proof -
  let ?P = "\<lambda>key. unclaimed_work_unit_clause qd key \<and> passes_threshold ds now db qd key"
  have "length (filter ?P (work_unit_keys qd)) \<le> n"
    using assms length_filter_le order_trans by blast
  then show ?thesis
    by (auto simp: available_work_units_def unclaimed_work_unit_clause_def work_unit_keys_pending)
qed

lemma available_distinct: "distinct (available_work_units ds now db n qd)"
  by (simp add: available_work_units_def)

lemma available_length: "length (available_work_units ds now db n qd) \<le> n"
  by (simp add: available_work_units_def)

lemma sorted_length_filter:
  "length (available_work_units ds now db n qd) =
   min n (length (filter (\<lambda>key. unclaimed_work_unit_clause qd key \<and> passes_threshold ds now db qd key)
     (work_unit_keys qd)))"
  by (simp add: available_work_units_def)

lemma claimed_owner:
  assumes "queue_ok qd" and "claim_work_units now ks qd = (claimed, qd')" and "(k, a) \<in> set claimed"
  shows "claim_owner qd k = None" and "claim_owner qd' k = Some a"
proof -
  have "queue_ok qd'" using claim_work_units_ok [OF assms(1), of now ks] assms(2) by simp
  then have ok: "claims_ok qd'" by (simp add: queue_ok_def)
  show "claim_owner qd k = None"
    using claim_work_units_new [OF assms(2,3)] by (simp add: claim_owner_None)
  have "claim_row now (k, a) \<in> set (qd_claims qd')"
    using claim_work_units_frame [OF assms(2)] assms(3) by force
  then show "claim_owner qd' k = Some a"
    unfolding claim_owner_iff [OF ok] by (rule bexI [rotated]) (simp add: claim_row_def)
qed

lemma other_owner:
  assumes "queue_ok qd" and "claim_work_units now ks qd = (claimed, qd')" and "k \<notin> fst ` set claimed"
  shows "claim_owner qd' k = claim_owner qd k"
proof -
  have "queue_ok qd'" using claim_work_units_ok [OF assms(1), of now ks] assms(2) by simp
  then have ok: "claims_ok qd'" "claims_ok qd" using assms(1) by (simp_all add: queue_ok_def)
  have "claim_owner qd' k = Some a \<longleftrightarrow> claim_owner qd k = Some a" for a
    unfolding claim_owner_iff [OF ok(1)] claim_owner_iff [OF ok(2)]
    using claim_work_units_frame [OF assms(2)] assms(3) by (force simp: claim_row_def)
  then show ?thesis by (metis not_Some_eq)
qed

section \<open>Properties\<close>

text \<open>Claims are exclusive: every key the claim statement returns was free before and is held by
  exactly the returned id afterwards, every other key keeps its owner, no item changes, and the
  unique constraints of the tables are kept.\<close>

theorem claim_work_units_exclusive:
  assumes "queue_ok qd" and "claim_work_units now ks qd = (claimed, qd')"
  shows "queue_ok qd' \<and> qd_items qd' = qd_items qd
    \<and> (\<forall>(k, a) \<in> set claimed. claim_owner qd k = None \<and> claim_owner qd' k = Some a)
    \<and> (\<forall>k. k \<notin> fst ` set claimed \<longrightarrow> claim_owner qd' k = claim_owner qd k)"
  using claimed_owner [OF assms] other_owner [OF assms] claim_work_units_frame [OF assms(2)]
    claim_work_units_ok [OF assms(1), of now ks] assms(2) by auto

text \<open>What a poll may claim: with room for every pending work unit, the available ones are
  exactly those with a pending item and no claim which are not representations, or whose messages
  reach the target tokens or whose oldest pending item is old enough, or for which the gate is off.\<close>

theorem available_work_units_gate:
  assumes "length (work_unit_keys qd) \<le> n"
  shows "k \<in> set (available_work_units ds now db n qd) \<longleftrightarrow>
    pending_with_key qd k \<and> claim_owner qd k = None
    \<and> (FLUSH_ENABLED ds \<or> REPRESENTATION_BATCH_WORK_UNIT_TARGET_TOKENS ds \<le> 0
       \<or> \<not> starts_with ''representation:'' k
       \<or> REPRESENTATION_BATCH_WORK_UNIT_TARGET_TOKENS ds
           \<le> sum_list (map (\<lambda>(i, m). ms_token_count m) (token_rows db qd k))
       \<or> (REPRESENTATION_BATCH_MAX_AGE_SECONDS ds > 0
          \<and> (\<exists>t. oldest_tokened db qd k = Some t
                 \<and> t \<le> now - seconds (REPRESENTATION_BATCH_MAX_AGE_SECONDS ds))))"
proof -
  have "(case total_tokens_of db qd k of None \<Rightarrow> 0 | Some n \<Rightarrow> n)
      = sum_list (map (\<lambda>(i, m). ms_token_count m) (token_rows db qd k))"
    by (simp add: total_tokens_of_def split: list.splits)
  then show ?thesis
    by (auto simp: available_all [OF assms] claim_owner_None passes_threshold_def
        representation_batch_threshold_clause_def REPRESENTATION_WORK_UNIT_PREFIX_def Let_def
        split: option.splits)
qed

text \<open>The autoscaling metric counts what the next poll finds: the number of eligible work units
  is the number a poll with enough workers would find after sweeping the stale claims (with no
  claim row locked by another transaction), and a poll never finds more than it has workers for.\<close>

theorem eligible_metric_matches_poll:
  assumes "queue_ok qd"
  shows "length (available_work_units ds now db n (cleanup_stale_work_units ds now [] qd))
       = min n (dm_eligible_work_units (get_deriver_metrics ds now db qd))"
proof -
  have "claims_ok qd" using assms by (simp add: queue_ok_def)
  then show ?thesis
    by (simp add: sorted_length_filter get_deriver_metrics_def unclaimed_after_sweep)
qed

section \<open>Witnesses\<close>

definition example_item :: "int \<Rightarrow> string \<Rightarrow> string \<Rightarrow> int option \<Rightarrow> queue_item" where
  "example_item n key tt mid =
     \<lparr>qi_id = n, qi_session_id = Some ''S2'', qi_work_unit_key = key, qi_task_type = tt, qi_payload = [],
      qi_processed = False, qi_error = None, qi_created_at = n, qi_workspace_name = Some ''w'',
      qi_message_id = mid\<rparr>"

definition example_queue :: queue_db where
  "example_queue =
     \<lparr>qd_items = [example_item 1 ''representation:w:s:alice'' ''representation'' (Some 1),
                  example_item 2 ''summary:w:s:None:None'' ''summary'' (Some 1),
                  example_item 3 ''webhook:w'' ''webhook'' None],
      qd_claims = [\<lparr>aq_id = ''a0'', aq_work_unit_key = ''webhook:w'', aq_last_updated = 0\<rparr>],
      qd_next_id = 4\<rparr>"

definition example_deriver :: deriver_settings where
  "example_deriver =
     \<lparr>WORKERS = 2, POLLING_SLEEP_INTERVAL_SECONDS = 1, POLLING_BACKOFF_ENABLED = True,
      POLLING_SLEEP_MAX_INTERVAL_SECONDS = 30, POLLING_BACKOFF_MULTIPLIER = 2, POLLING_JITTER_RATIO = 0,
      STALE_SESSION_TIMEOUT_MINUTES = 5, STALE_WORK_UNIT_CLEANUP_INTERVAL_SECONDS = 60,
      REPRESENTATION_BATCH_WORK_UNIT_TARGET_TOKENS = 512, REPRESENTATION_BATCH_TARGET_INPUT_TOKENS = 1024,
      REPRESENTATION_BATCH_MAX_AGE_SECONDS = 0, FLUSH_ENABLED = False,
      SCHEDULER = ''deriver''\<rparr>"

lemma example_queue_ok: "queue_ok example_queue"
  by code_simp

theorem claim_work_units_exclusive_witness:
  "claim_owner (snd (claim_work_units 9 [(''webhook:w'', ''a1''), (''summary:w:s:None:None'', ''a2'')] example_queue))
     ''webhook:w'' = Some ''a0''
   \<and> claim_owner (snd (claim_work_units 9 [(''webhook:w'', ''a1''), (''summary:w:s:None:None'', ''a2'')] example_queue))
     ''summary:w:s:None:None'' = Some ''a2''"
proof -
  let ?r = "claim_work_units 9 [(''webhook:w'', ''a1''), (''summary:w:s:None:None'', ''a2'')] example_queue"
  have c: "fst ?r = [(''summary:w:s:None:None'', ''a2'')]" and o: "claim_owner example_queue ''webhook:w'' = Some ''a0''"
    by code_simp+
  have r: "?r = (fst ?r, snd ?r)" by simp
  from claim_work_units_exclusive [OF example_queue_ok r]
  show ?thesis unfolding c using o by simp
qed

theorem available_work_units_gate_witness:
  "''summary:w:s:None:None'' \<in> set (available_work_units example_deriver 9 example_tables 5 example_queue)
   \<and> ''representation:w:s:alice'' \<notin> set (available_work_units example_deriver 9 example_tables 5 example_queue)"
proof -
  have n: "length (work_unit_keys example_queue) \<le> 5" by code_simp
  have k: "pending_with_key example_queue ''summary:w:s:None:None''"
    "claim_owner example_queue ''summary:w:s:None:None'' = None"
    "\<not> starts_with ''representation:'' ''summary:w:s:None:None''"
    "starts_with ''representation:'' ''representation:w:s:alice''"
    "sum_list (map (\<lambda>(i, m). ms_token_count m) (token_rows example_tables example_queue ''representation:w:s:alice'')) = 1"
    "REPRESENTATION_BATCH_WORK_UNIT_TARGET_TOKENS example_deriver = 512"
    "REPRESENTATION_BATCH_MAX_AGE_SECONDS example_deriver = 0" "\<not> FLUSH_ENABLED example_deriver"
    by code_simp+
  show ?thesis
    unfolding available_work_units_gate [OF n] using k by simp
qed

theorem eligible_metric_matches_poll_witness:
  "length (available_work_units example_deriver (seconds 1000) example_tables 1
     (cleanup_stale_work_units example_deriver (seconds 1000) [] example_queue)) = 1"
proof -
  have "dm_eligible_work_units (get_deriver_metrics example_deriver (seconds 1000) example_tables example_queue) = 2"
    by code_simp
  with eligible_metric_matches_poll [OF example_queue_ok, of example_deriver "seconds 1000" example_tables 1]
  show ?thesis by simp
qed

end
