(* ===== verification/Enqueue.thy ===== *)
theory Enqueue
  imports QueuePayload QueueDb ScopePeers
begin

text \<open>
  Producing queue items (src/src/deriver/enqueue.py) with the lookups it makes in src/src/crud/session.py
  and src/src/crud/message.py. A message is the dictionary the API builds; its \<open>configuration\<close> entry
  is the dump of the message configuration. The session and workspace rows that
  \<open>get_or_create_session\<close> and \<open>get_workspace\<close> return are arguments. Where a check and the insert it
  guards are separate statements, the state each of them sees is a separate argument, since other
  transactions may commit in between.
\<close>

section \<open>Peers of a session\<close>

definition session_peer_rows :: "tables \<Rightarrow> string \<Rightarrow> string \<Rightarrow> (peer_row \<times> session_peer_row) list" where
  "session_peer_rows db workspace_name session_name =
     concat (map (\<lambda>p. map (\<lambda>sp. (p, sp))
        (filter (\<lambda>sp. pe_name p = sp_peer sp \<and> pe_workspace p = sp_workspace sp
                      \<and> sp_session sp = session_name \<and> sp_workspace sp = workspace_name)
          (t_session_peers db)))
       (filter (\<lambda>p. pe_workspace p = workspace_name) (t_peers db)))"

type_synonym peer_conf = "pydict \<times> pydict \<times> bool"

definition get_peers_with_configuration ::
  "tables \<Rightarrow> string \<Rightarrow> string \<Rightarrow> (string \<times> peer_conf) list" where
  "get_peers_with_configuration db workspace_name session_name =
     foldl (\<lambda>d (p, sp). dset d (pe_name p) (pe_configuration p, sp_configuration sp, sp_left_at sp = None))
       [] (session_peer_rows db workspace_name session_name)"

text \<open>\<open>PeerConfig(**d)\<close> and \<open>SessionPeerConfig(**d)\<close>: optional booleans, other keys ignored.\<close>

definition optional_bool :: "validators \<Rightarrow> pydict \<Rightarrow> string \<Rightarrow> bool option res" where
  "optional_bool vd d k =
     (case dget_none d k of
        PNone \<Rightarrow> Inr None
      | v \<Rightarrow> (case lax_bool vd v of None \<Rightarrow> Inl PydanticValidationError | Some b \<Rightarrow> Inr (Some b)))"

definition peer_config :: "validators \<Rightarrow> pydict \<Rightarrow> bool option res" where
  "peer_config vd d = optional_bool vd d ''observe_me''"

definition session_peer_config :: "validators \<Rightarrow> pydict \<Rightarrow> (bool option \<times> bool option) res" where
  "session_peer_config vd d =
     res_bind (optional_bool vd d ''observe_me'') (\<lambda>me.
     res_map (\<lambda>others. (me, others)) (optional_bool vd d ''observe_others''))"

definition get_effective_observe_me ::
  "validators \<Rightarrow> string \<Rightarrow> (string \<times> peer_conf) list \<Rightarrow> bool res" where
  "get_effective_observe_me vd observed peers_with_configuration =
     (let (peer_conf, session_conf) =
            (case dget peers_with_configuration observed of
               None \<Rightarrow> ([], [])
             | Some (pc, sc, _) \<Rightarrow> (pc, sc))
      in res_bind (if session_conf \<noteq> [] then res_map Some (session_peer_config vd session_conf) else Inr None)
           (\<lambda>sender_session_peer_config.
         res_bind (if peer_conf \<noteq> [] then peer_config vd peer_conf else Inr None) (\<lambda>sender_peer_config.
           Inr (case sender_session_peer_config of
                  Some (Some me, _) \<Rightarrow> me
                | _ \<Rightarrow> (case sender_peer_config of Some me \<Rightarrow> me | None \<Rightarrow> True)))))"

section \<open>Records\<close>

text \<open>The integer value of something \<open>isinstance(v, int)\<close> accepts.\<close>

fun int_value :: "pyval \<Rightarrow> int option" where
  "int_value (PInt n) = Some n"
| "int_value (PBool b) = Some (if b then 1 else 0)"
| "int_value _ = None"

definition make_record ::
  "string \<Rightarrow> pydict \<Rightarrow> string option \<Rightarrow> string \<Rightarrow> int option \<Rightarrow> queue_record res" where
  "make_record workspace_name payload session_id task_type message_id =
     res_map (\<lambda>key. \<lparr>qr_work_unit_key = key, qr_payload = payload, qr_session_id = session_id,
                     qr_task_type = task_type, qr_workspace_name = Some workspace_name,
                     qr_message_id = message_id\<rparr>)
       (construct_work_unit_key workspace_name (DictPayload payload))"

definition create_representation_record ::
  "(timestamp \<Rightarrow> string) \<Rightarrow> pydict \<Rightarrow> resolved_configuration \<Rightarrow> string option \<Rightarrow> string list \<Rightarrow> string
     \<Rightarrow> queue_record res" where
  "create_representation_record isoformat message conf session_id observers observed =
     (case dget_none message ''workspace_name'' of
        PStr workspace_name \<Rightarrow>
          (case int_value (dget_none message ''message_id'') of
             None \<Rightarrow> Inl TypeError
           | Some message_id \<Rightarrow>
               res_bind (create_payload isoformat message conf ''representation'' None (Some observers)
                          (Some observed)) (\<lambda>processed_payload.
               make_record workspace_name processed_payload session_id ''representation'' (Some message_id)))
      | _ \<Rightarrow> Inl TypeError)"

definition create_summary_record ::
  "(timestamp \<Rightarrow> string) \<Rightarrow> pydict \<Rightarrow> resolved_configuration \<Rightarrow> string \<Rightarrow> int \<Rightarrow> queue_record res" where
  "create_summary_record isoformat message configuration session_id message_seq_in_session =
     (case dget_none message ''workspace_name'' of
        PStr workspace_name \<Rightarrow>
          (case int_value (dget_none message ''message_id'') of
             None \<Rightarrow> Inl ValueError
           | Some message_id \<Rightarrow>
               res_bind (create_payload isoformat message configuration ''summary''
                          (Some message_seq_in_session) None None) (\<lambda>processed_payload.
               make_record workspace_name processed_payload (Some session_id) ''summary'' (Some message_id)))
      | _ \<Rightarrow> Inl ValueError)"

section \<open>The records of one message\<close>

definition get_message_seq_in_session :: "tables \<Rightarrow> pyval \<Rightarrow> pyval \<Rightarrow> pyval \<Rightarrow> int" where
  "get_message_seq_in_session db workspace_name session_name message_id =
     (case List.find (\<lambda>m. PStr (ms_workspace m) = workspace_name \<and> PStr (ms_session m) = session_name
                          \<and> int_value message_id = Some (ms_id m)) (t_messages db) of
        None \<Rightarrow> 0
      | Some m \<Rightarrow> ms_seq m)"

text \<open>\<open>message[k]\<close>, \<open>int(v)\<close> and \<open>a % b\<close>; the text form of an integer is outside the model.\<close>

definition item_of :: "pydict \<Rightarrow> string \<Rightarrow> pyval res" where
  "item_of d k = (case dget d k of None \<Rightarrow> Inl KeyError | Some v \<Rightarrow> Inr v)"

fun py_int :: "pyval \<Rightarrow> int res" where
  "py_int (PInt n) = Inr n"
| "py_int (PBool b) = Inr (if b then 1 else 0)"
| "py_int (PFloat (Finite r)) = Inr (if r < 0 then \<lceil>r\<rceil> else \<lfloor>r\<rfloor>)"
| "py_int (PFloat NotANumber) = Inl ValueError"
| "py_int (PFloat _) = Inl OverflowError"
| "py_int (PStr _) = Inl OutOfModel"
| "py_int _ = Inl TypeError"

definition py_mod :: "int \<Rightarrow> int \<Rightarrow> int res" where
  "py_mod a b = (if b = 0 then Inl ZeroDivisionError else Inr (a mod b))"

definition message_seq :: "tables \<Rightarrow> pydict \<Rightarrow> int res" where
  "message_seq db message =
     (let v = dget_none message ''seq_in_session'' in
      res_bind (if truthy v then py_int v else Inr 0) (\<lambda>n.
        if n \<le> 0 then
          res_bind (item_of message ''workspace_name'') (\<lambda>w.
          res_bind (item_of message ''session_name'') (\<lambda>s.
          res_bind (item_of message ''message_id'') (\<lambda>m.
            Inr (get_message_seq_in_session db w s m))))
        else Inr n))"

text \<open>Whether a summary is due at a sequence number; the second modulus only if the first is not zero.\<close>

definition summary_due :: "resolved_configuration \<Rightarrow> int \<Rightarrow> bool res" where
  "summary_due conf n =
     (if \<not> sum_enabled (rc_summary conf) then Inr False
      else res_bind (py_mod n (sum_short (rc_summary conf))) (\<lambda>r.
        if r = 0 then Inr True else res_map (\<lambda>r. r = 0) (py_mod n (sum_long (rc_summary conf)))))"

text \<open>The other peers that observe a sender: in the session and asked to observe others.\<close>

fun other_observers ::
  "validators \<Rightarrow> string \<Rightarrow> (string \<times> peer_conf) list \<Rightarrow> string list res" where
  "other_observers vd observed [] = Inr []"
| "other_observers vd observed ((peer_name, (_, session_conf, is_active)) # rest) =
     (if peer_name = observed then other_observers vd observed rest
      else if \<not> is_active then other_observers vd observed rest
      else res_bind (if session_conf \<noteq> [] then res_map Some (session_peer_config vd session_conf) else Inr None)
        (\<lambda>c. case c of
               Some (_, Some True) \<Rightarrow> res_map (Cons peer_name) (other_observers vd observed rest)
             | _ \<Rightarrow> other_observers vd observed rest))"

definition observers_of ::
  "validators \<Rightarrow> string \<Rightarrow> bool \<Rightarrow> (string \<times> peer_conf) list \<Rightarrow> string list res" where
  "observers_of vd observed should_observe peers_with_configuration =
     (if should_observe then res_map (Cons observed) (other_observers vd observed peers_with_configuration)
      else Inr [])"

definition generate_queue_records ::
  "validators \<Rightarrow> (timestamp \<Rightarrow> string) \<Rightarrow> tables \<Rightarrow> pydict \<Rightarrow> (string \<times> peer_conf) list \<Rightarrow> string
     \<Rightarrow> resolved_configuration \<Rightarrow> queue_record list res" where
  "generate_queue_records vd isoformat db message peers_with_configuration session_id conf =
     res_bind (item_of message ''peer_name'') (\<lambda>peer_name.
     res_bind (item_of message ''message_id'') (\<lambda>_.
     (case peer_name of
        PStr observed \<Rightarrow>
          res_bind (message_seq db message) (\<lambda>message_seq_in_session.
          res_bind (summary_due conf message_seq_in_session) (\<lambda>due.
          res_bind (if due then res_map (\<lambda>r. [r])
                      (create_summary_record isoformat message conf session_id message_seq_in_session)
                    else Inr []) (\<lambda>records.
          res_bind (get_effective_observe_me vd observed peers_with_configuration) (\<lambda>should_observe.
            if \<not> rea_enabled (rc_reasoning conf) then Inr records
            else res_bind (observers_of vd observed should_observe peers_with_configuration) (\<lambda>observers.
              if observers = [] then Inr records
              else res_map (\<lambda>r. records @ [r])
                (create_representation_record isoformat message conf (Some session_id) observers observed))))))
      | _ \<Rightarrow> Inl OutOfModel)))"

section \<open>Enqueueing messages\<close>

definition handle_session ::
  "validators \<Rightarrow> settings \<Rightarrow> (timestamp \<Rightarrow> string) \<Rightarrow> tables \<Rightarrow> pydict list \<Rightarrow> string \<Rightarrow> string
     \<Rightarrow> session_row \<Rightarrow> workspace_row \<Rightarrow> queue_record list res" where
  "handle_session vd st isoformat db payload workspace_name session_name session workspace =
     (let sc = Some (se_configuration session); wc = Some (ws_configuration workspace) in
      res_bind (get_configuration vd st None sc wc) (\<lambda>session_level_configuration.
        let peers = get_peers_with_configuration db workspace_name session_name in
        res_map concat (traverse (\<lambda>message.
          res_bind (case dget_none message ''configuration'' of
                      PNone \<Rightarrow> Inr session_level_configuration
                    | PDict c \<Rightarrow> get_configuration vd st (Some c) sc wc
                    | _ \<Rightarrow> Inl AttributeError)
            (generate_queue_records vd isoformat db message peers (se_id session))) payload)))"

text \<open>Everything that goes wrong is logged and dropped: the queue is left as it was.\<close>

definition enqueue ::
  "validators \<Rightarrow> settings \<Rightarrow> (timestamp \<Rightarrow> string) \<Rightarrow> timestamp \<Rightarrow> tables \<Rightarrow> session_row \<Rightarrow> workspace_row
     \<Rightarrow> pydict list \<Rightarrow> queue_db \<Rightarrow> queue_db" where
  "enqueue vd st isoformat now db session workspace payload qd =
     (case payload of
        [] \<Rightarrow> qd
      | first # _ \<Rightarrow>
          (case res_bind (item_of first ''workspace_name'') (\<lambda>w.
                res_bind (item_of first ''session_name'') (\<lambda>s.
                  case (w, s) of
                    (PStr workspace_name, PStr session_name) \<Rightarrow>
                      handle_session vd st isoformat db payload workspace_name session_name session workspace
                  | _ \<Rightarrow> Inl ValidationException)) of
             Inl _ \<Rightarrow> qd
           | Inr queue_records \<Rightarrow>
               if queue_records = [] then qd
               else (case insert_queue_items now queue_records qd of Inl _ \<Rightarrow> qd | Inr qd' \<Rightarrow> qd')))"

section \<open>Dreams, scope tasks and deletions\<close>

definition create_dream_record :: "string \<Rightarrow> dream_payload \<Rightarrow> queue_record res" where
  "create_dream_record workspace_name p =
     make_record workspace_name (create_dream_payload p) None ''dream'' None"

text \<open>Insert unless the key is claimed or pending; the three statements may see different states.\<close>

definition insert_unless_busy ::
  "timestamp \<Rightarrow> queue_db \<Rightarrow> queue_db \<Rightarrow> queue_db \<Rightarrow> queue_record \<Rightarrow> (bool \<times> queue_db) res" where
  "insert_unless_busy now qd_claims_seen qd_items_seen qd r =
     (if claimed_key qd_claims_seen (qr_work_unit_key r) then Inr (False, qd)
      else if pending_with_key qd_items_seen (qr_work_unit_key r) then Inr (False, qd)
      else res_map (Pair True) (insert_queue_items now [r] qd))"

definition enqueue_dream ::
  "timestamp \<Rightarrow> tables \<Rightarrow> queue_db \<Rightarrow> queue_db \<Rightarrow> string \<Rightarrow> dream_payload \<Rightarrow> queue_db \<Rightarrow> queue_db res" where
  "enqueue_dream now db qd_claims_seen qd_items_seen workspace_name p qd =
     res_bind (reject_scope_observed db workspace_name [dp_observed p]) (\<lambda>_.
     res_bind (create_dream_record workspace_name p) (\<lambda>dream_record.
       (case insert_unless_busy now qd_claims_seen qd_items_seen qd dream_record of
          Inr (_, qd') \<Rightarrow> Inr qd'
        | Inl IntegrityError \<Rightarrow> Inr qd
        | Inl e \<Rightarrow> Inl e)))"

definition create_scope_task_record ::
  "string \<Rightarrow> scope_task_type \<Rightarrow> string \<Rightarrow> string \<Rightarrow> queue_record res" where
  "create_scope_task_record workspace_name task_type scope_peer session_name =
     make_record workspace_name (create_scope_task_payload task_type scope_peer session_name) None
       (scope_task_value task_type) None"

definition insert_scope_task ::
  "string \<Rightarrow> timestamp \<Rightarrow> queue_db \<Rightarrow> queue_db \<Rightarrow> string \<Rightarrow> scope_task_type \<Rightarrow> string \<Rightarrow> string
     \<Rightarrow> queue_db \<times> tables \<Rightarrow> (bool \<times> queue_db \<times> tables) res" where
  "insert_scope_task now_isoformat now qd_claims_seen qd_items_seen workspace_name task_type scope_peer
       session_name state =
     (let (qd, db) = state in
      res_bind (create_scope_task_record workspace_name task_type scope_peer session_name) (\<lambda>r.
      res_bind (insert_unless_busy now qd_claims_seen qd_items_seen qd r) (\<lambda>(inserted, qd').
        if \<not> inserted then Inr (False, qd, db)
        else if task_type = ScopeBackfillTask then
          res_map (\<lambda>db'. (True, qd', db'))
            (update_scope_backfill_status now_isoformat db workspace_name scope_peer session_name
               BackfillPending None)
        else Inr (True, qd', db))))"

text \<open>In a transaction of its own: an exception rolls both tables back and is raised again.\<close>

definition enqueue_scope_task ::
  "string \<Rightarrow> timestamp \<Rightarrow> queue_db \<Rightarrow> queue_db \<Rightarrow> string \<Rightarrow> scope_task_type \<Rightarrow> string \<Rightarrow> string
     \<Rightarrow> queue_db \<times> tables \<Rightarrow> (queue_db \<times> tables) res" where
  "enqueue_scope_task now_isoformat now qd_claims_seen qd_items_seen workspace_name task_type scope_peer
       session_name state =
     res_map (\<lambda>(inserted, qd', db'). if \<not> inserted then state else (qd', db'))
       (insert_scope_task now_isoformat now qd_claims_seen qd_items_seen workspace_name task_type scope_peer
          session_name state)"

definition enqueue_scope_backfill ::
  "string \<Rightarrow> timestamp \<Rightarrow> queue_db \<Rightarrow> queue_db \<Rightarrow> string \<Rightarrow> string \<Rightarrow> string
     \<Rightarrow> queue_db \<times> tables \<Rightarrow> (queue_db \<times> tables) res" where
  "enqueue_scope_backfill now_isoformat now c i workspace_name scope_peer session_name =
     enqueue_scope_task now_isoformat now c i workspace_name ScopeBackfillTask scope_peer session_name"

definition enqueue_scope_removal ::
  "string \<Rightarrow> timestamp \<Rightarrow> queue_db \<Rightarrow> queue_db \<Rightarrow> string \<Rightarrow> string \<Rightarrow> string
     \<Rightarrow> queue_db \<times> tables \<Rightarrow> (queue_db \<times> tables) res" where
  "enqueue_scope_removal now_isoformat now c i workspace_name scope_peer session_name =
     enqueue_scope_task now_isoformat now c i workspace_name ScopeRemovalTask scope_peer session_name"

definition create_deletion_record :: "string \<Rightarrow> deletion_type \<Rightarrow> string \<Rightarrow> queue_record res" where
  "create_deletion_record workspace_name deletion_type resource_id =
     make_record workspace_name (create_deletion_payload deletion_type resource_id) None ''deletion'' None"

definition enqueue_deletion ::
  "timestamp \<Rightarrow> string \<Rightarrow> deletion_type \<Rightarrow> string \<Rightarrow> queue_db \<Rightarrow> queue_db res" where
  "enqueue_deletion now workspace_name deletion_type resource_id qd =
     res_bind (create_deletion_record workspace_name deletion_type resource_id) (\<lambda>r.
       insert_queue_items now [r] qd)"

section \<open>Lemmas\<close>

text \<open>Keys of the records: each is the key of the abstract work unit it stands for.\<close>

lemma key_of_payload:
  assumes "construct_work_unit_key w (DictPayload p) = Inr k"
  shows "w \<noteq> []"
  using assms by (auto simp: construct_work_unit_key_def Let_def split: if_splits)

lemma make_record_Inr:
  "make_record w p sid tt mid = Inr r \<longleftrightarrow>
   (\<exists>k. construct_work_unit_key w (DictPayload p) = Inr k
      \<and> r = \<lparr>qr_work_unit_key = k, qr_payload = p, qr_session_id = sid, qr_task_type = tt,
             qr_workspace_name = Some w, qr_message_id = mid\<rparr>)"
  by (auto simp: make_record_def res_simps)

lemma representation_key:
  "w \<noteq> [] \<Longrightarrow> construct_work_unit_key w (DictPayload (dump_representation isoformat p)) =
     Inr (wu_key (Representation w (rp_session_name p) (rp_observed p)))"
  by (simp add: construct_work_unit_key_def construct_typed_def dget_default_def payload_simps key_of_def
      wu_key_def Let_def)

lemma summary_key:
  "w \<noteq> [] \<Longrightarrow> construct_work_unit_key w (DictPayload (dump_summary p)) =
     Inr (wu_key (Summary w (sy_session_name p) ''None'' ''None''))"
  by (simp add: construct_work_unit_key_def construct_typed_def dget_default_def payload_simps key_of_def
      wu_key_def Let_def)

lemma dream_type_value_nonempty [simp]: "dream_type_value t \<noteq> []"
  by (cases t) auto

lemma dget_dream_payload [payload_simps]:
  "dget (create_dream_payload p) ''task_type'' = Some (PStr ''dream'')"
  "dget (create_dream_payload p) ''dream_type'' = Some (PStr (dream_type_value (dp_dream_type p)))"
  "dget (create_dream_payload p) ''observer'' = Some (PStr (dp_observer p))"
  "dget (create_dream_payload p) ''observed'' = Some (PStr (dp_observed p))"
  "dget (create_dream_payload p) ''session_name'' = map_option PStr (dp_session_name p)"
  by (cases "dp_session_name p"; simp add: create_dream_payload_def)+

lemma dream_key:
  "w \<noteq> [] \<Longrightarrow> construct_work_unit_key w (DictPayload (create_dream_payload p)) =
     Inr (wu_key (Dream w (dream_type_value (dp_dream_type p)) (dp_observer p) (dp_observed p)))"
  by (simp add: construct_work_unit_key_def construct_typed_def dget_default_def payload_simps key_of_def
      wu_key_def Let_def)

lemma create_representation_record_Inr:
  assumes "create_representation_record isoformat m c sid obs od = Inr r"
  shows "\<exists>w s mid content t. dget_none m ''workspace_name'' = PStr w \<and> w \<noteq> []
     \<and> dget_none m ''session_name'' = PStr s \<and> int_value (dget_none m ''message_id'') = Some mid
     \<and> dget_none m ''content'' = PStr content \<and> dget_none m ''created_at'' = PDateTime t \<and> obs \<noteq> []
     \<and> r = \<lparr>qr_work_unit_key = wu_key (Representation w s od),
            qr_payload = dump_representation isoformat
              \<lparr>rp_session_name = s, rp_content = content, rp_observers = obs, rp_observed = od,
               rp_created_at = t, rp_configuration = c\<rparr>,
            qr_session_id = sid, qr_task_type = ''representation'', qr_workspace_name = Some w,
            qr_message_id = Some mid\<rparr>"
proof -
  obtain w mid p where w: "dget_none m ''workspace_name'' = PStr w"
    and mid: "int_value (dget_none m ''message_id'') = Some mid"
    and p: "create_payload isoformat m c ''representation'' None (Some obs) (Some od) = Inr p"
    and r: "make_record w p sid ''representation'' (Some mid) = Inr r"
    using assms by (auto simp: create_representation_record_def res_simps split: pyval.splits option.splits)
  from p obtain s content t where s: "dget_none m ''session_name'' = PStr s"
    and f: "dget_none m ''content'' = PStr content" "dget_none m ''created_at'' = PDateTime t" "obs \<noteq> []"
    and pd: "p = dump_representation isoformat
          \<lparr>rp_session_name = s, rp_content = content, rp_observers = obs, rp_observed = od,
           rp_created_at = t, rp_configuration = c\<rparr>"
    by (auto simp: create_payload_cases wrap_value_error_Inr representation_payload_of_Inr well_identified_def
        is_str_iff split: if_splits)
  from r have k: "construct_work_unit_key w (DictPayload p) = Inr (qr_work_unit_key r)"
    by (auto simp: make_record_Inr)
  from key_of_payload [OF this] have wn: "w \<noteq> []" .
  from r representation_key [OF wn, of isoformat] show ?thesis
    using w mid s f wn unfolding pd by (auto simp: make_record_Inr)
qed

lemma create_summary_record_Inr:
  assumes "create_summary_record isoformat m c sid n = Inr r"
  shows "\<exists>w s mid pid. dget_none m ''workspace_name'' = PStr w \<and> w \<noteq> []
     \<and> dget_none m ''session_name'' = PStr s \<and> int_value (dget_none m ''message_id'') = Some mid
     \<and> r = \<lparr>qr_work_unit_key = wu_key (Summary w s ''None'' ''None''),
            qr_payload = dump_summary \<lparr>sy_session_name = s, sy_message_seq_in_session = n,
                            sy_configuration = c, sy_message_public_id = pid\<rparr>,
            qr_session_id = Some sid, qr_task_type = ''summary'', qr_workspace_name = Some w,
            qr_message_id = Some mid\<rparr>"
proof -
  obtain w mid p where w: "dget_none m ''workspace_name'' = PStr w"
    and mid: "int_value (dget_none m ''message_id'') = Some mid"
    and p: "create_payload isoformat m c ''summary'' (Some n) None None = Inr p"
    and r: "make_record w p (Some sid) ''summary'' (Some mid) = Inr r"
    using assms by (auto simp: create_summary_record_def res_simps split: pyval.splits option.splits)
  from p obtain s pid where s: "dget_none m ''session_name'' = PStr s"
    and pd: "p = dump_summary \<lparr>sy_session_name = s, sy_message_seq_in_session = n,
                            sy_configuration = c, sy_message_public_id = pid\<rparr>"
    by (auto simp: create_payload_cases wrap_value_error_Inr summary_payload_of_Inr well_identified_def
        is_str_iff split: if_splits)
  from r have k: "construct_work_unit_key w (DictPayload p) = Inr (qr_work_unit_key r)"
    by (auto simp: make_record_Inr)
  from key_of_payload [OF this] have wn: "w \<noteq> []" .
  from r summary_key [OF wn] show ?thesis
    using w mid s wn unfolding pd by (auto simp: make_record_Inr)
qed

text \<open>Which peers observe a sender, stated per peer.\<close>

definition observes_others :: "validators \<Rightarrow> peer_conf \<Rightarrow> bool" where
  "observes_others vd pc =
     (let (_, session_conf, is_active) = pc in
      is_active \<and> session_conf \<noteq> [] \<and>
      (case session_peer_config vd session_conf of Inr (_, Some True) \<Rightarrow> True | _ \<Rightarrow> False))"

lemma other_observers_Cons:
  assumes "other_observers vd od ((p, pc) # rest) = Inr obs"
  shows "\<exists>obs'. other_observers vd od rest = Inr obs'
    \<and> obs = (if p \<noteq> od \<and> observes_others vd pc then p # obs' else obs')"
proof -
  obtain c0 sc act where pc: "pc = (c0, sc, act)" by (cases pc)
  show ?thesis
  proof (cases "p = od \<or> \<not> act \<or> sc = []")
    case True
    with assms pc show ?thesis
      by (cases "p = od"; cases act; cases "sc = []"; simp add: observes_others_def)
  next
    case False
    with assms pc obtain me others where spc: "session_peer_config vd sc = Inr (me, others)"
      by (auto simp: res_simps)
    show ?thesis
    proof (cases "others = Some True")
      case True
      with assms False pc spc show ?thesis by (auto simp: observes_others_def res_simps)
    next
      case n: False
      then have "others = None \<or> others = Some False" by (cases others) auto
      with assms False pc spc show ?thesis by (auto simp: observes_others_def)
    qed
  qed
qed

lemma other_observers_Inr:
  "other_observers vd od peers = Inr obs \<Longrightarrow>
   obs = map fst (filter (\<lambda>(p, pc). p \<noteq> od \<and> observes_others vd pc) peers)"
proof (induction peers arbitrary: obs)
  case (Cons x rest)
  obtain p pc where x: "x = (p, pc)" by (cases x)
  from other_observers_Cons [OF Cons.prems [unfolded x]]
  obtain obs' where "other_observers vd od rest = Inr obs'"
    and "obs = (if p \<noteq> od \<and> observes_others vd pc then p # obs' else obs')" by blast
  with Cons.IH [of obs'] x show ?case by simp
qed simp

definition observer_list :: "validators \<Rightarrow> string \<Rightarrow> (string \<times> peer_conf) list \<Rightarrow> string list" where
  "observer_list vd od peers = od # map fst (filter (\<lambda>(p, pc). p \<noteq> od \<and> observes_others vd pc) peers)"

lemma observers_of_Inr:
  "observers_of vd od so peers = Inr obs \<Longrightarrow> obs = (if so then observer_list vd od peers else [])"
  by (auto simp: observers_of_def observer_list_def res_simps dest: other_observers_Inr)

lemma distinct_observer_list: "wf_dict peers \<Longrightarrow> distinct (observer_list vd od peers)"
  by (auto simp: observer_list_def wf_dict_def distinct_map_filter split_beta)

lemma wf_peers_with_configuration: "wf_dict (get_peers_with_configuration db w s)"
proof -
  have "wf_dict (foldl (\<lambda>d (p, sp). dset d (pe_name p)
     (pe_configuration p, sp_configuration sp, sp_left_at sp = None)) d rows)"
    if "wf_dict d" for d and rows :: "(peer_row \<times> session_peer_row) list"
    using that by (induction rows arbitrary: d) (auto intro: wf_dset)
  then show ?thesis by (simp add: get_peers_with_configuration_def)
qed

lemma summary_due_Inr:
  "summary_due c n = Inr due \<Longrightarrow>
   due = (sum_enabled (rc_summary c) \<and> (n mod sum_short (rc_summary c) = 0 \<or> n mod sum_long (rc_summary c) = 0))"
  by (auto simp: summary_due_def py_mod_def res_simps split: if_splits)

lemma insert_unless_busy_Inr:
  assumes "insert_unless_busy now qc qi qd r = Inr (inserted, qd')"
  shows "(\<not> inserted \<and> qd' = qd \<and> (claimed_key qc (qr_work_unit_key r) \<or> pending_with_key qi (qr_work_unit_key r)))
    \<or> (inserted \<and> \<not> claimed_key qc (qr_work_unit_key r) \<and> \<not> pending_with_key qi (qr_work_unit_key r)
       \<and> \<not> violates_unique_index qd r
       \<and> qd' = qd\<lparr>qd_items := qd_items qd @ [item_of_record now (qd_next_id qd) r],
                  qd_next_id := qd_next_id qd + 1\<rparr>)"
  using assms by (auto simp: insert_unless_busy_def res_simps split: if_splits)

lemma insert_unless_busy_Inl: "insert_unless_busy now qc qi qd r = Inl e \<Longrightarrow> e = IntegrityError"
  by (auto simp: insert_unless_busy_def res_simps split: if_splits)

lemma insert_unless_busy_ok:
  "queue_ok qd \<Longrightarrow> insert_unless_busy now qc qi qd r = Inr (inserted, qd') \<Longrightarrow> queue_ok qd'"
  using insert_unless_busy_Inr [of now qc qi qd r inserted qd'] insert_one_ok [of qd r now] by auto

lemma scope_task_key:
  assumes "create_scope_task_record w tt sp s = Inr r"
  shows "qr_work_unit_key r = wu_key (case tt of ScopeBackfillTask \<Rightarrow> ScopeBackfill w sp s
                                               | ScopeRemovalTask \<Rightarrow> ScopeRemoval w sp s)
    \<and> qr_task_type r = scope_task_value tt \<and> qr_payload r = create_scope_task_payload tt sp s
    \<and> w \<noteq> [] \<and> sp \<noteq> [] \<and> s \<noteq> []"
proof -
  have k: "construct_work_unit_key w (DictPayload (create_scope_task_payload tt sp s)) = Inr (qr_work_unit_key r)"
    and r: "qr_task_type r = scope_task_value tt" "qr_payload r = create_scope_task_payload tt sp s"
    using assms by (auto simp: create_scope_task_record_def make_record_Inr)
  from k show ?thesis using r
    by (cases tt)
      (auto simp: create_scope_task_payload_def construct_work_unit_key_def construct_typed_def key_of_def wu_key_def
        Let_def split: if_splits)
qed

section \<open>Properties\<close>

text \<open>C10. What one message puts in the queue. When the records are generated there are at most two: a
  summary exactly when summaries are enabled and the sequence number is a multiple of the short or
  the long interval, and a representation exactly when reasoning is enabled and the sender may be
  observed. The keys name the message's workspace and session, the representation's observers are
  the sender first and then each other active peer that asked to observe others, and no observer is
  listed twice.\<close>

theorem generate_queue_records_spec:
  assumes "generate_queue_records vd isoformat db m peers sid c = Inr rs"
    and "wf_dict peers"
  shows "\<exists>od n so. dget m ''peer_name'' = Some (PStr od) \<and> message_seq db m = Inr n
     \<and> get_effective_observe_me vd od peers = Inr so
     \<and> map qr_task_type rs =
         (if sum_enabled (rc_summary c)
             \<and> (n mod sum_short (rc_summary c) = 0 \<or> n mod sum_long (rc_summary c) = 0)
          then [''summary''] else [])
         @ (if rea_enabled (rc_reasoning c) \<and> so then [''representation''] else [])
     \<and> (\<forall>r \<in> set rs. \<exists>w s. dget_none m ''workspace_name'' = PStr w \<and> dget_none m ''session_name'' = PStr s
          \<and> qr_session_id r = Some sid \<and> qr_workspace_name r = Some w
          \<and> qr_message_id r = int_value (dget_none m ''message_id'')
          \<and> qr_work_unit_key r = wu_key (if qr_task_type r = ''summary'' then Summary w s ''None'' ''None''
                                         else Representation w s od)
          \<and> (qr_task_type r = ''representation'' \<longrightarrow>
               dget (qr_payload r) ''observers'' = Some (PList (map PStr (observer_list vd od peers)))))
     \<and> distinct (observer_list vd od peers)"
proof -
  obtain v where v: "item_of m ''peer_name'' = Inr v"
    and body: "(case v of PStr observed \<Rightarrow>
          res_bind (message_seq db m) (\<lambda>n.
          res_bind (summary_due c n) (\<lambda>due.
          res_bind (if due then res_map (\<lambda>r. [r]) (create_summary_record isoformat m c sid n) else Inr [])
            (\<lambda>records.
          res_bind (get_effective_observe_me vd observed peers) (\<lambda>so.
            if \<not> rea_enabled (rc_reasoning c) then Inr records
            else res_bind (observers_of vd observed so peers) (\<lambda>observers.
              if observers = [] then Inr records
              else res_map (\<lambda>r. records @ [r])
                (create_representation_record isoformat m c (Some sid) observers observed))))))
        | _ \<Rightarrow> Inl OutOfModel) = Inr rs"
    using assms(1) unfolding generate_queue_records_def res_bind_Inr by blast
  then obtain od where vod: "v = PStr od" by (cases v) simp_all
  from body obtain n due sms so where n: "message_seq db m = Inr n" and due: "summary_due c n = Inr due"
    and sms: "(if due then res_map (\<lambda>r. [r]) (create_summary_record isoformat m c sid n) else Inr []) = Inr sms"
    and so: "get_effective_observe_me vd od peers = Inr so"
    and rest: "(if \<not> rea_enabled (rc_reasoning c) then Inr sms
        else res_bind (observers_of vd od so peers) (\<lambda>observers.
              if observers = [] then Inr sms
              else res_map (\<lambda>r. sms @ [r])
                (create_representation_record isoformat m c (Some sid) observers od))) = Inr rs"
    unfolding vod pyval.case res_bind_Inr by blast
  have od: "dget m ''peer_name'' = Some (PStr od)"
    using v vod by (simp add: item_of_def split: option.splits)
  have reps: "\<exists>reps. rs = sms @ reps \<and> (if rea_enabled (rc_reasoning c) \<and> so
      then \<exists>r. reps = [r] \<and> create_representation_record isoformat m c (Some sid)
             (observer_list vd od peers) od = Inr r else reps = [])"
    using rest by (auto simp: res_simps observer_list_def dest!: observers_of_Inr split: if_splits)
  then obtain reps where rs: "rs = sms @ reps" and reps: "if rea_enabled (rc_reasoning c) \<and> so
      then \<exists>r. reps = [r] \<and> create_representation_record isoformat m c (Some sid)
             (observer_list vd od peers) od = Inr r else reps = []" by blast
  have sm: "if due then \<exists>r. sms = [r] \<and> create_summary_record isoformat m c sid n = Inr r else sms = []"
    using sms by (auto simp: res_simps split: if_splits)
  have types: "map qr_task_type rs = (if due then [''summary''] else [])
      @ (if rea_enabled (rc_reasoning c) \<and> so then [''representation''] else [])"
    using rs reps sm
    by (auto dest!: create_summary_record_Inr create_representation_record_Inr split: if_splits)
  have each: "\<exists>w s. dget_none m ''workspace_name'' = PStr w \<and> dget_none m ''session_name'' = PStr s
          \<and> qr_session_id r = Some sid \<and> qr_workspace_name r = Some w
          \<and> qr_message_id r = int_value (dget_none m ''message_id'')
          \<and> qr_work_unit_key r = wu_key (if qr_task_type r = ''summary'' then Summary w s ''None'' ''None''
                                         else Representation w s od)
          \<and> (qr_task_type r = ''representation'' \<longrightarrow>
               dget (qr_payload r) ''observers'' = Some (PList (map PStr (observer_list vd od peers))))"
    if "r \<in> set rs" for r
  proof -
    from that rs reps sm consider "create_summary_record isoformat m c sid n = Inr r"
      | "create_representation_record isoformat m c (Some sid) (observer_list vd od peers) od = Inr r"
      by (auto split: if_splits)
    then show ?thesis
      by cases (auto dest!: create_summary_record_Inr create_representation_record_Inr simp: payload_simps)
  qed
  show ?thesis
    using od n so types each distinct_observer_list [OF assms(2)] summary_due_Inr [OF due] by blast
qed

text \<open>Who may be observed: an explicit \<open>observe_me\<close> of the sender's session membership wins, else an
  explicit one of the peer, else the sender is observed; a sender without a membership row is
  observed. Stated for configurations whose \<open>observe_me\<close> entries are JSON booleans.\<close>

theorem effective_observe_me_precedence:
  assumes "\<forall>b. lax_bool vd (PBool b) = Some b"
    and "case dget peers od of
           None \<Rightarrow> pc = [] \<and> sc = []
         | Some (pc', sc', active) \<Rightarrow> pc = pc' \<and> sc = sc'"
    and "dget_none pc ''observe_me'' \<in> {PNone, PBool True, PBool False}"
    and "dget_none sc ''observe_me'' \<in> {PNone, PBool True, PBool False}"
    and "dget_none sc ''observe_others'' \<in> {PNone, PBool True, PBool False}"
  shows "get_effective_observe_me vd od peers =
     Inr (if dget_none sc ''observe_me'' \<noteq> PNone then dget_none sc ''observe_me'' = PBool True
          else dget_none pc ''observe_me'' \<noteq> PBool False)"
proof -
  have ob: "optional_bool vd d k = Inr (case dget_none d k of PBool b \<Rightarrow> Some b | _ \<Rightarrow> None)"
    if "dget_none d k \<in> {PNone, PBool True, PBool False}" for d k
    using that assms(1) by (auto simp: optional_bool_def)
  have conf: "(case dget peers od of None \<Rightarrow> ([], []) | Some (pc, sc, u) \<Rightarrow> (pc, sc)) = (pc, sc)"
    using assms(2) by (auto split: option.splits)
  have s: "session_peer_config vd sc = Inr (case dget_none sc ''observe_me'' of PBool b \<Rightarrow> Some b | _ \<Rightarrow> None,
      case dget_none sc ''observe_others'' of PBool b \<Rightarrow> Some b | _ \<Rightarrow> None)"
    by (simp add: session_peer_config_def ob [OF assms(4)] ob [OF assms(5)])
  have p: "peer_config vd pc = Inr (case dget_none pc ''observe_me'' of PBool b \<Rightarrow> Some b | _ \<Rightarrow> None)"
    by (simp add: peer_config_def ob [OF assms(3)])
  show ?thesis
    using assms(3,4)
    by (auto simp: get_effective_observe_me_def conf s p)
qed

text \<open>C20. Enqueueing is all or nothing: whatever the messages, the queue either stays exactly as it was
  (on any exception too) or gains, at its end, one unprocessed item per record of the batch; no item
  or claim is otherwise touched and the unique constraints are kept.\<close>

theorem enqueue_atomic:
  assumes "queue_ok qd"
  shows "queue_ok (enqueue vd st isoformat now db se wsp payload qd) \<and>
    (enqueue vd st isoformat now db se wsp payload qd = qd \<or>
     (\<exists>w s rs new. payload \<noteq> [] \<and> handle_session vd st isoformat db payload w s se wsp = Inr rs \<and> rs \<noteq> []
        \<and> qd_items (enqueue vd st isoformat now db se wsp payload qd) = qd_items qd @ new
        \<and> qd_claims (enqueue vd st isoformat now db se wsp payload qd) = qd_claims qd
        \<and> list_all2 (\<lambda>i r. \<exists>n. i = item_of_record now n r) new rs))"
proof (cases payload)
  case (Cons first more)
  let ?h = "res_bind (item_of first ''workspace_name'') (\<lambda>w.
                res_bind (item_of first ''session_name'') (\<lambda>s.
                  case (w, s) of
                    (PStr workspace_name, PStr session_name) \<Rightarrow>
                      handle_session vd st isoformat db payload workspace_name session_name se wsp
                  | _ \<Rightarrow> Inl ValidationException))"
  have e: "enqueue vd st isoformat now db se wsp payload qd =
     (case ?h of Inl _ \<Rightarrow> qd
      | Inr rs \<Rightarrow> if rs = [] then qd
                  else (case insert_queue_items now rs qd of Inl _ \<Rightarrow> qd | Inr qd' \<Rightarrow> qd'))"
    unfolding enqueue_def Cons list.case ..
  show ?thesis
  proof (cases "\<exists>rs qd'. ?h = Inr rs \<and> rs \<noteq> [] \<and> insert_queue_items now rs qd = Inr qd'")
    case True
    then obtain rs qd' where h: "?h = Inr rs" "rs \<noteq> []" and i: "insert_queue_items now rs qd = Inr qd'"
      by blast
    have eq: "enqueue vd st isoformat now db se wsp payload qd = qd'"
      using h i by (simp add: e del: res_bind.simps)
    have "\<exists>w s. handle_session vd st isoformat db payload w s se wsp = Inr rs"
    proof -
      from h(1) obtain v u where "(case (v, u) of
            (PStr workspace_name, PStr session_name) \<Rightarrow>
              handle_session vd st isoformat db payload workspace_name session_name se wsp
          | _ \<Rightarrow> Inl ValidationException) = Inr rs"
        unfolding res_bind_Inr by blast
      then show ?thesis by (cases v; cases u) auto
    qed
    with insert_queue_items_ok [OF assms i] insert_queue_items_appends [OF i] h(2) Cons
    show ?thesis unfolding eq by blast
  next
    case False
    then have "enqueue vd st isoformat now db se wsp payload qd = qd"
      unfolding e by (auto split: sum.splits)
    with assms show ?thesis by simp
  qed
qed (simp add: enqueue_def assms)

text \<open>Dreams are queued at most once: whatever (possibly outdated) states the two checks saw, an
  enqueued dream keeps the unique constraints, so no key ever has two pending dreams; the queue is
  unchanged or gains exactly the requested dream, and that only when the checks saw its key neither
  claimed nor pending; a scope is never the observed peer.\<close>

theorem enqueue_dream_once:
  assumes "queue_ok qd" and "enqueue_dream now db qc qi w p qd = Inr qd'"
  shows "queue_ok qd' \<and> reject_scope_observed db w [dp_observed p] = Inr ()
    \<and> (let key = wu_key (Dream w (dream_type_value (dp_dream_type p)) (dp_observer p) (dp_observed p)) in
       qd' = qd \<or>
       (\<exists>r. qr_work_unit_key r = key \<and> qr_payload r = create_dream_payload p \<and> qr_task_type r = ''dream''
          \<and> \<not> claimed_key qc key \<and> \<not> pending_with_key qi key
          \<and> qd_items qd' = qd_items qd @ [item_of_record now (qd_next_id qd) r] \<and> qd_claims qd' = qd_claims qd))"
proof -
  from assms(2) have sc: "reject_scope_observed db w [dp_observed p] = Inr ()"
    by (auto simp: enqueue_dream_def res_bind_Inr)
  from assms(2) obtain r where r: "create_dream_record w p = Inr r"
    and body: "(case insert_unless_busy now qc qi qd r of
          Inr (_, qd') \<Rightarrow> Inr qd' | Inl IntegrityError \<Rightarrow> Inr qd | Inl e \<Rightarrow> Inl e) = Inr qd'"
    unfolding enqueue_dream_def res_bind_Inr by blast
  have k: "construct_work_unit_key w (DictPayload (create_dream_payload p)) = Inr (qr_work_unit_key r)"
    and f: "qr_payload r = create_dream_payload p" "qr_task_type r = ''dream''"
    using r by (auto simp: create_dream_record_def make_record_Inr)
  from k dream_key [OF key_of_payload [OF k]]
  have key: "qr_work_unit_key r = wu_key (Dream w (dream_type_value (dp_dream_type p)) (dp_observer p) (dp_observed p))"
    by simp
  show ?thesis
  proof (cases "insert_unless_busy now qc qi qd r")
    case (Inl e)
    with insert_unless_busy_Inl [OF Inl] body have "qd' = qd" by simp
    with assms(1) sc show ?thesis by simp
  next
    case (Inr res)
    then obtain ins qd2 where b: "insert_unless_busy now qc qi qd r = Inr (ins, qd2)" by (cases res) auto
    with body have "qd2 = qd'" by simp
    with b have b': "insert_unless_busy now qc qi qd r = Inr (ins, qd')" by simp
    from insert_unless_busy_Inr [OF b'] insert_unless_busy_ok [OF assms(1) b'] sc f
    show ?thesis unfolding Let_def key [symmetric] by auto
  qed
qed

text \<open>Scope tasks and their status agree: enqueueing a scope task either changes neither the queue
  nor the status, or queues exactly the one task and, for a backfill, marks that session pending in
  the scope peer's status in the same transaction.\<close>

theorem scope_task_and_status_agree:
  assumes "enqueue_scope_task ni now qc qi w tt sp s (qd, db) = Inr (qd', db')"
  shows "(qd' = qd \<and> db' = db) \<or>
    (\<exists>r. create_scope_task_record w tt sp s = Inr r
       \<and> qd_items qd' = qd_items qd @ [item_of_record now (qd_next_id qd) r] \<and> qd_claims qd' = qd_claims qd
       \<and> \<not> claimed_key qc (qr_work_unit_key r) \<and> \<not> pending_with_key qi (qr_work_unit_key r)
       \<and> qr_work_unit_key r = wu_key (case tt of ScopeBackfillTask \<Rightarrow> ScopeBackfill w sp s
                                               | ScopeRemovalTask \<Rightarrow> ScopeRemoval w sp s)
       \<and> (if tt = ScopeBackfillTask
          then update_scope_backfill_status ni db w sp s BackfillPending None = Inr db'
          else db' = db))"
proof -
  obtain ins qd1 db1 where i: "insert_scope_task ni now qc qi w tt sp s (qd, db) = Inr (ins, qd1, db1)"
    and e: "(qd', db') = (if \<not> ins then (qd, db) else (qd1, db1))"
    using assms by (auto simp: enqueue_scope_task_def res_simps)
  from i obtain r ins' qd2 where r: "create_scope_task_record w tt sp s = Inr r"
    and b: "insert_unless_busy now qc qi qd r = Inr (ins', qd2)"
    and body: "(if \<not> ins' then Inr (False, qd, db)
        else if tt = ScopeBackfillTask then
          res_map (\<lambda>db'. (True, qd2, db'))
            (update_scope_backfill_status ni db w sp s BackfillPending None)
        else Inr (True, qd2, db)) = Inr (ins, qd1, db1)"
    unfolding insert_scope_task_def Let_def prod.case res_bind_Inr by fastforce
  show ?thesis
  proof (cases ins')
    case True
    with insert_unless_busy_Inr [OF b] scope_task_key [OF r] body e r show ?thesis
      by (auto simp: res_simps split: if_splits)
  next
    case False
    with body e show ?thesis by simp
  qed
qed

section \<open>Witnesses\<close>

definition example_peers :: "(string \<times> peer_conf) list" where
  "example_peers =
     [(''alice'', [(''observe_me'', PBool False)], [(''observe_me'', PBool True)], True),
      (''bob'', [], [(''observe_others'', PBool True)], True),
      (''carol'', [], [(''observe_others'', PBool True)], False)]"

theorem generate_queue_records_spec_witness:
  "\<exists>rs. generate_queue_records example_validators (\<lambda>t. ''T'') example_tables example_message example_peers
           ''S1'' example_configuration_record = Inr rs
     \<and> map qr_task_type rs = [''summary'', ''representation'']
     \<and> dget (qr_payload (rs ! 1)) ''observers'' = Some (PList [PStr ''alice'', PStr ''bob''])"
proof -
  have "is_ok (generate_queue_records example_validators (\<lambda>t. ''T'') example_tables example_message
      example_peers ''S1'' example_configuration_record)"
    by code_simp
  then obtain rs where rs: "generate_queue_records example_validators (\<lambda>t. ''T'') example_tables
      example_message example_peers ''S1'' example_configuration_record = Inr rs"
    unfolding is_ok_iff by blast
  have wf: "wf_dict example_peers" by (simp add: example_peers_def)
  have od: "dget example_message ''peer_name'' = Some (PStr ''alice'')" by code_simp
  have n: "message_seq example_tables example_message = Inr 20" by code_simp
  have so: "get_effective_observe_me example_validators ''alice'' example_peers = Inr True" by code_simp
  have obs: "observer_list example_validators ''alice'' example_peers = [''alice'', ''bob'']" by code_simp
  have c: "sum_enabled (rc_summary example_configuration_record)" "sum_short (rc_summary example_configuration_record) = 20"
    "rea_enabled (rc_reasoning example_configuration_record)"
    by code_simp+
  from generate_queue_records_spec [OF rs wf] od n so obs c
  have t: "map qr_task_type rs = [''summary'', ''representation'']"
    and each: "\<forall>r \<in> set rs. qr_task_type r = ''representation'' \<longrightarrow>
        dget (qr_payload r) ''observers'' = Some (PList (map PStr [''alice'', ''bob'']))"
    by auto
  then have mem: "rs ! 1 \<in> set rs" and tt: "qr_task_type (rs ! 1) = ''representation''"
    by (auto simp: map_eq_Cons_conv)
  have "dget (qr_payload (rs ! 1)) ''observers'' = Some (PList (map PStr [''alice'', ''bob'']))"
    using bspec [OF each mem] tt by (rule mp)
  then have "dget (qr_payload (rs ! 1)) ''observers'' = Some (PList [PStr ''alice'', PStr ''bob''])"
    by (simp only: list.map)
  then show ?thesis by (intro exI [of _ rs] conjI rs t)
qed

theorem effective_observe_me_precedence_witness:
  "get_effective_observe_me example_validators ''alice'' example_peers = Inr True"
proof -
  have l: "\<forall>b. lax_bool example_validators (PBool b) = Some b"
    by (simp add: example_validators_def)
  have g: "case dget example_peers ''alice'' of
       None \<Rightarrow> [(''observe_me'', PBool False)] = [] \<and> [(''observe_me'', PBool True)] = []
     | Some (pc', sc', active) \<Rightarrow> [(''observe_me'', PBool False)] = pc' \<and> [(''observe_me'', PBool True)] = sc'"
    by (simp add: example_peers_def)
  show ?thesis
    using effective_observe_me_precedence [OF l g] by simp
qed

theorem enqueue_atomic_witness:
  "queue_ok (enqueue example_validators example_settings (\<lambda>t. ''T'') 9 example_tables
     (hd (t_sessions example_tables)) (hd (t_workspaces example_tables)) [example_message] example_queue)
   \<and> length (qd_items (enqueue example_validators example_settings (\<lambda>t. ''T'') 9 example_tables
       (hd (t_sessions example_tables)) (hd (t_workspaces example_tables)) [example_message] example_queue)) = 5"
proof -
  have "length (qd_items (enqueue example_validators example_settings (\<lambda>t. ''T'') 9 example_tables
       (hd (t_sessions example_tables)) (hd (t_workspaces example_tables)) [example_message] example_queue)) = 5"
    by code_simp
  with enqueue_atomic [OF example_queue_ok] show ?thesis by blast
qed

definition example_dream :: dream_payload where
  "example_dream =
     \<lparr>dp_dream_type = OMNI, dp_observer = ''alice'', dp_observed = ''alice'', dp_session_name = Some ''s'',
      dp_trigger_reason = None, dp_delay_reason = None, dp_documents_since_last_dream_at_schedule = Some 60,
      dp_document_threshold = Some 50, dp_rebuild = False\<rparr>"

theorem enqueue_dream_once_witness:
  "\<exists>qd'. enqueue_dream 9 example_tables example_queue example_queue ''w'' example_dream example_queue = Inr qd'
     \<and> queue_ok qd' \<and> pending_with_key qd' ''dream:omni:w:alice:alice''"
proof -
  have "is_ok (enqueue_dream 9 example_tables example_queue example_queue ''w'' example_dream example_queue)"
    by code_simp
  then obtain qd' where q: "enqueue_dream 9 example_tables example_queue example_queue ''w'' example_dream
      example_queue = Inr qd'"
    unfolding is_ok_iff by blast
  have len: "case enqueue_dream 9 example_tables example_queue example_queue ''w'' example_dream example_queue of
      Inr qd' \<Rightarrow> length (qd_items qd') = 4 | Inl _ \<Rightarrow> False"
    by code_simp
  have old: "length (qd_items example_queue) = 3" by code_simp
  have key: "wu_key (Dream ''w'' (dream_type_value (dp_dream_type example_dream)) (dp_observer example_dream)
      (dp_observed example_dream)) = ''dream:omni:w:alice:alice''"
    by code_simp
  have "qd' \<noteq> example_queue" using len old q by auto
  with enqueue_dream_once [OF example_queue_ok q] obtain r where
    "qr_work_unit_key r = ''dream:omni:w:alice:alice''"
    "qd_items qd' = qd_items example_queue @ [item_of_record 9 (qd_next_id example_queue) r]"
    unfolding Let_def key by blast
  then have "pending_with_key qd' ''dream:omni:w:alice:alice''"
    by (simp add: pending_with_key_def item_of_record_def)
  with enqueue_dream_once [OF example_queue_ok q] q show ?thesis by blast
qed

theorem scope_task_and_status_agree_witness:
  "\<exists>qd' db'. enqueue_scope_task ''T'' 9 example_queue example_queue ''w'' ScopeBackfillTask ''scope.work'' ''open''
        (example_queue, example_tables) = Inr (qd', db')
     \<and> update_scope_backfill_status ''T'' example_tables ''w'' ''scope.work'' ''open'' BackfillPending None = Inr db'"
proof -
  have "case enqueue_scope_task ''T'' 9 example_queue example_queue ''w'' ScopeBackfillTask ''scope.work'' ''open''
      (example_queue, example_tables) of Inr (qd', db') \<Rightarrow> length (qd_items qd') = 4 | Inl _ \<Rightarrow> False"
    by code_simp
  then obtain qd' db' where q: "enqueue_scope_task ''T'' 9 example_queue example_queue ''w'' ScopeBackfillTask
      ''scope.work'' ''open'' (example_queue, example_tables) = Inr (qd', db')" and l: "length (qd_items qd') = 4"
    by (auto split: sum.splits)
  have "length (qd_items example_queue) = 3" by code_simp
  with l have "qd' \<noteq> example_queue" by auto
  with scope_task_and_status_agree [OF q] q show ?thesis by auto
qed

end
