(* ===== verification/QueueBatch.thy ===== *)
theory QueueBatch
  imports QueuePayload QueueDb
begin

text \<open>
  What a worker fetches for a representation work unit (\<open>get_queue_item_batch\<close> and
  \<open>_resolve_batch_configuration\<close> of src/src/deriver/queue_manager.py): the conversation from the first
  unprocessed message on, capped by tokens, with the queue items in it. The SQL statement is written
  as functions of the message and queue tables, in the order of its subqueries; the lemmas show that
  a batch makes progress, stays within the cap and is homogeneous.
\<close>

section \<open>The query\<close>

definition session_messages :: "tables \<Rightarrow> parsed_work_unit \<Rightarrow> message_row list" where
  "session_messages db pk =
     filter (\<lambda>m. pw_session_name pk = Some (ms_session m) \<and> pw_workspace_name pk = Some (ms_workspace m))
       (t_messages db)"

definition max_of :: "int list \<Rightarrow> int option" where
  "max_of xs = (case xs of [] \<Rightarrow> None | y # ys \<Rightarrow> Some (fold max ys y))"

text \<open>The smallest id of a session message with an unprocessed item of the work unit.\<close>

definition queued_message_ids :: "tables \<Rightarrow> queue_db \<Rightarrow> string \<Rightarrow> parsed_work_unit \<Rightarrow> int list" where
  "queued_message_ids db qd key pk =
     map ms_id (filter (\<lambda>m. list_ex (\<lambda>i. qi_work_unit_key i = key \<and> qi_message_id i = Some (ms_id m))
        (unprocessed_items qd)) (session_messages db pk))"

definition min_unprocessed_message_id ::
  "tables \<Rightarrow> queue_db \<Rightarrow> string \<Rightarrow> parsed_work_unit \<Rightarrow> int option" where
  "min_unprocessed_message_id db qd key pk = min_of (queued_message_ids db qd key pk)"

definition immediately_preceding_id ::
  "tables \<Rightarrow> queue_db \<Rightarrow> string \<Rightarrow> parsed_work_unit \<Rightarrow> int option" where
  "immediately_preceding_id db qd key pk =
     (case min_unprocessed_message_id db qd key pk of
        None \<Rightarrow> None
      | Some n \<Rightarrow> max_of (map ms_id (filter (\<lambda>m. ms_id m < n) (session_messages db pk))))"

text \<open>The preceding message counts only when another peer wrote it.\<close>

definition preceding_message_id ::
  "tables \<Rightarrow> queue_db \<Rightarrow> string \<Rightarrow> parsed_work_unit \<Rightarrow> int option" where
  "preceding_message_id db qd key pk =
     map_option ms_id (List.find (\<lambda>m. immediately_preceding_id db qd key pk = Some (ms_id m)
        \<and> pw_observed pk \<noteq> None \<and> pw_observed pk \<noteq> Some (ms_peer m)) (t_messages db))"

definition effective_start_id ::
  "tables \<Rightarrow> queue_db \<Rightarrow> string \<Rightarrow> parsed_work_unit \<Rightarrow> int option" where
  "effective_start_id db qd key pk =
     (case preceding_message_id db qd key pk of
        None \<Rightarrow> min_unprocessed_message_id db qd key pk
      | Some n \<Rightarrow> Some n)"

text \<open>The window with running token totals, \<open>sum(token_count) OVER (ORDER BY id)\<close>.\<close>

fun cumulative :: "int \<Rightarrow> message_row list \<Rightarrow> (message_row \<times> int) list" where
  "cumulative acc [] = []"
| "cumulative acc (m # ms) = (m, acc + ms_token_count m) # cumulative (acc + ms_token_count m) ms"

definition window_messages :: "tables \<Rightarrow> queue_db \<Rightarrow> string \<Rightarrow> parsed_work_unit \<Rightarrow> message_row list" where
  "window_messages db qd key pk =
     (case effective_start_id db qd key pk of
        None \<Rightarrow> []
      | Some n \<Rightarrow> sort_key ms_id (filter (\<lambda>m. n \<le> ms_id m) (session_messages db pk)))"

definition cap_exceeded :: "int \<Rightarrow> message_row list \<Rightarrow> bool" where
  "cap_exceeded batch_max_tokens window =
     list_ex (\<lambda>(m, total). total > batch_max_tokens) (cumulative 0 window)"

definition allowed_messages :: "int \<Rightarrow> int option \<Rightarrow> message_row list \<Rightarrow> message_row list" where
  "allowed_messages batch_max_tokens first_unprocessed window =
     map fst (filter (\<lambda>(m, total). total \<le> batch_max_tokens \<or> first_unprocessed = Some (ms_id m))
       (cumulative 0 window))"

text \<open>The outer join with the unprocessed items of the work unit, ordered by message and item.\<close>

definition items_of_message :: "queue_db \<Rightarrow> string \<Rightarrow> message_row \<Rightarrow> queue_item list" where
  "items_of_message qd key m =
     sort_key qi_id (filter (\<lambda>i. qi_work_unit_key i = key \<and> qi_message_id i = Some (ms_id m))
       (unprocessed_items qd))"

definition batch_rows ::
  "queue_db \<Rightarrow> string \<Rightarrow> message_row list \<Rightarrow> (message_row \<times> queue_item option) list" where
  "batch_rows qd key msgs =
     concat (map (\<lambda>m. case items_of_message qd key m of
                        [] \<Rightarrow> [(m, None)]
                      | items \<Rightarrow> map (\<lambda>i. (m, Some i)) items) msgs)"

section \<open>Building the batch\<close>

record queue_batch_result =
  qb_messages_context :: "message_row list"
  qb_items_to_process :: "queue_item list"
  qb_configuration :: "resolved_configuration option"
  qb_hit_batch_token_cap :: bool
  qb_was_flush_enabled :: bool
  qb_batch_max_tokens :: int

definition empty_batch :: "deriver_settings \<Rightarrow> queue_batch_result" where
  "empty_batch ds =
     \<lparr>qb_messages_context = [], qb_items_to_process = [], qb_configuration = None,
      qb_hit_batch_token_cap = False, qb_was_flush_enabled = FLUSH_ENABLED ds,
      qb_batch_max_tokens = REPRESENTATION_BATCH_TARGET_INPUT_TOKENS ds\<rparr>"

text \<open>\<open>payload.get("configuration")\<close>, validated when it is there.\<close>

definition item_configuration ::
  "validators \<Rightarrow> settings \<Rightarrow> queue_item \<Rightarrow> resolved_configuration option res" where
  "item_configuration vd st item =
     (case dget_none (qi_payload item) ''configuration'' of
        PNone \<Rightarrow> Inr None
      | PDict raw \<Rightarrow> res_map Some (model_validate vd st raw)
      | _ \<Rightarrow> Inl PydanticValidationError)"

fun matching_prefix ::
  "validators \<Rightarrow> settings \<Rightarrow> resolved_configuration option \<Rightarrow> queue_item list \<Rightarrow> queue_item list res" where
  "matching_prefix vd st resolved_config [] = Inr []"
| "matching_prefix vd st resolved_config (item # items) =
     res_bind (item_configuration vd st item) (\<lambda>item_config.
       if item_config \<noteq> resolved_config then Inr []
       else res_map (Cons item) (matching_prefix vd st resolved_config items))"

definition resolve_batch_configuration ::
  "validators \<Rightarrow> settings \<Rightarrow> queue_item list
     \<Rightarrow> (queue_item list \<times> resolved_configuration option) res" where
  "resolve_batch_configuration vd st items =
     (case items of
        [] \<Rightarrow> Inr ([], None)
      | first # _ \<Rightarrow>
          res_bind (item_configuration vd st first) (\<lambda>resolved_config.
          res_map (\<lambda>valid_items. (valid_items, resolved_config))
            (matching_prefix vd st resolved_config items)))"

fun seen_once :: "int list \<Rightarrow> (message_row \<times> queue_item option) list \<Rightarrow> message_row list" where
  "seen_once seen [] = []"
| "seen_once seen ((m, _) # rows) =
     (if List.member seen (ms_id m) then seen_once seen rows
      else m # seen_once (ms_id m # seen) rows)"

text \<open>\<open>max(...)\<close> over the message ids of a non-empty item list; without an id it raises.\<close>

definition last_queued_id :: "queue_item list \<Rightarrow> int option res" where
  "last_queued_id items =
     (if items = [] then Inr None
      else (case max_of (concat (map (\<lambda>i. case qi_message_id i of None \<Rightarrow> [] | Some n \<Rightarrow> [n]) items)) of
              None \<Rightarrow> Inl ValueError
            | Some n \<Rightarrow> Inr (Some n)))"

definition finish_batch ::
  "deriver_settings \<Rightarrow> validators \<Rightarrow> settings \<Rightarrow> bool \<Rightarrow> (message_row \<times> queue_item option) list
     \<Rightarrow> queue_batch_result res" where
  "finish_batch ds vd st exceeded rows =
     (let batch_max_tokens = REPRESENTATION_BATCH_TARGET_INPUT_TOKENS ds;
          cap_exceeded_from_query = (if batch_max_tokens > 0 then exceeded else False);
          messages_context = seen_once [] rows;
          items = concat (map (\<lambda>(m, qi). case qi of None \<Rightarrow> [] | Some i \<Rightarrow> [i]) rows)
      in res_bind (last_queued_id items) (\<lambda>last_queued_id_before.
         res_bind (resolve_batch_configuration vd st items) (\<lambda>(items_to_process, resolved_config).
         res_bind (last_queued_id items_to_process) (\<lambda>last_queued_id_after.
         Inr \<lparr>qb_messages_context =
                (case last_queued_id_after of
                   None \<Rightarrow> messages_context
                 | Some n \<Rightarrow> filter (\<lambda>m. ms_id m \<le> n) messages_context),
              qb_items_to_process = items_to_process,
              qb_configuration = resolved_config,
              qb_hit_batch_token_cap =
                (if batch_max_tokens > 0 \<and> last_queued_id_before \<noteq> None
                    \<and> last_queued_id_before = last_queued_id_after
                 then cap_exceeded_from_query else False),
              qb_was_flush_enabled = FLUSH_ENABLED ds,
              qb_batch_max_tokens = batch_max_tokens\<rparr>))))"

definition get_queue_item_batch ::
  "deriver_settings \<Rightarrow> validators \<Rightarrow> settings \<Rightarrow> tables \<Rightarrow> string \<Rightarrow> string \<Rightarrow> string \<Rightarrow> queue_db
     \<Rightarrow> queue_batch_result res" where
  "get_queue_item_batch ds vd st db task_type work_unit_key aqs_id qd =
     (if task_type \<noteq> ''representation'' then Inl ValueError
      else res_bind (parse_work_unit_key work_unit_key) (\<lambda>parsed_key.
        if \<not> list_ex (\<lambda>c. aq_work_unit_key c = work_unit_key \<and> aq_id c = aqs_id) (qd_claims qd)
        then Inr (empty_batch ds)
        else
          (let first_unprocessed = min_unprocessed_message_id db qd work_unit_key parsed_key;
               window = window_messages db qd work_unit_key parsed_key;
               cap = REPRESENTATION_BATCH_TARGET_INPUT_TOKENS ds;
               rows = batch_rows qd work_unit_key (allowed_messages cap first_unprocessed window)
           in if rows = [] then Inr (empty_batch ds)
              else finish_batch ds vd st (cap_exceeded cap window) rows)))"

section \<open>Lemmas\<close>

lemma fold_min_le: "fold min xs (y :: int) \<le> y \<and> (\<forall>x \<in> set xs. fold min xs y \<le> x) \<and> fold min xs y \<in> insert y (set xs)"
proof (induction xs arbitrary: y)
  case (Cons x xs)
  from Cons [of "min x y"] show ?case by (auto simp: min_def split: if_splits)
qed simp

lemma min_of_Some: "min_of xs = Some n \<Longrightarrow> n \<in> set xs \<and> (\<forall>x \<in> set xs. n \<le> x)"
  using fold_min_le by (fastforce simp: min_of_def split: list.splits)

lemma min_of_None [simp]: "min_of xs = None \<longleftrightarrow> xs = []"
  by (simp add: min_of_def split: list.splits)

lemma fold_max_mem: "fold max xs (y :: int) \<in> insert y (set xs)"
proof (induction xs arbitrary: y)
  case (Cons x xs)
  from Cons [of "max x y"] show ?case by (auto simp: max_def split: if_splits)
qed simp

lemma fold_max_ge: "y \<le> fold max xs (y :: int) \<and> (\<forall>x \<in> set xs. x \<le> fold max xs y)"
proof (induction xs arbitrary: y)
  case (Cons x xs)
  from Cons [of "max x y"] show ?case by auto
qed simp

lemma max_of_None [simp]: "max_of xs = None \<longleftrightarrow> xs = []"
  by (simp add: max_of_def split: list.splits)

lemma max_of_Some: "max_of xs = Some n \<Longrightarrow> n \<in> set xs \<and> (\<forall>x \<in> set xs. x \<le> n)"
  using fold_max_ge fold_max_mem by (fastforce simp: max_of_def split: list.splits)

lemma map_fst_cumulative: "map fst (cumulative acc ms) = ms"
  by (induction acc ms rule: cumulative.induct) auto

lemma cumulative_mem: "(m, t) \<in> set (cumulative acc ms) \<Longrightarrow> m \<in> set ms"
  by (induction acc ms rule: cumulative.induct) auto

lemma cumulative_ex: "m \<in> set ms \<Longrightarrow> \<exists>t. (m, t) \<in> set (cumulative acc ms)"
  by (induction acc ms rule: cumulative.induct) auto

text \<open>Running totals of non-negative counts grow, so what stays below a cap is a prefix.\<close>

definition tokens_of :: "message_row list \<Rightarrow> int" where
  "tokens_of ms = sum_list (map ms_token_count ms)"

lemma tokens_of_simps [simp]:
  "tokens_of [] = 0" "tokens_of (m # ms) = ms_token_count m + tokens_of ms"
  "tokens_of (xs @ ys) = tokens_of xs + tokens_of ys"
  by (simp_all add: tokens_of_def)

lemma tokens_of_nonneg: "\<forall>m \<in> set ms. 0 \<le> ms_token_count m \<Longrightarrow> 0 \<le> tokens_of ms"
  by (induction ms) auto

lemma tokens_of_filter_le:
  "\<forall>m \<in> set ms. 0 \<le> ms_token_count m \<Longrightarrow> tokens_of (filter P ms) \<le> tokens_of ms"
  by (induction ms) auto

lemma cumulative_ge:
  "\<forall>m \<in> set ms. 0 \<le> ms_token_count m \<Longrightarrow> (m, t) \<in> set (cumulative acc ms) \<Longrightarrow> acc \<le> t"
  by (induction acc ms rule: cumulative.induct) force+

lemma below_cap_total:
  assumes "\<forall>m \<in> set ms. 0 \<le> ms_token_count m" and "acc \<le> cap"
  shows "acc + tokens_of (map fst (filter (\<lambda>(m, t). t \<le> cap) (cumulative acc ms))) \<le> cap"
  using assms
proof (induction acc ms rule: cumulative.induct)
  case (2 acc m ms)
  show ?case
  proof (cases "acc + ms_token_count m \<le> cap")
    case True
    with 2 show ?thesis by (simp add: add.assoc)
  next
    case False
    have "\<not> t \<le> cap" if "(x, t) \<in> set (cumulative (acc + ms_token_count m) ms)" for x t
      using cumulative_ge [OF _ that] 2 False by simp
    then have "filter (\<lambda>(m, t). t \<le> cap) (cumulative (acc + ms_token_count m) ms) = []"
      by (auto simp: filter_empty_conv)
    with 2 False show ?thesis by simp
  qed
qed simp

lemma allowed_cases:
  assumes "\<forall>m \<in> set ms. 0 \<le> ms_token_count m" and "0 \<le> cap"
  shows "tokens_of (filter (\<lambda>m. f \<noteq> Some (ms_id m)) (allowed_messages cap f ms)) \<le> cap"
proof -
  let ?c = "cumulative 0 ms"
  have eq: "filter (\<lambda>m. f \<noteq> Some (ms_id m)) (allowed_messages cap f ms) =
      filter (\<lambda>m. f \<noteq> Some (ms_id m)) (map fst (filter (\<lambda>(m, t). t \<le> cap) ?c))"
    by (auto simp: allowed_messages_def filter_map comp_def intro!: arg_cong [where f = "map fst"] filter_cong)
  have "set (map fst (filter (\<lambda>(m, t). t \<le> cap) ?c)) \<subseteq> set ms"
    by (auto dest: cumulative_mem)
  then have "tokens_of (filter (\<lambda>m. f \<noteq> Some (ms_id m)) (map fst (filter (\<lambda>(m, t). t \<le> cap) ?c)))
      \<le> tokens_of (map fst (filter (\<lambda>(m, t). t \<le> cap) ?c))"
    using assms(1) by (intro tokens_of_filter_le) blast
  with below_cap_total [OF assms] show ?thesis by (simp add: eq)
qed

lemma allowed_subset: "set (allowed_messages cap f ms) \<subseteq> set ms"
  by (auto simp: allowed_messages_def dest: cumulative_mem)

lemma distinct_allowed: "distinct (map g ms) \<Longrightarrow> distinct (map g (allowed_messages cap f ms))"
proof -
  assume d: "distinct (map g ms)"
  have "map g (allowed_messages cap f ms) = map (g \<circ> fst) (filter (\<lambda>(m, t). t \<le> cap \<or> f = Some (ms_id m)) (cumulative 0 ms))"
    by (simp add: allowed_messages_def)
  moreover have "distinct (map (g \<circ> fst) (cumulative 0 ms))"
    using d by (simp add: map_fst_cumulative flip: map_map)
  ultimately show ?thesis by (simp add: distinct_map_filter)
qed

lemma allowed_first: "m \<in> set ms \<Longrightarrow> f = Some (ms_id m) \<Longrightarrow> m \<in> set (allowed_messages cap f ms)"
proof -
  assume "m \<in> set ms" and f: "f = Some (ms_id m)"
  then have "\<exists>t. (m, t) \<in> set (cumulative 0 ms)" by (simp add: cumulative_ex)
  then show ?thesis using f by (force simp: allowed_messages_def)
qed

text \<open>Rows of a batch.\<close>

lemma rows_items:
  "concat (map (\<lambda>(m, qi). case qi of None \<Rightarrow> [] | Some i \<Rightarrow> [i]) (batch_rows qd key ms))
   = concat (map (items_of_message qd key) ms)"
proof (induction ms)
  case (Cons m ms)
  have "concat (map (\<lambda>(m, qi). case qi of None \<Rightarrow> [] | Some i \<Rightarrow> [i]) (map (\<lambda>i. (m, Some i)) is)) = is" for "is"
    by (induction "is") auto
  with Cons show ?case by (auto simp: batch_rows_def split: list.splits)
qed (simp add: batch_rows_def)

lemma seen_once_same:
  "seen_once seen (map (\<lambda>i. (m, f i)) (x # xs) @ rows) =
     (if ms_id m \<in> set seen then seen_once seen rows else m # seen_once (ms_id m # seen) rows)"
proof -
  have "ms_id m \<in> set seen \<Longrightarrow> seen_once seen (map (\<lambda>i. (m, f i)) xs @ rows) = seen_once seen rows" for seen
    by (induction xs) auto
  then show ?thesis by auto
qed

lemma seen_once_batch:
  "distinct (map ms_id ms) \<Longrightarrow>
   seen_once seen (batch_rows qd key ms) = filter (\<lambda>m. ms_id m \<notin> set seen) ms"
proof (induction ms arbitrary: seen)
  case (Cons m ms)
  have step: "seen_once seen (batch_rows qd key (m # ms)) =
      (if ms_id m \<in> set seen then seen_once seen (batch_rows qd key ms)
       else m # seen_once (ms_id m # seen) (batch_rows qd key ms))"
  proof (cases "items_of_message qd key m")
    case Nil
    then show ?thesis by (simp add: batch_rows_def)
  next
    case (Cons x xs)
    then have "batch_rows qd key (m # ms) = map (\<lambda>i. (m, Some i)) (x # xs) @ batch_rows qd key ms"
      by (simp add: batch_rows_def)
    then show ?thesis by (simp only: seen_once_same)
  qed
  have "filter (\<lambda>x. ms_id x \<notin> set (ms_id m # seen)) ms = filter (\<lambda>x. ms_id x \<notin> set seen) ms"
    using Cons.prems by (intro filter_cong) (auto, metis image_eqI)
  with Cons step show ?case by simp
qed (simp add: batch_rows_def)

lemma batch_rows_Nil [simp]: "batch_rows qd key ms = [] \<longleftrightarrow> ms = []"
  by (cases ms) (auto simp: batch_rows_def split: list.splits)

lemma matching_prefix_Inr:
  "matching_prefix vd st c items = Inr vs \<Longrightarrow>
   (\<exists>rest. items = vs @ rest) \<and> (\<forall>i \<in> set vs. item_configuration vd st i = Inr c)"
  by (induction vd st c items arbitrary: vs rule: matching_prefix.induct)
    (fastforce simp: res_simps split: if_splits)+

lemma resolve_batch_configuration_Inr:
  assumes "resolve_batch_configuration vd st items = Inr (vs, c)"
  shows "(\<exists>rest. items = vs @ rest) \<and> (\<forall>i \<in> set vs. item_configuration vd st i = Inr c)
     \<and> (items \<noteq> [] \<longrightarrow> vs \<noteq> [] \<and> hd vs = hd items)"
proof (cases items)
  case (Cons i its)
  with assms have c: "item_configuration vd st i = Inr c" and m: "matching_prefix vd st c items = Inr vs"
    by (auto simp: resolve_batch_configuration_def res_simps)
  have "vs \<noteq> [] \<and> hd vs = i"
    using m c Cons by (auto simp: res_simps)
  with matching_prefix_Inr [OF m] Cons show ?thesis by simp
qed (use assms in \<open>auto simp: resolve_batch_configuration_def\<close>)

lemma matching_prefix_ok:
  "\<forall>i \<in> set items. is_ok (item_configuration vd st i) \<Longrightarrow> is_ok (matching_prefix vd st c items)"
proof (induction items)
  case (Cons i its)
  then obtain x vs where "item_configuration vd st i = Inr x" and "matching_prefix vd st c its = Inr vs"
    by (auto simp: is_ok_iff)
  then show ?case by (cases "x = c") simp_all
qed simp

lemma resolve_batch_configuration_ok:
  assumes "\<forall>i \<in> set items. is_ok (item_configuration vd st i)"
  shows "is_ok (resolve_batch_configuration vd st items)"
proof (cases items)
  case (Cons i its)
  obtain c where c: "item_configuration vd st i = Inr c" using assms Cons by (auto simp: is_ok_iff)
  obtain vs where "matching_prefix vd st c items = Inr vs"
    using matching_prefix_ok [OF assms] by (auto simp: is_ok_iff)
  with c Cons show ?thesis by (simp add: resolve_batch_configuration_def)
qed (simp add: resolve_batch_configuration_def)

lemma items_of_message_set:
  "set (items_of_message qd key m) =
     {i \<in> set (qd_items qd). \<not> qi_processed i \<and> qi_work_unit_key i = key \<and> qi_message_id i = Some (ms_id m)}"
  by (auto simp: items_of_message_def unprocessed_items_def)

definition batch_items :: "queue_db \<Rightarrow> string \<Rightarrow> message_row list \<Rightarrow> queue_item list" where
  "batch_items qd key ms = concat (map (items_of_message qd key) ms)"

lemma batch_items_set:
  "i \<in> set (batch_items qd key ms) \<longleftrightarrow> i \<in> set (qd_items qd) \<and> \<not> qi_processed i
     \<and> qi_work_unit_key i = key \<and> (\<exists>m \<in> set ms. qi_message_id i = Some (ms_id m))"
  by (auto simp: batch_items_def items_of_message_set)

lemma last_queued_id_batch:
  assumes "set items \<subseteq> set (batch_items qd key ms)"
  shows "\<exists>r. last_queued_id items = Inr r \<and> (r = None \<longleftrightarrow> items = [])
     \<and> (\<forall>n. r = Some n \<longrightarrow> (\<forall>i \<in> set items. \<exists>k. qi_message_id i = Some k \<and> k \<le> n))"
proof (cases "items = []")
  case False
  let ?ids = "concat (map (\<lambda>i. case qi_message_id i of None \<Rightarrow> [] | Some n \<Rightarrow> [n]) items)"
  have some: "\<exists>k. qi_message_id i = Some k" if "i \<in> set items" for i
    using subsetD [OF assms that] by (auto simp: batch_items_set)
  then have mem: "k \<in> set ?ids \<longleftrightarrow> (\<exists>i \<in> set items. qi_message_id i = Some k)" for k
    by (auto split: option.splits) (metis)
  obtain i where "i \<in> set items" using False by (cases items) auto
  with some mem have "?ids \<noteq> []" by (metis empty_iff empty_set)
  then obtain n where n: "max_of ?ids = Some n" by (cases "max_of ?ids") auto
  have "\<forall>i \<in> set items. \<exists>k. qi_message_id i = Some k \<and> k \<le> n"
    using max_of_Some [OF n] some mem by blast
  with n False show ?thesis by (simp add: last_queued_id_def)
qed (simp add: last_queued_id_def)

lemma finish_batch_batch:
  "finish_batch ds vd st ex (batch_rows qd key ms) =
     (let cap = REPRESENTATION_BATCH_TARGET_INPUT_TOKENS ds; items = batch_items qd key ms in
      res_bind (last_queued_id items) (\<lambda>before.
      res_bind (resolve_batch_configuration vd st items) (\<lambda>(items_to_process, c).
      res_bind (last_queued_id items_to_process) (\<lambda>after.
      Inr \<lparr>qb_messages_context =
              (case after of None \<Rightarrow> seen_once [] (batch_rows qd key ms)
               | Some n \<Rightarrow> filter (\<lambda>m. ms_id m \<le> n) (seen_once [] (batch_rows qd key ms))),
            qb_items_to_process = items_to_process, qb_configuration = c,
            qb_hit_batch_token_cap = (if cap > 0 \<and> before \<noteq> None \<and> before = after
                then (if cap > 0 then ex else False) else False),
            qb_was_flush_enabled = FLUSH_ENABLED ds, qb_batch_max_tokens = cap\<rparr>))))"
  unfolding finish_batch_def rows_items batch_items_def [symmetric] Let_def ..

lemma finish_batch_Inr:
  assumes "finish_batch ds vd st ex (batch_rows qd key ms) = Inr b" and "distinct (map ms_id ms)"
  shows "\<exists>n. resolve_batch_configuration vd st (batch_items qd key ms)
            = Inr (qb_items_to_process b, qb_configuration b)
     \<and> qb_messages_context b =
         (if qb_items_to_process b = [] then ms else filter (\<lambda>m. ms_id m \<le> n) ms)
     \<and> (qb_items_to_process b \<noteq> [] \<longrightarrow>
          (\<forall>i \<in> set (qb_items_to_process b). \<exists>k. qi_message_id i = Some k \<and> k \<le> n))"
proof -
  have ctx: "seen_once [] (batch_rows qd key ms) = ms"
    by (simp add: seen_once_batch [OF assms(2)])
  let ?ctx = "\<lambda>after. case after of None \<Rightarrow> ms | Some n \<Rightarrow> filter (\<lambda>m. ms_id m \<le> n) ms"
  from assms(1) obtain before vsc where r0: "resolve_batch_configuration vd st (batch_items qd key ms) = Inr vsc"
    and r1: "(case vsc of (vs, c) \<Rightarrow> res_bind (last_queued_id vs) (\<lambda>after.
      Inr \<lparr>qb_messages_context = ?ctx after, qb_items_to_process = vs, qb_configuration = c,
            qb_hit_batch_token_cap = (if REPRESENTATION_BATCH_TARGET_INPUT_TOKENS ds > 0
                \<and> before \<noteq> None \<and> before = after
                then (if REPRESENTATION_BATCH_TARGET_INPUT_TOKENS ds > 0 then ex else False) else False),
            qb_was_flush_enabled = FLUSH_ENABLED ds,
            qb_batch_max_tokens = REPRESENTATION_BATCH_TARGET_INPUT_TOKENS ds\<rparr>)) = Inr b"
    unfolding finish_batch_batch ctx Let_def res_bind_Inr by blast
  obtain vs c where vsc: "vsc = (vs, c)" by (cases vsc)
  with r0 have r: "resolve_batch_configuration vd st (batch_items qd key ms) = Inr (vs, c)" by simp
  from r1 obtain after where l: "last_queued_id vs = Inr after"
    and b: "qb_items_to_process b = vs" "qb_configuration b = c" "qb_messages_context b = ?ctx after"
    unfolding vsc prod.case res_bind_Inr by force
  have "set vs \<subseteq> set (batch_items qd key ms)"
    using resolve_batch_configuration_Inr [OF r] by auto
  from last_queued_id_batch [OF this] l have "after = None \<longleftrightarrow> vs = []"
    and "\<forall>n. after = Some n \<longrightarrow> (\<forall>i \<in> set vs. \<exists>k. qi_message_id i = Some k \<and> k \<le> n)"
    by auto
  with r b show ?thesis by (cases after) auto
qed

lemma get_batch_Inr:
  assumes "get_queue_item_batch ds vd st db tt key aqs qd = Inr b"
  shows "b = empty_batch ds \<or>
    (\<exists>pk. tt = ''representation'' \<and> parse_work_unit_key key = Inr pk
       \<and> (\<exists>c \<in> set (qd_claims qd). aq_work_unit_key c = key \<and> aq_id c = aqs)
       \<and> finish_batch ds vd st (cap_exceeded (REPRESENTATION_BATCH_TARGET_INPUT_TOKENS ds) (window_messages db qd key pk))
           (batch_rows qd key (allowed_messages (REPRESENTATION_BATCH_TARGET_INPUT_TOKENS ds)
              (min_unprocessed_message_id db qd key pk) (window_messages db qd key pk))) = Inr b)"
  using assms
  by (auto simp: get_queue_item_batch_def Let_def res_simps list_ex_iff simp del: batch_rows_Nil split: if_splits)

lemma window_messages_set:
  "m \<in> set (window_messages db qd key pk) \<longleftrightarrow>
     m \<in> set (session_messages db pk) \<and> (\<exists>n. effective_start_id db qd key pk = Some n \<and> n \<le> ms_id m)"
  by (cases "effective_start_id db qd key pk") (auto simp: window_messages_def)

lemma distinct_window:
  "distinct (map ms_id (t_messages db)) \<Longrightarrow> distinct (map ms_id (window_messages db qd key pk))"
  by (cases "effective_start_id db qd key pk")
    (auto simp: window_messages_def session_messages_def distinct_map inj_on_def)

lemma sorted_allowed: "sorted (map ms_id ms) \<Longrightarrow> sorted (map ms_id (allowed_messages cap f ms))"
proof -
  assume s: "sorted (map ms_id ms)"
  have "map (ms_id \<circ> fst) (cumulative 0 ms) = map ms_id ms"
    by (simp add: map_fst_cumulative flip: map_map)
  with s have "sorted (map (ms_id \<circ> fst) (cumulative 0 ms))" by simp
  then show ?thesis by (simp add: allowed_messages_def sorted_filter)
qed

lemma sorted_window: "sorted (map ms_id (window_messages db qd key pk))"
  by (simp add: window_messages_def split: option.splits)

lemma sorted_constant: "\<forall>x \<in> set xs. f x = (c :: int) \<Longrightarrow> sorted (map f xs)"
  by (induction xs) auto

lemma sorted_batch_items:
  "sorted (map ms_id ms) \<Longrightarrow> sorted (map (\<lambda>i. the (qi_message_id i)) (batch_items qd key ms))"
proof (induction ms)
  case (Cons m ms)
  have "sorted (map (\<lambda>i. the (qi_message_id i)) (items_of_message qd key m))"
    by (rule sorted_constant [where c = "ms_id m"]) (auto simp: items_of_message_set)
  moreover have "\<forall>i \<in> set (items_of_message qd key m). \<forall>j \<in> set (batch_items qd key ms).
      the (qi_message_id i) \<le> the (qi_message_id j)"
    using Cons.prems by (auto simp: items_of_message_set batch_items_set)
  ultimately show ?case
    using Cons by (auto simp: batch_items_def sorted_append)
qed (simp add: batch_items_def)

text \<open>The message tables' key.\<close>

definition message_ids_unique :: "tables \<Rightarrow> bool" where
  "message_ids_unique db \<longleftrightarrow> distinct (map ms_id (t_messages db))"

definition owns :: "queue_db \<Rightarrow> string \<Rightarrow> string \<Rightarrow> bool" where
  "owns qd key aqs \<longleftrightarrow> claim_owner qd key = Some aqs"

lemma owns_iff:
  "claims_ok qd \<Longrightarrow> owns qd key aqs \<longleftrightarrow> (\<exists>c \<in> set (qd_claims qd). aq_work_unit_key c = key \<and> aq_id c = aqs)"
  by (simp add: owns_def claim_owner_iff)

lemma start_le_first:
  assumes "min_unprocessed_message_id db qd key pk = Some n"
  shows "\<exists>k. effective_start_id db qd key pk = Some k \<and> k \<le> n"
proof (cases "preceding_message_id db qd key pk")
  case (Some k)
  then have "immediately_preceding_id db qd key pk = Some k"
    by (auto simp: preceding_message_id_def find_Some_iff)
  then have "k \<in> set (map ms_id (filter (\<lambda>m. ms_id m < n) (session_messages db pk)))"
    using max_of_Some assms by (fastforce simp: immediately_preceding_id_def)
  with Some show ?thesis by (auto simp: effective_start_id_def)
qed (simp add: effective_start_id_def assms)

lemma first_unprocessed:
  assumes "min_unprocessed_message_id db qd key pk = Some n"
  shows "\<exists>m i. m \<in> set (window_messages db qd key pk) \<and> ms_id m = n \<and> i \<in> set (qd_items qd)
     \<and> \<not> qi_processed i \<and> qi_work_unit_key i = key \<and> qi_message_id i = Some n"
proof -
  have "n \<in> set (queued_message_ids db qd key pk)"
    using assms min_of_Some by (auto simp: min_unprocessed_message_id_def)
  then obtain m i where "m \<in> set (session_messages db pk)" "ms_id m = n" "i \<in> set (qd_items qd)"
    "\<not> qi_processed i" "qi_work_unit_key i = key" "qi_message_id i = Some n"
    by (auto simp: queued_message_ids_def list_ex_iff unprocessed_items_def)
  with start_le_first [OF assms] show ?thesis
    by (auto simp: window_messages_set)
qed

text \<open>When the owner fetches while some item of the work unit is still unprocessed for a message of its
  session, and the stored configurations validate, the batch starts with an item of the first
  unprocessed message.\<close>

lemma batch_first:
  assumes "queue_ok qd" and "message_ids_unique db" and "owns qd key aqs"
    and "parse_work_unit_key key = Inr pk" and "min_unprocessed_message_id db qd key pk = Some n"
    and "\<forall>i \<in> set (qd_items qd). qi_work_unit_key i = key \<and> \<not> qi_processed i
           \<longrightarrow> is_ok (item_configuration vd st i)"
  shows "\<exists>b. get_queue_item_batch ds vd st db ''representation'' key aqs qd = Inr b
    \<and> qb_items_to_process b \<noteq> [] \<and> qi_message_id (hd (qb_items_to_process b)) = Some n"
proof -
  let ?cap = "REPRESENTATION_BATCH_TARGET_INPUT_TOKENS ds"
  let ?w = "window_messages db qd key pk"
  let ?ms = "allowed_messages ?cap (Some n) ?w"
  obtain m i where m: "m \<in> set ?w" "ms_id m = n" and i: "i \<in> set (qd_items qd)" "\<not> qi_processed i"
    "qi_work_unit_key i = key" "qi_message_id i = Some n"
    using first_unprocessed [OF assms(5)] by blast
  have mm: "m \<in> set ?ms" using allowed_first [OF m(1)] m(2) by simp
  have d: "distinct (map ms_id ?ms)"
    using assms(2) by (intro distinct_allowed distinct_window) (simp add: message_ids_unique_def)
  have bi: "i \<in> set (batch_items qd key ?ms)"
    using mm m(2) i by (auto simp: batch_items_set)
  have ok: "is_ok (resolve_batch_configuration vd st (batch_items qd key ?ms))"
    using assms(6) by (intro resolve_batch_configuration_ok) (auto simp: batch_items_set)
  then obtain vs c where r: "resolve_batch_configuration vd st (batch_items qd key ?ms) = Inr (vs, c)"
    by (auto simp: is_ok_iff)
  have vs: "vs \<noteq> []" "set vs \<subseteq> set (batch_items qd key ?ms)"
    using resolve_batch_configuration_Inr [OF r] bi by auto
  have l1: "\<exists>x. last_queued_id (batch_items qd key ?ms) = Inr x"
    using last_queued_id_batch [OF order_refl, of qd key ?ms] by blast
  have l2: "\<exists>x. last_queued_id vs = Inr x"
    using last_queued_id_batch [OF vs(2)] by blast
  have "\<exists>b. finish_batch ds vd st (cap_exceeded ?cap ?w) (batch_rows qd key ?ms) = Inr b"
    unfolding finish_batch_batch Let_def using l1 l2 r by auto
  then obtain b where b: "finish_batch ds vd st (cap_exceeded ?cap ?w) (batch_rows qd key ?ms) = Inr b"
    by blast
  have cl: "list_ex (\<lambda>c. aq_work_unit_key c = key \<and> aq_id c = aqs) (qd_claims qd)"
    using assms(1,3) by (auto simp: owns_iff queue_ok_def list_ex_iff)
  have ne: "?ms \<noteq> []" using mm by auto
  have get: "get_queue_item_batch ds vd st db ''representation'' key aqs qd = Inr b"
    using b ne cl assms(4,5) by (simp add: get_queue_item_batch_def Let_def)
  have items: "qb_items_to_process b = vs"
    using finish_batch_Inr [OF b d] r by auto
  let ?h = "hd vs"
  have hd: "?h = hd (batch_items qd key ?ms)" "?h \<in> set (batch_items qd key ?ms)"
    using resolve_batch_configuration_Inr [OF r] bi vs by auto
  from hd(2) obtain x where x: "x \<in> set ?ms" "qi_message_id ?h = Some (ms_id x)"
    "?h \<in> set (qd_items qd)" "\<not> qi_processed ?h" "qi_work_unit_key ?h = key"
    by (auto simp: batch_items_set)
  have "x \<in> set (session_messages db pk)"
    using x(1) allowed_subset window_messages_set by blast
  with x have "ms_id x \<in> set (queued_message_ids db qd key pk)"
    by (auto simp: queued_message_ids_def list_ex_iff unprocessed_items_def)
  then have "n \<le> ms_id x"
    using min_of_Some assms(5) by (auto simp: min_unprocessed_message_id_def)
  moreover have "the (qi_message_id ?h) \<le> the (qi_message_id i)"
  proof -
    have "sorted (map (\<lambda>i. the (qi_message_id i)) (batch_items qd key ?ms))"
      by (intro sorted_batch_items sorted_allowed sorted_window)
    with bi hd(1) show ?thesis
      by (cases "batch_items qd key ?ms") auto
  qed
  ultimately have "qi_message_id ?h = Some n" using x(2) i(4) by simp
  with get vs(1) items show ?thesis by auto
qed

lemma batch_ok:
  assumes "parse_work_unit_key key = Inr pk"
    and "\<forall>i \<in> set (qd_items qd). qi_work_unit_key i = key \<and> \<not> qi_processed i
           \<longrightarrow> is_ok (item_configuration vd st i)"
  shows "\<exists>b. get_queue_item_batch ds vd st db ''representation'' key aqs qd = Inr b"
proof -
  have f: "\<exists>b. finish_batch ds vd st ex (batch_rows qd key ms) = Inr b" for ex ms
  proof -
    have "is_ok (resolve_batch_configuration vd st (batch_items qd key ms))"
      using assms(2) by (intro resolve_batch_configuration_ok) (auto simp: batch_items_set)
    then obtain vs c where r: "resolve_batch_configuration vd st (batch_items qd key ms) = Inr (vs, c)"
      by (auto simp: is_ok_iff)
    have vs: "set vs \<subseteq> set (batch_items qd key ms)"
      using resolve_batch_configuration_Inr [OF r] by auto
    have "\<exists>x. last_queued_id (batch_items qd key ms) = Inr x" and "\<exists>x. last_queued_id vs = Inr x"
      using last_queued_id_batch [OF order_refl, of qd key ms] last_queued_id_batch [OF vs] by blast+
    with r show ?thesis unfolding finish_batch_batch Let_def by auto
  qed
  show ?thesis using f assms(1) by (simp add: get_queue_item_batch_def Let_def)
qed

lemma batch_items_pending:
  assumes "get_queue_item_batch ds vd st db tt key aqs qd = Inr b" and "message_ids_unique db"
    and "i \<in> set (qb_items_to_process b)"
  shows "i \<in> set (qd_items qd) \<and> \<not> qi_processed i \<and> qi_work_unit_key i = key"
  using get_batch_Inr [OF assms(1)]
proof (elim disjE exE conjE)
  assume "b = empty_batch ds"
  with assms(3) show ?thesis by (simp add: empty_batch_def)
next
  fix pk
  let ?ms = "allowed_messages (REPRESENTATION_BATCH_TARGET_INPUT_TOKENS ds)
     (min_unprocessed_message_id db qd key pk) (window_messages db qd key pk)"
  assume f: "finish_batch ds vd st (cap_exceeded (REPRESENTATION_BATCH_TARGET_INPUT_TOKENS ds)
      (window_messages db qd key pk)) (batch_rows qd key ?ms) = Inr b"
  have "distinct (map ms_id ?ms)"
    using assms(2) by (intro distinct_allowed distinct_window) (simp add: message_ids_unique_def)
  from finish_batch_Inr [OF f this] have "set (qb_items_to_process b) \<subseteq> set (batch_items qd key ?ms)"
    using resolve_batch_configuration_Inr by fastforce
  with assms(3) show ?thesis by (auto simp: batch_items_set)
qed

lemma batch_owner:
  assumes "get_queue_item_batch ds vd st db tt key aqs qd = Inr b" and "claims_ok qd" and "\<not> owns qd key aqs"
  shows "qb_items_to_process b = []"
  using get_batch_Inr [OF assms(1)] assms(2,3) by (auto simp: owns_iff empty_batch_def)

section \<open>Properties\<close>

text \<open>C13. What a batch holds: only the current owner of the claim gets items; every item is an
  unprocessed item of the work unit whose message is in the context, all items carry one and the
  same valid configuration, the one the batch reports, and the context is made of messages of the
  work unit's session.\<close>

theorem batch_sound:
  assumes "get_queue_item_batch ds vd st db tt key aqs qd = Inr b"
    and "queue_ok qd" and "message_ids_unique db"
  shows "(qb_items_to_process b \<noteq> [] \<longrightarrow> owns qd key aqs)
    \<and> (\<forall>i \<in> set (qb_items_to_process b). i \<in> set (qd_items qd) \<and> \<not> qi_processed i \<and> qi_work_unit_key i = key
         \<and> item_configuration vd st i = Inr (qb_configuration b)
         \<and> (\<exists>m \<in> set (qb_messages_context b). qi_message_id i = Some (ms_id m)))
    \<and> (\<forall>m \<in> set (qb_messages_context b). \<exists>pk. parse_work_unit_key key = Inr pk \<and> m \<in> set (session_messages db pk))"
  using get_batch_Inr [OF assms(1)]
proof (elim disjE exE conjE)
  assume "b = empty_batch ds"
  then show ?thesis by (simp add: empty_batch_def)
next
  fix pk
  let ?cap = "REPRESENTATION_BATCH_TARGET_INPUT_TOKENS ds"
  let ?w = "window_messages db qd key pk"
  let ?ms = "allowed_messages ?cap (min_unprocessed_message_id db qd key pk) ?w"
  assume pk: "parse_work_unit_key key = Inr pk"
    and own: "\<exists>c \<in> set (qd_claims qd). aq_work_unit_key c = key \<and> aq_id c = aqs"
    and f: "finish_batch ds vd st (cap_exceeded ?cap ?w) (batch_rows qd key ?ms) = Inr b"
  have d: "distinct (map ms_id ?ms)"
    using assms(3) by (intro distinct_allowed distinct_window) (simp add: message_ids_unique_def)
  from finish_batch_Inr [OF f d] obtain n where
    r: "resolve_batch_configuration vd st (batch_items qd key ?ms) = Inr (qb_items_to_process b, qb_configuration b)"
    and c: "qb_messages_context b = (if qb_items_to_process b = [] then ?ms else filter (\<lambda>m. ms_id m \<le> n) ?ms)"
    and le: "qb_items_to_process b \<noteq> [] \<longrightarrow> (\<forall>i \<in> set (qb_items_to_process b). \<exists>k. qi_message_id i = Some k \<and> k \<le> n)"
    by blast
  have sub: "set (qb_items_to_process b) \<subseteq> set (batch_items qd key ?ms)"
    and conf: "\<forall>i \<in> set (qb_items_to_process b). item_configuration vd st i = Inr (qb_configuration b)"
    using resolve_batch_configuration_Inr [OF r] by auto
  have "i \<in> set (qd_items qd) \<and> \<not> qi_processed i \<and> qi_work_unit_key i = key
         \<and> item_configuration vd st i = Inr (qb_configuration b)
         \<and> (\<exists>m \<in> set (qb_messages_context b). qi_message_id i = Some (ms_id m))"
    if i: "i \<in> set (qb_items_to_process b)" for i
  proof -
    from subsetD [OF sub i] obtain m where m: "m \<in> set ?ms" "qi_message_id i = Some (ms_id m)"
      and rest: "i \<in> set (qd_items qd)" "\<not> qi_processed i" "qi_work_unit_key i = key"
      by (auto simp: batch_items_set)
    have "m \<in> set (qb_messages_context b)" using le i m c by fastforce
    with rest m conf i show ?thesis by blast
  qed
  moreover have "set (qb_messages_context b) \<subseteq> set (session_messages db pk)"
    using c allowed_subset [of ?cap "min_unprocessed_message_id db qd key pk" ?w]
    by (auto simp: window_messages_set split: if_splits)
  moreover have "owns qd key aqs"
    using own assms(2) by (simp add: owns_iff queue_ok_def)
  ultimately show ?thesis using pk by blast
qed

text \<open>C18. The token cap: with non-negative token counts and cap, the messages of a batch other than the
  first unprocessed one together stay within the cap; only that one message may exceed it.\<close>

theorem batch_within_cap:
  assumes "get_queue_item_batch ds vd st db tt key aqs qd = Inr b" and "message_ids_unique db"
    and "\<forall>m \<in> set (t_messages db). 0 \<le> ms_token_count m"
    and "0 \<le> REPRESENTATION_BATCH_TARGET_INPUT_TOKENS ds" and "parse_work_unit_key key = Inr pk"
  shows "tokens_of (filter (\<lambda>m. min_unprocessed_message_id db qd key pk \<noteq> Some (ms_id m)) (qb_messages_context b))
    \<le> REPRESENTATION_BATCH_TARGET_INPUT_TOKENS ds"
  using get_batch_Inr [OF assms(1)]
proof (elim disjE exE conjE)
  assume "b = empty_batch ds"
  with assms(4) show ?thesis by (simp add: empty_batch_def)
next
  fix pk'
  let ?cap = "REPRESENTATION_BATCH_TARGET_INPUT_TOKENS ds"
  let ?f = "min_unprocessed_message_id db qd key pk"
  let ?ms = "allowed_messages ?cap ?f (window_messages db qd key pk)"
  assume pk': "parse_work_unit_key key = Inr pk'"
    and f: "finish_batch ds vd st (cap_exceeded ?cap (window_messages db qd key pk'))
      (batch_rows qd key (allowed_messages ?cap (min_unprocessed_message_id db qd key pk')
         (window_messages db qd key pk'))) = Inr b"
  have eq: "pk' = pk" using pk' assms(5) by simp
  have d: "distinct (map ms_id ?ms)"
    using assms(2) by (intro distinct_allowed distinct_window) (simp add: message_ids_unique_def)
  have nn: "\<forall>m \<in> set (window_messages db qd key pk). 0 \<le> ms_token_count m"
    using assms(3) by (auto simp: window_messages_set session_messages_def)
  have nn': "\<forall>m \<in> set (filter (\<lambda>m. ?f \<noteq> Some (ms_id m)) ?ms). 0 \<le> ms_token_count m"
    using nn allowed_subset by fastforce
  from finish_batch_Inr [OF f [unfolded eq] d] obtain n where
    c: "qb_messages_context b = (if qb_items_to_process b = [] then ?ms else filter (\<lambda>m. ms_id m \<le> n) ?ms)"
    by blast
  have "tokens_of (filter (\<lambda>m. ?f \<noteq> Some (ms_id m)) (qb_messages_context b))
      \<le> tokens_of (filter (\<lambda>m. ?f \<noteq> Some (ms_id m)) ?ms)"
    using tokens_of_filter_le [OF nn', of "\<lambda>m. ms_id m \<le> n"] unfolding c
    by (simp add: conj_commute)
  with allowed_cases [OF nn assms(4), of ?f] show ?thesis by linarith
qed

section \<open>Witnesses\<close>

definition demo_tables :: tables where
  "demo_tables =
     \<lparr>t_workspaces = [], t_peers = [], t_sessions = [],
      t_messages =
        [\<lparr>ms_id = 1, ms_public_id = ''M1'', ms_session = ''s'', ms_peer = ''bob'', ms_workspace = ''w'',
          ms_content = ''who?'', ms_token_count = 10, ms_seq = 1, ms_deleted_at = None\<rparr>,
         \<lparr>ms_id = 2, ms_public_id = ''M2'', ms_session = ''s'', ms_peer = ''alice'', ms_workspace = ''w'',
          ms_content = ''me'', ms_token_count = 2000, ms_seq = 2, ms_deleted_at = None\<rparr>],
      t_session_peers = []\<rparr>"

definition demo_queue :: queue_db where
  "demo_queue =
     \<lparr>qd_items = [example_item 1 ''representation:w:s:alice'' ''representation'' (Some 2)],
      qd_claims = [\<lparr>aq_id = ''a1'', aq_work_unit_key = ''representation:w:s:alice'', aq_last_updated = 0\<rparr>],
      qd_next_id = 2\<rparr>"

abbreviation demo_key :: string where
  "demo_key \<equiv> ''representation:w:s:alice''"

abbreviation demo_batch :: "queue_batch_result res" where
  "demo_batch \<equiv> get_queue_item_batch example_deriver example_validators example_settings demo_tables
     ''representation'' demo_key ''a1'' demo_queue"

definition demo_parsed :: parsed_work_unit where
  "demo_parsed =
     \<lparr>pw_task_type = ''representation'', pw_workspace_name = Some ''w'', pw_session_name = Some ''s'',
      pw_observer = None, pw_observed = Some ''alice'', pw_dream_type = None\<rparr>"

lemma demo_facts:
  "queue_ok demo_queue" "message_ids_unique demo_tables" "owns demo_queue demo_key ''a1''"
  "parse_work_unit_key demo_key = Inr demo_parsed"
  "min_unprocessed_message_id demo_tables demo_queue demo_key demo_parsed = Some 2"
  "\<forall>i \<in> set (qd_items demo_queue). qi_work_unit_key i = demo_key \<and> \<not> qi_processed i
     \<longrightarrow> is_ok (item_configuration example_validators example_settings i)"
  "\<forall>m \<in> set (t_messages demo_tables). 0 \<le> ms_token_count m"
  "0 \<le> REPRESENTATION_BATCH_TARGET_INPUT_TOKENS example_deriver"
  by code_simp+

theorem batch_sound_witness:
  "\<exists>b. demo_batch = Inr b \<and> (\<forall>i \<in> set (qb_items_to_process b). qi_work_unit_key i = demo_key)
     \<and> length (qb_messages_context b) = 2"
proof -
  have "case demo_batch of Inr b \<Rightarrow> length (qb_messages_context b) = 2 | Inl _ \<Rightarrow> False" by code_simp
  then obtain b where b: "demo_batch = Inr b" "length (qb_messages_context b) = 2"
    by (auto split: sum.splits)
  from batch_sound [OF b(1) demo_facts(1,2)] b show ?thesis by blast
qed

theorem batch_within_cap_witness:
  "\<exists>b. demo_batch = Inr b \<and> tokens_of (qb_messages_context b) = 2010
     \<and> tokens_of (filter (\<lambda>m. 2 \<noteq> ms_id m) (qb_messages_context b)) \<le> 1024"
proof -
  have "case demo_batch of Inr b \<Rightarrow> tokens_of (qb_messages_context b) = 2010 | Inl _ \<Rightarrow> False" by code_simp
  then obtain b where b: "demo_batch = Inr b" "tokens_of (qb_messages_context b) = 2010"
    by (auto split: sum.splits)
  have cap: "REPRESENTATION_BATCH_TARGET_INPUT_TOKENS example_deriver = 1024" by code_simp
  have "tokens_of (filter (\<lambda>m. 2 \<noteq> ms_id m) (qb_messages_context b)) \<le> 1024"
    using batch_within_cap [OF b(1) demo_facts(2,7,8,4)] unfolding demo_facts(5) cap by simp
  with b show ?thesis by blast
qed

end
