(* ===== verification/QueueManager.thy ===== *)
theory QueueManager
  imports QueueBatch
begin

text \<open>
  The deriver's queue manager (src/src/deriver/queue_manager.py): claiming work units, the adaptive
  polling interval, worker ownership, fetching and completing items, the shared retry budget and the
  processing loop of one work unit. A manager's fields are a record; random samples, clocks, fresh
  ids and the outcome of handing items to a consumer are arguments. What may go wrong with a database
  statement is an explicit flag of the operation that handles it.
\<close>

section \<open>State\<close>

record worker_ownership =
  wo_work_unit_key :: string
  wo_aqs_id :: string

record manager =
  mg_shutdown :: bool
  mg_ownership :: "(string \<times> worker_ownership) list"
  mg_queue_empty :: bool
  mg_poll_interval :: rat
  mg_last_cleanup :: "rat option"
  mg_cleanup_gate :: rat

definition init_manager :: "deriver_settings \<Rightarrow> manager" where
  "init_manager ds =
     \<lparr>mg_shutdown = False, mg_ownership = [], mg_queue_empty = False,
      mg_poll_interval = POLLING_SLEEP_INTERVAL_SECONDS ds, mg_last_cleanup = None, mg_cleanup_gate = 0\<rparr>"

definition track_worker_work_unit :: "string \<Rightarrow> string \<Rightarrow> string \<Rightarrow> manager \<Rightarrow> manager" where
  "track_worker_work_unit worker_id work_unit_key aqs_id mg =
     mg\<lparr>mg_ownership := dset (mg_ownership mg) worker_id
          \<lparr>wo_work_unit_key = work_unit_key, wo_aqs_id = aqs_id\<rparr>\<rparr>"

definition untrack_worker_work_unit :: "string \<Rightarrow> string \<Rightarrow> manager \<Rightarrow> manager" where
  "untrack_worker_work_unit worker_id work_unit_key mg =
     (case dget (mg_ownership mg) worker_id of
        None \<Rightarrow> mg
      | Some ow \<Rightarrow>
          if wo_work_unit_key ow = work_unit_key
          then mg\<lparr>mg_ownership := dpop (mg_ownership mg) worker_id\<rparr> else mg)"

definition get_total_owned_work_units :: "manager \<Rightarrow> nat" where
  "get_total_owned_work_units mg = length (mg_ownership mg)"

text \<open>Releasing everything on exit; a failing statement still clears the ownership.\<close>

definition cleanup :: "bool \<Rightarrow> manager \<times> queue_db \<Rightarrow> manager \<times> queue_db" where
  "cleanup db_ok state =
     (let (mg, qd) = state; aqs_ids = map (\<lambda>(w, ow). wo_aqs_id ow) (mg_ownership mg)
      in if get_total_owned_work_units mg > 0 then
           (mg\<lparr>mg_ownership := []\<rparr>,
            if db_ok then qd\<lparr>qd_claims := filter (\<lambda>c. \<not> List.member aqs_ids (aq_id c)) (qd_claims qd)\<rparr>
            else qd)
         else (mg, qd))"

section \<open>Polling\<close>

text \<open>\<open>sample\<close> is the value of \<open>random.uniform(1 - ratio, 1 + ratio)\<close>.\<close>

definition jitter :: "deriver_settings \<Rightarrow> rat \<Rightarrow> rat \<Rightarrow> rat" where
  "jitter ds sample s = (if POLLING_JITTER_RATIO ds \<le> 0 then s else s * sample)"

definition reset_poll_interval :: "deriver_settings \<Rightarrow> manager \<Rightarrow> manager" where
  "reset_poll_interval ds mg = mg\<lparr>mg_poll_interval := POLLING_SLEEP_INTERVAL_SECONDS ds\<rparr>"

definition advance_poll_interval :: "deriver_settings \<Rightarrow> rat \<Rightarrow> manager \<Rightarrow> rat \<times> manager" where
  "advance_poll_interval ds sample mg =
     (jitter ds sample (mg_poll_interval mg),
      if POLLING_BACKOFF_ENABLED ds
      then mg\<lparr>mg_poll_interval := min (mg_poll_interval mg * POLLING_BACKOFF_MULTIPLIER ds)
                                     (POLLING_SLEEP_MAX_INTERVAL_SECONDS ds)\<rparr>
      else mg)"

definition is_tenant_work :: "string list \<Rightarrow> bool" where
  "is_tenant_work keys =
     list_ex (\<lambda>key. case parse_work_unit_key key of
                      Inr p \<Rightarrow> pw_task_type p \<noteq> ''reconciler''
                    | Inl _ \<Rightarrow> True) keys"

text \<open>The first result tells whether the sweep, if one was due, committed. The attempt is recorded
  before the statement runs, so a failing sweep waits for the next interval too.\<close>

definition maybe_cleanup_stale_work_units ::
  "deriver_settings \<Rightarrow> rat \<Rightarrow> rat \<Rightarrow> timestamp \<Rightarrow> string list \<Rightarrow> bool \<Rightarrow> manager \<times> queue_db
     \<Rightarrow> bool \<times> manager \<times> queue_db" where
  "maybe_cleanup_stale_work_units ds clock sample now locked sweep_ok state =
     (let (mg, qd) = state; interval = STALE_WORK_UNIT_CLEANUP_INTERVAL_SECONDS ds
      in if interval > 0
            \<and> (case mg_last_cleanup mg of None \<Rightarrow> False | Some t \<Rightarrow> clock - t < mg_cleanup_gate mg)
         then (True, mg, qd)
         else (sweep_ok,
               mg\<lparr>mg_last_cleanup := Some clock, mg_cleanup_gate := jitter ds sample interval\<rparr>,
               if sweep_ok then cleanup_stale_work_units ds now locked qd else qd))"

text \<open>\<open>fresh_ids\<close> are the ids generated for the rows of the insert, in order.\<close>

definition get_and_claim_work_units ::
  "deriver_settings \<Rightarrow> timestamp \<Rightarrow> tables \<Rightarrow> string list \<Rightarrow> manager \<Rightarrow> queue_db
     \<Rightarrow> (string \<times> string) list \<times> queue_db" where
  "get_and_claim_work_units ds now db fresh_ids mg qd =
     (let limit = nat (max 0 (WORKERS ds - int (get_total_owned_work_units mg)))
      in if limit = 0 then ([], qd)
         else
           (let available_units = available_work_units ds now db limit qd
            in if available_units = [] then ([], qd)
               else claim_work_units now (zip available_units fresh_ids) qd))"

text \<open>One turn of the polling loop that got past the checks: claim, and start one worker per claim
  (unless a shutdown has begun), or back off.\<close>

fun track_all :: "(string \<times> string) list \<Rightarrow> string list \<Rightarrow> manager \<Rightarrow> manager" where
  "track_all ((key, aqs_id) # claimed) (worker_id # worker_ids) mg =
     track_all claimed worker_ids
       (if mg_shutdown mg then mg else track_worker_work_unit worker_id key aqs_id mg)"
| "track_all _ _ mg = mg"

definition poll_once ::
  "deriver_settings \<Rightarrow> rat \<Rightarrow> timestamp \<Rightarrow> tables \<Rightarrow> string list \<Rightarrow> string list \<Rightarrow> manager \<times> queue_db
     \<Rightarrow> rat option \<times> (string \<times> string) list \<times> manager \<times> queue_db" where
  "poll_once ds sample now db fresh_ids worker_ids state =
     (let (mg, qd) = state; (claimed, qd') = get_and_claim_work_units ds now db fresh_ids mg qd
      in if claimed \<noteq> [] then
           (None, claimed,
            track_all claimed worker_ids
              (if is_tenant_work (map fst claimed) then reset_poll_interval ds mg else mg), qd')
         else
           (let (sleep, mg') = advance_poll_interval ds sample (mg\<lparr>mg_queue_empty := True\<rparr>)
            in (Some sleep, [], mg', qd')))"

text \<open>What one turn of the loop meets: the jitter samples, the clocks, the claim rows other
  transactions hold, fresh ids, how many workers run, and whether the statements commit.\<close>

record poll_env =
  pe_sample :: rat
  pe_gate_sample :: rat
  pe_clock :: rat
  pe_now :: timestamp
  pe_locked :: "string list"
  pe_sweep_ok :: bool
  pe_claim_ok :: bool
  pe_fresh_ids :: "string list"
  pe_worker_ids :: "string list"
  pe_running :: int

text \<open>The body of \<open>while not shutdown_event.is_set()\<close>: how long the turn sleeps, what it claims, the
  new state.\<close>

definition polling_turn ::
  "deriver_settings \<Rightarrow> tables \<Rightarrow> poll_env \<Rightarrow> manager \<times> queue_db
     \<Rightarrow> rat option \<times> (string \<times> string) list \<times> manager \<times> queue_db" where
  "polling_turn ds db pe state =
     (let (mg, qd) = state
      in if mg_queue_empty mg then (None, [], mg\<lparr>mg_queue_empty := False\<rparr>, qd)
         else if pe_running pe \<ge> WORKERS ds
         then (Some (jitter ds (pe_sample pe) (POLLING_SLEEP_INTERVAL_SECONDS ds)), [], mg, qd)
         else
           (let (swept, mg1, qd1) =
                  (if SCHEDULER ds = ''deriver''
                   then maybe_cleanup_stale_work_units ds (pe_clock pe) (pe_gate_sample pe) (pe_now pe)
                          (pe_locked pe) (pe_sweep_ok pe) state
                   else (True, mg, qd))
            in if swept \<and> pe_claim_ok pe
               then poll_once ds (pe_sample pe) (pe_now pe) db (pe_fresh_ids pe) (pe_worker_ids pe) (mg1, qd1)
               else
                 (let (sleep, mg2) = advance_poll_interval ds (pe_sample pe) mg1
                  in (Some sleep, [], mg2, qd1))))"

section \<open>Fetching and completing items\<close>

definition get_next_queue_item :: "string \<Rightarrow> string \<Rightarrow> string \<Rightarrow> queue_db \<Rightarrow> queue_item option res" where
  "get_next_queue_item task_type work_unit_key aqs_id qd =
     (if task_type = ''representation'' then Inl ValueError
      else Inr
        (case sort_key qi_id (filter (\<lambda>i. qi_work_unit_key i = work_unit_key
                 \<and> list_ex (\<lambda>c. aq_work_unit_key c = work_unit_key \<and> aq_id c = aqs_id) (qd_claims qd))
               (unprocessed_items qd)) of
           [] \<Rightarrow> None
         | item # _ \<Rightarrow> Some item))"

definition update_items :: "(queue_item \<Rightarrow> bool) \<Rightarrow> (queue_item \<Rightarrow> queue_item) \<Rightarrow> queue_db \<Rightarrow> queue_db" where
  "update_items P f qd = qd\<lparr>qd_items := map (\<lambda>i. if P i then f i else i) (qd_items qd)\<rparr>"

definition touch_claim :: "timestamp \<Rightarrow> string \<Rightarrow> queue_db \<Rightarrow> queue_db" where
  "touch_claim now work_unit_key qd =
     qd\<lparr>qd_claims := map (\<lambda>c. if aq_work_unit_key c = work_unit_key then c\<lparr>aq_last_updated := now\<rparr> else c)
                      (qd_claims qd)\<rparr>"

definition mark_queue_items_as_processed ::
  "timestamp \<Rightarrow> queue_item list \<Rightarrow> string \<Rightarrow> queue_db \<Rightarrow> queue_db" where
  "mark_queue_items_as_processed now items work_unit_key qd =
     (if items = [] then qd
      else
        (let item_ids = map qi_id items in
         touch_claim now work_unit_key
           (update_items (\<lambda>i. List.member item_ids (qi_id i) \<and> qi_work_unit_key i = work_unit_key)
              (\<lambda>i. i\<lparr>qi_processed := True\<rparr>) qd)))"

text \<open>\<open>escape_unstorable\<close>: of the code points below 256 only NUL is unstorable.\<close>

definition escape_unstorable :: "string \<Rightarrow> string" where
  "escape_unstorable text = concat (map (\<lambda>c. if of_char c = (0 :: nat) then CHR 0x5C # ''x00'' else [c]) text)"

definition mark_queue_item_as_errored ::
  "timestamp \<Rightarrow> queue_item \<Rightarrow> string \<Rightarrow> string \<Rightarrow> queue_db \<Rightarrow> queue_db" where
  "mark_queue_item_as_errored now item work_unit_key error qd =
     touch_claim now work_unit_key
       (update_items (\<lambda>i. qi_id i = qi_id item \<and> qi_work_unit_key i = work_unit_key)
          (\<lambda>i. i\<lparr>qi_processed := True, qi_error := Some (take 65535 (escape_unstorable error))\<rparr>) qd)"

section \<open>The retry budget\<close>

definition MAX_RETRYABLE_ATTEMPTS :: int where
  "MAX_RETRYABLE_ATTEMPTS = 3"

definition oldest_unprocessed_item :: "string \<Rightarrow> queue_db \<Rightarrow> queue_item option" where
  "oldest_unprocessed_item work_unit_key qd =
     (case sort_key qi_id (filter (\<lambda>i. qi_work_unit_key i = work_unit_key) (unprocessed_items qd)) of
        [] \<Rightarrow> None
      | item # _ \<Rightarrow> Some item)"

text \<open>\<open>int(raw)\<close>; a text counter is outside the model (the program stores integers), other values
  count as zero. An infinite float raises \<open>OverflowError\<close>, which nothing here catches.\<close>

definition retry_attempts_of :: "pydict \<Rightarrow> int res" where
  "retry_attempts_of payload =
     (case dget_default payload RETRY_ATTEMPTS_PAYLOAD_KEY (PInt 0) of
        PInt n \<Rightarrow> Inr (max 0 n)
      | PBool b \<Rightarrow> Inr (if b then 1 else 0)
      | PFloat (Finite r) \<Rightarrow> Inr (max 0 (if r < 0 then \<lceil>r\<rceil> else \<lfloor>r\<rfloor>))
      | PFloat NotANumber \<Rightarrow> Inr 0
      | PFloat _ \<Rightarrow> Inl OverflowError
      | PStr _ \<Rightarrow> Inl OutOfModel
      | _ \<Rightarrow> Inr 0)"

definition get_work_unit_retry_attempts :: "string \<Rightarrow> queue_db \<Rightarrow> int res" where
  "get_work_unit_retry_attempts work_unit_key qd =
     (case oldest_unprocessed_item work_unit_key qd of
        None \<Rightarrow> Inr 0
      | Some item \<Rightarrow> retry_attempts_of (qi_payload item))"

definition set_work_unit_retry_attempts :: "string \<Rightarrow> int \<Rightarrow> queue_db \<Rightarrow> queue_db" where
  "set_work_unit_retry_attempts work_unit_key attempts qd =
     (case oldest_unprocessed_item work_unit_key qd of
        None \<Rightarrow> qd
      | Some item \<Rightarrow>
          update_items (\<lambda>i. qi_id i = qi_id item)
            (\<lambda>i. i\<lparr>qi_payload := dset (qi_payload item) RETRY_ATTEMPTS_PAYLOAD_KEY (PInt attempts)\<rparr>) qd)"

definition clear_work_unit_retry_attempts :: "string \<Rightarrow> queue_db \<Rightarrow> queue_db" where
  "clear_work_unit_retry_attempts work_unit_key qd =
     update_items (\<lambda>i. qi_work_unit_key i = work_unit_key \<and> \<not> qi_processed i
                       \<and> has_key (qi_payload i) RETRY_ATTEMPTS_PAYLOAD_KEY)
       (\<lambda>i. i\<lparr>qi_payload := dpop (qi_payload i) RETRY_ATTEMPTS_PAYLOAD_KEY\<rparr>) qd"

text \<open>Whether the three groups of statements of the error handler commit: the retry counter, the mark
  and the clearing of the counter.\<close>

record io_flags =
  counter_io :: bool
  mark_io :: bool
  clear_io :: bool

datatype retry_decision = ReleaseForRetry queue_db | GiveUp

definition retry_decision_of :: "io_flags \<Rightarrow> bool \<Rightarrow> string \<Rightarrow> queue_db \<Rightarrow> retry_decision" where
  "retry_decision_of fl retryable work_unit_key qd =
     (if \<not> retryable then GiveUp
      else if \<not> counter_io fl then ReleaseForRetry qd
      else (case get_work_unit_retry_attempts work_unit_key qd of
              Inl _ \<Rightarrow> ReleaseForRetry qd
            | Inr n \<Rightarrow>
                if n + 1 < MAX_RETRYABLE_ATTEMPTS
                then ReleaseForRetry (set_work_unit_retry_attempts work_unit_key (n + 1) qd)
                else GiveUp))"

definition handle_processing_error ::
  "timestamp \<Rightarrow> io_flags \<Rightarrow> bool \<Rightarrow> queue_item list \<Rightarrow> string \<Rightarrow> string \<Rightarrow> queue_db \<Rightarrow> bool \<times> queue_db" where
  "handle_processing_error now fl retryable items work_unit_key error_msg qd =
     (case retry_decision_of fl retryable work_unit_key qd of
        ReleaseForRetry qd' \<Rightarrow> (True, qd')
      | GiveUp \<Rightarrow>
          if items \<noteq> [] \<and> \<not> mark_io fl then (True, qd)
          else
            (let marked = (if items \<noteq> [] then mark_queue_item_as_errored now (hd items) work_unit_key error_msg qd
                           else qd)
             in if \<not> clear_io fl then (True, marked)
                else (False, clear_work_unit_retry_attempts work_unit_key marked)))"

section \<open>Lemmas\<close>

named_theorems manager_simps "fields kept by the manager's operations"

lemma advance_frame [manager_simps]:
  "mg_ownership (snd (advance_poll_interval ds s mg)) = mg_ownership mg"
  "mg_shutdown (snd (advance_poll_interval ds s mg)) = mg_shutdown mg"
  by (simp_all add: advance_poll_interval_def)

lemma cleanup_gate_frame [manager_simps]:
  assumes "maybe_cleanup_stale_work_units ds c s now locked ok (mg, qd) = (b, mg', qd')"
  shows "mg_ownership mg' = mg_ownership mg"
    and "qd' = qd \<or> qd' = cleanup_stale_work_units ds now locked qd"
  using assms by (auto simp: maybe_cleanup_stale_work_units_def Let_def split: if_splits)

lemma length_dset: "length (dset d k v) \<le> Suc (length d)"
  by (induction d) (auto simp: dset_def)

lemma dset_mem: "x \<in> set (dset d k v) \<Longrightarrow> x \<in> set d \<or> x = (k, v)"
  by (induction d) (auto simp: dset_def split: if_splits)

lemma track_all_length:
  "length (mg_ownership (track_all claimed ws mg)) \<le> length (mg_ownership mg) + length claimed"
proof (induction claimed ws mg rule: track_all.induct)
  case (1 key aqs claimed w ws mg)
  have "length (mg_ownership (if mg_shutdown mg then mg else track_worker_work_unit w key aqs mg))
      \<le> Suc (length (mg_ownership mg))"
    by (simp add: track_worker_work_unit_def length_dset)
  with 1 show ?case by simp
qed auto

lemma track_all_mem:
  "(w, ow) \<in> set (mg_ownership (track_all claimed ws mg)) \<Longrightarrow>
   (w, ow) \<in> set (mg_ownership mg) \<or> (wo_work_unit_key ow, wo_aqs_id ow) \<in> set claimed"
  by (induction claimed ws mg rule: track_all.induct)
    (force simp: track_worker_work_unit_def dest!: dset_mem split: if_splits)+

lemma claim_work_units_length:
  "claim_work_units now ks qd = (claimed, qd') \<Longrightarrow> length claimed \<le> length ks"
proof (induction now ks qd arbitrary: claimed qd' rule: claim_work_units.induct)
  case (2 now key f rest qd)
  then show ?case by (auto split: if_splits prod.splits intro: le_SucI)
qed simp

lemma get_and_claim_bound:
  assumes "get_and_claim_work_units ds now db ids mg qd = (claimed, qd')"
  shows "length claimed \<le> nat (WORKERS ds - int (get_total_owned_work_units mg))"
proof -
  let ?n = "nat (max 0 (WORKERS ds - int (get_total_owned_work_units mg)))"
  have "length (zip (available_work_units ds now db ?n qd) ids) \<le> ?n"
    using available_length [of ds now db ?n qd] by simp
  with assms show ?thesis
    by (auto simp: get_and_claim_work_units_def Let_def split: if_splits dest!: claim_work_units_length)
qed

lemma get_and_claim_claims:
  assumes "get_and_claim_work_units ds now db ids mg qd = (claimed, qd')"
  shows "qd' = qd \<and> claimed = [] \<or>
    (\<exists>ks. claim_work_units now ks qd = (claimed, qd') \<and>
       fst ` set ks \<subseteq> set (available_work_units ds now db
          (nat (max 0 (WORKERS ds - int (get_total_owned_work_units mg)))) qd) \<and> snd ` set ks \<subseteq> set ids)"
  using assms
  by (auto simp: get_and_claim_work_units_def Let_def split: if_splits dest: set_zip_leftD set_zip_rightD
      intro!: exI)

lemma poll_once_cases:
  assumes "poll_once ds s now db ids ws (mg, qd) = (sl, claimed, mg', qd')"
  obtains "get_and_claim_work_units ds now db ids mg qd = (claimed, qd')" "claimed \<noteq> []" "sl = None"
      "\<exists>mg0. mg_ownership mg0 = mg_ownership mg \<and> mg_shutdown mg0 = mg_shutdown mg
          \<and> mg' = track_all claimed ws mg0"
  | "get_and_claim_work_units ds now db ids mg qd = (claimed, qd')" "claimed = []"
      "mg_ownership mg' = mg_ownership mg"
proof (cases "get_and_claim_work_units ds now db ids mg qd")
  case (Pair cl q)
  show thesis
  proof (cases "cl = []")
    case True
    with assms Pair have "claimed = []" "q = qd'" "mg_ownership mg' = mg_ownership mg"
      by (auto simp: poll_once_def advance_poll_interval_def split: if_splits)
    with that(2) Pair True show thesis by simp
  next
    case False
    let ?mg = "if is_tenant_work (map fst cl) then reset_poll_interval ds mg else mg"
    from False assms Pair have e: "claimed = cl" "q = qd'" "sl = None" "mg' = track_all cl ws ?mg"
      by (auto simp: poll_once_def)
    have "mg_ownership ?mg = mg_ownership mg \<and> mg_shutdown ?mg = mg_shutdown mg"
      by (simp add: reset_poll_interval_def)
    with that(1) e Pair False show thesis by blast
  qed
qed

section \<open>Lemmas on updated items\<close>

definition pending_of :: "queue_db \<Rightarrow> string \<Rightarrow> queue_item list" where
  "pending_of qd key = filter (\<lambda>i. qi_work_unit_key i = key) (unprocessed_items qd)"

lemma pending_of_iff:
  "i \<in> set (pending_of qd key) \<longleftrightarrow> i \<in> set (qd_items qd) \<and> \<not> qi_processed i \<and> qi_work_unit_key i = key"
  by (auto simp: pending_of_def unprocessed_items_def)

text \<open>An update that keeps the identity of a row and never takes back \<open>processed\<close>.\<close>

definition keeps_row :: "(queue_item \<Rightarrow> queue_item) \<Rightarrow> bool" where
  "keeps_row g \<longleftrightarrow> (\<forall>i. qi_id (g i) = qi_id i \<and> qi_work_unit_key (g i) = qi_work_unit_key i
      \<and> qi_task_type (g i) = qi_task_type i \<and> (qi_processed i \<longrightarrow> qi_processed (g i)))"

lemma keeps_rowD:
  "keeps_row g \<Longrightarrow> qi_id (g i) = qi_id i" "keeps_row g \<Longrightarrow> qi_work_unit_key (g i) = qi_work_unit_key i"
  "keeps_row g \<Longrightarrow> qi_task_type (g i) = qi_task_type i"
  "keeps_row g \<Longrightarrow> qi_processed i \<Longrightarrow> qi_processed (g i)"
  by (simp_all add: keeps_row_def)

lemma keeps_row_if: "keeps_row f \<Longrightarrow> keeps_row (\<lambda>i. if P i then f i else i)"
  by (simp add: keeps_row_def)

lemma keeps_row_updates [simp]:
  "keeps_row (\<lambda>i. i\<lparr>qi_processed := True\<rparr>)" "keeps_row (\<lambda>i. i\<lparr>qi_processed := True, qi_error := e i\<rparr>)"
  "keeps_row (\<lambda>i. i\<lparr>qi_payload := p i\<rparr>)"
  by (simp_all add: keeps_row_def)

lemma distinct_kept:
  assumes "keeps_row g" and "distinct (map qi_work_unit_key (filter (\<lambda>i. qi_task_type i = t \<and> \<not> qi_processed i) xs))"
  shows "distinct (map qi_work_unit_key (filter (\<lambda>i. qi_task_type i = t \<and> \<not> qi_processed i) (map g xs)))"
  using assms(2)
proof (induction xs)
  case (Cons x xs)
  then show ?case using keeps_rowD [OF assms(1)] by (auto split: if_splits)
qed simp

lemma mapped_items_ok:
  assumes "queue_ok qd" and "keeps_row g"
  shows "queue_ok (qd\<lparr>qd_items := map g (qd_items qd)\<rparr>)"
proof (rule queue_okI)
  show "claims_ok (qd\<lparr>qd_items := map g (qd_items qd)\<rparr>)"
    using assms by (simp add: queue_ok_def claims_ok_def)
  show "unique_pending (qd\<lparr>qd_items := map g (qd_items qd)\<rparr>)"
    using assms distinct_kept [OF assms(2)] by (simp add: queue_ok_def unique_pending_def)
  show "ids_ok (qd\<lparr>qd_items := map g (qd_items qd)\<rparr>)"
    using assms by (auto simp: queue_ok_def ids_ok_def keeps_rowD comp_def)
qed

lemma update_items_ok: "queue_ok qd \<Longrightarrow> keeps_row f \<Longrightarrow> queue_ok (update_items P f qd)"
  unfolding update_items_def by (intro mapped_items_ok keeps_row_if)

lemma touch_claim_ok: "queue_ok qd \<Longrightarrow> queue_ok (touch_claim now key qd)"
  by (simp add: queue_ok_def claims_ok_def unique_pending_def ids_ok_def touch_claim_def comp_def if_distrib cong: if_cong)

lemma touch_claim_items [simp]: "qd_items (touch_claim now key qd) = qd_items qd"
  by (simp add: touch_claim_def)

lemma find_map: "List.find P (map f xs) = map_option f (List.find (P \<circ> f) xs)"
  by (induction xs) auto

lemma touch_claim_owner [simp]: "claim_owner (touch_claim now key qd) k = claim_owner qd k"
  by (simp add: claim_owner_def touch_claim_def find_map comp_def if_distrib option.map_comp cong: if_cong)

lemma update_items_claims [simp]: "qd_claims (update_items P f qd) = qd_claims qd"
  by (simp add: update_items_def)

lemma update_items_owner [simp]: "claim_owner (update_items P f qd) k = claim_owner qd k"
  by (simp add: claim_owner_def)

lemma pending_touch [simp]: "pending_of (touch_claim now key qd) k = pending_of qd k"
  by (simp add: pending_of_def unprocessed_items_def)

lemma pending_update_ids:
  assumes "keeps_row f"
  shows "map qi_id (pending_of (update_items P f qd) k) =
    map qi_id (filter (\<lambda>i. P i \<longrightarrow> \<not> qi_processed (f i)) (pending_of qd k))"
proof -
  let ?g = "\<lambda>i. if P i then f i else i"
  have g: "qi_id (?g i) = qi_id i" "qi_work_unit_key (?g i) = qi_work_unit_key i" for i
    using keeps_rowD [OF assms] by simp_all
  have p: "\<not> qi_processed (?g i) \<longleftrightarrow> \<not> qi_processed i \<and> (P i \<longrightarrow> \<not> qi_processed (f i))" for i
    using keeps_rowD(4) [OF assms, of i] by auto
  have "map qi_id (pending_of (update_items P f qd) k) =
      map qi_id (filter (\<lambda>i. \<not> qi_processed (?g i) \<and> qi_work_unit_key (?g i) = k) (qd_items qd))"
    by (simp add: pending_of_def unprocessed_items_def update_items_def filter_map comp_def g conj_commute)
  also have "\<dots> = map qi_id (filter (\<lambda>i. P i \<longrightarrow> \<not> qi_processed (f i)) (pending_of qd k))"
    unfolding p g by (auto simp: pending_of_def unprocessed_items_def conj_ac intro!: arg_cong [where f = "map qi_id"] filter_cong)
  finally show ?thesis .
qed

lemma update_items_other:
  assumes "keeps_row f" and "\<And>i. P i \<Longrightarrow> qi_work_unit_key i = key" and "k \<noteq> key"
  shows "filter (\<lambda>i. qi_work_unit_key i = k) (qd_items (update_items P f qd)) =
    filter (\<lambda>i. qi_work_unit_key i = k) (qd_items qd)"
proof -
  have "filter (\<lambda>i. qi_work_unit_key i = k) (map (\<lambda>i. if P i then f i else i) xs) =
      filter (\<lambda>i. qi_work_unit_key i = k) xs" for xs
  proof (induction xs)
    case (Cons x xs)
    then show ?case using keeps_rowD(2) [OF assms(1), of x] assms(2) [of x] assms(3) by auto
  qed simp
  then show ?thesis by (simp add: update_items_def)
qed

lemma sort_key_head:
  assumes "sort_key f xs = y # ys"
  shows "y \<in> set xs \<and> (\<forall>x \<in> set xs. f y \<le> f x)"
proof -
  have s: "set xs = set (y # ys)" using set_sort [of f xs] by (simp only: assms)
  have "sorted (map f (y # ys))" using sorted_sort_key [of f xs] by (simp only: assms)
  then show ?thesis unfolding s by auto
qed

lemma oldest_Some:
  assumes "oldest_unprocessed_item key qd = Some i"
  shows "i \<in> set (pending_of qd key)" and "\<And>j. j \<in> set (pending_of qd key) \<Longrightarrow> qi_id i \<le> qi_id j"
proof -
  obtain ys where s: "sort_key qi_id (pending_of qd key) = i # ys"
    using assms by (auto simp: oldest_unprocessed_item_def pending_of_def split: list.splits)
  from sort_key_head [OF s]
  show "i \<in> set (pending_of qd key)" and "\<And>j. j \<in> set (pending_of qd key) \<Longrightarrow> qi_id i \<le> qi_id j"
    by auto
qed

lemma oldest_None: "oldest_unprocessed_item key qd = None \<longleftrightarrow> pending_of qd key = []"
proof -
  have "sort_key qi_id (pending_of qd key) = [] \<longleftrightarrow> pending_of qd key = []"
    by (metis set_empty set_sort)
  then show ?thesis
    by (auto simp: oldest_unprocessed_item_def pending_of_def split: list.splits)
qed

lemma row_by_id:
  assumes "queue_ok qd" and "i \<in> set (qd_items qd)" and "j \<in> set (qd_items qd)" and "qi_id i = qi_id j"
  shows "i = j"
proof -
  have "distinct (map qi_id (qd_items qd))" using assms(1) by (simp add: queue_ok_def ids_ok_def)
  from distinct_map_mem_eq [where f = qi_id, OF this assms(2,3,4)] show ?thesis .
qed

lemma oldest_eq:
  assumes "queue_ok qd" and "i \<in> set (pending_of qd key)" and "\<And>j. j \<in> set (pending_of qd key) \<Longrightarrow> qi_id i \<le> qi_id j"
  shows "oldest_unprocessed_item key qd = Some i"
proof (cases "oldest_unprocessed_item key qd")
  case None
  with assms(2) show ?thesis by (simp add: oldest_None)
next
  case (Some j)
  note j = oldest_Some [OF Some]
  have "qi_id i = qi_id j" using order_antisym [OF assms(3) [OF j(1)] j(2) [OF assms(2)]] .
  then have "i = j"
    using row_by_id [OF assms(1)] j(1) assms(2) by (simp add: pending_of_iff)
  with Some show ?thesis by simp
qed

lemma update_items_set:
  "set (qd_items (update_items P f qd)) = (\<lambda>i. if P i then f i else i) ` set (qd_items qd)"
  by (simp add: update_items_def)

lemma retry_attempts_nonneg: "retry_attempts_of p = Inr n \<Longrightarrow> 0 \<le> n"
  by (auto simp: retry_attempts_of_def split: pyval.splits pyfloat.splits if_splits)

lemma attempts_nonneg: "get_work_unit_retry_attempts key qd = Inr n \<Longrightarrow> 0 \<le> n"
  by (auto simp: get_work_unit_retry_attempts_def retry_attempts_nonneg split: option.splits)

lemma retry_attempts_of_dset: "0 \<le> n \<Longrightarrow> retry_attempts_of (dset p RETRY_ATTEMPTS_PAYLOAD_KEY (PInt n)) = Inr n"
  by (simp add: retry_attempts_of_def dget_default_def)

lemma retry_attempts_of_absent: "\<not> has_key p RETRY_ATTEMPTS_PAYLOAD_KEY \<Longrightarrow> retry_attempts_of p = Inr 0"
  by (simp add: retry_attempts_of_def dget_default_def dict_simps)

text \<open>Writing the counter: the same items stay pending, and the counter reads back.\<close>

lemma set_attempts_frame:
  assumes "queue_ok qd"
  shows "queue_ok (set_work_unit_retry_attempts key n qd)"
    and "map qi_id (pending_of (set_work_unit_retry_attempts key n qd) k) = map qi_id (pending_of qd k)"
proof -
  show "queue_ok (set_work_unit_retry_attempts key n qd)"
    using assms by (simp add: set_work_unit_retry_attempts_def update_items_ok split: option.splits)
  have "filter (\<lambda>i. qi_id i = j \<longrightarrow> \<not> qi_processed i) (pending_of qd k) = pending_of qd k" for j
    by (rule filter_True) (simp add: pending_of_iff)
  then show "map qi_id (pending_of (set_work_unit_retry_attempts key n qd) k) = map qi_id (pending_of qd k)"
    by (simp add: set_work_unit_retry_attempts_def pending_update_ids split: option.splits)
qed

lemma set_attempts_get:
  assumes "queue_ok qd" and "pending_of qd key \<noteq> []" and "0 \<le> n"
  shows "get_work_unit_retry_attempts key (set_work_unit_retry_attempts key n qd) = Inr n"
proof -
  obtain i where i: "oldest_unprocessed_item key qd = Some i"
    using assms(2) oldest_None by (metis not_None_eq)
  let ?f = "\<lambda>j. j\<lparr>qi_payload := dset (qi_payload i) RETRY_ATTEMPTS_PAYLOAD_KEY (PInt n)\<rparr>"
  let ?qd = "update_items (\<lambda>j. qi_id j = qi_id i) ?f qd"
  note o = oldest_Some [OF i]
  have pend: "?f i \<in> set (pending_of ?qd key)"
    using o(1) by (auto simp: pending_of_iff update_items_set)
  have ids: "qi_id ` set (pending_of ?qd key) = qi_id ` set (pending_of qd key)"
  proof -
    have "map qi_id (pending_of ?qd key) = map qi_id (pending_of qd key)"
      using set_attempts_frame(2) [OF assms(1), of key n key] i by (simp add: set_work_unit_retry_attempts_def)
    then show ?thesis by (metis list.set_map)
  qed
  have le: "qi_id (?f i) \<le> qi_id j" if "j \<in> set (pending_of ?qd key)" for j
  proof -
    have "qi_id j \<in> qi_id ` set (pending_of qd key)" using that ids by blast
    with o(2) show ?thesis by auto
  qed
  have "oldest_unprocessed_item key ?qd = Some (?f i)"
    by (rule oldest_eq [OF update_items_ok [OF assms(1)] pend le]) simp_all
  with i assms(3) show ?thesis
    by (simp add: get_work_unit_retry_attempts_def set_work_unit_retry_attempts_def retry_attempts_of_dset)
qed

lemma clear_attempts_frame:
  assumes "queue_ok qd"
  shows "queue_ok (clear_work_unit_retry_attempts key qd)"
    and "map qi_id (pending_of (clear_work_unit_retry_attempts key qd) k) = map qi_id (pending_of qd k)"
    and "get_work_unit_retry_attempts key (clear_work_unit_retry_attempts key qd) = Inr 0"
proof -
  let ?P = "\<lambda>i. qi_work_unit_key i = key \<and> \<not> qi_processed i \<and> has_key (qi_payload i) RETRY_ATTEMPTS_PAYLOAD_KEY"
  let ?f = "\<lambda>i. i\<lparr>qi_payload := dpop (qi_payload i) RETRY_ATTEMPTS_PAYLOAD_KEY\<rparr>"
  let ?qd = "clear_work_unit_retry_attempts key qd"
  have eq: "?qd = update_items ?P ?f qd" by (simp add: clear_work_unit_retry_attempts_def)
  show "queue_ok ?qd" unfolding eq by (rule update_items_ok [OF assms]) simp
  show "map qi_id (pending_of ?qd k) = map qi_id (pending_of qd k)"
    unfolding eq by (simp add: pending_update_ids)
  have "\<not> has_key (qi_payload j) RETRY_ATTEMPTS_PAYLOAD_KEY" if "j \<in> set (pending_of ?qd key)" for j
  proof -
    have p: "\<not> qi_processed j" "qi_work_unit_key j = key" and im: "j \<in> set (qd_items ?qd)"
      using that unfolding pending_of_iff by blast+
    from im obtain i where i: "j = (if ?P i then ?f i else i)"
      unfolding eq update_items_set by (rule imageE)
    show ?thesis
    proof (cases "?P i")
      case True
      with i have "qi_payload j = dpop (qi_payload i) RETRY_ATTEMPTS_PAYLOAD_KEY" by simp
      then show ?thesis by (simp add: has_key_dget)
    next
      case False
      with i p show ?thesis by auto
    qed
  qed
  then show "get_work_unit_retry_attempts key ?qd = Inr 0"
    using oldest_Some(1) by (auto simp: get_work_unit_retry_attempts_def retry_attempts_of_absent split: option.splits)
qed

lemma mark_errored_frame:
  assumes "queue_ok qd"
  shows "queue_ok (mark_queue_item_as_errored now i key msg qd)"
    and "map qi_id (pending_of (mark_queue_item_as_errored now i key msg qd) k) =
      filter (\<lambda>n. k = key \<longrightarrow> n \<noteq> qi_id i) (map qi_id (pending_of qd k))"
proof -
  show "queue_ok (mark_queue_item_as_errored now i key msg qd)"
    using assms by (simp add: mark_queue_item_as_errored_def touch_claim_ok update_items_ok)
  have "filter (\<lambda>j. \<not> (qi_id j = qi_id i \<and> qi_work_unit_key j = key)) (pending_of qd k) =
      filter (\<lambda>j. k = key \<longrightarrow> qi_id j \<noteq> qi_id i) (pending_of qd k)"
    by (rule filter_cong) (auto simp: pending_of_iff)
  then show "map qi_id (pending_of (mark_queue_item_as_errored now i key msg qd) k) =
      filter (\<lambda>n. k = key \<longrightarrow> n \<noteq> qi_id i) (map qi_id (pending_of qd k))"
    by (simp add: mark_queue_item_as_errored_def pending_update_ids filter_map comp_def)
qed

lemma mark_processed_frame:
  assumes "queue_ok qd"
  shows "queue_ok (mark_queue_items_as_processed now items key qd)"
    and "map qi_id (pending_of (mark_queue_items_as_processed now items key qd) k) =
      filter (\<lambda>n. k = key \<longrightarrow> n \<notin> qi_id ` set items) (map qi_id (pending_of qd k))"
proof -
  show "queue_ok (mark_queue_items_as_processed now items key qd)"
    using assms by (simp add: mark_queue_items_as_processed_def Let_def touch_claim_ok update_items_ok)
  have "filter (\<lambda>j. \<not> (qi_id j \<in> qi_id ` set items \<and> qi_work_unit_key j = key)) (pending_of qd k) =
      filter (\<lambda>j. k = key \<longrightarrow> qi_id j \<notin> qi_id ` set items) (pending_of qd k)"
    by (rule filter_cong) (auto simp: pending_of_iff)
  then show "map qi_id (pending_of (mark_queue_items_as_processed now items key qd) k) =
      filter (\<lambda>n. k = key \<longrightarrow> n \<notin> qi_id ` set items) (map qi_id (pending_of qd k))"
    by (simp add: mark_queue_items_as_processed_def Let_def pending_update_ids filter_map comp_def)
qed

lemma capped_growth:
  fixes x m c :: rat
  assumes "0 < x" and "1 \<le> m" and "0 < c"
  shows "min (min x c * m) c = min (x * m) c"
proof (cases "x \<le> c")
  case False
  have "c \<le> c * m" and "x \<le> x * m"
    using assms mult_left_mono [of 1 m c] mult_left_mono [of 1 m x] by simp_all
  with False show ?thesis by simp
qed simp

lemma swept_owner:
  assumes "queue_ok qd" and "qd' = qd \<or> qd' = cleanup_stale_work_units ds now locked qd"
    and "claim_owner qd' k = None" and "claim_owner qd k = Some b"
  shows "\<exists>c \<in> set (qd_claims qd). aq_id c = b \<and> aq_last_updated c < stale_claim_cutoff ds now"
proof -
  have ok: "claims_ok qd" using assms(1) by (simp add: queue_ok_def)
  obtain c where c: "c \<in> set (qd_claims qd)" "aq_work_unit_key c = k" "aq_id c = b"
    using assms(4) claim_owner_iff [OF ok] by auto
  have sw: "qd' = cleanup_stale_work_units ds now locked qd" using assms(2-4) by auto
  have "c \<notin> set (qd_claims qd')"
    using assms(3) c(2) by (auto simp: claim_owner_None claimed_key_iff)
  then have "aq_last_updated c < stale_claim_cutoff ds now"
    using c(1) unfolding sw swept_claims [OF ok] by auto
  with c show ?thesis by blast
qed

lemma poll_once_claims:
  assumes "queue_ok qd" and "poll_once ds s now db ids ws (mg, qd) = (sl, claimed, mg', qd')"
  shows "queue_ok qd'" and "\<And>k a. (k, a) \<in> set claimed \<Longrightarrow> claim_owner qd k = None \<and> claim_owner qd' k = Some a"
proof -
  have g: "get_and_claim_work_units ds now db ids mg qd = (claimed, qd')"
    using poll_once_cases [OF assms(2)] by metis
  from get_and_claim_claims [OF g]
  have "queue_ok qd' \<and> (\<forall>k a. (k, a) \<in> set claimed \<longrightarrow> claim_owner qd k = None \<and> claim_owner qd' k = Some a)"
  proof (elim disjE exE conjE)
    fix ks
    assume c: "claim_work_units now ks qd = (claimed, qd')"
    from claimed_owner [OF assms(1) c] claim_work_units_ok [OF assms(1), of now ks] c
    show ?thesis by simp
  qed (use assms(1) in simp)
  then show "queue_ok qd'" and "\<And>k a. (k, a) \<in> set claimed \<Longrightarrow> claim_owner qd k = None \<and> claim_owner qd' k = Some a"
    by blast+
qed

lemma poll_once_tracks:
  assumes "poll_once ds s now db ids ws (mg, qd) = (sl, claimed, mg', qd')"
    and "int (get_total_owned_work_units mg) \<le> WORKERS ds"
  shows "int (get_total_owned_work_units mg') \<le> WORKERS ds"
    and "\<And>w ow. (w, ow) \<in> set (mg_ownership mg') \<Longrightarrow> (w, ow) \<in> set (mg_ownership mg)
           \<or> (wo_work_unit_key ow, wo_aqs_id ow) \<in> set claimed"
proof -
  from poll_once_cases [OF assms(1)]
  have "int (get_total_owned_work_units mg') \<le> WORKERS ds \<and>
    (\<forall>w ow. (w, ow) \<in> set (mg_ownership mg') \<longrightarrow> (w, ow) \<in> set (mg_ownership mg)
           \<or> (wo_work_unit_key ow, wo_aqs_id ow) \<in> set claimed)"
  proof cases
    case 1
    then obtain mg0 where mg0: "mg_ownership mg0 = mg_ownership mg" "mg' = track_all claimed ws mg0" by blast
    have "length (mg_ownership mg') \<le> length (mg_ownership mg) + length claimed"
      using track_all_length [of claimed ws mg0] mg0 by simp
    with get_and_claim_bound [OF 1(1)] assms(2) have "int (get_total_owned_work_units mg') \<le> WORKERS ds"
      by (simp add: get_total_owned_work_units_def)
    with track_all_mem [of _ _ claimed ws mg0] mg0 show ?thesis by auto
  next
    case 2
    with assms(2) show ?thesis by (simp add: get_total_owned_work_units_def)
  qed
  then show "int (get_total_owned_work_units mg') \<le> WORKERS ds"
    and "\<And>w ow. (w, ow) \<in> set (mg_ownership mg') \<Longrightarrow> (w, ow) \<in> set (mg_ownership mg)
           \<or> (wo_work_unit_key ow, wo_aqs_id ow) \<in> set claimed"
    by blast+
qed

text \<open>A turn of the loop either keeps what the manager owns and claims nothing, or is one poll on the
  tables as they are or as the sweep leaves them.\<close>

lemma polling_turn_cases:
  assumes "polling_turn ds db pe (mg, qd) = (sleep, claimed, mg', qd')"
  obtains q where "q = qd \<or> q = cleanup_stale_work_units ds (pe_now pe) (pe_locked pe) qd"
      and "claimed = []" and "mg_ownership mg' = mg_ownership mg" and "qd' = q"
  | q mg1 where "q = qd \<or> q = cleanup_stale_work_units ds (pe_now pe) (pe_locked pe) qd"
      and "mg_ownership mg1 = mg_ownership mg"
      and "poll_once ds (pe_sample pe) (pe_now pe) db (pe_fresh_ids pe) (pe_worker_ids pe) (mg1, q)
             = (sleep, claimed, mg', qd')"
proof -
  let ?t = "if SCHEDULER ds = ''deriver''
     then maybe_cleanup_stale_work_units ds (pe_clock pe) (pe_gate_sample pe) (pe_now pe)
            (pe_locked pe) (pe_sweep_ok pe) (mg, qd)
     else (True, mg, qd)"
  obtain sw mg1 q where t: "?t = (sw, mg1, q)" by (cases ?t) auto
  have f: "mg_ownership mg1 = mg_ownership mg"
    "q = qd \<or> q = cleanup_stale_work_units ds (pe_now pe) (pe_locked pe) qd"
    using t cleanup_gate_frame by (auto split: if_splits)
  consider "mg_queue_empty mg" | "\<not> mg_queue_empty mg" "pe_running pe \<ge> WORKERS ds"
    | "\<not> mg_queue_empty mg" "\<not> pe_running pe \<ge> WORKERS ds" by blast
  then show thesis
  proof cases
    case 3
    show thesis
    proof (cases "sw \<and> pe_claim_ok pe")
      case True
      with 3 t assms have "poll_once ds (pe_sample pe) (pe_now pe) db (pe_fresh_ids pe) (pe_worker_ids pe) (mg1, q)
             = (sleep, claimed, mg', qd')"
        by (simp add: polling_turn_def)
      with that(2) f show thesis by blast
    next
      case False
      with 3 t assms have "claimed = []" "mg' = snd (advance_poll_interval ds (pe_sample pe) mg1)" "qd' = q"
        by (auto simp: polling_turn_def split: prod.splits)
      with that(1) f show thesis by (simp add: manager_simps)
    qed
  qed (use assms that(1) in \<open>auto simp: polling_turn_def\<close>)
qed

text \<open>The three ends of the error handler when every statement commits.\<close>

lemma handle_release:
  assumes "counter_io fl" and "get_work_unit_retry_attempts key qd = Inr n" and "n + 1 < MAX_RETRYABLE_ATTEMPTS"
  shows "handle_processing_error now fl True items key msg qd = (True, set_work_unit_retry_attempts key (n + 1) qd)"
  using assms by (simp add: handle_processing_error_def retry_decision_of_def)

lemma handle_give_up:
  assumes "counter_io fl" and "mark_io fl" and "clear_io fl" and "items \<noteq> []"
    and "retryable \<longrightarrow> (\<exists>n. get_work_unit_retry_attempts key qd = Inr n \<and> \<not> n + 1 < MAX_RETRYABLE_ATTEMPTS)"
  shows "handle_processing_error now fl retryable items key msg qd =
    (False, clear_work_unit_retry_attempts key (mark_queue_item_as_errored now (hd items) key msg qd))"
  using assms by (auto simp: handle_processing_error_def retry_decision_of_def)

lemma set_attempts_other:
  assumes "k \<noteq> key" and "queue_ok qd"
  shows "filter (\<lambda>i. qi_work_unit_key i = k) (qd_items (set_work_unit_retry_attempts key n qd)) =
    filter (\<lambda>i. qi_work_unit_key i = k) (qd_items qd)"
proof (cases "oldest_unprocessed_item key qd")
  case (Some i)
  have "(if qi_id j = qi_id i then f j else j) = (if qi_id j = qi_id i \<and> qi_work_unit_key j = key then f j else j)"
    if "j \<in> set (qd_items qd)" for j and f :: "queue_item \<Rightarrow> queue_item"
    using row_by_id [OF assms(2) that, of i] oldest_Some(1) [OF Some] by (auto simp: pending_of_iff)
  then have "set_work_unit_retry_attempts key n qd = update_items (\<lambda>j. qi_id j = qi_id i \<and> qi_work_unit_key j = key)
      (\<lambda>j. j\<lparr>qi_payload := dset (qi_payload i) RETRY_ATTEMPTS_PAYLOAD_KEY (PInt n)\<rparr>) qd"
    by (simp add: set_work_unit_retry_attempts_def Some update_items_def cong: map_cong)
  then show ?thesis
    by (simp only:) (rule update_items_other [OF _ _ assms(1)]; simp add: keeps_row_def)
qed (simp add: set_work_unit_retry_attempts_def)

lemma clear_other:
  "k \<noteq> key \<Longrightarrow> filter (\<lambda>i. qi_work_unit_key i = k) (qd_items (clear_work_unit_retry_attempts key qd)) =
   filter (\<lambda>i. qi_work_unit_key i = k) (qd_items qd)"
  unfolding clear_work_unit_retry_attempts_def
  by (rule update_items_other [where key = key]; simp add: keeps_row_def)

lemma errored_other:
  "k \<noteq> key \<Longrightarrow> filter (\<lambda>i. qi_work_unit_key i = k) (qd_items (mark_queue_item_as_errored now i key msg qd)) =
   filter (\<lambda>i. qi_work_unit_key i = k) (qd_items qd)"
  unfolding mark_queue_item_as_errored_def touch_claim_items
  by (rule update_items_other [where key = key]; simp add: keeps_row_def)

lemma give_up_other:
  "k \<noteq> key \<Longrightarrow> filter (\<lambda>i. qi_work_unit_key i = k)
      (qd_items (clear_work_unit_retry_attempts key (mark_queue_item_as_errored now i key msg qd))) =
    filter (\<lambda>i. qi_work_unit_key i = k) (qd_items qd)"
  by (simp add: clear_other errored_other)

lemma errored_row:
  assumes "i \<in> set (pending_of qd key)"
  shows "\<exists>j \<in> set (qd_items (clear_work_unit_retry_attempts key (mark_queue_item_as_errored now i key msg qd))).
    qi_id j = qi_id i \<and> qi_processed j \<and> qi_error j = Some (take 65535 (escape_unstorable msg))"
proof -
  let ?m = "mark_queue_item_as_errored now i key msg qd"
  let ?i = "i\<lparr>qi_processed := True, qi_error := Some (take 65535 (escape_unstorable msg))\<rparr>"
  have "?i \<in> set (qd_items ?m)"
    using assms by (auto simp: mark_queue_item_as_errored_def update_items_set pending_of_iff intro!: image_eqI [where x = i])
  then have "?i \<in> set (qd_items (clear_work_unit_retry_attempts key ?m))"
    by (auto simp: clear_work_unit_retry_attempts_def update_items_set intro!: image_eqI [where x = ?i])
  then show ?thesis by (rule bexI [rotated]) simp
qed

section \<open>Properties\<close>

text \<open>The polling interval follows the documented schedule: after one or more idle polls in a row it is
  the base interval times the multiplier for each of them, capped at the maximum, whatever jitter is
  drawn, and finding tenant work brings it back to the base.\<close>

theorem backoff_schedule:
  assumes "POLLING_BACKOFF_ENABLED ds" and "1 \<le> POLLING_BACKOFF_MULTIPLIER ds"
    and "0 < POLLING_SLEEP_INTERVAL_SECONDS ds" and "0 < POLLING_SLEEP_MAX_INTERVAL_SECONDS ds" and "samples \<noteq> []"
  shows "mg_poll_interval (fold (\<lambda>s mg. snd (advance_poll_interval ds s mg)) samples (reset_poll_interval ds mg)) =
    min (POLLING_SLEEP_INTERVAL_SECONDS ds * POLLING_BACKOFF_MULTIPLIER ds ^ length samples)
      (POLLING_SLEEP_MAX_INTERVAL_SECONDS ds)"
  using assms(5)
proof (induction samples rule: rev_induct)
  case (snoc s samples)
  let ?b = "POLLING_SLEEP_INTERVAL_SECONDS ds" and ?m = "POLLING_BACKOFF_MULTIPLIER ds"
    and ?M = "POLLING_SLEEP_MAX_INTERVAL_SECONDS ds"
  let ?run = "\<lambda>ss. fold (\<lambda>s mg. snd (advance_poll_interval ds s mg)) ss (reset_poll_interval ds mg)"
  have step: "mg_poll_interval (?run (samples @ [s])) = min (mg_poll_interval (?run samples) * ?m) ?M"
    using assms(1) by (simp add: advance_poll_interval_def)
  show ?case
  proof (cases "samples = []")
    case True
    then show ?thesis using step by (simp add: reset_poll_interval_def)
  next
    case False
    with snoc.IH have ih: "mg_poll_interval (?run samples) = min (?b * ?m ^ length samples) ?M" by blast
    have "0 < ?b * ?m ^ length samples"
      using assms(2,3) by simp
    with step ih show ?thesis
      using capped_growth [OF _ assms(2,4), of "?b * ?m ^ length samples"] by (simp add: mult_ac)
  qed
qed simp

text \<open>C17. Capacity: a turn of the polling loop never makes a manager own more work units than it has
  workers, keeps the tables' constraints, claims only work units that no claim in the database holds
  once stale ones are swept, and every worker it starts owns, in the database, what it tracks.\<close>

theorem polling_turn_capacity:
  assumes "queue_ok qd" and "int (get_total_owned_work_units mg) \<le> WORKERS ds"
    and "polling_turn ds db pe (mg, qd) = (sleep, claimed, mg', qd')"
  shows "queue_ok qd' \<and> int (get_total_owned_work_units mg') \<le> WORKERS ds
    \<and> (\<forall>(k, a) \<in> set claimed. claim_owner qd' k = Some a \<and> (\<forall>b. claim_owner qd k = Some b \<longrightarrow>
         (\<exists>c \<in> set (qd_claims qd). aq_id c = b \<and> aq_last_updated c < stale_claim_cutoff ds (pe_now pe))))
    \<and> (\<forall>(w, ow) \<in> set (mg_ownership mg'). (w, ow) \<in> set (mg_ownership mg)
         \<or> claim_owner qd' (wo_work_unit_key ow) = Some (wo_aqs_id ow))"
  using polling_turn_cases [OF assms(3)]
proof cases
  case (1 q)
  with assms(1,2) cleanup_stale_ok show ?thesis by (auto simp: get_total_owned_work_units_def)
next
  case (2 q mg1)
  have q: "queue_ok q" using 2(1) assms(1) cleanup_stale_ok by auto
  have le: "int (get_total_owned_work_units mg1) \<le> WORKERS ds"
    using assms(2) 2(2) by (simp add: get_total_owned_work_units_def)
  note c = poll_once_claims [OF q 2(3)] and t = poll_once_tracks [OF 2(3) le]
  have "\<exists>c \<in> set (qd_claims qd). aq_id c = b \<and> aq_last_updated c < stale_claim_cutoff ds (pe_now pe)"
    if "(k, a) \<in> set claimed" "claim_owner qd k = Some b" for k a b
    using swept_owner [OF assms(1) 2(1)] c(2) that by blast
  moreover have "(w, ow) \<in> set (mg_ownership mg) \<or> claim_owner qd' (wo_work_unit_key ow) = Some (wo_aqs_id ow)"
    if "(w, ow) \<in> set (mg_ownership mg')" for w ow
    using t(2) [OF that] c(2) 2(2) by auto
  ultimately show ?thesis using c t(1) by blast
qed

text \<open>C3. The shared retry budget. When an item fails and the handler's statements commit: a transient
  failure below the budget of three attempts leaves every item pending, stores one attempt more and
  releases the work unit; a terminal failure, or a transient one that uses up the budget, marks
  exactly the first item of the batch processed with the escaped error, leaves the others pending,
  resets the counter and carries on. No other work unit is touched.\<close>

theorem error_handling_outcome:
  assumes "queue_ok qd" and "items \<noteq> []" and "hd items \<in> set (pending_of qd key)"
    and "counter_io fl" and "mark_io fl" and "clear_io fl"
    and "get_work_unit_retry_attempts key qd = Inr n"
    and "handle_processing_error now fl retryable items key msg qd = (released, qd')"
  shows "released = (retryable \<and> n < 2) \<and> queue_ok qd'
    \<and> map qi_id (pending_of qd' key) =
        filter (\<lambda>x. released \<or> x \<noteq> qi_id (hd items)) (map qi_id (pending_of qd key))
    \<and> get_work_unit_retry_attempts key qd' = Inr (if released then n + 1 else 0)
    \<and> (released \<or> (\<exists>j \<in> set (qd_items qd'). qi_id j = qi_id (hd items) \<and> qi_processed j
          \<and> qi_error j = Some (take 65535 (escape_unstorable msg))))
    \<and> (\<forall>k. k \<noteq> key \<longrightarrow> filter (\<lambda>i. qi_work_unit_key i = k) (qd_items qd') =
          filter (\<lambda>i. qi_work_unit_key i = k) (qd_items qd))"
proof (cases "retryable \<and> n < 2")
  case True
  then have "handle_processing_error now fl retryable items key msg qd = (True, set_work_unit_retry_attempts key (n + 1) qd)"
    using handle_release [OF assms(4,7)] by (simp add: MAX_RETRYABLE_ATTEMPTS_def)
  with assms(8) have r: "released" "qd' = set_work_unit_retry_attempts key (n + 1) qd" by simp_all
  have "pending_of qd key \<noteq> []" using assms(3) by auto
  moreover have "0 \<le> n + 1" using attempts_nonneg [OF assms(7)] by simp
  ultimately have "get_work_unit_retry_attempts key qd' = Inr (n + 1)"
    unfolding r by (rule set_attempts_get [OF assms(1)])
  with True r show ?thesis
    using set_attempts_frame [OF assms(1)] set_attempts_other [OF _ assms(1)] by simp
next
  case False
  then have "handle_processing_error now fl retryable items key msg qd =
      (False, clear_work_unit_retry_attempts key (mark_queue_item_as_errored now (hd items) key msg qd))"
    using handle_give_up [OF assms(4-6,2)] assms(7) by (simp add: MAX_RETRYABLE_ATTEMPTS_def)
  with assms(8) have r: "\<not> released"
    "qd' = clear_work_unit_retry_attempts key (mark_queue_item_as_errored now (hd items) key msg qd)" by simp_all
  note m = mark_errored_frame [OF assms(1)]
  note c = clear_attempts_frame [OF m(1)]
  have "map qi_id (pending_of qd' key) = filter (\<lambda>x. x \<noteq> qi_id (hd items)) (map qi_id (pending_of qd key))"
    unfolding r c(2) m(2) by simp
  with False r show ?thesis
    using c(1,3) errored_row [OF assms(3)] give_up_other by simp
qed

text \<open>Carrying on means progress: whatever statements of the error handler fail, it lets the loop go
  on with the same work unit only when the first item of the failed batch is no longer pending.\<close>

theorem carry_on_implies_progress:
  assumes "queue_ok qd" and "items \<noteq> []"
    and "handle_processing_error now fl retryable items key msg qd = (False, qd')"
  shows "qi_id (hd items) \<notin> qi_id ` set (pending_of qd' key)"
proof -
  from assms(2,3) have e: "qd' = clear_work_unit_retry_attempts key (mark_queue_item_as_errored now (hd items) key msg qd)"
    by (auto simp: handle_processing_error_def Let_def split: retry_decision.splits if_splits)
  note m = mark_errored_frame [OF assms(1)]
  have "map qi_id (pending_of qd' key) = filter (\<lambda>x. x \<noteq> qi_id (hd items)) (map qi_id (pending_of qd key))"
    unfolding e clear_attempts_frame(2) [OF m(1)] m(2) by simp
  then have "qi_id ` set (pending_of qd' key) = set (filter (\<lambda>x. x \<noteq> qi_id (hd items)) (map qi_id (pending_of qd key)))"
    by (metis list.set_map)
  then show ?thesis by simp
qed

text \<open>Shutdown: the manager's cleanup deletes from the claim table exactly the rows its workers own,
  leaves the items, the claims of other managers and the tables' constraints alone, and forgets its
  ownership even when the statement fails.\<close>

theorem cleanup_releases_owned:
  assumes "queue_ok qd" and "cleanup db_ok (mg, qd) = (mg', qd')"
  shows "mg_ownership mg' = [] \<and> queue_ok qd' \<and> qd_items qd' = qd_items qd
    \<and> (\<forall>k. claim_owner qd' k =
         (case claim_owner qd k of None \<Rightarrow> None
          | Some a \<Rightarrow> if db_ok \<and> a \<in> wo_aqs_id ` snd ` set (mg_ownership mg) then None else Some a))"
proof -
  have ok: "claims_ok qd" using assms(1) by (simp add: queue_ok_def)
  let ?ids = "wo_aqs_id ` snd ` set (mg_ownership mg)"
  have e: "mg_ownership mg' = []" "qd' = qd\<lparr>qd_claims := filter (\<lambda>c. \<not> (db_ok \<and> aq_id c \<in> ?ids)) (qd_claims qd)\<rparr>"
    using assms(2) by (auto simp: cleanup_def Let_def get_total_owned_work_units_def image_image case_prod_unfold
        split: if_splits)
  have q: "queue_ok qd'" unfolding e(2) by (rule claims_subset_ok [OF assms(1)])
  then have ok': "claims_ok qd'" by (simp add: queue_ok_def)
  have own: "claim_owner qd' k = Some a \<longleftrightarrow> claim_owner qd k = Some a \<and> \<not> (db_ok \<and> a \<in> ?ids)" for k a
  proof -
    have "c \<in> set (qd_claims qd') \<longleftrightarrow> c \<in> set (qd_claims qd) \<and> \<not> (db_ok \<and> aq_id c \<in> ?ids)" for c
      by (simp add: e(2))
    then show ?thesis
      unfolding claim_owner_iff [OF ok] claim_owner_iff [OF ok'] by blast
  qed
  have "claim_owner qd' k = (case claim_owner qd k of None \<Rightarrow> None
          | Some a \<Rightarrow> if db_ok \<and> a \<in> ?ids then None else Some a)" for k
  proof (cases "claim_owner qd' k")
    case None
    then show ?thesis using own [of k] by (auto split: option.splits)
  next
    case (Some a)
    then show ?thesis using own [of k a] by auto
  qed
  with e q show ?thesis by simp
qed

section \<open>Witnesses\<close>

abbreviation summary_key :: string where
  "summary_key \<equiv> ''summary:w:s:None:None''"

definition all_io :: io_flags where
  "all_io = \<lparr>counter_io = True, mark_io = True, clear_io = True\<rparr>"

definition example_env :: poll_env where
  "example_env =
     \<lparr>pe_sample = 1, pe_gate_sample = 1, pe_clock = 0, pe_now = 9, pe_locked = [], pe_sweep_ok = True,
      pe_claim_ok = True, pe_fresh_ids = [''a1'', ''a2''], pe_worker_ids = [''w1'', ''w2''], pe_running = 0\<rparr>"

theorem backoff_schedule_witness:
  "mg_poll_interval (fold (\<lambda>s mg. snd (advance_poll_interval example_deriver s mg)) [1, 1, 1]
     (reset_poll_interval example_deriver (init_manager example_deriver))) = 8"
proof -
  have d: "POLLING_BACKOFF_ENABLED example_deriver" "1 \<le> POLLING_BACKOFF_MULTIPLIER example_deriver"
    "0 < POLLING_SLEEP_INTERVAL_SECONDS example_deriver" "0 < POLLING_SLEEP_MAX_INTERVAL_SECONDS example_deriver"
    "[1, 1, 1 :: rat] \<noteq> []"
    by (simp_all add: example_deriver_def)
  from backoff_schedule [OF d] show ?thesis by (simp add: example_deriver_def)
qed

theorem polling_turn_capacity_witness:
  "case polling_turn example_deriver example_tables example_env (init_manager example_deriver, example_queue) of
     (sleep, claimed, mg', qd') \<Rightarrow>
       claimed = [(summary_key, ''a1'')] \<and> claim_owner qd' summary_key = Some ''a1''
       \<and> int (get_total_owned_work_units mg') \<le> 2"
proof -
  have le: "int (get_total_owned_work_units (init_manager example_deriver)) \<le> WORKERS example_deriver"
    by (simp add: init_manager_def get_total_owned_work_units_def example_deriver_def)
  have w: "WORKERS example_deriver = 2" by (simp add: example_deriver_def)
  obtain sleep claimed mg' qd' where p: "polling_turn example_deriver example_tables example_env
      (init_manager example_deriver, example_queue) = (sleep, claimed, mg', qd')"
    by (metis prod_cases4)
  have "fst (snd (polling_turn example_deriver example_tables example_env
      (init_manager example_deriver, example_queue))) = [(summary_key, ''a1'')]"
    by code_simp
  with p have c: "claimed = [(summary_key, ''a1'')]" by simp
  from polling_turn_capacity [OF example_queue_ok le p] show ?thesis unfolding p c w by simp
qed

lemma example_pending: "example_item 2 summary_key ''summary'' (Some 1) \<in> set (pending_of example_queue summary_key)"
  by (simp add: pending_of_iff example_queue_def example_item_def)

theorem error_handling_outcome_witness:
  "case handle_processing_error 9 all_io True [example_item 2 summary_key ''summary'' (Some 1)] summary_key ''boom''
      example_queue of
     (released, qd') \<Rightarrow> released \<and> get_work_unit_retry_attempts summary_key qd' = Inr 1"
proof -
  let ?i = "example_item 2 summary_key ''summary'' (Some 1)"
  obtain rel qd' where h: "handle_processing_error 9 all_io True [?i] summary_key ''boom'' example_queue = (rel, qd')"
    by fastforce
  have p: "hd [?i] \<in> set (pending_of example_queue summary_key)" using example_pending by simp
  have a: "get_work_unit_retry_attempts summary_key example_queue = Inr 0" by code_simp
  have f: "counter_io all_io" "mark_io all_io" "clear_io all_io" by (simp_all add: all_io_def)
  from error_handling_outcome [OF example_queue_ok _ p f a h] show ?thesis unfolding h by simp
qed

theorem carry_on_implies_progress_witness:
  "case handle_processing_error 9 all_io False [example_item 2 summary_key ''summary'' (Some 1)] summary_key ''boom''
      example_queue of
     (released, qd') \<Rightarrow> \<not> released \<and> 2 \<notin> qi_id ` set (pending_of qd' summary_key)"
proof -
  let ?i = "example_item 2 summary_key ''summary'' (Some 1)"
  obtain qd' where h: "handle_processing_error 9 all_io False [?i] summary_key ''boom'' example_queue = (False, qd')"
    by (simp add: handle_processing_error_def retry_decision_of_def all_io_def)
  from carry_on_implies_progress [OF example_queue_ok _ h] show ?thesis unfolding h by (simp add: example_item_def)
qed

theorem cleanup_releases_owned_witness:
  "claim_owner (snd (cleanup True (track_worker_work_unit ''w1'' ''webhook:w'' ''a0'' (init_manager example_deriver),
     example_queue))) ''webhook:w'' = None"
proof -
  let ?mg = "track_worker_work_unit ''w1'' ''webhook:w'' ''a0'' (init_manager example_deriver)"
  obtain mg' qd' where c: "cleanup True (?mg, example_queue) = (mg', qd')" by fastforce
  have o: "claim_owner example_queue ''webhook:w'' = Some ''a0''" by code_simp
  have m: "''a0'' \<in> wo_aqs_id ` snd ` set (mg_ownership ?mg)"
    by (simp add: track_worker_work_unit_def init_manager_def dset_def)
  from cleanup_releases_owned [OF example_queue_ok c] o m show ?thesis unfolding c by simp
qed

end
