(* ===== verification/Worker.thy ===== *)
theory Worker
  imports QueueManager
begin

text \<open>
  Processing one claimed work unit (\<open>process_work_unit\<close> of src/src/deriver/queue_manager.py): the loop
  that fetches, hands over, marks and handles errors, and its \<open>finally\<close> block. What the consumer makes
  of a call, whether a fetch commits and the state of the manager at a turn are the turn's environment.
  The loop has fuel; the properties say how much is enough and when no fuel is.
\<close>

section \<open>One turn\<close>

record batch_call =
  bc_messages :: "message_row list"
  bc_configuration :: "resolved_configuration option"
  bc_observers :: pyval
  bc_observed :: "string option"
  bc_message_ids :: "int list"
  bc_session_id :: "string option"
  bc_item_ids :: "int list"
  bc_hit_batch_token_cap :: bool
  bc_was_flush_enabled :: bool
  bc_batch_max_tokens :: int

datatype consumer_call = RepresentationBatch batch_call | ProcessItem queue_item

text \<open>\<open>Failed\<close> covers an exception of the consumer and of marking the items; it carries whether the
  error is retryable, its text and which statements of the error handler commit.\<close>

datatype work_outcome = Succeeded | Failed bool string io_flags

record turn_env =
  te_now :: timestamp
  te_manager :: manager
  te_fetch_ok :: bool
  te_consume :: "consumer_call \<Rightarrow> work_outcome"

text \<open>The observers of a payload, in the current and in the legacy format.\<close>

definition payload_observers :: "pydict \<Rightarrow> pyval" where
  "payload_observers payload =
     (let observers = dget_none payload ''observers''
      in if observers = PNone then
           (let legacy_observer = dget_none payload ''observer''
            in if truthy legacy_observer then PList [legacy_observer] else PList [])
         else observers)"

definition batch_call_of :: "parsed_work_unit \<Rightarrow> queue_batch_result \<Rightarrow> batch_call" where
  "batch_call_of work_unit batch_result =
     (let items = qb_items_to_process batch_result
      in \<lparr>bc_messages = qb_messages_context batch_result, bc_configuration = qb_configuration batch_result,
          bc_observers = payload_observers (qi_payload (hd items)), bc_observed = pw_observed work_unit,
          bc_message_ids = List.map_filter qi_message_id items, bc_session_id = qi_session_id (hd items),
          bc_item_ids = map qi_id items, bc_hit_batch_token_cap = qb_hit_batch_token_cap batch_result,
          bc_was_flush_enabled = qb_was_flush_enabled batch_result,
          bc_batch_max_tokens = qb_batch_max_tokens batch_result\<rparr>)"

text \<open>A turn leaves the loop or goes on; \<open>Continue\<close> carries how many items it completed.\<close>

datatype turn_result = Break queue_db | Continue nat queue_db

definition attempt ::
  "turn_env \<Rightarrow> consumer_call \<Rightarrow> queue_item list \<Rightarrow> string \<Rightarrow> queue_db \<Rightarrow> turn_result" where
  "attempt te call items work_unit_key qd =
     (case te_consume te call of
        Succeeded \<Rightarrow> Continue (length items) (mark_queue_items_as_processed (te_now te) items work_unit_key qd)
      | Failed retryable error_msg fl \<Rightarrow>
          (case handle_processing_error (te_now te) fl retryable items work_unit_key error_msg qd of
             (released, qd') \<Rightarrow> if released then Break qd' else Continue 0 qd'))"

text \<open>An exception outside the inner \<open>try\<close> (a failed fetch, a batch that raises) is logged and the
  loop goes on.\<close>

definition process_turn ::
  "deriver_settings \<Rightarrow> validators \<Rightarrow> settings \<Rightarrow> tables \<Rightarrow> turn_env \<Rightarrow> parsed_work_unit \<Rightarrow> string \<Rightarrow> string
     \<Rightarrow> queue_db \<Rightarrow> turn_result" where
  "process_turn ds vd st db te work_unit work_unit_key worker_id qd =
     (case dget (mg_ownership (te_manager te)) worker_id of
        None \<Rightarrow> Break qd
      | Some ownership \<Rightarrow>
          if wo_work_unit_key ownership \<noteq> work_unit_key then Break qd
          else if \<not> te_fetch_ok te then Continue 0 qd
          else if pw_task_type work_unit = ''representation'' then
            (case get_queue_item_batch ds vd st db (pw_task_type work_unit) work_unit_key
                    (wo_aqs_id ownership) qd of
               Inl e \<Rightarrow> Continue 0 qd
             | Inr batch_result \<Rightarrow>
                 if qb_items_to_process batch_result = [] then Break qd
                 else attempt te (RepresentationBatch (batch_call_of work_unit batch_result))
                        (qb_items_to_process batch_result) work_unit_key qd)
          else
            (case get_next_queue_item (pw_task_type work_unit) work_unit_key (wo_aqs_id ownership) qd of
               Inl e \<Rightarrow> Continue 0 qd
             | Inr None \<Rightarrow> Break qd
             | Inr (Some item) \<Rightarrow> attempt te (ProcessItem item) [item] work_unit_key qd))"

section \<open>The loop\<close>

text \<open>The result is the turn the loop ended at, the number of completed items and the tables. The
  second shutdown check of the body is the loop condition of the next turn.\<close>

fun process_loop ::
  "deriver_settings \<Rightarrow> validators \<Rightarrow> settings \<Rightarrow> tables \<Rightarrow> (nat \<Rightarrow> turn_env) \<Rightarrow> parsed_work_unit \<Rightarrow> string
     \<Rightarrow> string \<Rightarrow> nat \<Rightarrow> nat \<Rightarrow> nat \<Rightarrow> queue_db \<Rightarrow> (nat \<times> nat \<times> queue_db) option" where
  "process_loop ds vd st db env work_unit work_unit_key worker_id 0 t queue_item_count qd = None"
| "process_loop ds vd st db env work_unit work_unit_key worker_id (Suc fuel) t queue_item_count qd =
     (if mg_shutdown (te_manager (env t)) then Some (t, queue_item_count, qd)
      else (case process_turn ds vd st db (env t) work_unit work_unit_key worker_id qd of
              Break qd' \<Rightarrow> Some (t, queue_item_count, qd')
            | Continue n qd' \<Rightarrow>
                process_loop ds vd st db env work_unit work_unit_key worker_id fuel (Suc t)
                  (queue_item_count + n) qd'))"

text \<open>The \<open>finally\<close> block: the event is published when this worker removed the claim after completing
  something. When the delete fails, its exception leaves the block before the ownership is dropped.\<close>

definition finish_work_unit ::
  "bool \<Rightarrow> parsed_work_unit \<Rightarrow> string \<Rightarrow> string \<Rightarrow> nat \<Rightarrow> manager \<times> queue_db \<Rightarrow> bool \<times> manager \<times> queue_db" where
  "finish_work_unit release_ok work_unit work_unit_key worker_id queue_item_count state =
     (let (mg, qd) = state;
          owned = (case dget (mg_ownership mg) worker_id of
                     None \<Rightarrow> None
                   | Some ow \<Rightarrow> if wo_work_unit_key ow = work_unit_key then Some (wo_aqs_id ow) else None)
      in if owned \<noteq> None \<and> \<not> release_ok then (False, mg, qd)
         else
           (let (removed, qd') = (case owned of
                                    None \<Rightarrow> (False, qd)
                                  | Some aqs_id \<Rightarrow> cleanup_work_unit aqs_id work_unit_key qd)
            in (removed \<and> queue_item_count > 0
                  \<and> List.member [''representation'', ''summary''] (pw_task_type work_unit)
                  \<and> pw_workspace_name work_unit \<noteq> None,
                untrack_worker_work_unit worker_id work_unit_key mg, qd')))"

text \<open>The task of one worker, from the first turn on. A key that does not parse raises before the
  \<open>try\<close>.\<close>

definition process_work_unit ::
  "deriver_settings \<Rightarrow> validators \<Rightarrow> settings \<Rightarrow> tables \<Rightarrow> (nat \<Rightarrow> turn_env) \<Rightarrow> bool \<Rightarrow> string \<Rightarrow> string
     \<Rightarrow> nat \<Rightarrow> queue_db \<Rightarrow> (bool \<times> manager \<times> queue_db) option" where
  "process_work_unit ds vd st db env release_ok work_unit_key worker_id fuel qd =
     (case parse_work_unit_key work_unit_key of
        Inl e \<Rightarrow> Some (False, te_manager (env 0), qd)
      | Inr work_unit \<Rightarrow>
          (case process_loop ds vd st db env work_unit work_unit_key worker_id fuel 0 0 qd of
             None \<Rightarrow> None
           | Some (t, queue_item_count, qd') \<Rightarrow>
               Some (finish_work_unit release_ok work_unit work_unit_key worker_id queue_item_count
                       (te_manager (env t), qd'))))"

section \<open>Lemmas\<close>

text \<open>The stored configurations of the pending items of a work unit validate.\<close>

definition configs_ok :: "validators \<Rightarrow> settings \<Rightarrow> queue_db \<Rightarrow> string \<Rightarrow> bool" where
  "configs_ok vd st qd key \<longleftrightarrow> (\<forall>i \<in> set (pending_of qd key). is_ok (item_configuration vd st i))"

lemma configs_okD:
  "configs_ok vd st qd key \<Longrightarrow> \<forall>i \<in> set (qd_items qd). qi_work_unit_key i = key \<and> \<not> qi_processed i
     \<longrightarrow> is_ok (item_configuration vd st i)"
  by (auto simp: configs_ok_def pending_of_iff)

lemma configs_ok_update:
  assumes "configs_ok vd st qd key" and "keeps_row f"
    and "\<And>i. item_configuration vd st (f i) = item_configuration vd st i"
  shows "configs_ok vd st (update_items P f qd) key"
  unfolding configs_ok_def
proof
  fix j
  assume "j \<in> set (pending_of (update_items P f qd) key)"
  then have "j \<in> (\<lambda>i. if P i then f i else i) ` set (qd_items qd)" and p: "\<not> qi_processed j" "qi_work_unit_key j = key"
    unfolding pending_of_iff update_items_set by blast+
  then obtain i where i: "i \<in> set (qd_items qd)" "j = (if P i then f i else i)" by blast
  then have "i \<in> set (pending_of qd key)"
    using p keeps_rowD [OF assms(2), of i] by (auto simp: pending_of_iff split: if_splits)
  with assms(1) have "is_ok (item_configuration vd st i)" by (simp add: configs_ok_def)
  then show "is_ok (item_configuration vd st j)" using i(2) assms(3) [of i] by simp
qed

lemma configs_ok_touch [simp]: "configs_ok vd st (touch_claim now k qd) key = configs_ok vd st qd key"
  by (simp add: configs_ok_def)

lemma item_configuration_frame:
  "item_configuration vd st (i\<lparr>qi_processed := b\<rparr>) = item_configuration vd st i"
  "item_configuration vd st (i\<lparr>qi_processed := b, qi_error := e\<rparr>) = item_configuration vd st i"
  "item_configuration vd st (i\<lparr>qi_payload := dpop (qi_payload i) RETRY_ATTEMPTS_PAYLOAD_KEY\<rparr>) = item_configuration vd st i"
  by (simp_all add: item_configuration_def dget_default_def RETRY_ATTEMPTS_PAYLOAD_KEY_def)

lemma configs_ok_mark: "configs_ok vd st qd key \<Longrightarrow> configs_ok vd st (mark_queue_items_as_processed now items k qd) key"
  by (simp add: mark_queue_items_as_processed_def Let_def configs_ok_update item_configuration_frame)

lemma configs_ok_give_up:
  "configs_ok vd st qd key \<Longrightarrow>
   configs_ok vd st (clear_work_unit_retry_attempts k (mark_queue_item_as_errored now i k msg qd)) key"
  unfolding clear_work_unit_retry_attempts_def mark_queue_item_as_errored_def
  by (intro configs_ok_update item_configuration_frame keeps_row_updates) (simp add: configs_ok_update item_configuration_frame)

lemma owner_mark [simp]: "claim_owner (mark_queue_items_as_processed now items k qd) j = claim_owner qd j"
  by (simp add: mark_queue_items_as_processed_def Let_def)

lemma owner_give_up [simp]:
  "claim_owner (clear_work_unit_retry_attempts k (mark_queue_item_as_errored now i k msg qd)) j = claim_owner qd j"
  by (simp add: clear_work_unit_retry_attempts_def mark_queue_item_as_errored_def)

lemma give_up_ids:
  assumes "queue_ok qd"
  shows "map qi_id (pending_of (clear_work_unit_retry_attempts key (mark_queue_item_as_errored now i key msg qd)) key) =
    filter (\<lambda>x. x \<noteq> qi_id i) (map qi_id (pending_of qd key))"
  unfolding clear_attempts_frame(2) [OF mark_errored_frame(1) [OF assms]] mark_errored_frame(2) [OF assms] by simp

lemma length_filter_strict: "x \<in> set xs \<Longrightarrow> \<not> P x \<Longrightarrow> length (filter P xs) < length xs"
  by (metis length_filter_less)

text \<open>A turn that goes on after handing over work has completed or errored an item.\<close>

lemma attempt_Continue:
  assumes "attempt te call items key qd = Continue n qd'" and "queue_ok qd" and "items \<noteq> []"
    and "set items \<subseteq> set (pending_of qd key)"
  shows "queue_ok qd' \<and> length (pending_of qd' key) < length (pending_of qd key)
    \<and> (\<forall>k. claim_owner qd' k = claim_owner qd k) \<and> (configs_ok vd st qd key \<longrightarrow> configs_ok vd st qd' key)"
proof (cases "te_consume te call")
  case Succeeded
  with assms(1) have e: "qd' = mark_queue_items_as_processed (te_now te) items key qd"
    by (simp add: attempt_def)
  have ids: "map qi_id (pending_of qd' key) =
      filter (\<lambda>n. n \<notin> qi_id ` set items) (map qi_id (pending_of qd key))"
    unfolding e mark_processed_frame(2) [OF assms(2)] by simp
  have "qi_id (hd items) \<in> set (map qi_id (pending_of qd key))" "\<not> qi_id (hd items) \<notin> qi_id ` set items"
    using assms(3,4) by (auto simp: subset_iff)
  from length_filter_strict [where P = "\<lambda>n. n \<notin> qi_id ` set items", OF this]
  have "length (map qi_id (pending_of qd' key)) < length (map qi_id (pending_of qd key))"
    unfolding ids .
  with e show ?thesis by (simp add: mark_processed_frame(1) [OF assms(2)] configs_ok_mark)
next
  case (Failed retryable msg fl)
  with assms(1) have h: "handle_processing_error (te_now te) fl retryable items key msg qd = (False, qd')"
    by (auto simp: attempt_def split: prod.splits if_splits)
  then have e: "qd' = clear_work_unit_retry_attempts key (mark_queue_item_as_errored (te_now te) (hd items) key msg qd)"
    using assms(3) by (auto simp: handle_processing_error_def Let_def split: retry_decision.splits if_splits)
  have "qi_id (hd items) \<in> set (map qi_id (pending_of qd key))" using assms(3,4) by (auto simp: subset_iff)
  from length_filter_strict [OF this, of "\<lambda>x. x \<noteq> qi_id (hd items)"]
  have "length (map qi_id (pending_of qd' key)) < length (map qi_id (pending_of qd key))"
    unfolding e give_up_ids [OF assms(2)] by simp
  with e show ?thesis
    by (simp add: clear_attempts_frame(1) [OF mark_errored_frame(1) [OF assms(2)]] configs_ok_give_up)
qed

lemma next_item_pending:
  "get_next_queue_item tt key aqs qd = Inr (Some i) \<Longrightarrow> i \<in> set (pending_of qd key)"
proof -
  assume "get_next_queue_item tt key aqs qd = Inr (Some i)"
  then obtain ys where "sort_key qi_id (filter (\<lambda>i. qi_work_unit_key i = key
      \<and> list_ex (\<lambda>c. aq_work_unit_key c = key \<and> aq_id c = aqs) (qd_claims qd)) (unprocessed_items qd)) = i # ys"
    by (auto simp: get_next_queue_item_def split: if_splits list.splits)
  from sort_key_head [OF this] show ?thesis by (auto simp: pending_of_def)
qed

lemma next_item_None:
  assumes "get_next_queue_item tt key aqs qd = Inr None" and "claims_ok qd" and "owns qd key aqs"
  shows "pending_of qd key = []"
proof -
  have c: "list_ex (\<lambda>c. aq_work_unit_key c = key \<and> aq_id c = aqs) (qd_claims qd)"
    using assms(2,3) by (auto simp: owns_iff list_ex_iff)
  have "sort_key qi_id (pending_of qd key) = []"
    using assms(1) c by (auto simp: get_next_queue_item_def pending_of_def split: if_splits list.splits)
  then show ?thesis by (metis set_empty set_sort)
qed

lemma next_item_foreign:
  "claims_ok qd \<Longrightarrow> \<not> owns qd key aqs \<Longrightarrow> tt \<noteq> ''representation'' \<Longrightarrow> get_next_queue_item tt key aqs qd = Inr None"
  by (auto simp: get_next_queue_item_def owns_iff list_ex_iff)

text \<open>A turn with a working fetch and valid configurations either ends the loop or makes progress.\<close>

lemma turn_Continue:
  assumes "process_turn ds vd st db te wu key w qd = Continue n qd'" and "queue_ok qd" and "message_ids_unique db"
    and "te_fetch_ok te" and "parse_work_unit_key key = Inr wu" and "configs_ok vd st qd key"
  shows "queue_ok qd' \<and> length (pending_of qd' key) < length (pending_of qd key)
    \<and> (\<forall>k. claim_owner qd' k = claim_owner qd k) \<and> configs_ok vd st qd' key"
proof -
  from assms(1,4) obtain ow where ow: "dget (mg_ownership (te_manager te)) w = Some ow" "wo_work_unit_key ow = key"
    by (auto simp: process_turn_def split: option.splits if_splits)
  show ?thesis
  proof (cases "pw_task_type wu = ''representation''")
    case True
    obtain b where b: "get_queue_item_batch ds vd st db ''representation'' key (wo_aqs_id ow) qd = Inr b"
      using batch_ok [OF assms(5) configs_okD [OF assms(6)]] by blast
    have sub: "set (qb_items_to_process b) \<subseteq> set (pending_of qd key)"
      using batch_items_pending [OF b assms(3)] by (auto simp: pending_of_iff)
    from assms(1,4) ow True b have "qb_items_to_process b \<noteq> []"
      and "attempt te (RepresentationBatch (batch_call_of wu b)) (qb_items_to_process b) key qd = Continue n qd'"
      by (auto simp: process_turn_def split: if_splits)
    from attempt_Continue [OF this(2) assms(2) this(1) sub] assms(6) show ?thesis by blast
  next
    case False
    then obtain r where r: "get_next_queue_item (pw_task_type wu) key (wo_aqs_id ow) qd = Inr r"
      by (auto simp: get_next_queue_item_def)
    with assms(1,4) ow False obtain i where i: "r = Some i" and a: "attempt te (ProcessItem i) [i] key qd = Continue n qd'"
      by (auto simp: process_turn_def split: option.splits)
    from next_item_pending [OF r [unfolded i]] have "set [i] \<subseteq> set (pending_of qd key)" by simp
    from attempt_Continue [OF a assms(2) _ this] assms(6) show ?thesis by blast
  qed
qed

lemma process_loop_ends:
  assumes "queue_ok qd" and "message_ids_unique db" and "\<And>t. te_fetch_ok (env t)"
    and "parse_work_unit_key key = Inr wu" and "configs_ok vd st qd key" and "length (pending_of qd key) < fuel"
  shows "\<exists>r. process_loop ds vd st db env wu key w fuel t count qd = Some r"
  using assms(1,5,6)
proof (induction fuel arbitrary: t count qd)
  case (Suc fuel)
  show ?case
  proof (cases "process_turn ds vd st db (env t) wu key w qd")
    case (Continue n qd')
    from turn_Continue [OF Continue Suc.prems(1) assms(2,3,4) Suc.prems(2)] Suc.prems(3)
    have "queue_ok qd'" "configs_ok vd st qd' key" "length (pending_of qd' key) < fuel" by auto
    from Suc.IH [OF this] Continue show ?thesis by simp
  qed simp
qed simp

text \<open>What the manager and the database are like at a turn that serves the work unit.\<close>

definition serves :: "turn_env \<Rightarrow> string \<Rightarrow> string \<Rightarrow> string \<Rightarrow> bool" where
  "serves te worker_id key aqs_id \<longleftrightarrow> te_fetch_ok te \<and> \<not> mg_shutdown (te_manager te)
     \<and> dget (mg_ownership (te_manager te)) worker_id = Some \<lparr>wo_work_unit_key = key, wo_aqs_id = aqs_id\<rparr>"

text \<open>Whether there is something the owner of the work unit can fetch.\<close>

definition fetchable :: "tables \<Rightarrow> parsed_work_unit \<Rightarrow> string \<Rightarrow> queue_db \<Rightarrow> bool" where
  "fetchable db wu key qd \<longleftrightarrow>
     (if pw_task_type wu = ''representation'' then min_unprocessed_message_id db qd key wu \<noteq> None
      else pending_of qd key \<noteq> [])"

lemma batch_empty:
  assumes "min_unprocessed_message_id db qd key wu = None" and "parse_work_unit_key key = Inr wu"
  shows "get_queue_item_batch ds vd st db ''representation'' key aqs qd = Inr (empty_batch ds)"
proof -
  have "preceding_message_id db qd key wu = None"
    using assms(1) by (simp add: preceding_message_id_def immediately_preceding_id_def find_None_iff)
  then have "window_messages db qd key wu = []"
    using assms(1) by (simp add: window_messages_def effective_start_id_def)
  with assms show ?thesis by (simp add: get_queue_item_batch_def Let_def allowed_messages_def)
qed

lemma batch_foreign:
  assumes "claims_ok qd" and "\<not> owns qd key aqs" and "parse_work_unit_key key = Inr wu"
  shows "get_queue_item_batch ds vd st db ''representation'' key aqs qd = Inr (empty_batch ds)"
  using assms by (auto simp: get_queue_item_batch_def owns_iff list_ex_iff)

lemma empty_batch_items [simp]: "qb_items_to_process (empty_batch ds) = []"
  by (simp add: empty_batch_def)

lemma turn_idle:
  assumes "serves te w key aqs" and "parse_work_unit_key key = Inr wu" and "claims_ok qd"
    and "owns qd key aqs \<longrightarrow> \<not> fetchable db wu key qd"
  shows "process_turn ds vd st db te wu key w qd = Break qd"
proof (cases "pw_task_type wu = ''representation''")
  case True
  have "get_queue_item_batch ds vd st db ''representation'' key aqs qd = Inr (empty_batch ds)"
    using batch_foreign [OF assms(3) _ assms(2)] batch_empty [OF _ assms(2)] assms(4) True
    by (cases "owns qd key aqs") (auto simp: fetchable_def)
  with assms(1) True show ?thesis by (simp add: process_turn_def serves_def)
next
  case False
  have "get_next_queue_item (pw_task_type wu) key aqs qd = Inr None"
  proof (cases "owns qd key aqs")
    case True
    with assms(4) False have "pending_of qd key = []" by (simp add: fetchable_def)
    moreover obtain r where r: "get_next_queue_item (pw_task_type wu) key aqs qd = Inr r"
      using False by (auto simp: get_next_queue_item_def)
    ultimately show ?thesis using next_item_pending by (cases r) fastforce+
  qed (use next_item_foreign [OF assms(3) _ False] in blast)
  with assms(1) False show ?thesis by (simp add: process_turn_def serves_def)
qed

lemma turn_busy:
  assumes "serves te w key aqs" and "te_consume te = (\<lambda>_. Succeeded)" and "parse_work_unit_key key = Inr wu"
    and "queue_ok qd" and "message_ids_unique db" and "owns qd key aqs" and "configs_ok vd st qd key"
    and "fetchable db wu key qd"
  shows "\<exists>items. items \<noteq> [] \<and> process_turn ds vd st db te wu key w qd =
    Continue (length items) (mark_queue_items_as_processed (te_now te) items key qd)"
proof (cases "pw_task_type wu = ''representation''")
  case True
  then obtain n where "min_unprocessed_message_id db qd key wu = Some n" using assms(8) by (auto simp: fetchable_def)
  from batch_first [OF assms(4-6,3) this configs_okD [OF assms(7)]]
  obtain b where "get_queue_item_batch ds vd st db ''representation'' key aqs qd = Inr b"
    "qb_items_to_process b \<noteq> []" by blast
  with assms(1,2) True show ?thesis
    by (intro exI [of _ "qb_items_to_process b"]) (simp add: process_turn_def serves_def attempt_def)
next
  case False
  then obtain r where r: "get_next_queue_item (pw_task_type wu) key aqs qd = Inr r"
    by (auto simp: get_next_queue_item_def)
  have "r \<noteq> None"
    using next_item_None [of "pw_task_type wu" key aqs qd] r assms(4,6,8) False by (auto simp: fetchable_def queue_ok_def)
  then obtain i where "r = Some i" by auto
  with r assms(1,2) False show ?thesis
    by (intro exI [of _ "[i]"]) (simp add: process_turn_def serves_def attempt_def)
qed

lemma mark_other_rows:
  assumes "k \<noteq> key"
  shows "filter (\<lambda>i. qi_work_unit_key i = k) (qd_items (mark_queue_items_as_processed now items key qd)) =
    filter (\<lambda>i. qi_work_unit_key i = k) (qd_items qd)"
proof (cases "items = []")
  case False
  then show ?thesis
    unfolding mark_queue_items_as_processed_def Let_def
    by (simp only: if_False touch_claim_items) (rule update_items_other [OF _ _ assms]; simp)
qed (simp add: mark_queue_items_as_processed_def)

text \<open>The loop of a worker whose consumer always succeeds.\<close>

lemma loop_drains:
  assumes "queue_ok qd" and "message_ids_unique db" and "parse_work_unit_key key = Inr wu"
    and "\<And>t. serves (env t) w key aqs" and "\<And>t. te_consume (env t) = (\<lambda>_. Succeeded)"
    and "configs_ok vd st qd key" and "owns qd key aqs" and "length (pending_of qd key) < fuel"
  shows "\<exists>t' n qd'. process_loop ds vd st db env wu key w fuel t count qd = Some (t', n, qd') \<and> queue_ok qd'
    \<and> \<not> fetchable db wu key qd' \<and> (count < n \<longleftrightarrow> fetchable db wu key qd) \<and> count \<le> n
    \<and> (\<forall>k. claim_owner qd' k = claim_owner qd k)
    \<and> (\<forall>k. k \<noteq> key \<longrightarrow> filter (\<lambda>i. qi_work_unit_key i = k) (qd_items qd') =
          filter (\<lambda>i. qi_work_unit_key i = k) (qd_items qd))"
  using assms(1,6,7,8)
proof (induction fuel arbitrary: t count qd)
  case (Suc fuel)
  have up: "\<not> mg_shutdown (te_manager (env t))" "te_fetch_ok (env t)" using assms(4) by (simp_all add: serves_def)
  have cok: "claims_ok qd" using Suc.prems(1) by (simp add: queue_ok_def)
  show ?case
  proof (cases "fetchable db wu key qd")
    case False
    from turn_idle [OF assms(4,3) cok, of db] False up Suc.prems(1) show ?thesis by simp
  next
    case True
    from turn_busy [OF assms(4,5,3) Suc.prems(1) assms(2) Suc.prems(3,2) True] obtain items
      where items: "items \<noteq> []" and turn: "process_turn ds vd st db (env t) wu key w qd =
        Continue (length items) (mark_queue_items_as_processed (te_now (env t)) items key qd)"
      by blast
    let ?qd = "mark_queue_items_as_processed (te_now (env t)) items key qd"
    from turn_Continue [OF turn Suc.prems(1) assms(2) up(2) assms(3) Suc.prems(2)] Suc.prems(3,4)
    have p: "queue_ok ?qd" "configs_ok vd st ?qd key" "owns ?qd key aqs" "length (pending_of ?qd key) < fuel"
      by (simp_all add: owns_def)
    from Suc.IH [OF p, of "Suc t" "count + length items"] obtain t' n qd' where
      l: "process_loop ds vd st db env wu key w fuel (Suc t) (count + length items) ?qd = Some (t', n, qd')"
        "queue_ok qd'" "\<not> fetchable db wu key qd'" "count + length items \<le> n"
        "\<forall>k. claim_owner qd' k = claim_owner ?qd k"
        "\<forall>k. k \<noteq> key \<longrightarrow> filter (\<lambda>i. qi_work_unit_key i = k) (qd_items qd') =
          filter (\<lambda>i. qi_work_unit_key i = k) (qd_items ?qd)"
      by blast
    have "count < n" using l(4) items by (cases items) auto
    with l turn up True show ?thesis by (simp add: mark_other_rows)
  qed
qed simp

section \<open>Properties\<close>

text \<open>C15. The processing loop ends: when fetches commit and the stored configurations of the work unit
  validate, one turn more than there are pending items is enough, whatever the consumer does, whatever
  statements of the error handler fail, and whatever happens to the manager meanwhile.\<close>

theorem processing_terminates:
  assumes "queue_ok qd" and "message_ids_unique db" and "\<And>t. te_fetch_ok (env t)"
    and "configs_ok vd st qd key" and "length (pending_of qd key) < fuel"
  shows "\<exists>publish mg' qd'. process_work_unit ds vd st db env release_ok key w fuel qd = Some (publish, mg', qd')"
proof (cases "parse_work_unit_key key")
  case (Inr wu)
  from process_loop_ends [where env = env, OF assms(1-3) Inr assms(4,5)] obtain r
    where r: "process_loop ds vd st db env wu key w fuel 0 0 qd = Some r" by blast
  obtain t n qd' where "r = (t, n, qd')" by (cases r)
  with r Inr show ?thesis
    by (cases "finish_work_unit release_ok wu key w n (te_manager (env t), qd')") (auto simp: process_work_unit_def)
qed (auto simp: process_work_unit_def)

text \<open>C4. A served work unit is drained: when its owner is not interrupted and the consumer succeeds, the
  worker returns with nothing left to fetch, its claim released and every other claim and work unit as
  before, drops its ownership, and publishes the queue-empty event exactly for a representation or
  summary unit of a workspace that had something to process.\<close>

theorem work_unit_drained:
  assumes "queue_ok qd" and "message_ids_unique db" and "parse_work_unit_key key = Inr wu"
    and "\<And>t. serves (env t) w key aqs" and "\<And>t. te_consume (env t) = (\<lambda>_. Succeeded)"
    and "configs_ok vd st qd key" and "claim_owner qd key = Some aqs" and "length (pending_of qd key) < fuel"
  shows "\<exists>publish mg' qd'. process_work_unit ds vd st db env True key w fuel qd = Some (publish, mg', qd')
    \<and> \<not> fetchable db wu key qd' \<and> dget (mg_ownership mg') w = None
    \<and> (\<forall>k. claim_owner qd' k = (if k = key then None else claim_owner qd k))
    \<and> (\<forall>k. k \<noteq> key \<longrightarrow> filter (\<lambda>i. qi_work_unit_key i = k) (qd_items qd') =
          filter (\<lambda>i. qi_work_unit_key i = k) (qd_items qd))
    \<and> publish = (fetchable db wu key qd \<and> pw_task_type wu \<in> {''representation'', ''summary''}
         \<and> pw_workspace_name wu \<noteq> None)"
proof -
  have own: "owns qd key aqs" using assms(7) by (simp add: owns_def)
  from loop_drains [where env = env and t = 0 and count = 0, OF assms(1-6) own assms(8)] obtain t n qd' where
    l: "process_loop ds vd st db env wu key w fuel 0 0 qd = Some (t, n, qd')" "queue_ok qd'"
      "\<not> fetchable db wu key qd'" "0 < n \<longleftrightarrow> fetchable db wu key qd" "\<forall>k. claim_owner qd' k = claim_owner qd k"
      "\<forall>k. k \<noteq> key \<longrightarrow> filter (\<lambda>i. qi_work_unit_key i = k) (qd_items qd') =
          filter (\<lambda>i. qi_work_unit_key i = k) (qd_items qd)"
    by (metis gr0I not_less0)
  let ?r = "cleanup_work_unit aqs key qd'"
  have rel: "claim_owner (snd ?r) k = (if k = key then None else claim_owner qd k)" for k
    using owner_cleanup [of qd' aqs key k] l(2,5) assms(7) by (auto simp: queue_ok_def)
  have rem: "fst ?r"
    using claim_owner_iff [of qd' key aqs] l(2,5) assms(7) by (auto simp: cleanup_work_unit_def list_ex_iff queue_ok_def)
  have items: "qd_items (snd ?r) = qd_items qd'" by (simp add: cleanup_work_unit_def)
  then have f: "fetchable db wu key (snd ?r) = fetchable db wu key qd'"
    by (simp add: fetchable_def pending_of_def unprocessed_items_def min_unprocessed_message_id_def queued_message_ids_def)
  have o: "dget (mg_ownership (te_manager (env t))) w = Some \<lparr>wo_work_unit_key = key, wo_aqs_id = aqs\<rparr>"
    using assms(4) by (simp add: serves_def)
  let ?p = "n > 0 \<and> List.member [''representation'', ''summary''] (pw_task_type wu) \<and> pw_workspace_name wu \<noteq> None"
  have "process_work_unit ds vd st db env True key w fuel qd =
      Some (?p, untrack_worker_work_unit w key (te_manager (env t)), snd ?r)"
    using rem o by (simp add: process_work_unit_def assms(3) l(1) finish_work_unit_def case_prod_unfold)
  then show ?thesis
  proof (intro exI conjI)
    show "dget (mg_ownership (untrack_worker_work_unit w key (te_manager (env t)))) w = None"
      using o by (simp add: untrack_worker_work_unit_def)
    show "\<not> fetchable db wu key (snd ?r)" using l(3) f by simp
    show "\<forall>k. claim_owner (snd ?r) k = (if k = key then None else claim_owner qd k)" using rel by blast
    show "\<forall>k. k \<noteq> key \<longrightarrow> filter (\<lambda>i. qi_work_unit_key i = k) (qd_items (snd ?r)) =
        filter (\<lambda>i. qi_work_unit_key i = k) (qd_items qd)" using l(6) items by simp
    show "?p = (fetchable db wu key qd \<and> pw_task_type wu \<in> {''representation'', ''summary''}
         \<and> pw_workspace_name wu \<noteq> None)" using l(4) by auto
  qed
qed

text \<open>A worker that lost its claim does no harm: it fetches nothing, calls no consumer, stops, and its
  release removes neither the next owner's claim nor anyone else's.\<close>

theorem lost_claim_harmless:
  assumes "queue_ok qd" and "claim_owner qd key \<noteq> Some aqs" and "serves (env 0) w key aqs"
    and "parse_work_unit_key key = Inr wu"
  shows "\<exists>mg' qd'. process_work_unit ds vd st db env True key w (Suc fuel) qd = Some (False, mg', qd')
    \<and> qd_items qd' = qd_items qd \<and> (\<forall>k. claim_owner qd' k = claim_owner qd k) \<and> dget (mg_ownership mg') w = None"
proof -
  have cok: "claims_ok qd" using assms(1) by (simp add: queue_ok_def)
  have "process_turn ds vd st db (env 0) wu key w qd = Break qd"
    by (rule turn_idle [OF assms(3,4) cok]) (simp add: owns_def assms(2))
  then have l: "process_loop ds vd st db env wu key w (Suc fuel) 0 0 qd = Some (0, 0, qd)" by simp
  let ?mg = "te_manager (env 0)" and ?r = "cleanup_work_unit aqs key qd"
  have o: "dget (mg_ownership ?mg) w = Some \<lparr>wo_work_unit_key = key, wo_aqs_id = aqs\<rparr>"
    using assms(3) by (simp add: serves_def)
  have "process_work_unit ds vd st db env True key w (Suc fuel) qd =
      Some (False, untrack_worker_work_unit w key ?mg, snd ?r)"
    using o l by (simp add: process_work_unit_def assms(4) finish_work_unit_def case_prod_unfold del: process_loop.simps)
  then show ?thesis
  proof (intro exI conjI)
    show "dget (mg_ownership (untrack_worker_work_unit w key ?mg)) w = None"
      using o by (simp add: untrack_worker_work_unit_def)
    show "qd_items (snd ?r) = qd_items qd" by (simp add: cleanup_work_unit_def)
    show "\<forall>k. claim_owner (snd ?r) k = claim_owner qd k"
      using claims.owner_release [OF assms(1), where a = aqs and k = key] assms(2) by (auto simp: comp_def)
  qed
qed

text \<open>When a worker gives its slot back: a returning task drops its entry of the ownership table, and
  with it the slot it counts against, exactly when the key parsed and the statement that releases the
  claim committed. Otherwise the entry stays although the task is gone.\<close>

theorem slot_returned_iff:
  assumes "process_work_unit ds vd st db env release_ok key w fuel qd = Some (publish, mg', qd')"
    and "\<And>t. dget (mg_ownership (te_manager (env t))) w = Some \<lparr>wo_work_unit_key = key, wo_aqs_id = aqs\<rparr>"
  shows "dget (mg_ownership mg') w = None \<longleftrightarrow> is_ok (parse_work_unit_key key) \<and> release_ok"
proof (cases "parse_work_unit_key key")
  case (Inl e)
  with assms show ?thesis by (auto simp: process_work_unit_def)
next
  case (Inr wu)
  with assms(1) obtain t n q where f: "finish_work_unit release_ok wu key w n (te_manager (env t), q) = (publish, mg', qd')"
    by (auto simp: process_work_unit_def split: option.splits)
  show ?thesis
    using f assms(2) [of t] Inr
    by (cases release_ok) (auto simp: finish_work_unit_def Let_def case_prod_unfold untrack_worker_work_unit_def)
qed

section \<open>Witnesses\<close>

definition summary_work_unit :: parsed_work_unit where
  "summary_work_unit =
     \<lparr>pw_task_type = ''summary'', pw_workspace_name = Some ''w'', pw_session_name = Some ''s'',
      pw_observer = Some ''None'', pw_observed = Some ''None'', pw_dream_type = None\<rparr>"

definition claimed_queue :: queue_db where
  "claimed_queue = example_queue\<lparr>qd_claims := qd_claims example_queue @
     [\<lparr>aq_id = ''a1'', aq_work_unit_key = summary_key, aq_last_updated = 9\<rparr>]\<rparr>"

definition example_turn :: "string \<Rightarrow> string \<Rightarrow> nat \<Rightarrow> turn_env" where
  "example_turn key aqs t =
     \<lparr>te_now = 10, te_manager = track_worker_work_unit ''w1'' key aqs (init_manager example_deriver),
      te_fetch_ok = True, te_consume = (\<lambda>_. Succeeded)\<rparr>"

lemma example_turn_serves: "serves (example_turn key aqs t) ''w1'' key aqs"
  by (simp add: serves_def example_turn_def track_worker_work_unit_def init_manager_def)

lemma example_turn_fields [simp]:
  "te_fetch_ok (example_turn key aqs t)" "te_consume (example_turn key aqs t) = (\<lambda>_. Succeeded)"
  "dget (mg_ownership (te_manager (example_turn key aqs t))) ''w1'' = Some \<lparr>wo_work_unit_key = key, wo_aqs_id = aqs\<rparr>"
  by (simp_all add: example_turn_def track_worker_work_unit_def init_manager_def)

lemma claimed_facts:
  "queue_ok claimed_queue" "message_ids_unique demo_tables" "parse_work_unit_key summary_key = Inr summary_work_unit"
  "configs_ok example_validators example_settings claimed_queue summary_key"
  "claim_owner claimed_queue summary_key = Some ''a1''" "length (pending_of claimed_queue summary_key) < 2"
  "fetchable demo_tables summary_work_unit summary_key claimed_queue"
  by code_simp+

theorem processing_terminates_witness:
  "\<exists>publish mg' qd'. process_work_unit example_deriver example_validators example_settings demo_tables
     (example_turn summary_key ''a1'') False summary_key ''w1'' 2 claimed_queue = Some (publish, mg', qd')"
  by (rule processing_terminates [OF claimed_facts(1,2) _ claimed_facts(4,6)]) simp

theorem work_unit_drained_witness:
  "\<exists>mg' qd'. process_work_unit example_deriver example_validators example_settings demo_tables
     (example_turn summary_key ''a1'') True summary_key ''w1'' 2 claimed_queue = Some (True, mg', qd')
   \<and> pending_of qd' summary_key = [] \<and> claim_owner qd' summary_key = None"
proof -
  have t: "pw_task_type summary_work_unit = ''summary''" "pw_workspace_name summary_work_unit = Some ''w''"
    by (simp_all add: summary_work_unit_def)
  from work_unit_drained [where env = "example_turn summary_key ''a1''" and ds = example_deriver,
      OF claimed_facts(1,2,3) example_turn_serves example_turn_fields(2) claimed_facts(4,5,6)]
  obtain publish mg' qd' where d: "process_work_unit example_deriver example_validators example_settings demo_tables
     (example_turn summary_key ''a1'') True summary_key ''w1'' 2 claimed_queue = Some (publish, mg', qd')"
    "\<not> fetchable demo_tables summary_work_unit summary_key qd'"
    "\<forall>k. claim_owner qd' k = (if k = summary_key then None else claim_owner claimed_queue k)"
    "publish = (fetchable demo_tables summary_work_unit summary_key claimed_queue
       \<and> pw_task_type summary_work_unit \<in> {''representation'', ''summary''} \<and> pw_workspace_name summary_work_unit \<noteq> None)"
    by blast
  have "publish" using d(4) claimed_facts(7) t by simp
  moreover have "pending_of qd' summary_key = []" using d(2) t(1) by (simp add: fetchable_def)
  moreover have "claim_owner qd' summary_key = None" using d(3) by simp
  ultimately show ?thesis using d(1) by (intro exI conjI) simp_all
qed

theorem lost_claim_harmless_witness:
  "\<exists>mg' qd'. process_work_unit example_deriver example_validators example_settings demo_tables
     (example_turn summary_key ''a7'') True summary_key ''w1'' (Suc 0) claimed_queue = Some (False, mg', qd')
   \<and> claim_owner qd' summary_key = Some ''a1''"
proof -
  have n: "claim_owner claimed_queue summary_key \<noteq> Some ''a7''" by (simp add: claimed_facts(5))
  from lost_claim_harmless [where env = "example_turn summary_key ''a7''" and ds = example_deriver,
      OF claimed_facts(1) n example_turn_serves claimed_facts(3)]
  show ?thesis by (metis claimed_facts(5))
qed

theorem slot_returned_iff_witness:
  "\<exists>publish mg' qd'. process_work_unit example_deriver example_validators example_settings demo_tables
     (example_turn ''nonsense'' ''a1'') True ''nonsense'' ''w1'' 1 claimed_queue = Some (publish, mg', qd')
   \<and> dget (mg_ownership mg') ''w1'' \<noteq> None"
proof -
  have b: "\<not> is_ok (parse_work_unit_key ''nonsense'')" by code_simp
  then obtain e where "parse_work_unit_key ''nonsense'' = Inl e" by (cases "parse_work_unit_key ''nonsense''") auto
  then have p: "process_work_unit example_deriver example_validators example_settings demo_tables
     (example_turn ''nonsense'' ''a1'') True ''nonsense'' ''w1'' 1 claimed_queue =
     Some (False, te_manager (example_turn ''nonsense'' ''a1'' 0), claimed_queue)"
    by (simp add: process_work_unit_def)
  from slot_returned_iff [OF p example_turn_fields(3)] b p show ?thesis by blast
qed

end
