(* ===== verification/Fleet.thy ===== *)
theory Fleet
  imports Worker
begin

text \<open>
  Many derivers on one database: the statements of the pollers, workers, sweepers and shutdowns of any
  number of processes interleave in any order. A world is the queue tables with the workers that were
  started, a step is one committed statement of src/src/deriver/queue_manager.py or an enqueue, and the
  properties are invariants of the reachable worlds.
\<close>

section \<open>Worlds\<close>

datatype phase = Idle | Busy "queue_item list" | Leaving | Gone

record fleet_worker =
  fw_aqs_id :: string
  fw_key :: string
  fw_phase :: phase

record world =
  wd_queue :: queue_db
  wd_workers :: "fleet_worker list"
  wd_used_ids :: "string list"

fun in_flight :: "phase \<Rightarrow> queue_item list" where
  "in_flight (Busy items) = items"
| "in_flight _ = []"

definition start_world :: world where
  "start_world = \<lparr>wd_queue = \<lparr>qd_items = [], qd_claims = [], qd_next_id = 1\<rparr>, wd_workers = [], wd_used_ids = []\<rparr>"

text \<open>What a worker fetches; an exception leaves it where it is, so it is no step.\<close>

definition worker_fetch ::
  "deriver_settings \<Rightarrow> validators \<Rightarrow> settings \<Rightarrow> tables \<Rightarrow> string \<Rightarrow> string \<Rightarrow> queue_db
     \<Rightarrow> queue_item list res" where
  "worker_fetch ds vd st db key aqs_id qd =
     res_bind (parse_work_unit_key key) (\<lambda>work_unit.
       if pw_task_type work_unit = ''representation''
       then res_map qb_items_to_process
              (get_queue_item_batch ds vd st db (pw_task_type work_unit) key aqs_id qd)
       else res_map (\<lambda>item. case item of None \<Rightarrow> [] | Some i \<Rightarrow> [i])
              (get_next_queue_item (pw_task_type work_unit) key aqs_id qd))"

definition new_worker :: "string \<times> string \<Rightarrow> fleet_worker" where
  "new_worker claimed = \<lparr>fw_aqs_id = snd claimed, fw_key = fst claimed, fw_phase = Idle\<rparr>"

definition set_phase :: "nat \<Rightarrow> phase \<Rightarrow> world \<Rightarrow> world" where
  "set_phase n p w = w\<lparr>wd_workers := (wd_workers w)[n := (wd_workers w ! n)\<lparr>fw_phase := p\<rparr>]\<rparr>"

text \<open>The steps of enqueuers, pollers and workers. A poll starts a worker per claim, or none when its
  manager is shutting down; a worker leaves when it fetches nothing, when an error releases the work
  unit or, between two turns, when its manager shuts down.\<close>

inductive work_step ::
  "deriver_settings \<Rightarrow> validators \<Rightarrow> settings \<Rightarrow> tables \<Rightarrow> world \<Rightarrow> world \<Rightarrow> bool"
  for ds vd st db where
  enqueue_step: "insert_queue_items now rs (wd_queue w) = Inr qd' \<Longrightarrow>
     work_step ds vd st db w (w\<lparr>wd_queue := qd'\<rparr>)"
| poll_step: "get_and_claim_work_units ds now db ids mg (wd_queue w) = (claimed, qd') \<Longrightarrow>
     set ids \<inter> set (wd_used_ids w) = {} \<Longrightarrow> started = claimed \<or> started = [] \<Longrightarrow>
     work_step ds vd st db w
       (w\<lparr>wd_queue := qd', wd_workers := wd_workers w @ map new_worker started,
          wd_used_ids := wd_used_ids w @ ids\<rparr>)"
| fetch_step: "n < length (wd_workers w) \<Longrightarrow> fw_phase (wd_workers w ! n) = Idle \<Longrightarrow>
     worker_fetch ds vd st db (fw_key (wd_workers w ! n)) (fw_aqs_id (wd_workers w ! n)) (wd_queue w) = Inr items \<Longrightarrow>
     work_step ds vd st db w (set_phase n (if items = [] then Leaving else Busy items) w)"
| success_step: "n < length (wd_workers w) \<Longrightarrow> fw_phase (wd_workers w ! n) = Busy items \<Longrightarrow> items \<noteq> [] \<Longrightarrow>
     work_step ds vd st db w
       (set_phase n Idle w\<lparr>wd_queue :=
          mark_queue_items_as_processed now items (fw_key (wd_workers w ! n)) (wd_queue w)\<rparr>)"
| failure_step: "n < length (wd_workers w) \<Longrightarrow> fw_phase (wd_workers w ! n) = Busy items \<Longrightarrow> items \<noteq> [] \<Longrightarrow>
     handle_processing_error now fl retryable items (fw_key (wd_workers w ! n)) msg (wd_queue w) = (released, qd') \<Longrightarrow>
     work_step ds vd st db w (set_phase n (if released then Leaving else Idle) w\<lparr>wd_queue := qd'\<rparr>)"
| finish_step: "n < length (wd_workers w) \<Longrightarrow> fw_phase (wd_workers w ! n) \<in> {Idle, Leaving} \<Longrightarrow>
     work_step ds vd st db w
       (set_phase n Gone w\<lparr>wd_queue :=
          snd (cleanup_work_unit (fw_aqs_id (wd_workers w ! n)) (fw_key (wd_workers w ! n)) (wd_queue w))\<rparr>)"

text \<open>The steps that take claims away from workers: a stale sweep and a manager's exit.\<close>

inductive lease_step :: "deriver_settings \<Rightarrow> world \<Rightarrow> world \<Rightarrow> bool" for ds where
  sweep_step: "lease_step ds w (w\<lparr>wd_queue := cleanup_stale_work_units ds now locked (wd_queue w)\<rparr>)"
| exit_step: "cleanup True (mg, wd_queue w) = (mg', qd') \<Longrightarrow> lease_step ds w (w\<lparr>wd_queue := qd'\<rparr>)"

inductive reachable :: "deriver_settings \<Rightarrow> validators \<Rightarrow> settings \<Rightarrow> tables \<Rightarrow> world \<Rightarrow> bool"
  for ds vd st db where
  start: "reachable ds vd st db start_world"
| work: "reachable ds vd st db w \<Longrightarrow> work_step ds vd st db w w' \<Longrightarrow> reachable ds vd st db w'"
| lease: "reachable ds vd st db w \<Longrightarrow> lease_step ds w w' \<Longrightarrow> reachable ds vd st db w'"

text \<open>Busy workers finish within the staleness timeout: at a sweep their claims are fresh.\<close>

definition busy_claims_fresh :: "deriver_settings \<Rightarrow> timestamp \<Rightarrow> world \<Rightarrow> bool" where
  "busy_claims_fresh ds now w \<longleftrightarrow>
     (\<forall>fw \<in> set (wd_workers w). in_flight (fw_phase fw) \<noteq> [] \<longrightarrow>
        (\<forall>c \<in> set (qd_claims (wd_queue w)). aq_id c = fw_aqs_id fw \<longrightarrow>
           aq_last_updated c \<ge> stale_claim_cutoff ds now))"

inductive timely :: "deriver_settings \<Rightarrow> validators \<Rightarrow> settings \<Rightarrow> tables \<Rightarrow> world \<Rightarrow> bool"
  for ds vd st db where
  timely_start: "timely ds vd st db start_world"
| timely_work: "timely ds vd st db w \<Longrightarrow> work_step ds vd st db w w' \<Longrightarrow> timely ds vd st db w'"
| timely_sweep: "timely ds vd st db w \<Longrightarrow> busy_claims_fresh ds now w \<Longrightarrow>
     timely ds vd st db (w\<lparr>wd_queue := cleanup_stale_work_units ds now locked (wd_queue w)\<rparr>)"

section \<open>What the statements keep\<close>

definition rows_kept :: "queue_db \<Rightarrow> queue_db \<Rightarrow> bool" where
  "rows_kept qd qd' \<longleftrightarrow> (\<forall>r \<in> set (qd_items qd). \<exists>r' \<in> set (qd_items qd'). qi_id r' = qi_id r
     \<and> qi_work_unit_key r' = qi_work_unit_key r \<and> (qi_processed r \<longrightarrow> qi_processed r'))"

definition claims_sub :: "queue_db \<Rightarrow> queue_db \<Rightarrow> bool" where
  "claims_sub qd qd' \<longleftrightarrow> (\<forall>c' \<in> set (qd_claims qd'). \<exists>c \<in> set (qd_claims qd). aq_id c = aq_id c'
     \<and> aq_work_unit_key c = aq_work_unit_key c')"

lemma rows_kept_refl [simp]: "qd_items qd' = qd_items qd \<Longrightarrow> rows_kept qd qd'"
  by (auto simp: rows_kept_def)

lemma claims_sub_refl [simp]: "set (qd_claims qd') \<subseteq> set (qd_claims qd) \<Longrightarrow> claims_sub qd qd'"
  by (auto simp: claims_sub_def)

lemma rows_kept_trans: "rows_kept q r \<Longrightarrow> rows_kept r s \<Longrightarrow> rows_kept q s"
  unfolding rows_kept_def by metis

lemma claims_sub_trans: "claims_sub q r \<Longrightarrow> claims_sub r s \<Longrightarrow> claims_sub q s"
  unfolding claims_sub_def by metis

lemma rows_kept_update: "keeps_row f \<Longrightarrow> rows_kept qd (update_items P f qd)"
proof -
  assume f: "keeps_row f"
  have "(if P r then f r else r) \<in> set (qd_items (update_items P f qd))" if "r \<in> set (qd_items qd)" for r
    unfolding update_items_set using that by (rule imageI)
  moreover have "qi_id (if P r then f r else r) = qi_id r
      \<and> qi_work_unit_key (if P r then f r else r) = qi_work_unit_key r
      \<and> (qi_processed r \<longrightarrow> qi_processed (if P r then f r else r))" for r
    using keeps_rowD [OF f, of r] by simp
  ultimately show ?thesis unfolding rows_kept_def by blast
qed

lemma claims_sub_touch: "claims_sub qd (touch_claim now k qd)"
  by (auto simp: claims_sub_def touch_claim_def)

lemma mark_effect:
  "rows_kept qd (mark_queue_items_as_processed now items key qd)
   \<and> claims_sub qd (mark_queue_items_as_processed now items key qd)"
proof -
  let ?u = "\<lambda>P. update_items P (\<lambda>i. i\<lparr>qi_processed := True\<rparr>) qd"
  have "rows_kept qd (touch_claim now key (?u P)) \<and> claims_sub qd (touch_claim now key (?u P))" for P
  proof -
    have "rows_kept (?u P) (touch_claim now key (?u P))" and "claims_sub qd (?u P)" by simp_all
    with rows_kept_update [OF keeps_row_updates(1)] claims_sub_touch show ?thesis
      using rows_kept_trans claims_sub_trans by blast
  qed
  then show ?thesis by (simp add: mark_queue_items_as_processed_def Let_def)
qed

lemma set_attempts_effect:
  "rows_kept qd (set_work_unit_retry_attempts key n qd) \<and> claims_sub qd (set_work_unit_retry_attempts key n qd)"
proof (cases "oldest_unprocessed_item key qd")
  case (Some i)
  have "keeps_row (\<lambda>j. j\<lparr>qi_payload := dset (qi_payload i) RETRY_ATTEMPTS_PAYLOAD_KEY (PInt n)\<rparr>)"
    by (simp add: keeps_row_def)
  with Some show ?thesis by (simp add: set_work_unit_retry_attempts_def rows_kept_update)
qed (simp add: set_work_unit_retry_attempts_def)

lemma errored_effect:
  "rows_kept qd (mark_queue_item_as_errored now i key msg qd)
   \<and> claims_sub qd (mark_queue_item_as_errored now i key msg qd)"
proof -
  let ?u = "update_items (\<lambda>j. qi_id j = qi_id i \<and> qi_work_unit_key j = key)
     (\<lambda>j. j\<lparr>qi_processed := True, qi_error := Some (take 65535 (escape_unstorable msg))\<rparr>) qd"
  have "rows_kept qd ?u" by (rule rows_kept_update) simp
  moreover have "rows_kept ?u (touch_claim now key ?u)" "claims_sub qd ?u" by simp_all
  ultimately show ?thesis
    unfolding mark_queue_item_as_errored_def
    using rows_kept_trans claims_sub_trans [OF _ claims_sub_touch] by blast
qed

lemma clear_effect:
  "rows_kept qd (clear_work_unit_retry_attempts key qd) \<and> claims_sub qd (clear_work_unit_retry_attempts key qd)"
  by (simp add: clear_work_unit_retry_attempts_def rows_kept_update)

text \<open>All ends of the error handler: it keeps the constraints, the rows, the owners and every other
  work unit.\<close>

definition keeps_others :: "string \<Rightarrow> queue_db \<Rightarrow> queue_db \<Rightarrow> bool" where
  "keeps_others key qd qd' \<longleftrightarrow> queue_ok qd' \<and> rows_kept qd qd' \<and> claims_sub qd qd'
     \<and> (\<forall>k. claim_owner qd' k = claim_owner qd k)
     \<and> (\<forall>k. k \<noteq> key \<longrightarrow> filter (\<lambda>i. qi_work_unit_key i = k) (qd_items qd') =
          filter (\<lambda>i. qi_work_unit_key i = k) (qd_items qd))"

lemma keeps_others_refl: "queue_ok qd \<Longrightarrow> keeps_others key qd qd"
  by (simp add: keeps_others_def)

lemma keeps_others_mark: "queue_ok qd \<Longrightarrow> keeps_others key qd (mark_queue_items_as_processed now items key qd)"
  using mark_effect by (simp add: keeps_others_def mark_processed_frame mark_other_rows)

lemma keeps_others_attempts: "queue_ok qd \<Longrightarrow> keeps_others key qd (set_work_unit_retry_attempts key n qd)"
  using set_attempts_effect
  by (simp add: keeps_others_def set_attempts_frame set_attempts_other)
    (simp add: set_work_unit_retry_attempts_def split: option.splits)

lemma keeps_others_errored: "queue_ok qd \<Longrightarrow> keeps_others key qd (mark_queue_item_as_errored now i key msg qd)"
  using errored_effect
  by (simp add: keeps_others_def mark_errored_frame errored_other) (simp add: mark_queue_item_as_errored_def)

lemma keeps_others_clear: "queue_ok qd \<Longrightarrow> keeps_others key qd (clear_work_unit_retry_attempts key qd)"
  using clear_effect
  by (simp add: keeps_others_def clear_attempts_frame clear_other) (simp add: clear_work_unit_retry_attempts_def)

lemma keeps_others_trans: "keeps_others k q r \<Longrightarrow> keeps_others k r s \<Longrightarrow> keeps_others k q s"
  unfolding keeps_others_def by (auto intro: rows_kept_trans claims_sub_trans)

lemma keeps_others_give_up:
  assumes "queue_ok qd"
  shows "keeps_others key qd (clear_work_unit_retry_attempts key (mark_queue_item_as_errored now i key msg qd))"
  using keeps_others_trans [OF keeps_others_errored keeps_others_clear] mark_errored_frame(1) assms by blast

lemma keeps_others_handle:
  assumes "handle_processing_error now fl retryable items key msg qd = (released, qd')" and "queue_ok qd"
  shows "keeps_others key qd qd'"
proof (cases "retry_decision_of fl retryable key qd")
  case (ReleaseForRetry q)
  with assms(1) have "qd' = q" by (simp add: handle_processing_error_def)
  moreover have "q = qd \<or> (\<exists>n. q = set_work_unit_retry_attempts key n qd)"
    using ReleaseForRetry by (auto simp: retry_decision_of_def split: if_splits sum.splits)
  ultimately show ?thesis using keeps_others_refl keeps_others_attempts assms(2) by blast
next
  case GiveUp
  let ?m = "if items \<noteq> [] then mark_queue_item_as_errored now (hd items) key msg qd else qd"
  from GiveUp assms(1) have "qd' \<in> {qd, ?m, clear_work_unit_retry_attempts key ?m}"
    by (auto simp: handle_processing_error_def Let_def split: if_splits)
  moreover have "keeps_others key qd ?m" "keeps_others key qd (clear_work_unit_retry_attempts key ?m)"
    using keeps_others_errored keeps_others_refl keeps_others_give_up keeps_others_clear assms(2) by simp_all
  ultimately show ?thesis using keeps_others_refl assms(2) by auto
qed

section \<open>Invariants\<close>

text \<open>The invariant of any schedule: ids are never reused, a worker's id names a claim on its own key only,
  and items in flight are rows of the worker's key.\<close>

definition fleet_inv :: "world \<Rightarrow> bool" where
  "fleet_inv w \<longleftrightarrow> queue_ok (wd_queue w) \<and> distinct (map fw_aqs_id (wd_workers w))
     \<and> fw_aqs_id ` set (wd_workers w) \<subseteq> set (wd_used_ids w)
     \<and> aq_id ` set (qd_claims (wd_queue w)) \<subseteq> set (wd_used_ids w)
     \<and> (\<forall>fw \<in> set (wd_workers w). \<forall>c \<in> set (qd_claims (wd_queue w)).
          aq_id c = fw_aqs_id fw \<longrightarrow> aq_work_unit_key c = fw_key fw)
     \<and> (\<forall>fw \<in> set (wd_workers w). \<forall>i \<in> set (in_flight (fw_phase fw)).
          \<exists>r \<in> set (qd_items (wd_queue w)). qi_id r = qi_id i \<and> qi_work_unit_key r = fw_key fw)"

lemma fleet_invD:
  assumes "fleet_inv w"
  shows "queue_ok (wd_queue w)" and "distinct (map fw_aqs_id (wd_workers w))"
    and "\<And>fw. fw \<in> set (wd_workers w) \<Longrightarrow> fw_aqs_id fw \<in> set (wd_used_ids w)"
    and "\<And>c. c \<in> set (qd_claims (wd_queue w)) \<Longrightarrow> aq_id c \<in> set (wd_used_ids w)"
    and "\<And>fw c. fw \<in> set (wd_workers w) \<Longrightarrow> c \<in> set (qd_claims (wd_queue w)) \<Longrightarrow> aq_id c = fw_aqs_id fw
           \<Longrightarrow> aq_work_unit_key c = fw_key fw"
    and "\<And>fw i. fw \<in> set (wd_workers w) \<Longrightarrow> i \<in> set (in_flight (fw_phase fw)) \<Longrightarrow>
           \<exists>r \<in> set (qd_items (wd_queue w)). qi_id r = qi_id i \<and> qi_work_unit_key r = fw_key fw"
  using assms by (auto simp: fleet_inv_def)

lemma fleet_inv_queue:
  assumes "fleet_inv w" and "queue_ok qd'" and "rows_kept (wd_queue w) qd'" and "claims_sub (wd_queue w) qd'"
  shows "fleet_inv (w\<lparr>wd_queue := qd'\<rparr>)"
proof -
  note i = fleet_invD [OF assms(1)]
  have c: "\<exists>c \<in> set (qd_claims (wd_queue w)). aq_id c = aq_id c' \<and> aq_work_unit_key c = aq_work_unit_key c'"
    if "c' \<in> set (qd_claims qd')" for c'
    using assms(4) that by (auto simp: claims_sub_def)
  have "aq_id ` set (qd_claims qd') \<subseteq> set (wd_used_ids w)"
    using c i(4) by (metis image_subsetI)
  moreover have "aq_work_unit_key c' = fw_key fw"
    if "fw \<in> set (wd_workers w)" "c' \<in> set (qd_claims qd')" "aq_id c' = fw_aqs_id fw" for fw c'
    using c [OF that(2)] i(5) [OF that(1)] that(3) by metis
  moreover have "\<exists>r \<in> set (qd_items qd'). qi_id r = qi_id i \<and> qi_work_unit_key r = fw_key fw"
    if "fw \<in> set (wd_workers w)" "i \<in> set (in_flight (fw_phase fw))" for fw i
    using i(6) [OF that] assms(3) unfolding rows_kept_def by metis
  moreover have "fw_aqs_id ` set (wd_workers w) \<subseteq> set (wd_used_ids w)" using i(3) by blast
  ultimately show ?thesis using assms(2) i(2) by (simp add: fleet_inv_def)
qed

lemma set_phase_simps [simp]:
  "wd_queue (set_phase n p w) = wd_queue w" "wd_used_ids (set_phase n p w) = wd_used_ids w"
  "length (wd_workers (set_phase n p w)) = length (wd_workers w)"
  by (simp_all add: set_phase_def)

lemma set_phase_ids: "map fw_aqs_id (wd_workers (set_phase n p w)) = map fw_aqs_id (wd_workers w)"
proof (cases "n < length (wd_workers w)")
  case True
  then have "(map fw_aqs_id (wd_workers w))[n := fw_aqs_id (wd_workers w ! n)] = map fw_aqs_id (wd_workers w)"
    by (simp add: list_update_same_conv)
  then show ?thesis by (simp add: set_phase_def map_update)
qed (simp add: set_phase_def list_update_beyond)

lemma set_phase_mem:
  assumes "fw \<in> set (wd_workers (set_phase n p w))" and "n < length (wd_workers w)"
  shows "fw = (wd_workers w ! n)\<lparr>fw_phase := p\<rparr> \<or> (\<exists>m < length (wd_workers w). m \<noteq> n \<and> fw = wd_workers w ! m)"
proof -
  obtain m where m: "m < length (wd_workers w)" "fw = (wd_workers w)[n := (wd_workers w ! n)\<lparr>fw_phase := p\<rparr>] ! m"
    using assms(1) by (auto simp: set_phase_def in_set_conv_nth)
  then show ?thesis by (cases "m = n") (auto simp: assms(2))
qed

lemma fleet_inv_phase:
  assumes "fleet_inv w" and "n < length (wd_workers w)"
    and "\<And>i. i \<in> set (in_flight p) \<Longrightarrow>
      \<exists>r \<in> set (qd_items (wd_queue w)). qi_id r = qi_id i \<and> qi_work_unit_key r = fw_key (wd_workers w ! n)"
  shows "fleet_inv (set_phase n p w)"
proof -
  note i = fleet_invD [OF assms(1)]
  let ?x = "wd_workers w ! n"
  have x: "?x \<in> set (wd_workers w)" using assms(2) by simp
  have old: "\<exists>fw' \<in> set (wd_workers w). fw_aqs_id fw' = fw_aqs_id fw \<and> fw_key fw' = fw_key fw"
    if "fw \<in> set (wd_workers (set_phase n p w))" for fw
    using set_phase_mem [OF that assms(2)] x by force
  have "\<exists>r \<in> set (qd_items (wd_queue w)). qi_id r = qi_id j \<and> qi_work_unit_key r = fw_key fw"
    if f: "fw \<in> set (wd_workers (set_phase n p w))" and j: "j \<in> set (in_flight (fw_phase fw))" for fw j
    using set_phase_mem [OF f assms(2)]
  proof
    assume "fw = ?x\<lparr>fw_phase := p\<rparr>"
    with j assms(3) show ?thesis by simp
  next
    assume "\<exists>m < length (wd_workers w). m \<noteq> n \<and> fw = wd_workers w ! m"
    with j i(6) show ?thesis by auto
  qed
  moreover have "aq_work_unit_key c = fw_key fw"
    if "fw \<in> set (wd_workers (set_phase n p w))" "c \<in> set (qd_claims (wd_queue w))" "aq_id c = fw_aqs_id fw" for fw c
    using old [OF that(1)] i(5) that(2,3) by metis
  moreover have "fw_aqs_id ` set (wd_workers (set_phase n p w)) \<subseteq> set (wd_used_ids w)"
    using old i(3) by (metis image_subsetI)
  ultimately show ?thesis
    using i(1,2,4) by (simp add: fleet_inv_def set_phase_ids) blast
qed

lemma worker_fetch_cases:
  assumes "worker_fetch ds vd st db key aqs qd = Inr items"
  obtains b where "get_queue_item_batch ds vd st db ''representation'' key aqs qd = Inr b"
      and "items = qb_items_to_process b"
  | tt i where "tt \<noteq> ''representation''" and "get_next_queue_item tt key aqs qd = Inr (Some i)" and "items = [i]"
  | "items = []"
proof (cases "parse_work_unit_key key")
  case (Inr wu)
  show thesis
  proof (cases "pw_task_type wu = ''representation''")
    case True
    with Inr assms that(1) show thesis by (auto simp: worker_fetch_def res_map_Inr)
  next
    case False
    with Inr assms obtain r where "get_next_queue_item (pw_task_type wu) key aqs qd = Inr r"
      and "items = (case r of None \<Rightarrow> [] | Some i \<Rightarrow> [i])"
      by (auto simp: worker_fetch_def res_map_Inr)
    with False that(2,3) show thesis by (cases r) auto
  qed
qed (use assms in \<open>simp add: worker_fetch_def\<close>)

lemma worker_fetch_items:
  assumes "worker_fetch ds vd st db key aqs qd = Inr items" and "message_ids_unique db" and "i \<in> set items"
  shows "i \<in> set (pending_of qd key)"
  using assms(1)
proof (cases rule: worker_fetch_cases)
  case (1 b)
  with batch_items_pending [OF 1(1) assms(2)] assms(3) show ?thesis by (simp add: pending_of_iff)
next
  case (2 tt j)
  with next_item_pending [OF 2(2)] assms(3) show ?thesis by simp
qed (use assms(3) in simp)

lemma worker_fetch_owner:
  assumes "worker_fetch ds vd st db key aqs qd = Inr items" and "claims_ok qd" and "items \<noteq> []"
  shows "claim_owner qd key = Some aqs"
proof (rule ccontr)
  assume "claim_owner qd key \<noteq> Some aqs"
  then have n: "\<not> owns qd key aqs" by (simp add: owns_def)
  show False
    using assms(1)
  proof (cases rule: worker_fetch_cases)
    case (1 b)
    with batch_owner [OF 1(1) assms(2) n] assms(3) show False by simp
  next
    case (2 tt j)
    with next_item_foreign [OF assms(2) n 2(1)] show False by simp
  qed (use assms(3) in simp)
qed

lemma claimed_distinct:
  assumes "queue_ok qd" and "get_and_claim_work_units ds now db ids mg qd = (claimed, qd')"
  shows "queue_ok qd'" and "distinct (map snd claimed)" and "snd ` set claimed \<subseteq> set ids"
    and "qd_items qd' = qd_items qd" and "set (qd_claims qd') = set (qd_claims qd) \<union> claim_row now ` set claimed"
    and "\<And>k a. claim_owner qd k = Some a \<Longrightarrow> claim_owner qd' k = Some a"
proof -
  have "queue_ok qd' \<and> distinct (map snd claimed) \<and> snd ` set claimed \<subseteq> set ids \<and> qd_items qd' = qd_items qd
    \<and> set (qd_claims qd') = set (qd_claims qd) \<union> claim_row now ` set claimed
    \<and> (\<forall>k a. claim_owner qd k = Some a \<longrightarrow> claim_owner qd' k = Some a)"
    using get_and_claim_claims [OF assms(2)]
  proof (elim disjE exE conjE)
    fix ks
    assume c: "claim_work_units now ks qd = (claimed, qd')" and ks: "snd ` set ks \<subseteq> set ids"
    have own: "claim_owner qd' k = Some a" if "claim_owner qd k = Some a" for k a
    proof -
      have "k \<notin> fst ` set claimed" using claimed_owner(1) [OF assms(1) c] that by force
      from other_owner [OF assms(1) c this] that show ?thesis by simp
    qed
    note fr = claim_work_units_frame [OF c]
    have sub: "snd ` set claimed \<subseteq> set ids" using fr ks by blast
    have ok: "queue_ok qd'" using claim_work_units_ok [OF assms(1), of now ks] c by simp
    show ?thesis
      using fr sub ok own claim_work_units_keys_distinct(2) [OF assms(1) c] by simp
  qed (use assms(1) in simp)
  then show "queue_ok qd'" and "distinct (map snd claimed)" and "snd ` set claimed \<subseteq> set ids"
    and "qd_items qd' = qd_items qd" and "set (qd_claims qd') = set (qd_claims qd) \<union> claim_row now ` set claimed"
    and "\<And>k a. claim_owner qd k = Some a \<Longrightarrow> claim_owner qd' k = Some a"
    by blast+
qed

lemma fleet_inv_poll:
  assumes "fleet_inv w" and "get_and_claim_work_units ds now db ids mg (wd_queue w) = (claimed, qd')"
    and "set ids \<inter> set (wd_used_ids w) = {}" and "started = claimed \<or> started = []"
  shows "fleet_inv (w\<lparr>wd_queue := qd', wd_workers := wd_workers w @ map new_worker started,
          wd_used_ids := wd_used_ids w @ ids\<rparr>)"
proof -
  note i = fleet_invD [OF assms(1)]
  note c = claimed_distinct [OF i(1) assms(2)]
  have st: "set started \<subseteq> set claimed" "distinct (map snd started)" using assms(4) c(2) by auto
  have fresh: "a \<notin> set (wd_used_ids w)" if "(k, a) \<in> set claimed" for k a
    using c(3) assms(3) that by force
  have new_old: "fw_aqs_id fw \<noteq> snd ka" if "fw \<in> set (wd_workers w)" "ka \<in> set claimed" for fw ka
    using i(3) [OF that(1)] fresh [of "fst ka" "snd ka"] that(2) by auto
  have d: "distinct (map fw_aqs_id (wd_workers w @ map new_worker started))"
    using i(2) st new_old by (auto simp: new_worker_def comp_def)
  have keyed: "aq_work_unit_key r = fw_key fw"
    if f: "fw \<in> set (wd_workers w) \<union> new_worker ` set started" and r: "r \<in> set (qd_claims qd')"
      and e: "aq_id r = fw_aqs_id fw" for fw r
  proof -
    from r c(5) consider "r \<in> set (qd_claims (wd_queue w))" | ka where "ka \<in> set claimed" "r = claim_row now ka" by auto
    then show ?thesis
    proof cases
      case 1
      have "fw \<notin> new_worker ` set started"
        using i(4) [OF 1] e st(1) fresh by (force simp: new_worker_def)
      with f i(5) 1 e show ?thesis by blast
    next
      case 2
      then have "fw_aqs_id fw = snd ka" using e by (simp add: claim_row_def)
      then have "fw \<notin> set (wd_workers w)" using new_old 2(1) by blast
      then obtain kb where kb: "kb \<in> set claimed" "fw = new_worker kb" using f st(1) by blast
      then have "snd kb = snd ka" using e 2 by (simp add: claim_row_def new_worker_def)
      then have "kb = ka" using distinct_map_mem_eq [where f = snd, OF c(2) kb(1) 2(1)] by blast
      with kb 2 show ?thesis by (simp add: claim_row_def new_worker_def)
    qed
  qed
  have used: "aq_id ` set (qd_claims qd') \<subseteq> set (wd_used_ids w @ ids)"
    using c(3,5) i(4) by (auto simp: claim_row_def)
  have wused: "fw_aqs_id ` (set (wd_workers w) \<union> new_worker ` set started) \<subseteq> set (wd_used_ids w @ ids)"
    using i(3) st(1) c(3) by (force simp: new_worker_def)
  have fl: "\<exists>r \<in> set (qd_items qd'). qi_id r = qi_id j \<and> qi_work_unit_key r = fw_key fw"
    if "fw \<in> set (wd_workers w) \<union> new_worker ` set started" "j \<in> set (in_flight (fw_phase fw))" for fw j
    using that i(6) c(4) by (auto simp: new_worker_def)
  show ?thesis using c(1) d keyed used wused fl unfolding fleet_inv_def by simp
qed

lemma fleet_inv_work:
  assumes "work_step ds vd st db w w'" and "fleet_inv w" and "message_ids_unique db"
  shows "fleet_inv w'"
  using assms(1)
proof cases
  case (enqueue_step now rs qd')
  have ok: "queue_ok (wd_queue w)" by (rule fleet_invD [OF assms(2)])
  have "rows_kept (wd_queue w) qd'" "claims_sub (wd_queue w) qd'"
    using insert_queue_items_appends [OF enqueue_step(2)] by (auto simp: rows_kept_def)
  with enqueue_step fleet_inv_queue [OF assms(2) insert_queue_items_ok [OF ok]] show ?thesis by blast
next
  case (poll_step now ids mg claimed qd' started)
  with fleet_inv_poll [OF assms(2) poll_step(2-4)] show ?thesis by simp
next
  case (fetch_step n items)
  have "fleet_inv (set_phase n (if items = [] then Leaving else Busy items) w)"
  proof (rule fleet_inv_phase [OF assms(2) fetch_step(2)])
    fix i assume "i \<in> set (in_flight (if items = [] then Leaving else Busy items))"
    then have "i \<in> set items" by (auto split: if_splits)
    from worker_fetch_items [OF fetch_step(4) assms(3) this]
    show "\<exists>r \<in> set (qd_items (wd_queue w)). qi_id r = qi_id i \<and> qi_work_unit_key r = fw_key (wd_workers w ! n)"
      by (auto simp: pending_of_iff)
  qed
  with fetch_step show ?thesis by simp
next
  case (success_step n items now)
  let ?w = "set_phase n Idle w" and ?key = "fw_key (wd_workers w ! n)"
  have "fleet_inv ?w" by (rule fleet_inv_phase [OF assms(2) success_step(2)]) simp
  moreover from fleet_invD(1) [OF assms(2)] have "keeps_others ?key (wd_queue w)
      (mark_queue_items_as_processed now items ?key (wd_queue w))" by (rule keeps_others_mark)
  ultimately show ?thesis using success_step fleet_inv_queue [of ?w] by (simp add: keeps_others_def)
next
  case (failure_step n items now fl retryable msg released qd')
  let ?w = "set_phase n (if released then Leaving else Idle) w" and ?key = "fw_key (wd_workers w ! n)"
  have "fleet_inv ?w" by (rule fleet_inv_phase [OF assms(2) failure_step(2)]) (simp split: if_splits)
  moreover have "keeps_others ?key (wd_queue w) qd'"
    by (rule keeps_others_handle [OF failure_step(5) fleet_invD(1) [OF assms(2)]])
  ultimately show ?thesis using failure_step fleet_inv_queue [of ?w] by (simp add: keeps_others_def)
next
  case (finish_step n)
  let ?w = "set_phase n Gone w"
  have "fleet_inv ?w" by (rule fleet_inv_phase [OF assms(2) finish_step(2)]) simp
  moreover have "queue_ok (snd (cleanup_work_unit a k (wd_queue w)))" for a k
    using claims.release_ok [OF fleet_invD(1) [OF assms(2)]] by simp
  moreover have "rows_kept (wd_queue w) (snd (cleanup_work_unit a k (wd_queue w)))"
    "claims_sub (wd_queue w) (snd (cleanup_work_unit a k (wd_queue w)))" for a k
    by (auto simp: cleanup_work_unit_def)
  ultimately show ?thesis using finish_step fleet_inv_queue [of ?w] by simp
qed

lemma fleet_inv_sweep:
  assumes "fleet_inv w"
  shows "fleet_inv (w\<lparr>wd_queue := cleanup_stale_work_units ds now locked (wd_queue w)\<rparr>)"
proof (rule fleet_inv_queue [OF assms])
  have ok: "queue_ok (wd_queue w)" by (rule fleet_invD [OF assms])
  then show "queue_ok (cleanup_stale_work_units ds now locked (wd_queue w))" by (rule cleanup_stale_ok)
  show "rows_kept (wd_queue w) (cleanup_stale_work_units ds now locked (wd_queue w))" by simp
  show "claims_sub (wd_queue w) (cleanup_stale_work_units ds now locked (wd_queue w))"
    using ok by (intro claims_sub_refl) (auto simp: swept_claims queue_ok_def)
qed

lemma cleanup_effect:
  assumes "cleanup ok (mg, qd) = (mg', qd')" and "queue_ok qd"
  shows "queue_ok qd' \<and> qd_items qd' = qd_items qd \<and> set (qd_claims qd') \<subseteq> set (qd_claims qd)"
proof -
  from assms(1) have "qd' = qd \<or> (\<exists>P. qd' = qd\<lparr>qd_claims := filter P (qd_claims qd)\<rparr>)"
    by (auto simp: cleanup_def Let_def split: if_splits)
  then show ?thesis using assms(2) claims_subset_ok by auto
qed

lemma fleet_inv_lease:
  assumes "lease_step ds w w'" and "fleet_inv w"
  shows "fleet_inv w'"
  using assms(1)
proof cases
  case (sweep_step now locked)
  with fleet_inv_sweep [OF assms(2)] show ?thesis by simp
next
  case (exit_step mg mg' qd')
  from cleanup_effect [OF exit_step(2) fleet_invD(1) [OF assms(2)]]
  have "fleet_inv (w\<lparr>wd_queue := qd'\<rparr>)" by (intro fleet_inv_queue [OF assms(2)]) simp_all
  with exit_step show ?thesis by simp
qed

lemma fleet_inv_start: "fleet_inv start_world"
  by (simp add: fleet_inv_def start_world_def queue_ok_def claims_ok_def unique_pending_def ids_ok_def)

lemma reachable_inv:
  "reachable ds vd st db w \<Longrightarrow> message_ids_unique db \<Longrightarrow> fleet_inv w"
  by (induction rule: reachable.induct) (auto intro: fleet_inv_start fleet_inv_work fleet_inv_lease)

text \<open>With timely workers: whoever is busy holds its claim, and what is in flight is pending.\<close>

definition busy_inv :: "world \<Rightarrow> bool" where
  "busy_inv w \<longleftrightarrow> (\<forall>fw \<in> set (wd_workers w). in_flight (fw_phase fw) \<noteq> [] \<longrightarrow>
     claim_owner (wd_queue w) (fw_key fw) = Some (fw_aqs_id fw)
     \<and> qi_id ` set (in_flight (fw_phase fw)) \<subseteq> qi_id ` set (pending_of (wd_queue w) (fw_key fw)))"

lemma busy_invD:
  "busy_inv w \<Longrightarrow> fw \<in> set (wd_workers w) \<Longrightarrow> in_flight (fw_phase fw) \<noteq> [] \<Longrightarrow>
   claim_owner (wd_queue w) (fw_key fw) = Some (fw_aqs_id fw)
   \<and> qi_id ` set (in_flight (fw_phase fw)) \<subseteq> qi_id ` set (pending_of (wd_queue w) (fw_key fw))"
  by (simp add: busy_inv_def)

text \<open>Two busy workers never work on the same key.\<close>

lemma busy_keys_differ:
  assumes "fleet_inv w" and "busy_inv w" and "n < length (wd_workers w)" and "m < length (wd_workers w)" and "m \<noteq> n"
    and "in_flight (fw_phase (wd_workers w ! n)) \<noteq> []" and "in_flight (fw_phase (wd_workers w ! m)) \<noteq> []"
  shows "fw_key (wd_workers w ! m) \<noteq> fw_key (wd_workers w ! n)"
proof
  assume "fw_key (wd_workers w ! m) = fw_key (wd_workers w ! n)"
  with busy_invD [OF assms(2) nth_mem [OF assms(3)] assms(6)] busy_invD [OF assms(2) nth_mem [OF assms(4)] assms(7)]
  have "map fw_aqs_id (wd_workers w) ! m = map fw_aqs_id (wd_workers w) ! n" using assms(3,4) by simp
  then have "m = n"
    using nth_eq_iff_index_eq [OF fleet_invD(2) [OF assms(1)], of m n] assms(3,4) by (simp only: length_map)
  with assms(5) show False by simp
qed

lemma pending_ids_filter:
  "filter (\<lambda>i. qi_work_unit_key i = k) (qd_items qd') = filter (\<lambda>i. qi_work_unit_key i = k) (qd_items qd) \<Longrightarrow>
   pending_of qd' k = pending_of qd k"
  unfolding pending_of_def unprocessed_items_def filter_filter
  by (metis (no_types, lifting) conj_commute filter_filter filter_cong)

lemma busy_inv_acting:
  assumes "fleet_inv w" and "busy_inv w" and "n < length (wd_workers w)" and "in_flight p = []"
    and "in_flight (fw_phase (wd_workers w ! n)) \<noteq> []" and "keeps_others (fw_key (wd_workers w ! n)) (wd_queue w) qd'"
  shows "busy_inv (set_phase n p w\<lparr>wd_queue := qd'\<rparr>)"
  unfolding busy_inv_def
proof (intro ballI impI)
  fix fw
  assume f: "fw \<in> set (wd_workers (set_phase n p w\<lparr>wd_queue := qd'\<rparr>))" and b: "in_flight (fw_phase fw) \<noteq> []"
  have "fw \<in> set (wd_workers (set_phase n p w))" using f by (simp add: set_phase_def)
  from set_phase_mem [OF this assms(3)] b assms(4) obtain m where
    m: "m < length (wd_workers w)" "m \<noteq> n" "fw = wd_workers w ! m" by auto
  with busy_keys_differ [OF assms(1-3) m(1,2) assms(5)] b have "fw_key fw \<noteq> fw_key (wd_workers w ! n)" by simp
  then have "pending_of qd' (fw_key fw) = pending_of (wd_queue w) (fw_key fw)"
    using assms(6) by (intro pending_ids_filter) (simp add: keeps_others_def)
  moreover have "claim_owner qd' k = claim_owner (wd_queue w) k" for k using assms(6) by (simp add: keeps_others_def)
  ultimately show "claim_owner (wd_queue (set_phase n p w\<lparr>wd_queue := qd'\<rparr>)) (fw_key fw) = Some (fw_aqs_id fw)
     \<and> qi_id ` set (in_flight (fw_phase fw)) \<subseteq> qi_id ` set (pending_of (wd_queue (set_phase n p w\<lparr>wd_queue := qd'\<rparr>)) (fw_key fw))"
    using busy_invD [OF assms(2) nth_mem [OF m(1)]] b m(3) by simp
qed

lemma busy_inv_mono:
  assumes "busy_inv w" and "\<And>fw. fw \<in> set (wd_workers w') \<Longrightarrow> in_flight (fw_phase fw) \<noteq> [] \<Longrightarrow> fw \<in> set (wd_workers w)"
    and "\<And>fw. fw \<in> set (wd_workers w) \<Longrightarrow> in_flight (fw_phase fw) \<noteq> [] \<Longrightarrow>
       claim_owner (wd_queue w) (fw_key fw) = Some (fw_aqs_id fw) \<Longrightarrow>
       claim_owner (wd_queue w') (fw_key fw) = Some (fw_aqs_id fw)"
    and "\<And>k. qi_id ` set (pending_of (wd_queue w) k) \<subseteq> qi_id ` set (pending_of (wd_queue w') k)"
  shows "busy_inv w'"
  unfolding busy_inv_def
proof (intro ballI impI)
  fix fw
  assume f: "fw \<in> set (wd_workers w')" and b: "in_flight (fw_phase fw) \<noteq> []"
  note o = assms(2) [OF f b]
  from busy_invD [OF assms(1) o b] assms(3) [OF o b] assms(4) [of "fw_key fw"]
  show "claim_owner (wd_queue w') (fw_key fw) = Some (fw_aqs_id fw)
     \<and> qi_id ` set (in_flight (fw_phase fw)) \<subseteq> qi_id ` set (pending_of (wd_queue w') (fw_key fw))"
    by blast
qed

lemma busy_inv_idle:
  assumes "busy_inv w" and "n < length (wd_workers w)" and "in_flight p = []"
  shows "busy_inv (set_phase n p w)"
proof (rule busy_inv_mono [OF assms(1)])
  fix fw
  assume "fw \<in> set (wd_workers (set_phase n p w))" and "in_flight (fw_phase fw) \<noteq> []"
  with set_phase_mem [OF _ assms(2)] assms(3) show "fw \<in> set (wd_workers w)" by fastforce
qed simp_all

lemma busy_inv_finish:
  assumes "fleet_inv w" and "busy_inv w" and "n < length (wd_workers w)"
    and "in_flight (fw_phase (wd_workers w ! n)) = []"
  shows "busy_inv (set_phase n Gone w\<lparr>wd_queue :=
     snd (cleanup_work_unit (fw_aqs_id (wd_workers w ! n)) (fw_key (wd_workers w ! n)) (wd_queue w))\<rparr>)"
proof (rule busy_inv_mono [OF assms(2)])
  let ?a = "fw_aqs_id (wd_workers w ! n)" and ?k = "fw_key (wd_workers w ! n)"
  fix fw
  show "fw \<in> set (wd_workers w)"
    if "fw \<in> set (wd_workers (set_phase n Gone w\<lparr>wd_queue := snd (cleanup_work_unit ?a ?k (wd_queue w))\<rparr>))"
      "in_flight (fw_phase fw) \<noteq> []"
    using set_phase_mem [OF _ assms(3), of fw Gone] that by (fastforce simp: set_phase_def)
  show "claim_owner (wd_queue (set_phase n Gone w\<lparr>wd_queue := snd (cleanup_work_unit ?a ?k (wd_queue w))\<rparr>)) (fw_key fw)
      = Some (fw_aqs_id fw)"
    if f: "fw \<in> set (wd_workers w)" "in_flight (fw_phase fw) \<noteq> []"
      "claim_owner (wd_queue w) (fw_key fw) = Some (fw_aqs_id fw)"
  proof -
    have "fw_aqs_id fw \<noteq> ?a"
    proof
      assume "fw_aqs_id fw = ?a"
      then have "fw = wd_workers w ! n"
        by (rule distinct_map_mem_eq [where f = fw_aqs_id, OF fleet_invD(2) [OF assms(1)] f(1) nth_mem [OF assms(3)]])
      with f(2) assms(4) show False by simp
    qed
    then show ?thesis
      using claims.owner_release [OF fleet_invD(1) [OF assms(1)], of ?a ?k] f(3) by (auto simp: comp_def)
  qed
qed (simp add: cleanup_work_unit_def pending_of_def unprocessed_items_def)

lemma busy_inv_fetch:
  assumes "fleet_inv w" and "busy_inv w" and "n < length (wd_workers w)" and "message_ids_unique db"
    and "worker_fetch ds vd st db (fw_key (wd_workers w ! n)) (fw_aqs_id (wd_workers w ! n)) (wd_queue w) = Inr items"
  shows "busy_inv (set_phase n (if items = [] then Leaving else Busy items) w)"
proof (cases "items = []")
  case True
  with busy_inv_idle [OF assms(2,3), of Leaving] show ?thesis by simp
next
  case False
  have cok: "claims_ok (wd_queue w)" using fleet_invD(1) [OF assms(1)] by (simp add: queue_ok_def)
  note own = worker_fetch_owner [OF assms(5) cok False] and pend = worker_fetch_items [OF assms(5,4)]
  have "busy_inv (set_phase n (Busy items) w)"
    unfolding busy_inv_def
  proof (intro ballI impI)
    fix fw
    assume f: "fw \<in> set (wd_workers (set_phase n (Busy items) w))" and b: "in_flight (fw_phase fw) \<noteq> []"
    from set_phase_mem [OF f assms(3)]
    show "claim_owner (wd_queue (set_phase n (Busy items) w)) (fw_key fw) = Some (fw_aqs_id fw)
       \<and> qi_id ` set (in_flight (fw_phase fw)) \<subseteq> qi_id ` set (pending_of (wd_queue (set_phase n (Busy items) w)) (fw_key fw))"
    proof
      assume "fw = (wd_workers w ! n)\<lparr>fw_phase := Busy items\<rparr>"
      with own pend show ?thesis by auto
    next
      assume "\<exists>m < length (wd_workers w). m \<noteq> n \<and> fw = wd_workers w ! m"
      then have "fw \<in> set (wd_workers w)" by auto
      from busy_invD [OF assms(2) this b] show ?thesis by simp
    qed
  qed
  with False show ?thesis by simp
qed

lemma busy_inv_work:
  assumes "work_step ds vd st db w w'" and "fleet_inv w" and "busy_inv w" and "message_ids_unique db"
  shows "busy_inv w'"
  using assms(1)
proof cases
  case (enqueue_step now rs qd')
  from insert_queue_items_appends [OF enqueue_step(2)] obtain new where
    e: "qd_claims qd' = qd_claims (wd_queue w)" "qd_items qd' = qd_items (wd_queue w) @ new" by blast
  show ?thesis unfolding enqueue_step(1)
    by (rule busy_inv_mono [OF assms(3)]) (use e in \<open>auto simp: claim_owner_def pending_of_iff\<close>)
next
  case (poll_step now ids mg claimed qd' started)
  note c = claimed_distinct [OF fleet_invD(1) [OF assms(2)] poll_step(2)]
  show ?thesis unfolding poll_step(1)
    by (rule busy_inv_mono [OF assms(3)])
      (use c(4,6) in \<open>auto simp: new_worker_def pending_of_def unprocessed_items_def\<close>)
next
  case (fetch_step n items)
  with busy_inv_fetch [OF assms(2,3) fetch_step(2) assms(4) fetch_step(4)] show ?thesis by simp
next
  case (success_step n items now)
  then show ?thesis
    using busy_inv_acting [OF assms(2,3) success_step(2), of Idle]
      keeps_others_mark [OF fleet_invD(1) [OF assms(2)]] by simp
next
  case (failure_step n items now fl retryable msg released qd')
  have k: "keeps_others (fw_key (wd_workers w ! n)) (wd_queue w) qd'"
    by (rule keeps_others_handle [OF failure_step(5) fleet_invD(1) [OF assms(2)]])
  from failure_step k show ?thesis
    using busy_inv_acting [OF assms(2,3) failure_step(2), of "if released then Leaving else Idle"] by simp
next
  case (finish_step n)
  then have "in_flight (fw_phase (wd_workers w ! n)) = []" by auto
  with finish_step busy_inv_finish [OF assms(2,3) finish_step(2)] show ?thesis by simp
qed

lemma busy_inv_sweep:
  assumes "fleet_inv w" and "busy_inv w" and "busy_claims_fresh ds now w"
  shows "busy_inv (w\<lparr>wd_queue := cleanup_stale_work_units ds now locked (wd_queue w)\<rparr>)"
proof (rule busy_inv_mono [OF assms(2)])
  let ?q = "cleanup_stale_work_units ds now locked (wd_queue w)"
  have ok: "claims_ok (wd_queue w)" using fleet_invD(1) [OF assms(1)] by (simp add: queue_ok_def)
  have ok': "claims_ok ?q" using cleanup_stale_ok [OF fleet_invD(1) [OF assms(1)]] by (simp add: queue_ok_def)
  fix fw
  assume f: "fw \<in> set (wd_workers w)" "in_flight (fw_phase fw) \<noteq> []"
    and o: "claim_owner (wd_queue w) (fw_key fw) = Some (fw_aqs_id fw)"
  from o obtain c where c: "c \<in> set (qd_claims (wd_queue w))" "aq_work_unit_key c = fw_key fw" "aq_id c = fw_aqs_id fw"
    unfolding claim_owner_iff [OF ok] by blast
  with assms(3) f have "aq_last_updated c \<ge> stale_claim_cutoff ds now" by (simp add: busy_claims_fresh_def)
  with c(1) have "c \<in> set (qd_claims ?q)" unfolding swept_claims [OF ok] by simp
  with c have "claim_owner ?q (fw_key fw) = Some (fw_aqs_id fw)" unfolding claim_owner_iff [OF ok'] by blast
  then show "claim_owner (wd_queue (w\<lparr>wd_queue := ?q\<rparr>)) (fw_key fw) = Some (fw_aqs_id fw)" by simp
qed (simp_all add: pending_of_def unprocessed_items_def)

lemma timely_inv:
  "timely ds vd st db w \<Longrightarrow> message_ids_unique db \<Longrightarrow> fleet_inv w \<and> busy_inv w"
proof (induction rule: timely.induct)
  case timely_start
  then show ?case using fleet_inv_start by (simp add: busy_inv_def start_world_def)
next
  case (timely_work w w')
  then show ?case using fleet_inv_work busy_inv_work by blast
next
  case (timely_sweep w now locked)
  then show ?case using fleet_inv_sweep busy_inv_sweep by blast
qed

section \<open>Properties\<close>

text \<open>C1. No item is worked on twice when workers are timely: as long as every stale sweep finds the claims
  of busy workers fresh and no manager exits with busy workers, the items in flight are pairwise
  disjoint between workers, still pending, and their workers hold the claim.\<close>

theorem timely_workers_disjoint:
  assumes "timely ds vd st db w" and "message_ids_unique db"
    and "n < length (wd_workers w)" and "m < length (wd_workers w)" and "n \<noteq> m"
  shows "qi_id ` set (in_flight (fw_phase (wd_workers w ! n))) \<inter> qi_id ` set (in_flight (fw_phase (wd_workers w ! m))) = {}
    \<and> qi_id ` set (in_flight (fw_phase (wd_workers w ! n))) \<subseteq>
        qi_id ` set (pending_of (wd_queue w) (fw_key (wd_workers w ! n)))
    \<and> (in_flight (fw_phase (wd_workers w ! n)) \<noteq> [] \<longrightarrow>
        claim_owner (wd_queue w) (fw_key (wd_workers w ! n)) = Some (fw_aqs_id (wd_workers w ! n)))"
proof -
  have inv: "fleet_inv w" and busy: "busy_inv w" using timely_inv [OF assms(1,2)] by blast+
  note f = fleet_invD [OF inv]
  let ?n = "wd_workers w ! n" and ?m = "wd_workers w ! m"
  have p: "qi_id ` set (in_flight (fw_phase (wd_workers w ! x))) \<subseteq> qi_id ` set (pending_of (wd_queue w) (fw_key (wd_workers w ! x)))
    \<and> (in_flight (fw_phase (wd_workers w ! x)) \<noteq> [] \<longrightarrow>
        claim_owner (wd_queue w) (fw_key (wd_workers w ! x)) = Some (fw_aqs_id (wd_workers w ! x)))"
    if "x < length (wd_workers w)" for x
    using busy_invD [OF busy nth_mem [OF that]] by (cases "in_flight (fw_phase (wd_workers w ! x)) = []") simp_all
  have "False" if i: "i \<in> set (in_flight (fw_phase ?n))" and j: "j \<in> set (in_flight (fw_phase ?m))"
    and e: "qi_id i = qi_id j" for i j
  proof -
    have ne: "in_flight (fw_phase ?n) \<noteq> []" "in_flight (fw_phase ?m) \<noteq> []" using i j by auto
    have "qi_id i \<in> qi_id ` set (pending_of (wd_queue w) (fw_key ?n))"
      and "qi_id j \<in> qi_id ` set (pending_of (wd_queue w) (fw_key ?m))"
      using p [OF assms(3)] p [OF assms(4)] i j by blast+
    then obtain r s where r: "r \<in> set (pending_of (wd_queue w) (fw_key ?n))" "qi_id r = qi_id i"
      and s: "s \<in> set (pending_of (wd_queue w) (fw_key ?m))" "qi_id s = qi_id j" by force
    then have "r = s" using row_by_id [OF f(1), of r s] e by (simp add: pending_of_iff)
    with r s have "fw_key ?n = fw_key ?m" by (simp add: pending_of_iff)
    with busy_keys_differ [OF inv busy assms(4,3) assms(5) ne(2,1)] show False by simp
  qed
  then have "qi_id ` set (in_flight (fw_phase ?n)) \<inter> qi_id ` set (in_flight (fw_phase ?m)) = {}" by blast
  with p [OF assms(3)] show ?thesis by blast
qed

section \<open>A run in which a manager exits with a busy worker\<close>

abbreviation hook_key :: string where
  "hook_key \<equiv> ''webhook:w''"

definition hook_record :: queue_record where
  "hook_record =
     \<lparr>qr_work_unit_key = hook_key, qr_payload = [], qr_session_id = None, qr_task_type = ''webhook'',
      qr_workspace_name = Some ''w'', qr_message_id = None\<rparr>"

definition hook_item :: queue_item where
  "hook_item = item_of_record 5 1 hook_record"

definition hook_queue :: "(string \<times> timestamp) list \<Rightarrow> queue_db" where
  "hook_queue claims =
     \<lparr>qd_items = [hook_item],
      qd_claims = map (\<lambda>(a, t). \<lparr>aq_id = a, aq_work_unit_key = hook_key, aq_last_updated = t\<rparr>) claims,
      qd_next_id = 2\<rparr>"

definition hook_worker :: "string \<Rightarrow> phase \<Rightarrow> fleet_worker" where
  "hook_worker a p = \<lparr>fw_aqs_id = a, fw_key = hook_key, fw_phase = p\<rparr>"

definition hook_world :: "(string \<times> timestamp) list \<Rightarrow> fleet_worker list \<Rightarrow> string list \<Rightarrow> world" where
  "hook_world claims workers used =
     \<lparr>wd_queue = hook_queue claims, wd_workers = workers, wd_used_ids = used\<rparr>"

abbreviation hook_step :: "world \<Rightarrow> world \<Rightarrow> bool" where
  "hook_step \<equiv> work_step example_deriver example_validators example_settings example_tables"

lemma hook_enqueue: "hook_step start_world (hook_world [] [] [])"
proof -
  have "insert_queue_items 5 [hook_record] (wd_queue start_world) = Inr (hook_queue [])" by code_simp
  from work_step.enqueue_step [OF this] show ?thesis by (simp add: hook_world_def start_world_def)
qed

lemma hook_poll:
  assumes "get_and_claim_work_units example_deriver t example_tables [a] (init_manager example_deriver)
      (hook_queue []) = ([(hook_key, a)], hook_queue [(a, t)])" and "a \<notin> set used"
  shows "hook_step (hook_world [] ws used) (hook_world [(a, t)] (ws @ [hook_worker a Idle]) (used @ [a]))"
  using work_step.poll_step [where w = "hook_world [] ws used" and started = "[(hook_key, a)]" and ids = "[a]"
      and ds = example_deriver and db = example_tables and now = t and mg = "init_manager example_deriver"
      and vd = example_validators and st = example_settings] assms
  by (simp add: hook_world_def hook_worker_def new_worker_def)

lemma hook_fetch:
  assumes "n < length ws" and "ws ! n = hook_worker a Idle"
    and "worker_fetch example_deriver example_validators example_settings example_tables hook_key a (hook_queue claims)
      = Inr [hook_item]"
  shows "hook_step (hook_world claims ws used) (hook_world claims (ws[n := hook_worker a (Busy [hook_item])]) used)"
  using work_step.fetch_step [where w = "hook_world claims ws used" and n = n and items = "[hook_item]"
      and ds = example_deriver and db = example_tables and vd = example_validators and st = example_settings] assms
  by (simp add: hook_world_def hook_worker_def set_phase_def)

lemma hook_exit:
  "lease_step example_deriver (hook_world [(''a1'', 9)] ws used) (hook_world [] ws used)"
proof -
  let ?mg = "track_worker_work_unit ''w1'' hook_key ''a1'' (init_manager example_deriver)"
  have "snd (cleanup True (?mg, hook_queue [(''a1'', 9)])) = hook_queue []" by code_simp
  then obtain mg' where "cleanup True (?mg, wd_queue (hook_world [(''a1'', 9)] ws used)) = (mg', hook_queue [])"
    by (cases "cleanup True (?mg, hook_queue [(''a1'', 9)])") (auto simp: hook_world_def)
  from lease_step.exit_step [OF this] show ?thesis by (simp add: hook_world_def)
qed

abbreviation hook_reachable :: "world \<Rightarrow> bool" where
  "hook_reachable \<equiv> reachable example_deriver example_validators example_settings example_tables"

lemma hook_claims:
  "get_and_claim_work_units example_deriver 9 example_tables [''a1''] (init_manager example_deriver)
      (hook_queue []) = ([(hook_key, ''a1'')], hook_queue [(''a1'', 9)])"
  "get_and_claim_work_units example_deriver 20 example_tables [''a2''] (init_manager example_deriver)
      (hook_queue []) = ([(hook_key, ''a2'')], hook_queue [(''a2'', 20)])"
  "worker_fetch example_deriver example_validators example_settings example_tables hook_key ''a1''
      (hook_queue [(''a1'', 9)]) = Inr [hook_item]"
  "worker_fetch example_deriver example_validators example_settings example_tables hook_key ''a2''
      (hook_queue [(''a2'', 20)]) = Inr [hook_item]"
  by code_simp+

text \<open>Without the conditions of \<open>timely\<close> two workers can hold one item: a manager exits and releases the claim of a
  worker that is still busy, and another deriver claims the work unit and fetches the item again.\<close>

definition duplicated_world :: world where
  "duplicated_world = hook_world [(''a2'', 20)]
     [hook_worker ''a1'' (Busy [hook_item]), hook_worker ''a2'' (Busy [hook_item])] [''a1'', ''a2'']"

lemma duplicated_reachable: "hook_reachable duplicated_world"
proof -
  let ?b = "hook_worker ''a1'' (Busy [hook_item])"
  have "hook_reachable (hook_world [] [] [])" using reachable.work [OF reachable.start hook_enqueue] .
  from reachable.work [OF this hook_poll [OF hook_claims(1)]]
  have "hook_reachable (hook_world [(''a1'', 9)] [hook_worker ''a1'' Idle] [''a1''])" by simp
  from reachable.work [OF this hook_fetch [where n = 0 and a = "''a1''"]] hook_claims(3)
  have "hook_reachable (hook_world [(''a1'', 9)] [?b] [''a1''])" by simp
  from reachable.lease [OF this hook_exit]
  have "hook_reachable (hook_world [] [?b] [''a1''])" .
  from reachable.work [OF this hook_poll [OF hook_claims(2)]]
  have "hook_reachable (hook_world [(''a2'', 20)] [?b, hook_worker ''a2'' Idle] [''a1'', ''a2''])" by simp
  from reachable.work [OF this hook_fetch [where n = 1 and a = "''a2''"]] hook_claims(4)
  show ?thesis by (simp add: duplicated_world_def)
qed

lemma example_tables_unique: "message_ids_unique example_tables"
  by code_simp

section \<open>Witnesses\<close>

definition timely_world :: world where
  "timely_world = hook_world [(''a2'', 20)] [hook_worker ''a1'' Gone, hook_worker ''a2'' (Busy [hook_item])]
     [''a1'', ''a2'']"

lemma hook_finish:
  "hook_step (hook_world [(''a1'', 9)] [hook_worker ''a1'' Idle] used) (hook_world [] [hook_worker ''a1'' Gone] used)"
proof -
  have "snd (cleanup_work_unit ''a1'' hook_key (hook_queue [(''a1'', 9)])) = hook_queue []" by code_simp
  with work_step.finish_step [where w = "hook_world [(''a1'', 9)] [hook_worker ''a1'' Idle] used" and n = 0
      and ds = example_deriver and db = example_tables and vd = example_validators and st = example_settings]
  show ?thesis by (simp add: hook_world_def hook_worker_def set_phase_def)
qed

lemma timely_world_timely: "timely example_deriver example_validators example_settings example_tables timely_world"
proof -
  let ?t = "timely example_deriver example_validators example_settings example_tables"
  let ?gone = "hook_worker ''a1'' Gone"
  have "?t (hook_world [] [] [])" using timely.timely_work [OF timely.timely_start hook_enqueue] .
  from timely.timely_work [OF this hook_poll [OF hook_claims(1)]]
  have "?t (hook_world [(''a1'', 9)] [hook_worker ''a1'' Idle] [''a1''])" by simp
  from timely.timely_work [OF this hook_finish]
  have "?t (hook_world [] [?gone] [''a1''])" .
  from timely.timely_work [OF this hook_poll [OF hook_claims(2)]]
  have "?t (hook_world [(''a2'', 20)] [?gone, hook_worker ''a2'' Idle] [''a1'', ''a2''])" by simp
  from timely.timely_work [OF this hook_fetch [where n = 1 and a = "''a2''"]] hook_claims(4)
  have t: "?t timely_world" by (simp add: timely_world_def)
  have "busy_claims_fresh example_deriver 21 timely_world" by code_simp
  moreover have "cleanup_stale_work_units example_deriver 21 [] (wd_queue timely_world) = wd_queue timely_world"
    by code_simp
  ultimately show ?thesis using timely.timely_sweep [OF t, of 21 "[]"] by simp
qed

theorem timely_workers_disjoint_witness:
  "claim_owner (wd_queue timely_world) hook_key = Some ''a2''
   \<and> 1 \<in> qi_id ` set (pending_of (wd_queue timely_world) hook_key)"
proof -
  have l: "1 < length (wd_workers timely_world)" "0 < length (wd_workers timely_world)" "(1 :: nat) \<noteq> 0"
    "wd_workers timely_world ! 1 = hook_worker ''a2'' (Busy [hook_item])" "qi_id hook_item = 1"
    by (simp_all add: timely_world_def hook_world_def hook_item_def item_of_record_def)
  from timely_workers_disjoint [OF timely_world_timely example_tables_unique l(1-3)] l(4,5)
  show ?thesis by (simp add: hook_worker_def)
qed

end
