(* ===== verification/FilterSql.thy ===== *)
theory FilterSql
  imports Prelude
begin

text \<open>
  The conditions the filter builder (src/src/utils/filter.py) emits and what they mean to the database:
  a condition is a tree, a row gives column values or NULL, and evaluation is SQL's three-valued logic.
  What depends on the server (collation, case folding, JSON containment and rendering, reading text as a
  number) is the record \<open>pg_env\<close>. \<open>LIKE\<close> patterns and their escaping are written out.
\<close>

section \<open>Numbers\<close>

text \<open>The database's order of numbers: NaN equals itself and is the largest value.\<close>

fun float_rank :: "pyfloat \<Rightarrow> nat" where
  "float_rank NegInf = 0"
| "float_rank (Finite r) = 1"
| "float_rank PosInf = 2"
| "float_rank NotANumber = 3"

fun float_part :: "pyfloat \<Rightarrow> rat" where
  "float_part (Finite r) = r"
| "float_part _ = 0"

lemma float_eqI: "float_rank x = float_rank y \<Longrightarrow> float_part x = float_part y \<Longrightarrow> x = y"
  by (cases x; cases y) auto

instantiation pyfloat :: linorder
begin

definition less_eq_pyfloat :: "pyfloat \<Rightarrow> pyfloat \<Rightarrow> bool" where
  "less_eq_pyfloat x y \<longleftrightarrow>
     float_rank x < float_rank y \<or> (float_rank x = float_rank y \<and> float_part x \<le> float_part y)"

definition less_pyfloat :: "pyfloat \<Rightarrow> pyfloat \<Rightarrow> bool" where
  "less_pyfloat x y \<longleftrightarrow>
     float_rank x < float_rank y \<or> (float_rank x = float_rank y \<and> float_part x < float_part y)"

instance
  by standard (auto simp: less_eq_pyfloat_def less_pyfloat_def intro: float_eqI)

end

section \<open>Conditions\<close>

datatype colref = Column string | Override string

datatype column_type = TText | TBool | TNumber | TTime | TJson | TUntyped

datatype sqlval = VBool bool | VNumber pyfloat | VText string | VTime timestamp | VJson pyval

datatype cmp_op = OpEq | OpGe | OpLe | OpGt | OpLt

text \<open>A field of a JSON column is compared as text or as a number.\<close>

datatype field_val = FText string | FNumber pyfloat

datatype cond =
    CTrue
  | CFalse
  | CIsNull colref
  | CIsNotNull colref
  | CCompare cmp_op colref sqlval
  | CDistinct colref sqlval
  | CIn colref "sqlval list"
  | CIlike colref string
  | CContains colref pyval
  | CField cmp_op colref string field_val
  | CFieldDistinct colref string field_val
  | CFieldIn colref string "string list"
  | CFieldIlike colref string string
  | CLinked string string
  | CAnd "cond list"
  | COr "cond list"
  | CIsNotTrue cond

section \<open>Patterns\<close>

definition ILIKE_ESCAPE_CHAR :: char where
  "ILIKE_ESCAPE_CHAR = CHR 0x5C"

definition replace_char :: "char \<Rightarrow> string \<Rightarrow> string \<Rightarrow> string" where
  "replace_char c r s = concat (map (\<lambda>x. if x = c then r else [x]) s)"

definition escape_ilike_pattern :: "string \<Rightarrow> string" where
  "escape_ilike_pattern text =
     replace_char (CHR ''_'') [ILIKE_ESCAPE_CHAR, CHR ''_'']
       (replace_char (CHR ''%'') [ILIKE_ESCAPE_CHAR, CHR ''%'']
         (replace_char ILIKE_ESCAPE_CHAR [ILIKE_ESCAPE_CHAR, ILIKE_ESCAPE_CHAR] text))"

text \<open>\<open>ILIKE ... ESCAPE\<close> up to the folding \<open>f\<close>; a pattern that ends in the escape character matches
  nothing.\<close>

fun like :: "(char \<Rightarrow> char) \<Rightarrow> string \<Rightarrow> string \<Rightarrow> bool" where
  "like f [] t = (t = [])"
| "like f (p # ps) [] = (p = CHR ''%'' \<and> like f ps [])"
| "like f (p # ps) (c # cs) =
     (if p = CHR ''%'' then like f ps (c # cs) \<or> like f (p # ps) cs
      else if p = ILIKE_ESCAPE_CHAR then
        (case ps of [] \<Rightarrow> False | q # qs \<Rightarrow> f c = f q \<and> like f qs cs)
      else (p = CHR ''_'' \<or> f c = f p) \<and> like f ps cs)"

definition contains_pattern :: "string \<Rightarrow> string" where
  "contains_pattern text = CHR ''%'' # escape_ilike_pattern text @ [CHR ''%'']"

section \<open>Evaluation\<close>

record pg_env =
  pg_text_le :: "string \<Rightarrow> string \<Rightarrow> bool"
  pg_fold :: "char \<Rightarrow> char"
  pg_json_contains :: "pyval \<Rightarrow> pyval \<Rightarrow> bool"
  pg_render :: "pyval \<Rightarrow> string"
  pg_numeric :: "string \<Rightarrow> rat option"

record filter_row =
  fr_value :: "colref \<Rightarrow> sqlval option"
  fr_linked :: "string \<Rightarrow> string \<Rightarrow> bool"

fun cmp_by :: "('a \<Rightarrow> 'a \<Rightarrow> bool) \<Rightarrow> cmp_op \<Rightarrow> 'a \<Rightarrow> 'a \<Rightarrow> bool" where
  "cmp_by le OpEq x y = (x = y)"
| "cmp_by le OpGe x y = le y x"
| "cmp_by le OpLe x y = le x y"
| "cmp_by le OpGt x y = (\<not> le x y)"
| "cmp_by le OpLt x y = (\<not> le y x)"

text \<open>Values of different types do not compare: the statement fails, which is never true here.\<close>

fun compare_values :: "pg_env \<Rightarrow> cmp_op \<Rightarrow> sqlval \<Rightarrow> sqlval \<Rightarrow> bool option" where
  "compare_values pg op (VBool x) (VBool y) = Some (cmp_by (\<le>) op x y)"
| "compare_values pg op (VNumber x) (VNumber y) = Some (cmp_by (\<le>) op x y)"
| "compare_values pg op (VText x) (VText y) = Some (cmp_by (pg_text_le pg) op x y)"
| "compare_values pg op (VTime x) (VTime y) = Some (cmp_by (\<le>) op x y)"
| "compare_values pg OpEq (VJson x) (VJson y) = Some (x = y)"
| "compare_values pg op _ _ = None"

definition same_value :: "pg_env \<Rightarrow> sqlval option \<Rightarrow> sqlval \<Rightarrow> bool" where
  "same_value pg v y = (case v of None \<Rightarrow> False | Some x \<Rightarrow> compare_values pg OpEq x y = Some True)"

text \<open>\<open>column ->> field\<close> and the guarded cast to a number.\<close>

definition json_field :: "filter_row \<Rightarrow> colref \<Rightarrow> string \<Rightarrow> pyval option" where
  "json_field row c field =
     (case fr_value row c of Some (VJson (PDict d)) \<Rightarrow> dget d field | _ \<Rightarrow> None)"

definition json_text :: "pg_env \<Rightarrow> pyval \<Rightarrow> string option" where
  "json_text pg v =
     (case v of
        PNone \<Rightarrow> None
      | PStr s \<Rightarrow> Some s
      | PBool b \<Rightarrow> Some (if b then ''true'' else ''false'')
      | _ \<Rightarrow> Some (pg_render pg v))"

definition NUMERIC_TEXT_MAX_LENGTH :: nat where
  "NUMERIC_TEXT_MAX_LENGTH = 1000"

definition json_number :: "pg_env \<Rightarrow> pyval \<Rightarrow> pyfloat option" where
  "json_number pg v =
     (case v of
        PInt n \<Rightarrow> Some (Finite (of_int n))
      | PFloat x \<Rightarrow> Some x
      | PStr s \<Rightarrow> if length s \<le> NUMERIC_TEXT_MAX_LENGTH then map_option Finite (pg_numeric pg s) else None
      | _ \<Rightarrow> None)"

definition field_text :: "pg_env \<Rightarrow> filter_row \<Rightarrow> colref \<Rightarrow> string \<Rightarrow> string option" where
  "field_text pg row c field = Option.bind (json_field row c field) (json_text pg)"

definition compare_field :: "pg_env \<Rightarrow> cmp_op \<Rightarrow> filter_row \<Rightarrow> colref \<Rightarrow> string \<Rightarrow> field_val \<Rightarrow> bool option" where
  "compare_field pg op row c field v =
     (case v of
        FText y \<Rightarrow> map_option (\<lambda>x. cmp_by (pg_text_le pg) op x y) (field_text pg row c field)
      | FNumber y \<Rightarrow> map_option (\<lambda>x. cmp_by (\<le>) op x y)
                       (Option.bind (json_field row c field) (json_number pg)))"

definition and3 :: "bool option list \<Rightarrow> bool option" where
  "and3 vs = (if Some False \<in> set vs then Some False else if None \<in> set vs then None else Some True)"

definition or3 :: "bool option list \<Rightarrow> bool option" where
  "or3 vs = (if Some True \<in> set vs then Some True else if None \<in> set vs then None else Some False)"

fun eval_cond :: "pg_env \<Rightarrow> filter_row \<Rightarrow> cond \<Rightarrow> bool option" where
  "eval_cond pg row CTrue = Some True"
| "eval_cond pg row CFalse = Some False"
| "eval_cond pg row (CIsNull c) = Some (fr_value row c = None)"
| "eval_cond pg row (CIsNotNull c) = Some (fr_value row c \<noteq> None)"
| "eval_cond pg row (CCompare op c v) = Option.bind (fr_value row c) (\<lambda>x. compare_values pg op x v)"
| "eval_cond pg row (CDistinct c v) = Some (\<not> same_value pg (fr_value row c) v)"
| "eval_cond pg row (CIn c vs) =
     (if vs = [] then Some False
      else or3 (map (\<lambda>v. Option.bind (fr_value row c) (\<lambda>x. compare_values pg OpEq x v)) vs))"
| "eval_cond pg row (CIlike c pattern) =
     (case fr_value row c of Some (VText t) \<Rightarrow> Some (like (pg_fold pg) pattern t) | _ \<Rightarrow> None)"
| "eval_cond pg row (CContains c v) =
     (case fr_value row c of Some (VJson x) \<Rightarrow> Some (pg_json_contains pg x v) | _ \<Rightarrow> None)"
| "eval_cond pg row (CField op c field v) = compare_field pg op row c field v"
| "eval_cond pg row (CFieldDistinct c field v) = Some (compare_field pg OpEq row c field v \<noteq> Some True)"
| "eval_cond pg row (CFieldIn c field texts) =
     (if texts = [] then Some False
      else or3 (map (\<lambda>t. map_option (\<lambda>x. x = t) (field_text pg row c field)) texts))"
| "eval_cond pg row (CFieldIlike c field pattern) =
     map_option (like (pg_fold pg) pattern) (field_text pg row c field)"
| "eval_cond pg row (CLinked field entry) = Some (fr_linked row field entry)"
| "eval_cond pg row (CAnd cs) = and3 (map (eval_cond pg row) cs)"
| "eval_cond pg row (COr cs) = or3 (map (eval_cond pg row) cs)"
| "eval_cond pg row (CIsNotTrue c) = Some (eval_cond pg row c \<noteq> Some True)"

text \<open>A row is selected when the condition is true, not when it is unknown.\<close>

definition selects :: "pg_env \<Rightarrow> filter_row \<Rightarrow> cond \<Rightarrow> bool" where
  "selects pg row c \<longleftrightarrow> eval_cond pg row c = Some True"

section \<open>Lemmas\<close>

named_theorems filter_simps "selection of rows by conditions"

lemma and3_True [filter_simps]: "and3 vs = Some True \<longleftrightarrow> (\<forall>v \<in> set vs. v = Some True)"
  by (auto simp: and3_def) (metis (full_types) not_Some_eq)

lemma or3_True [filter_simps]: "or3 vs = Some True \<longleftrightarrow> (\<exists>v \<in> set vs. v = Some True)"
  by (auto simp: or3_def)

lemma or3_map: "or3 (map f xs) = Some True \<longleftrightarrow> (\<exists>x \<in> set xs. f x = Some True)"
  by (force simp: or3_True)

lemma and3_map: "and3 (map f xs) = Some True \<longleftrightarrow> (\<forall>x \<in> set xs. f x = Some True)"
  by (force simp: and3_True)

lemma selects_simps [filter_simps]:
  "selects pg row CTrue" "\<not> selects pg row CFalse"
  "selects pg row (CIsNull c) \<longleftrightarrow> fr_value row c = None"
  "selects pg row (CIsNotNull c) \<longleftrightarrow> fr_value row c \<noteq> None"
  "selects pg row (CDistinct c v) \<longleftrightarrow> \<not> same_value pg (fr_value row c) v"
  "selects pg row (CCompare OpEq c v) \<longleftrightarrow> same_value pg (fr_value row c) v"
  "selects pg row (CAnd cs) \<longleftrightarrow> (\<forall>c \<in> set cs. selects pg row c)"
  "selects pg row (COr cs) \<longleftrightarrow> (\<exists>c \<in> set cs. selects pg row c)"
  "selects pg row (CIsNotTrue c') \<longleftrightarrow> \<not> selects pg row c'"
  "selects pg row (CLinked field entry) \<longleftrightarrow> fr_linked row field entry"
  by (auto simp: selects_def same_value_def and3_map or3_map split: option.splits)

lemma selects_in [filter_simps]:
  "selects pg row (CIn c vs) \<longleftrightarrow> (\<exists>v \<in> set vs. same_value pg (fr_value row c) v)"
  by (cases "fr_value row c") (auto simp: selects_def same_value_def or3_map)

lemma escape_Nil [simp]: "escape_ilike_pattern [] = []"
  by (simp add: escape_ilike_pattern_def replace_char_def)

lemma escape_Cons [simp]:
  "escape_ilike_pattern (c # s) =
     (if c \<in> {CHR ''%'', CHR ''_'', ILIKE_ESCAPE_CHAR} then [ILIKE_ESCAPE_CHAR, c] else [c]) @ escape_ilike_pattern s"
  by (auto simp: escape_ilike_pattern_def replace_char_def ILIKE_ESCAPE_CHAR_def)

lemma like_escaped:
  "like f (escape_ilike_pattern s @ ps) t \<longleftrightarrow> (\<exists>u v. t = u @ v \<and> map f u = map f s \<and> like f ps v)"
proof (induction s arbitrary: t)
  case (Cons c s)
  have "like f (escape_ilike_pattern (c # s) @ ps) t \<longleftrightarrow>
      (\<exists>x xs. t = x # xs \<and> f x = f c \<and> like f (escape_ilike_pattern s @ ps) xs)"
    by (cases t) (simp_all add: ILIKE_ESCAPE_CHAR_def)
  also have "\<dots> \<longleftrightarrow> (\<exists>u v. t = u @ v \<and> map f u = map f (c # s) \<and> like f ps v)"
  proof
    assume "\<exists>x xs. t = x # xs \<and> f x = f c \<and> like f (escape_ilike_pattern s @ ps) xs"
    then obtain x u v where "t = (x # u) @ v" "f x = f c" "map f u = map f s" "like f ps v"
      unfolding Cons.IH by (metis append_Cons)
    then show "\<exists>u v. t = u @ v \<and> map f u = map f (c # s) \<and> like f ps v"
      by (intro exI [of _ "x # u"] exI [of _ v]) simp
  next
    assume "\<exists>u v. t = u @ v \<and> map f u = map f (c # s) \<and> like f ps v"
    then obtain w v where w: "t = w @ v" "map f w = map f (c # s)" "like f ps v" by blast
    then obtain x u where "w = x # u" by (cases w) simp_all
    with w have "t = x # u @ v" "f x = f c" "map f u = map f s" by simp_all
    with w(3) show "\<exists>x xs. t = x # xs \<and> f x = f c \<and> like f (escape_ilike_pattern s @ ps) xs"
      unfolding Cons.IH by blast
  qed
  finally show ?case .
qed simp

lemma like_any: "like f [CHR ''%''] t"
  by (induction t) (auto split: list.splits)

lemma like_prefixed: "like f (CHR ''%'' # ps) t \<longleftrightarrow> (\<exists>u v. t = u @ v \<and> like f ps v)"
proof (induction t)
  case (Cons c t)
  have "like f (CHR ''%'' # ps) (c # t) \<longleftrightarrow> like f ps (c # t) \<or> like f (CHR ''%'' # ps) t" by simp
  also have "\<dots> \<longleftrightarrow> (\<exists>u v. c # t = u @ v \<and> like f ps v)"
    unfolding Cons.IH by (auto simp: Cons_eq_append_conv)
  finally show ?case .
qed simp

text \<open>What escaping promises: the pattern matches exactly the texts that contain the input, up to
  folding, whatever wildcards it holds.\<close>

lemma like_contains:
  "like f (contains_pattern s) t \<longleftrightarrow> (\<exists>pre u post. t = pre @ u @ post \<and> map f u = map f s)"
proof -
  have "like f (contains_pattern s) t \<longleftrightarrow>
      (\<exists>pre v. t = pre @ v \<and> like f (escape_ilike_pattern s @ [CHR ''%'']) v)"
    unfolding contains_pattern_def by (rule like_prefixed)
  also have "\<dots> \<longleftrightarrow> (\<exists>pre u post. t = pre @ u @ post \<and> map f u = map f s)"
    unfolding like_escaped by (simp only: like_any simp_thms) metis
  finally show ?thesis .
qed

end
