(* ===== verification/FilterBuild.thy ===== *)
theory FilterBuild
  imports FilterSql Security
begin

text \<open>
  The filter language of the list and search endpoints (src/src/utils/filter.py): building a condition
  from a client's JSON body, and the session allowlist of the recall endpoints. What Python's
  \<open>Decimal\<close>, \<open>int\<close>, \<open>float\<close>, \<open>str\<close> and the datetime parsers make of a value is the record
  \<open>parsers\<close>. A model class is its table of columns; its other attributes (relationships, methods) are
  not modelled.
\<close>

section \<open>Constants\<close>

definition COMPARISON_OPERATORS :: "string list" where
  "COMPARISON_OPERATORS = [''gte'', ''lte'', ''gt'', ''lt'', ''ne'', ''in'', ''contains'', ''icontains'']"

definition NUMERIC_OPERATORS :: "string list" where
  "NUMERIC_OPERATORS = [''gte'', ''lte'', ''gt'', ''lt'', ''ne'']"

definition JSONB_COLUMNS :: "string list" where
  "JSONB_COLUMNS = [''h_metadata'', ''configuration'', ''internal_metadata'']"

definition COLUMN_MAPPING :: "(string \<times> string) list" where
  "COLUMN_MAPPING =
     [(''id'', ''name''), (''created_at'', ''created_at''), (''is_active'', ''is_active''),
      (''workspace_id'', ''workspace_name''), (''session_id'', ''session_name''),
      (''peer_id'', ''peer_name''), (''metadata'', ''h_metadata'')]"

definition COLUMN_MAPPING_MESSAGES :: "(string \<times> string) list" where
  "COLUMN_MAPPING_MESSAGES =
     [(''workspace_id'', ''workspace_name''), (''session_id'', ''session_name''),
      (''peer_id'', ''peer_name''), (''token_count'', ''token_count''),
      (''created_at'', ''created_at''), (''metadata'', ''h_metadata'')]"

definition COLUMN_MAPPING_DOCUMENTS :: "(string \<times> string) list" where
  "COLUMN_MAPPING_DOCUMENTS =
     [(''id'', ''id''), (''session_id'', ''session_name''), (''workspace_id'', ''workspace_name''),
      (''observer_id'', ''observer''), (''observed_id'', ''observed''), (''level'', ''level''),
      (''source_ids'', ''source_ids''), (''source_message_ids'', ''source_message_ids''),
      (''times_derived'', ''times_derived''), (''metadata'', ''internal_metadata'')]"

definition MAX_SESSION_ALLOWLIST_ENTRIES :: nat where
  "MAX_SESSION_ALLOWLIST_ENTRIES = 1000"

definition ENUM_COLUMN_VALUES :: "(string \<times> string list) list" where
  "ENUM_COLUMN_VALUES =
     [(''level'', [''explicit'', ''deductive'', ''inductive'', ''contradiction'']),
      (''sync_state'', [''synced'', ''pending'', ''failed''])]"

section \<open>Models\<close>

record model_class =
  mc_name :: string
  mc_columns :: "(string \<times> column_type) list"

definition workspace_model :: model_class where
  "workspace_model =
     \<lparr>mc_name = ''Workspace'',
      mc_columns = [(''deleted_at'', TTime), (''id'', TText), (''name'', TText), (''created_at'', TTime),
        (''h_metadata'', TJson), (''internal_metadata'', TJson), (''configuration'', TJson),
        (''deletion_generation'', TNumber)]\<rparr>"

definition peer_model :: model_class where
  "peer_model =
     \<lparr>mc_name = ''Peer'',
      mc_columns = [(''deleted_at'', TTime), (''id'', TText), (''name'', TText), (''h_metadata'', TJson),
        (''internal_metadata'', TJson), (''created_at'', TTime), (''workspace_name'', TText),
        (''configuration'', TJson)]\<rparr>"

definition session_model :: model_class where
  "session_model =
     \<lparr>mc_name = ''Session'',
      mc_columns = [(''deleted_at'', TTime), (''id'', TText), (''name'', TText), (''is_active'', TBool),
        (''h_metadata'', TJson), (''internal_metadata'', TJson), (''created_at'', TTime),
        (''workspace_name'', TText), (''configuration'', TJson), (''deletion_generation'', TNumber)]\<rparr>"

definition message_model :: model_class where
  "message_model =
     \<lparr>mc_name = ''Message'',
      mc_columns = [(''deleted_at'', TTime), (''id'', TNumber), (''public_id'', TText),
        (''session_name'', TText), (''content'', TText), (''h_metadata'', TJson),
        (''internal_metadata'', TJson), (''token_count'', TNumber), (''seq_in_session'', TNumber),
        (''created_at'', TTime), (''peer_name'', TText), (''workspace_name'', TText)]\<rparr>"

definition document_model :: model_class where
  "document_model =
     \<lparr>mc_name = ''Document'',
      mc_columns = [(''id'', TText), (''internal_metadata'', TJson), (''content'', TText),
        (''level'', TText), (''times_derived'', TNumber), (''embedding'', TUntyped),
        (''created_at'', TTime), (''observer'', TText), (''observed'', TText),
        (''workspace_name'', TText), (''session_name'', TText), (''deleted_at'', TTime),
        (''sync_state'', TText), (''last_sync_at'', TTime), (''sync_attempts'', TNumber),
        (''legacy_source_ids'', TJson)]\<rparr>"

section \<open>Operands\<close>

record parsers =
  ps_decimal :: "string \<Rightarrow> pyfloat option"
  ps_int :: "string \<Rightarrow> int option"
  ps_float :: "string \<Rightarrow> pyfloat option"
  ps_str :: "pyval \<Rightarrow> string"
  ps_iso :: "string \<Rightarrow> timestamp option"
  ps_strptime :: "string \<Rightarrow> string \<Rightarrow> timestamp option"

definition py_str :: "parsers \<Rightarrow> pyval \<Rightarrow> string" where
  "py_str ps v = (case v of PStr s \<Rightarrow> s | _ \<Rightarrow> ps_str ps v)"

abbreviation wildcard :: pyval where
  "wildcard \<equiv> PStr ''*''"

definition naive_formats :: "string list" where
  "naive_formats =
     [''%Y-%m-%dT%H:%M:%S'', ''%Y-%m-%dT%H:%M:%S.%f'', ''%Y-%m-%d %H:%M:%S'', ''%Y-%m-%d %H:%M:%S.%f'',
      ''%Y-%m-%d'']"

fun first_parse :: "('a \<Rightarrow> 'b option) \<Rightarrow> 'a list \<Rightarrow> 'b option" where
  "first_parse f [] = None"
| "first_parse f (x # xs) = (case f x of None \<Rightarrow> first_parse f xs | Some y \<Rightarrow> Some y)"

definition validate_datetime_string :: "parsers \<Rightarrow> string \<Rightarrow> timestamp option" where
  "validate_datetime_string ps s =
     (let value = py_strip s
      in case ps_iso ps value of
           Some t \<Rightarrow> Some t
         | None \<Rightarrow> first_parse (\<lambda>fmt. ps_strptime ps fmt value) naive_formats)"

definition coerce_numeric :: "parsers \<Rightarrow> pyval \<Rightarrow> pyfloat res" where
  "coerce_numeric ps v =
     (case v of
        PBool b \<Rightarrow> Inr (Finite (if b then 1 else 0))
      | PFloat x \<Rightarrow> Inr x
      | PInt n \<Rightarrow> Inr (Finite (of_int n))
      | _ \<Rightarrow> (case ps_decimal ps (py_str ps v) of None \<Rightarrow> Inl ValueError | Some x \<Rightarrow> Inr x))"

text \<open>\<open>contains\<close> and \<open>icontains\<close> on text get the operand back unread: the pattern is built from the
  raw value, so the empty text stands for it here.\<close>

definition coerce_operand :: "parsers \<Rightarrow> column_type \<Rightarrow> string \<Rightarrow> pyval \<Rightarrow> string \<Rightarrow> sqlval res" where
  "coerce_operand ps ct column_name v operator =
     (if ct = TJson then
        (if List.member ['''', ''contains''] operator
            \<and> (case v of PDict _ \<Rightarrow> True | PList _ \<Rightarrow> True | _ \<Rightarrow> False)
         then Inr (VJson v) else Inl FilterError)
      else if ct = TUntyped then Inl FilterError
      else if List.member [''contains'', ''icontains''] operator then
        (if ct = TText then Inr (VText []) else Inl FilterError)
      else if ct = TBool then (case v of PBool b \<Rightarrow> Inr (VBool b) | _ \<Rightarrow> Inl FilterError)
      else if ct = TTime then
        (case v of
           PDateTime t \<Rightarrow> Inr (VTime t)
         | PStr s \<Rightarrow> (case validate_datetime_string ps s of None \<Rightarrow> Inl FilterError | Some t \<Rightarrow> Inr (VTime t))
         | _ \<Rightarrow> Inl FilterError)
      else if ct = TNumber then
        (case coerce_numeric ps v of Inl _ \<Rightarrow> Inl FilterError | Inr x \<Rightarrow> Inr (VNumber x))
      else
        (case v of
           PStr s \<Rightarrow>
             (case dget ENUM_COLUMN_VALUES column_name of
                Some allowed \<Rightarrow> if List.member allowed s then Inr (VText s) else Inl FilterError
              | None \<Rightarrow> Inr (VText s))
         | _ \<Rightarrow> Inl FilterError))"

text \<open>\<open>hasattr(v, "__iter__")\<close> and not a string: lists, and dicts by their keys.\<close>

definition iter_values :: "pyval \<Rightarrow> pyval list option" where
  "iter_values v =
     (case v of PList xs \<Rightarrow> Some xs | PDict d \<Rightarrow> Some (map (\<lambda>(k, x). PStr k) d) | _ \<Rightarrow> None)"

definition is_comparison_dict :: "pydict \<Rightarrow> bool" where
  "is_comparison_dict d = list_ex (\<lambda>(k, v). List.member COMPARISON_OPERATORS k) d"

section \<open>Column conditions\<close>

definition combine_conditions_with_and :: "cond list \<Rightarrow> cond option" where
  "combine_conditions_with_and cs = (case cs of [] \<Rightarrow> None | [c] \<Rightarrow> Some c | _ \<Rightarrow> Some (CAnd cs))"

definition order_op :: "string \<Rightarrow> cmp_op" where
  "order_op operator =
     (if operator = ''gte'' then OpGe else if operator = ''lte'' then OpLe
      else if operator = ''gt'' then OpGt else OpLt)"

definition build_in :: "parsers \<Rightarrow> colref \<Rightarrow> column_type \<Rightarrow> string \<Rightarrow> pyval \<Rightarrow> cond option res" where
  "build_in ps c ct column_name op_value =
     (case iter_values op_value of
        None \<Rightarrow> Inl FilterError
      | Some xs \<Rightarrow>
          if List.member xs wildcard then Inr None
          else res_map (\<lambda>vs. Some (CIn c vs))
                 (traverse (\<lambda>x. coerce_operand ps ct column_name x ''in'') xs))"

text \<open>One pass of the loop over the operators of a column.\<close>

definition build_column_operator ::
  "parsers \<Rightarrow> colref \<Rightarrow> column_type \<Rightarrow> string \<Rightarrow> string \<Rightarrow> pyval \<Rightarrow> cond option res" where
  "build_column_operator ps c ct column_name operator op_value =
     (if \<not> List.member COMPARISON_OPERATORS operator then Inl FilterError
      else if op_value = wildcard then Inr None
      else if op_value = PNone then (if operator \<noteq> ''ne'' then Inl FilterError else Inr (Some (CIsNotNull c)))
      else if operator = ''in'' then build_in ps c ct column_name op_value
      else res_map (\<lambda>casted_value.
          Some (if operator = ''ne'' then CDistinct c casted_value
                else if operator = ''contains'' then
                  (if ct = TJson then CContains c op_value
                   else CIlike c (contains_pattern (py_str ps op_value)))
                else if operator = ''icontains'' then CIlike c (contains_pattern (py_str ps op_value))
                else CCompare (order_op operator) c casted_value))
        (coerce_operand ps ct column_name op_value operator))"

definition somes :: "'a option list \<Rightarrow> 'a list" where
  "somes xs = List.map_filter (\<lambda>x. x) xs"

definition build_comparison_conditions ::
  "parsers \<Rightarrow> colref \<Rightarrow> column_type \<Rightarrow> string \<Rightarrow> pydict \<Rightarrow> cond option res" where
  "build_comparison_conditions ps c ct column_name comparisons =
     res_map (\<lambda>cs. combine_conditions_with_and (somes cs))
       (traverse (\<lambda>(operator, op_value). build_column_operator ps c ct column_name operator op_value)
          comparisons)"

text \<open>\<open>_safe_numeric_cast\<close>: the comparison value of a JSON field, as a number where it is one.\<close>

definition safe_numeric_cast :: "parsers \<Rightarrow> pyval \<Rightarrow> field_val res" where
  "safe_numeric_cast ps op_value =
     (case op_value of
        PBool b \<Rightarrow> Inr (FText (if b then ''true'' else ''false''))
      | PInt n \<Rightarrow> Inr (FNumber (Finite (of_int n)))
      | PFloat x \<Rightarrow> Inr (FNumber x)
      | PStr s \<Rightarrow>
          (case ps_int ps s of
             Some n \<Rightarrow> Inr (FNumber (Finite (of_int n)))
           | None \<Rightarrow> (case ps_float ps s of
                        Some x \<Rightarrow> Inr (FNumber x)
                      | None \<Rightarrow> Inr (FText s)))
      | _ \<Rightarrow> Inl FilterError)"

definition build_comparison_condition ::
  "parsers \<Rightarrow> colref \<Rightarrow> string \<Rightarrow> string \<Rightarrow> pyval \<Rightarrow> cond option res" where
  "build_comparison_condition ps c field_name operator op_value =
     (if \<not> List.member COMPARISON_OPERATORS operator then Inl FilterError
      else if op_value = wildcard then Inr None
      else if List.member NUMERIC_OPERATORS operator then
        res_map (\<lambda>v. Some (if operator = ''ne'' then CFieldDistinct c field_name v
                           else CField (order_op operator) c field_name v))
          (safe_numeric_cast ps op_value)
      else if operator = ''in'' then
        (case iter_values op_value of
           None \<Rightarrow> Inl FilterError
         | Some xs \<Rightarrow>
             if List.member xs wildcard then Inr None
             else Inr (Some (CFieldIn c field_name (map (py_str ps) xs))))
      else Inr (Some (CFieldIlike c field_name (contains_pattern (py_str ps op_value)))))"

definition build_metadata_field :: "parsers \<Rightarrow> colref \<Rightarrow> string \<Rightarrow> pyval \<Rightarrow> cond option res" where
  "build_metadata_field ps c field_name field_value =
     (case field_value of
        PDict d \<Rightarrow>
          if is_comparison_dict d then
            res_map (\<lambda>cs. combine_conditions_with_and (somes cs))
              (traverse (\<lambda>(operator, op_value). build_comparison_condition ps c field_name operator op_value) d)
          else Inr (Some (CContains c (PDict [(field_name, field_value)])))
      | _ \<Rightarrow> if field_value = wildcard then Inr None
             else Inr (Some (CContains c (PDict [(field_name, field_value)]))))"

definition build_nested_metadata_conditions :: "parsers \<Rightarrow> colref \<Rightarrow> pydict \<Rightarrow> cond option res" where
  "build_nested_metadata_conditions ps c metadata_dict =
     res_map (\<lambda>cs. combine_conditions_with_and (somes cs))
       (traverse (\<lambda>(field_name, field_value). build_metadata_field ps c field_name field_value) metadata_dict)"

definition build_scalar :: "parsers \<Rightarrow> colref \<Rightarrow> column_type \<Rightarrow> string \<Rightarrow> pyval \<Rightarrow> cond option res" where
  "build_scalar ps c ct column_name v =
     res_map (\<lambda>x. Some (if List.member JSONB_COLUMNS column_name then CContains c v else CCompare OpEq c x))
       (coerce_operand ps ct column_name v '''')"

definition build_column_condition ::
  "parsers \<Rightarrow> colref \<Rightarrow> column_type \<Rightarrow> string \<Rightarrow> pyval \<Rightarrow> cond option res" where
  "build_column_condition ps c ct column_name v =
     (if v = wildcard then Inr None
      else if v = PNone then Inr (Some (CIsNull c))
      else
        (case (case v of
                 PList xs \<Rightarrow> if List.member JSONB_COLUMNS column_name then v else PDict [(''in'', v)]
               | _ \<Rightarrow> v) of
           PDict d \<Rightarrow>
             if is_comparison_dict d then build_comparison_conditions ps c ct column_name d
             else if List.member JSONB_COLUMNS column_name then build_nested_metadata_conditions ps c d
             else if ct \<noteq> TJson then Inl FilterError
             else Inr (Some (CCompare OpEq c (VJson (PDict d))))
         | v' \<Rightarrow> build_scalar ps c ct column_name v'))"

section \<open>Linkage\<close>

definition link_member :: "string \<Rightarrow> pyval \<Rightarrow> cond res" where
  "link_member field entry =
     (case entry of
        PStr s \<Rightarrow>
          if s = [] then Inl FilterError
          else if field = ''source_ids''
          then Inr (COr [CLinked field s, CContains (Column ''legacy_source_ids'') (PList [PStr s])])
          else Inr (CLinked field s)
      | _ \<Rightarrow> Inl FilterError)"

definition build_link_operator :: "string \<Rightarrow> string \<Rightarrow> pyval \<Rightarrow> cond option res" where
  "build_link_operator field operator op_value =
     (if op_value = wildcard then Inr None
      else if operator = ''contains'' then res_map Some (link_member field op_value)
      else if operator = ''in'' then
        (case op_value of
           PList xs \<Rightarrow>
             if List.member xs wildcard then Inr None
             else res_map (\<lambda>ms. Some (if ms \<noteq> [] then COr ms else CFalse)) (traverse (link_member field) xs)
         | _ \<Rightarrow> Inl FilterError)
      else Inl FilterError)"

definition build_link_condition :: "string \<Rightarrow> pyval \<Rightarrow> cond option res" where
  "build_link_condition field v =
     (if v = wildcard then Inr None
      else (case v of
        PStr s \<Rightarrow> res_map Some (link_member field v)
      | PList xs \<Rightarrow>
          if xs = [] then Inr (Some CFalse)
          else res_map combine_conditions_with_and
                 (traverse (link_member field) (filter (\<lambda>x. x \<noteq> wildcard) xs))
      | PDict d \<Rightarrow>
          res_map (\<lambda>cs. combine_conditions_with_and (somes cs))
            (traverse (\<lambda>(operator, op_value). build_link_operator field operator op_value) d)
      | _ \<Rightarrow> Inl FilterError))"

section \<open>Fields and filters\<close>

type_synonym overrides = "(string \<times> column_type) list"

definition column_name_of :: "model_class \<Rightarrow> string \<Rightarrow> string option" where
  "column_name_of mc key =
     (if mc_name mc = ''Message'' then dget COLUMN_MAPPING_MESSAGES key
      else if mc_name mc = ''Document''
      then (case dget COLUMN_MAPPING_DOCUMENTS key of None \<Rightarrow> Some key | Some n \<Rightarrow> Some n)
      else dget COLUMN_MAPPING key)"

definition build_field_condition ::
  "parsers \<Rightarrow> model_class \<Rightarrow> overrides \<Rightarrow> string \<Rightarrow> pyval \<Rightarrow> cond option res" where
  "build_field_condition ps mc column_overrides key v =
     (case dget column_overrides key of
        Some ct \<Rightarrow> build_column_condition ps (Override key) ct key v
      | None \<Rightarrow>
          (case column_name_of mc key of
             None \<Rightarrow> Inl FilterError
           | Some column_name \<Rightarrow>
               if mc_name mc = ''Document'' \<and> List.member [''source_ids'', ''source_message_ids''] column_name
               then build_link_condition column_name v
               else (case dget (mc_columns mc) column_name of
                       None \<Rightarrow> Inl FilterError
                     | Some ct \<Rightarrow> build_column_condition ps (Column column_name) ct column_name v)))"

definition logical_keys :: "string list" where
  "logical_keys = [''AND'', ''OR'', ''NOT'']"

definition field_conditions ::
  "parsers \<Rightarrow> model_class \<Rightarrow> overrides \<Rightarrow> pydict \<Rightarrow> cond list res" where
  "field_conditions ps mc column_overrides filter_dict =
     res_map somes
       (traverse (\<lambda>(key, v). if List.member logical_keys key then Inr None
                             else build_field_condition ps mc column_overrides key v) filter_dict)"

text \<open>A logical operator: absent, or a list of sub-filters; an empty list adds no condition.\<close>

definition logical_operands :: "pydict \<Rightarrow> string \<Rightarrow> pyval list res" where
  "logical_operands filter_dict operator =
     (case dget filter_dict operator of
        None \<Rightarrow> Inr []
      | Some (PList xs) \<Rightarrow> Inr xs
      | Some _ \<Rightarrow> Inl FilterError)"

definition and_all :: "cond list \<Rightarrow> cond" where
  "and_all cs = (case cs of [] \<Rightarrow> CTrue | [c] \<Rightarrow> c | _ \<Rightarrow> CAnd cs)"

lemma logical_operands_mem:
  "logical_operands d k = Inr xs \<Longrightarrow> x \<in> set xs \<Longrightarrow> dget d k = Some (PList xs)"
  by (auto simp: logical_operands_def split: option.splits pyval.splits)

function build_filter_conditions ::
  "parsers \<Rightarrow> model_class \<Rightarrow> overrides \<Rightarrow> nat \<Rightarrow> pyval \<Rightarrow> cond res" where
  "build_filter_conditions ps mc ov depth v =
     (if depth > 5 then Inl FilterError
      else (case v of
        PDict filter_dict \<Rightarrow>
          res_bind (logical_operands filter_dict ''AND'') (\<lambda>ands.
          res_bind (traverse (build_filter_conditions ps mc ov (depth + 1)) ands) (\<lambda>and_conditions.
          res_bind (logical_operands filter_dict ''OR'') (\<lambda>ors.
          res_bind (traverse (build_filter_conditions ps mc ov (depth + 1)) ors) (\<lambda>or_conditions.
          res_bind (logical_operands filter_dict ''NOT'') (\<lambda>nots.
          res_bind (traverse (build_filter_conditions ps mc ov (depth + 1)) nots) (\<lambda>not_conditions.
          res_bind (field_conditions ps mc ov filter_dict) (\<lambda>fields.
          Inr (and_all
            ((if and_conditions = [] then [] else [CAnd and_conditions])
             @ (if or_conditions = [] then [] else [COr or_conditions])
             @ (if not_conditions = [] then [] else [CAnd (map CIsNotTrue not_conditions)])
             @ fields)))))))))
      | _ \<Rightarrow> Inl TypeError))"
  by pat_completeness auto
termination
  by (relation "measure (\<lambda>(ps, mc, ov, depth, v). 6 - depth)") auto

declare build_filter_conditions.simps [simp del]

text \<open>Every exception of the builder becomes a \<open>FilterError\<close>; without filters the statement is as it
  was.\<close>

definition apply_filter ::
  "parsers \<Rightarrow> model_class \<Rightarrow> overrides \<Rightarrow> pydict option \<Rightarrow> cond option res" where
  "apply_filter ps mc column_overrides filters =
     (case filters of
        None \<Rightarrow> Inr None
      | Some d \<Rightarrow>
          (case build_filter_conditions ps mc column_overrides 0 (PDict d) of
             Inl e \<Rightarrow> Inl FilterError
           | Inr c \<Rightarrow> Inr (Some c)))"

section \<open>Session allowlists\<close>

fun allowlist_entries :: "string list \<Rightarrow> pyval list \<Rightarrow> string list res" where
  "allowlist_entries seen [] = Inr []"
| "allowlist_entries seen (entry # entries) =
     (case entry of
        PStr s \<Rightarrow>
          if s = [] then Inl FilterError
          else if \<not> resource_name s then Inl FilterError
          else if List.member seen s then allowlist_entries seen entries
          else res_map (Cons s) (allowlist_entries (s # seen) entries)
      | _ \<Rightarrow> Inl FilterError)"

definition normalize_session_allowlist :: "pyval list \<Rightarrow> string option \<Rightarrow> string list res" where
  "normalize_session_allowlist entries must_include =
     (if length entries > MAX_SESSION_ALLOWLIST_ENTRIES then Inl FilterError
      else res_bind (allowlist_entries [] entries) (\<lambda>allowlist.
        (case must_include of
           None \<Rightarrow> Inr allowlist
         | Some s \<Rightarrow> if List.member allowlist s then Inr allowlist else Inl FilterError)))"

definition extract_session_allowlist :: "pydict option \<Rightarrow> string option \<Rightarrow> string list option res" where
  "extract_session_allowlist filters must_include =
     (case filters of
        None \<Rightarrow> Inr None
      | Some d \<Rightarrow>
          if list_ex (\<lambda>(k, v). k \<noteq> ''session_id'') d then Inl FilterError
          else (case dget d ''session_id'' of
                  None \<Rightarrow> Inl FilterError
                | Some v \<Rightarrow>
                    res_map Some
                      (case v of
                         PStr s \<Rightarrow> normalize_session_allowlist [v] must_include
                       | PList xs \<Rightarrow> normalize_session_allowlist xs must_include
                       | PDict [(''in'', PList xs)] \<Rightarrow> normalize_session_allowlist xs must_include
                       | _ \<Rightarrow> Inl FilterError)))"

end
