(* ===== verification/FilterSpec.thy ===== *)
theory FilterSpec
  imports FilterBuild
begin

text \<open>
  What a filter means: which rows match, without NULLs and truth values between, and the theorems that
  the conditions built by FilterBuild.thy select exactly those rows, bind every operand at its column's type
  and reject the rest.
\<close>

section \<open>The meaning of a filter\<close>

definition equals_value ::
  "pg_env \<Rightarrow> parsers \<Rightarrow> filter_row \<Rightarrow> colref \<Rightarrow> column_type \<Rightarrow> string \<Rightarrow> pyval \<Rightarrow> bool" where
  "equals_value pg ps row c ct nm v =
     (case coerce_operand ps ct nm v '''' of Inl _ \<Rightarrow> False | Inr x \<Rightarrow> same_value pg (fr_value row c) x)"

definition contains_text :: "(char \<Rightarrow> char) \<Rightarrow> string \<Rightarrow> string \<Rightarrow> bool" where
  "contains_text f t s \<longleftrightarrow> (\<exists>pre u post. t = pre @ u @ post \<and> map f u = map f s)"

definition ordering :: "string \<Rightarrow> cmp_op \<Rightarrow> bool" where
  "ordering operator op \<longleftrightarrow>
     (operator, op) \<in> set [(''gte'', OpGe), (''lte'', OpLe), (''gt'', OpGt), (''lt'', OpLt)]"

definition operator_matches ::
  "pg_env \<Rightarrow> parsers \<Rightarrow> filter_row \<Rightarrow> colref \<Rightarrow> column_type \<Rightarrow> string \<Rightarrow> string \<Rightarrow> pyval \<Rightarrow> bool" where
  "operator_matches pg ps row c ct nm operator v \<longleftrightarrow>
     v = wildcard \<or>
     (if v = PNone then fr_value row c \<noteq> None
      else if operator = ''in'' then
        (\<exists>xs. iter_values v = Some xs \<and> (wildcard \<in> set xs \<or> (\<exists>x \<in> set xs. equals_value pg ps row c ct nm x)))
      else if operator = ''ne'' then \<not> equals_value pg ps row c ct nm v
      else if operator \<in> {''contains'', ''icontains''} then
        (if ct = TJson then \<exists>x. fr_value row c = Some (VJson x) \<and> pg_json_contains pg x v
         else \<exists>t. fr_value row c = Some (VText t) \<and> contains_text (pg_fold pg) t (py_str ps v))
      else \<exists>op x y. ordering operator op \<and> fr_value row c = Some x \<and> coerce_operand ps ct nm v '''' = Inr y
             \<and> compare_values pg op x y = Some True)"

definition metadata_operator_matches ::
  "pg_env \<Rightarrow> parsers \<Rightarrow> filter_row \<Rightarrow> colref \<Rightarrow> string \<Rightarrow> string \<Rightarrow> pyval \<Rightarrow> bool" where
  "metadata_operator_matches pg ps row c field operator v \<longleftrightarrow>
     v = wildcard \<or>
     (if operator = ''in'' then
        (\<exists>xs. iter_values v = Some xs
           \<and> (wildcard \<in> set xs \<or> (\<exists>x \<in> set xs. field_text pg row c field = Some (py_str ps x))))
      else if operator \<in> {''contains'', ''icontains''} then
        (\<exists>t. field_text pg row c field = Some t \<and> contains_text (pg_fold pg) t (py_str ps v))
      else (\<exists>y. safe_numeric_cast ps v = Inr y
              \<and> (if operator = ''ne'' then compare_field pg OpEq row c field y \<noteq> Some True
                 else \<exists>op. ordering operator op \<and> compare_field pg op row c field y = Some True)))"

definition json_contains :: "pg_env \<Rightarrow> filter_row \<Rightarrow> colref \<Rightarrow> pyval \<Rightarrow> bool" where
  "json_contains pg row c v \<longleftrightarrow> (\<exists>x. fr_value row c = Some (VJson x) \<and> pg_json_contains pg x v)"

definition metadata_field_matches ::
  "pg_env \<Rightarrow> parsers \<Rightarrow> filter_row \<Rightarrow> colref \<Rightarrow> string \<Rightarrow> pyval \<Rightarrow> bool" where
  "metadata_field_matches pg ps row c field v =
     (case v of
        PDict d \<Rightarrow>
          if is_comparison_dict d then \<forall>(operator, x) \<in> set d. metadata_operator_matches pg ps row c field operator x
          else json_contains pg row c (PDict [(field, v)])
      | _ \<Rightarrow> v = wildcard \<or> json_contains pg row c (PDict [(field, v)]))"

definition column_matches ::
  "pg_env \<Rightarrow> parsers \<Rightarrow> filter_row \<Rightarrow> colref \<Rightarrow> column_type \<Rightarrow> string \<Rightarrow> pyval \<Rightarrow> bool" where
  "column_matches pg ps row c ct nm v \<longleftrightarrow>
     v = wildcard \<or>
     (case v of
        PNone \<Rightarrow> fr_value row c = None
      | PList xs \<Rightarrow>
          if List.member JSONB_COLUMNS nm then json_contains pg row c v
          else operator_matches pg ps row c ct nm ''in'' v
      | PDict d \<Rightarrow>
          if is_comparison_dict d then \<forall>(operator, x) \<in> set d. operator_matches pg ps row c ct nm operator x
          else if List.member JSONB_COLUMNS nm then \<forall>(field, x) \<in> set d. metadata_field_matches pg ps row c field x
          else same_value pg (fr_value row c) (VJson v)
      | _ \<Rightarrow> equals_value pg ps row c ct nm v)"

text \<open>Linkage: a document is linked to an id, by the edge table or, for sources, the legacy column.\<close>

definition linked_to :: "pg_env \<Rightarrow> filter_row \<Rightarrow> string \<Rightarrow> pyval \<Rightarrow> bool" where
  "linked_to pg row field v \<longleftrightarrow>
     (\<exists>s. v = PStr s \<and> (fr_linked row field s
        \<or> (field = ''source_ids'' \<and> json_contains pg row (Column ''legacy_source_ids'') (PList [v]))))"

definition link_matches :: "pg_env \<Rightarrow> filter_row \<Rightarrow> string \<Rightarrow> pyval \<Rightarrow> bool" where
  "link_matches pg row field v \<longleftrightarrow>
     v = wildcard \<or>
     (case v of
        PStr s \<Rightarrow> linked_to pg row field v
      | PList xs \<Rightarrow> xs \<noteq> [] \<and> (\<forall>x \<in> set xs. x = wildcard \<or> linked_to pg row field x)
      | PDict d \<Rightarrow>
          \<forall>(operator, x) \<in> set d. x = wildcard
            \<or> (if operator = ''contains'' then linked_to pg row field x
               else \<exists>xs. x = PList xs \<and> (wildcard \<in> set xs \<or> (\<exists>y \<in> set xs. linked_to pg row field y)))
      | _ \<Rightarrow> False)"

definition field_matches ::
  "pg_env \<Rightarrow> parsers \<Rightarrow> model_class \<Rightarrow> overrides \<Rightarrow> filter_row \<Rightarrow> string \<Rightarrow> pyval \<Rightarrow> bool" where
  "field_matches pg ps mc ov row key v =
     (case dget ov key of
        Some ct \<Rightarrow> column_matches pg ps row (Override key) ct key v
      | None \<Rightarrow>
          (case column_name_of mc key of
             None \<Rightarrow> False
           | Some n \<Rightarrow>
               if mc_name mc = ''Document'' \<and> n \<in> {''source_ids'', ''source_message_ids''}
               then link_matches pg row n v
               else (case dget (mc_columns mc) n of
                       None \<Rightarrow> False
                     | Some ct \<Rightarrow> column_matches pg ps row (Column n) ct n v)))"

text \<open>\<open>AND\<close>: every sub-filter, \<open>OR\<close>: some sub-filter (an empty list constrains nothing), \<open>NOT\<close>: none of
  them, and every field.\<close>

lemma size_operand [dest]:
  "dget d k = Some (PList xs) \<Longrightarrow> x \<in> set xs \<Longrightarrow> size x < size (PDict d)"
  using size_dget [of d k "PList xs"] size_list_estimation' [of x xs "size x" size] by simp

function (sequential) filter_matches ::
  "pg_env \<Rightarrow> parsers \<Rightarrow> model_class \<Rightarrow> overrides \<Rightarrow> filter_row \<Rightarrow> pyval \<Rightarrow> bool" where
  "filter_matches pg ps mc ov row (PDict d) \<longleftrightarrow>
     (case dget d ''AND'' of
        Some (PList xs) \<Rightarrow> list_all (filter_matches pg ps mc ov row) xs
      | _ \<Rightarrow> True)
     \<and> (case dget d ''OR'' of
        Some (PList xs) \<Rightarrow> xs = [] \<or> list_ex (filter_matches pg ps mc ov row) xs
      | _ \<Rightarrow> True)
     \<and> (case dget d ''NOT'' of
        Some (PList xs) \<Rightarrow> list_all (\<lambda>x. \<not> filter_matches pg ps mc ov row x) xs
      | _ \<Rightarrow> True)
     \<and> list_all (\<lambda>(k, v). List.member logical_keys k \<or> field_matches pg ps mc ov row k v) d"
| "filter_matches pg ps mc ov row _ = False"
  by pat_completeness auto
termination
  by (relation "measure (\<lambda>(pg, ps, mc, ov, row, v). size v)") (auto simp del: pyval.size dest!: size_operand)

section \<open>Conditions select what the filter means\<close>

text \<open>No condition stands for one that every row meets.\<close>

fun holds :: "pg_env \<Rightarrow> filter_row \<Rightarrow> cond option \<Rightarrow> bool" where
  "holds pg row None = True"
| "holds pg row (Some c) = selects pg row c"

lemma somes_simps [simp]:
  "somes [] = []" "somes (None # xs) = somes xs" "somes (Some x # xs) = x # somes xs"
  by (simp_all add: somes_def List.map_filter_simps)

lemma holds_combined:
  "holds pg row (combine_conditions_with_and cs) \<longleftrightarrow> (\<forall>c \<in> set cs. selects pg row c)"
  by (auto simp: combine_conditions_with_and_def filter_simps split: list.split)

lemma somes_all: "(\<forall>c \<in> set (somes cs). selects pg row c) \<longleftrightarrow> (\<forall>c \<in> set cs. holds pg row c)"
proof (induction cs)
  case (Cons c cs)
  then show ?case by (cases c) simp_all
qed simp

lemma selects_and_all: "selects pg row (and_all cs) \<longleftrightarrow> (\<forall>c \<in> set cs. selects pg row c)"
  by (auto simp: and_all_def filter_simps split: list.split)

lemma traverse_holds:
  assumes "traverse f xs = Inr cs"
    and "\<And>x c. x \<in> set xs \<Longrightarrow> f x = Inr c \<Longrightarrow> holds pg row c \<longleftrightarrow> P x"
  shows "(\<forall>c \<in> set cs. holds pg row c) \<longleftrightarrow> (\<forall>x \<in> set xs. P x)"
  using assms by (induction xs arbitrary: cs) (fastforce simp: res_simps)+

lemma combined_holds:
  assumes "res_map (\<lambda>cs. combine_conditions_with_and (somes cs)) (traverse f xs) = Inr c"
    and "\<And>x k. x \<in> set xs \<Longrightarrow> f x = Inr k \<Longrightarrow> holds pg row k \<longleftrightarrow> P x"
  shows "holds pg row c \<longleftrightarrow> (\<forall>x \<in> set xs. P x)"
proof -
  obtain cs where cs: "traverse f xs = Inr cs" "c = combine_conditions_with_and (somes cs)"
    using assms(1) by (auto simp: res_simps)
  show ?thesis
    unfolding cs(2) holds_combined somes_all using traverse_holds [OF cs(1) assms(2)] by simp
qed

lemma selects_ilike [filter_simps]:
  "selects pg row (CIlike c (contains_pattern s)) \<longleftrightarrow>
     (\<exists>t. fr_value row c = Some (VText t) \<and> contains_text (pg_fold pg) t s)"
  "selects pg row (CFieldIlike c field (contains_pattern s)) \<longleftrightarrow>
     (\<exists>t. field_text pg row c field = Some t \<and> contains_text (pg_fold pg) t s)"
  by (auto simp: selects_def contains_text_def like_contains split: option.splits sqlval.splits)

lemma selects_contains [filter_simps]:
  "selects pg row (CContains c v) \<longleftrightarrow> json_contains pg row c v"
  by (auto simp: selects_def json_contains_def split: option.splits sqlval.splits)

lemma selects_fields [filter_simps]:
  "selects pg row (CField op c field v) \<longleftrightarrow> compare_field pg op row c field v = Some True"
  "selects pg row (CFieldDistinct c field v) \<longleftrightarrow> compare_field pg OpEq row c field v \<noteq> Some True"
  "selects pg row (CFieldIn c field texts) \<longleftrightarrow> (\<exists>t \<in> set texts. field_text pg row c field = Some t)"
  by (auto simp: selects_def or3_map split: Option.bind_splits)

lemma selects_compare:
  "selects pg row (CCompare op c y) \<longleftrightarrow>
     (\<exists>x. fr_value row c = Some x \<and> compare_values pg op x y = Some True)"
  by (auto simp: selects_def or3_map split: Option.bind_splits)

lemma coerce_same:
  "coerce_operand ps ct nm v operator = Inr x \<Longrightarrow> operator \<noteq> ''contains'' \<Longrightarrow> operator \<noteq> ''icontains''
    \<Longrightarrow> coerce_operand ps ct nm v '''' = Inr x"
  by (auto simp: coerce_operand_def split: if_splits)

lemma ordering_order_op:
  assumes "List.member COMPARISON_OPERATORS operator"
    and "operator \<notin> {''in'', ''contains'', ''icontains'', ''ne''}"
  shows "ordering operator op \<longleftrightarrow> op = order_op operator"
proof -
  have "operator = ''gte'' \<or> operator = ''lte'' \<or> operator = ''gt'' \<or> operator = ''lt''"
    using assms by (simp add: COMPARISON_OPERATORS_def)
  then show ?thesis by (elim disjE) (simp_all add: ordering_def order_op_def)
qed

lemma build_in_meaning:
  assumes "build_in ps c ct nm v = Inr k"
  shows "\<exists>xs. iter_values v = Some xs
    \<and> (holds pg row k \<longleftrightarrow> wildcard \<in> set xs \<or> (\<exists>x \<in> set xs. equals_value pg ps row c ct nm x))"
proof -
  obtain xs where xs: "iter_values v = Some xs"
    using assms by (auto simp: build_in_def split: option.splits)
  show ?thesis
  proof (cases "wildcard \<in> set xs")
    case True
    then show ?thesis using assms xs by (auto simp: build_in_def)
  next
    case False
    then obtain vs where vs: "traverse (\<lambda>x. coerce_operand ps ct nm x ''in'') xs = Inr vs"
        "k = Some (CIn c vs)"
      using assms xs by (auto simp: build_in_def res_simps)
    have "(\<exists>v \<in> set vs. same_value pg (fr_value row c) v) \<longleftrightarrow> (\<exists>x \<in> set xs. equals_value pg ps row c ct nm x)"
      using vs(1)
    proof (induction xs arbitrary: vs)
      case (Cons x xs)
      then obtain y ys where y: "coerce_operand ps ct nm x ''in'' = Inr y" "vs = y # ys"
          "traverse (\<lambda>x. coerce_operand ps ct nm x ''in'') xs = Inr ys"
        by (auto simp: res_simps)
      then show ?case
        using Cons.IH [OF y(3)] coerce_same [OF y(1)] by (simp add: equals_value_def)
    qed simp
    with vs(2) xs False show ?thesis by (simp add: filter_simps)
  qed
qed

lemma column_operator_meaning:
  assumes "build_column_operator ps c ct nm operator v = Inr k"
  shows "holds pg row k \<longleftrightarrow> operator_matches pg ps row c ct nm operator v"
proof -
  consider (all) "v = wildcard" | (null) "v = PNone" | (member) "v \<noteq> wildcard" "v \<noteq> PNone" "operator = ''in''"
    | (contains) "v \<noteq> wildcard" "v \<noteq> PNone" "operator = ''contains'' \<or> operator = ''icontains''"
    | (ne) "v \<noteq> wildcard" "v \<noteq> PNone" "operator = ''ne''"
    | (order) "v \<noteq> wildcard" "v \<noteq> PNone" "operator \<notin> {''in'', ''contains'', ''icontains'', ''ne''}"
    by blast
  then show ?thesis
  proof cases
    case all
    then show ?thesis
      using assms by (auto simp: build_column_operator_def operator_matches_def split: if_splits)
  next
    case null
    then show ?thesis
      using assms by (auto simp: build_column_operator_def operator_matches_def filter_simps split: if_splits)
  next
    case member
    then have "build_in ps c ct nm v = Inr k"
      using assms by (simp add: build_column_operator_def split: if_splits)
    from build_in_meaning [OF this, where pg = pg and row = row] member show ?thesis by (auto simp: operator_matches_def)
  next
    case contains
    then show ?thesis
      using assms
      by (auto simp: build_column_operator_def operator_matches_def filter_simps res_simps json_contains_def
            coerce_operand_def split: if_splits)
  next
    case ne
    then obtain x where "coerce_operand ps ct nm v ''ne'' = Inr x" "k = Some (CDistinct c x)"
      using assms by (auto simp: build_column_operator_def res_simps split: if_splits)
    with ne coerce_same [of ps ct nm v "''ne''" x] show ?thesis
      by (simp add: operator_matches_def filter_simps equals_value_def)
  next
    case order
    then obtain x where "coerce_operand ps ct nm v operator = Inr x" "k = Some (CCompare (order_op operator) c x)"
      using assms by (auto simp: build_column_operator_def res_simps split: if_splits)
    moreover have "List.member COMPARISON_OPERATORS operator"
      using assms by (auto simp: build_column_operator_def split: if_splits)
    ultimately show ?thesis
      using order coerce_same [of ps ct nm v operator x] ordering_order_op [OF _ order(3)]
      by (simp add: operator_matches_def selects_compare)
  qed
qed
lemma metadata_operator_meaning:
  assumes "build_comparison_condition ps c field operator v = Inr k"
  shows "holds pg row k \<longleftrightarrow> metadata_operator_matches pg ps row c field operator v"
proof (cases "operator = ''in'' \<or> v = wildcard")
  case True
  then show ?thesis
    using assms
    by (auto simp: build_comparison_condition_def metadata_operator_matches_def filter_simps NUMERIC_OPERATORS_def
        split: if_splits option.splits)
next
  case False
  show ?thesis
  proof (cases "List.member NUMERIC_OPERATORS operator")
    case True
    then have "operator \<noteq> ''contains''" "operator \<noteq> ''icontains''" by (auto simp: NUMERIC_OPERATORS_def)
    moreover obtain y where "safe_numeric_cast ps v = Inr y"
        "k = Some (if operator = ''ne'' then CFieldDistinct c field y else CField (order_op operator) c field y)"
      using assms False True by (auto simp: build_comparison_condition_def res_simps split: if_splits)
    moreover have "List.member COMPARISON_OPERATORS operator"
      using True by (auto simp: COMPARISON_OPERATORS_def NUMERIC_OPERATORS_def)
    ultimately show ?thesis
      using False ordering_order_op [of operator]
      by (cases "operator = ''ne''") (simp_all add: metadata_operator_matches_def filter_simps)
  next
    case not_numeric: False
    then have k: "k = Some (CFieldIlike c field (contains_pattern (py_str ps v)))"
      using assms False by (auto simp: build_comparison_condition_def split: if_splits)
    have "List.member COMPARISON_OPERATORS operator"
      using assms by (auto simp: build_comparison_condition_def split: if_splits)
    then have "operator \<in> {''contains'', ''icontains''}"
      using False not_numeric by (auto simp: COMPARISON_OPERATORS_def NUMERIC_OPERATORS_def)
    with k False show ?thesis by (simp add: metadata_operator_matches_def filter_simps)
  qed
qed

lemma metadata_field_meaning:
  assumes "build_metadata_field ps c field v = Inr k"
  shows "holds pg row k \<longleftrightarrow> metadata_field_matches pg ps row c field v"
proof (cases "\<exists>d. v = PDict d \<and> is_comparison_dict d")
  case True
  then obtain d where d: "v = PDict d" "is_comparison_dict d" by blast
  with assms have "res_map (\<lambda>cs. combine_conditions_with_and (somes cs))
      (traverse (\<lambda>(operator, op_value). build_comparison_condition ps c field operator op_value) d) = Inr k"
    by (simp add: build_metadata_field_def)
  then have "holds pg row k \<longleftrightarrow>
      (\<forall>x \<in> set d. case x of (operator, x) \<Rightarrow> metadata_operator_matches pg ps row c field operator x)"
    by (rule combined_holds) (auto simp: metadata_operator_meaning)
  with d show ?thesis by (simp add: metadata_field_matches_def)
next
  case False
  then have "k = (if v = wildcard then None else Some (CContains c (PDict [(field, v)])))"
    using assms by (auto simp: build_metadata_field_def split: pyval.splits if_splits)
  with False show ?thesis
    by (auto simp: metadata_field_matches_def filter_simps split: pyval.splits)
qed

definition json_named :: "string \<Rightarrow> column_type \<Rightarrow> bool" where
  "json_named nm ct \<longleftrightarrow> (List.member JSONB_COLUMNS nm \<longrightarrow> ct = TJson)"

lemma comparisons_meaning:
  assumes "build_comparison_conditions ps c ct nm d = Inr k"
  shows "holds pg row k \<longleftrightarrow> (\<forall>(operator, x) \<in> set d. operator_matches pg ps row c ct nm operator x)"
  using assms unfolding build_comparison_conditions_def
  by (rule combined_holds) (auto simp: column_operator_meaning)

lemma nested_meaning:
  assumes "build_nested_metadata_conditions ps c d = Inr k"
  shows "holds pg row k \<longleftrightarrow> (\<forall>(field, x) \<in> set d. metadata_field_matches pg ps row c field x)"
  using assms unfolding build_nested_metadata_conditions_def
  by (rule combined_holds) (auto simp: metadata_field_meaning)

lemma scalar_meaning:
  assumes "build_scalar ps c ct nm v = Inr k" and "json_named nm ct"
  shows "holds pg row k \<longleftrightarrow>
    (if List.member JSONB_COLUMNS nm then json_contains pg row c v else equals_value pg ps row c ct nm v)"
  using assms by (auto simp: build_scalar_def res_simps filter_simps equals_value_def)

lemma json_scalar:
  assumes "build_scalar ps c ct nm v = Inr k" and "json_named nm ct" and "List.member JSONB_COLUMNS nm"
  shows "(\<exists>d. v = PDict d) \<or> (\<exists>xs. v = PList xs)"
  using assms by (cases v) (auto simp: build_scalar_def res_simps json_named_def coerce_operand_def)

lemma column_condition_meaning:
  assumes built: "build_column_condition ps c ct nm v = Inr k" and named: "json_named nm ct"
  shows "holds pg row k \<longleftrightarrow> column_matches pg ps row c ct nm v"
proof -
  consider (all) "v = wildcard" | (null) "v = PNone"
    | (list) xs where "v = PList xs" | (dict) d where "v = PDict d"
    | (scalar) "v \<noteq> wildcard" "v \<noteq> PNone" "\<And>xs. v \<noteq> PList xs" "\<And>d. v \<noteq> PDict d"
    by blast
  then show ?thesis
  proof cases
    case all
    then show ?thesis using built by (simp add: build_column_condition_def column_matches_def)
  next
    case null
    then show ?thesis
      using built by (auto simp: build_column_condition_def column_matches_def filter_simps)
  next
    case list
    show ?thesis
    proof (cases "List.member JSONB_COLUMNS nm")
      case True
      then have "build_scalar ps c ct nm v = Inr k"
        using built list by (simp add: build_column_condition_def)
      from scalar_meaning [OF this named] True list show ?thesis by (simp add: column_matches_def)
    next
      case False
      then have "build_comparison_conditions ps c ct nm [(''in'', v)] = Inr k"
        using built list by (simp add: build_column_condition_def is_comparison_dict_def COMPARISON_OPERATORS_def)
      from comparisons_meaning [OF this] False list show ?thesis by (simp add: column_matches_def)
    qed
  next
    case dict
    consider "is_comparison_dict d" | "\<not> is_comparison_dict d" "List.member JSONB_COLUMNS nm"
      | "\<not> is_comparison_dict d" "\<not> List.member JSONB_COLUMNS nm" by blast
    then show ?thesis
    proof cases
      case 1
      then have "build_comparison_conditions ps c ct nm d = Inr k"
        using built dict by (simp add: build_column_condition_def)
      from comparisons_meaning [OF this] 1 dict show ?thesis by (simp add: column_matches_def)
    next
      case 2
      then have "build_nested_metadata_conditions ps c d = Inr k"
        using built dict by (simp add: build_column_condition_def)
      from nested_meaning [OF this] 2 dict show ?thesis by (simp add: column_matches_def)
    next
      case 3
      then have "k = Some (CCompare OpEq c (VJson v))"
        using built dict by (simp add: build_column_condition_def split: if_splits)
      with 3 dict show ?thesis by (simp add: column_matches_def filter_simps)
    qed
  next
    case scalar
    then have s: "build_scalar ps c ct nm v = Inr k"
      using built by (cases v) (auto simp: build_column_condition_def)
    then have "\<not> List.member JSONB_COLUMNS nm" using json_scalar [OF s named] scalar by blast
    with scalar_meaning [OF s named, where pg = pg and row = row] scalar show ?thesis
      by (cases v) (auto simp: column_matches_def)
  qed
qed
lemma link_member_meaning:
  assumes "link_member field v = Inr c"
  shows "selects pg row c \<longleftrightarrow> linked_to pg row field v"
  using assms by (auto simp: link_member_def linked_to_def filter_simps split: pyval.splits if_splits)

lemma traverse_selects:
  assumes "traverse f xs = Inr cs" and "\<And>x c. f x = Inr c \<Longrightarrow> selects pg row c \<longleftrightarrow> P x"
  shows "(\<forall>c \<in> set cs. selects pg row c) \<longleftrightarrow> (\<forall>x \<in> set xs. P x)"
    and "(\<exists>c \<in> set cs. selects pg row c) \<longleftrightarrow> (\<exists>x \<in> set xs. P x)"
  using assms by (induction xs arbitrary: cs) (fastforce simp: res_simps)+

lemma link_operator_meaning:
  assumes "build_link_operator field operator v = Inr k"
  shows "holds pg row k \<longleftrightarrow> v = wildcard
    \<or> (if operator = ''contains'' then linked_to pg row field v
       else \<exists>xs. v = PList xs \<and> (wildcard \<in> set xs \<or> (\<exists>y \<in> set xs. linked_to pg row field y)))"
proof -
  consider (all) "v = wildcard" | (contains) "v \<noteq> wildcard" "operator = ''contains''"
    | (member) xs where "v \<noteq> wildcard" "operator = ''in''" "v = PList xs"
    using assms by (cases v) (auto simp: build_link_operator_def split: if_splits)
  then show ?thesis
  proof cases
    case contains
    then show ?thesis
      using assms by (auto simp: build_link_operator_def res_simps link_member_meaning)
  next
    case member
    show ?thesis
    proof (cases "wildcard \<in> set xs")
      case True
      then show ?thesis using member assms by (simp add: build_link_operator_def)
    next
      case False
      then obtain ms where "traverse (link_member field) xs = Inr ms"
          "k = Some (if ms \<noteq> [] then COr ms else CFalse)"
        using member assms by (auto simp: build_link_operator_def res_simps)
      with traverse_selects(2) [OF this(1), of pg row "linked_to pg row field"] link_member_meaning member False
      show ?thesis by (auto simp: filter_simps)
    qed
  qed (use assms in \<open>simp add: build_link_operator_def\<close>)
qed

lemma link_condition_meaning:
  assumes "build_link_condition field v = Inr k"
  shows "holds pg row k \<longleftrightarrow> link_matches pg row field v"
proof -
  consider (all) "v = wildcard" | (str) s where "v \<noteq> wildcard" "v = PStr s"
    | (list) xs where "v = PList xs" | (dict) d where "v = PDict d"
    using assms by (cases v) (auto simp: build_link_condition_def)
  then show ?thesis
  proof cases
    case all
    then show ?thesis using assms by (simp add: build_link_condition_def link_matches_def)
  next
    case str
    then show ?thesis
      using assms by (auto simp: build_link_condition_def link_matches_def res_simps link_member_meaning)
  next
    case list
    show ?thesis
    proof (cases "xs = []")
      case True
      then show ?thesis using assms list by (auto simp: build_link_condition_def link_matches_def filter_simps)
    next
      case False
      then obtain cs where "traverse (link_member field) (filter (\<lambda>x. x \<noteq> wildcard) xs) = Inr cs"
          "k = combine_conditions_with_and cs"
        using assms list by (auto simp: build_link_condition_def res_simps)
      with traverse_selects(1) [OF this(1), of pg row "linked_to pg row field"] link_member_meaning list False
      show ?thesis by (auto simp: holds_combined link_matches_def)
    qed
  next
    case dict
    then have "res_map (\<lambda>cs. combine_conditions_with_and (somes cs))
        (traverse (\<lambda>(operator, op_value). build_link_operator field operator op_value) d) = Inr k"
      using assms by (simp add: build_link_condition_def)
    then have "holds pg row k \<longleftrightarrow>
      (\<forall>x \<in> set d. case x of (operator, v) \<Rightarrow> v = wildcard
        \<or> (if operator = ''contains'' then linked_to pg row field v
           else \<exists>xs. v = PList xs \<and> (wildcard \<in> set xs \<or> (\<exists>y \<in> set xs. linked_to pg row field y))))"
    proof (rule combined_holds)
      fix x k'
      assume "(case x of (operator, op_value) \<Rightarrow> build_link_operator field operator op_value) = Inr k'"
      then show "holds pg row k' \<longleftrightarrow> (case x of (operator, v) \<Rightarrow> v = wildcard
        \<or> (if operator = ''contains'' then linked_to pg row field v
           else \<exists>xs. v = PList xs \<and> (wildcard \<in> set xs \<or> (\<exists>y \<in> set xs. linked_to pg row field y))))"
        by (cases x) (simp only: prod.case link_operator_meaning)
    qed
    with dict show ?thesis by (simp add: link_matches_def)
  qed
qed

section \<open>Models and overrides\<close>

definition models :: "model_class list" where
  "models = [workspace_model, peer_model, session_model, message_model, document_model]"

definition overrides_ok :: "overrides \<Rightarrow> bool" where
  "overrides_ok ov \<longleftrightarrow> list_all (\<lambda>(k, ct). \<not> List.member JSONB_COLUMNS k) ov"

lemma model_named:
  assumes "mc \<in> set models" and "dget (mc_columns mc) n = Some ct"
  shows "json_named n ct"
  using assms
  by (auto simp: models_def json_named_def JSONB_COLUMNS_def workspace_model_def peer_model_def
      session_model_def message_model_def document_model_def)

lemma override_named: "overrides_ok ov \<Longrightarrow> dget ov k = Some ct \<Longrightarrow> json_named k ct"
  by (auto simp: overrides_ok_def json_named_def list_all_iff dest: dget_SomeD)

lemma field_condition_meaning:
  assumes built: "build_field_condition ps mc ov key v = Inr k"
    and mc: "mc \<in> set models" and ov: "overrides_ok ov"
  shows "holds pg row k \<longleftrightarrow> field_matches pg ps mc ov row key v"
proof (cases "dget ov key")
  case (Some ct)
  with built have "build_column_condition ps (Override key) ct key v = Inr k"
    by (simp add: build_field_condition_def)
  from column_condition_meaning [OF this override_named [OF ov Some]] Some
  show ?thesis by (simp add: field_matches_def)
next
  case no_override: None
  then obtain n where n: "column_name_of mc key = Some n"
    using built by (auto simp: build_field_condition_def split: option.splits)
  show ?thesis
  proof (cases "mc_name mc = ''Document'' \<and> n \<in> {''source_ids'', ''source_message_ids''}")
    case True
    then have "build_link_condition n v = Inr k"
      using built n no_override by (auto simp: build_field_condition_def)
    from link_condition_meaning [OF this] True n no_override show ?thesis by (simp add: field_matches_def)
  next
    case False
    then obtain ct where ct: "dget (mc_columns mc) n = Some ct" "build_column_condition ps (Column n) ct n v = Inr k"
      using built n no_override by (auto simp: build_field_condition_def split: option.splits if_splits)
    from column_condition_meaning [OF ct(2) model_named [OF mc ct(1)]] ct(1) n no_override False
    show ?thesis by (auto simp: field_matches_def)
  qed
qed
section \<open>Filters\<close>

lemma build_filter_cases:
  assumes "build_filter_conditions ps mc ov depth v = Inr c"
  obtains d ands and_conditions ors or_conditions nots not_conditions fconds where
    "depth \<le> 5" "v = PDict d"
    "logical_operands d ''AND'' = Inr ands"
    "traverse (build_filter_conditions ps mc ov (depth + 1)) ands = Inr and_conditions"
    "logical_operands d ''OR'' = Inr ors"
    "traverse (build_filter_conditions ps mc ov (depth + 1)) ors = Inr or_conditions"
    "logical_operands d ''NOT'' = Inr nots"
    "traverse (build_filter_conditions ps mc ov (depth + 1)) nots = Inr not_conditions"
    "field_conditions ps mc ov d = Inr fconds"
    "c = and_all
       ((if and_conditions = [] then [] else [CAnd and_conditions])
        @ (if or_conditions = [] then [] else [COr or_conditions])
        @ (if not_conditions = [] then [] else [CAnd (map CIsNotTrue not_conditions)])
        @ fconds)"
proof -
  have depth: "depth \<le> 5"
    using assms by (subst (asm) build_filter_conditions.simps) (simp split: if_split_asm)
  moreover obtain d where v: "v = PDict d"
    using assms depth by (subst (asm) build_filter_conditions.simps) (cases v; simp)
  ultimately show thesis
    using assms that
    by (subst (asm) build_filter_conditions.simps)
      (simp only: pyval.case res_bind_Inr if_False not_less [symmetric] sum.inject, blast)
qed

lemma operands_cases:
  assumes "logical_operands d k = Inr xs"
  shows "(dget d k = None \<and> xs = []) \<or> dget d k = Some (PList xs)"
  using assms by (auto simp: logical_operands_def split: option.splits pyval.splits)

lemma operands_meaning:
  assumes ops: "logical_operands d k = Inr xs" and built: "traverse f xs = Inr cs"
    and IH: "\<And>x c. dget d k = Some (PList xs) \<Longrightarrow> x \<in> set xs \<Longrightarrow> f x = Inr c \<Longrightarrow> selects pg row c \<longleftrightarrow> P x"
  shows "(\<forall>c \<in> set cs. selects pg row c) \<longleftrightarrow> (\<forall>x \<in> set xs. P x)"
    and "(\<exists>c \<in> set cs. selects pg row c) \<longleftrightarrow> (\<exists>x \<in> set xs. P x)"
    and "(\<forall>c \<in> set cs. \<not> selects pg row c) \<longleftrightarrow> (\<forall>x \<in> set xs. \<not> P x)"
proof -
  have pairs: "list_all2 (\<lambda>x c. selects pg row c \<longleftrightarrow> P x) xs cs"
    using built operands_cases [OF ops] IH by (auto simp: traverse_Inr_iff elim!: list.rel_mono_strong)
  show "(\<forall>c \<in> set cs. selects pg row c) \<longleftrightarrow> (\<forall>x \<in> set xs. P x)"
    and ex: "(\<exists>c \<in> set cs. selects pg row c) \<longleftrightarrow> (\<exists>x \<in> set xs. P x)"
    and "(\<forall>c \<in> set cs. \<not> selects pg row c) \<longleftrightarrow> (\<forall>x \<in> set xs. \<not> P x)"
    using pairs by (induction rule: list_all2_induct) auto
qed

lemma field_conditions_meaning:
  assumes "field_conditions ps mc ov d = Inr fconds" and "mc \<in> set models" and "overrides_ok ov"
  shows "(\<forall>c \<in> set fconds. selects pg row c) \<longleftrightarrow>
    (\<forall>(k, v) \<in> set d. List.member logical_keys k \<or> field_matches pg ps mc ov row k v)"
proof -
  obtain cs where cs: "traverse (\<lambda>(key, v). if List.member logical_keys key then Inr None
      else build_field_condition ps mc ov key v) d = Inr cs" "fconds = somes cs"
    using assms(1) by (auto simp: field_conditions_def res_simps)
  have "(\<forall>c \<in> set cs. holds pg row c) \<longleftrightarrow>
    (\<forall>x \<in> set d. case x of (k, v) \<Rightarrow> List.member logical_keys k \<or> field_matches pg ps mc ov row k v)"
    by (rule traverse_holds [OF cs(1)])
      (auto simp: field_condition_meaning [OF _ assms(2,3)] split: if_splits)
  then show ?thesis unfolding cs(2) somes_all by simp
qed

lemma filter_meaning:
  assumes "build_filter_conditions ps mc ov depth v = Inr c"
    and mc: "mc \<in> set models" and ov: "overrides_ok ov"
  shows "selects pg row c \<longleftrightarrow> filter_matches pg ps mc ov row v"
  using assms(1)
proof (induction v arbitrary: depth c rule: measure_induct_rule [where f = size])
  case (less v)
  from less.prems show ?case
  proof (cases rule: build_filter_cases)
    case (1 d ands and_conditions ors or_conditions nots not_conditions fconds)
    have IH: "selects pg row c \<longleftrightarrow> filter_matches pg ps mc ov row x"
      if "dget d k = Some (PList xs)" "x \<in> set xs" "build_filter_conditions ps mc ov (depth + 1) x = Inr c"
      for k xs x c
      using less.IH [OF _ that(3)] size_operand [OF that(1,2)] 1(2) by simp
    have "(\<forall>c \<in> set and_conditions. selects pg row c) \<longleftrightarrow> (\<forall>x \<in> set ands. filter_matches pg ps mc ov row x)"
      by (rule operands_meaning(1) [OF 1(3,4) IH])
    moreover have "(\<exists>c \<in> set or_conditions. selects pg row c) \<longleftrightarrow> (\<exists>x \<in> set ors. filter_matches pg ps mc ov row x)"
      by (rule operands_meaning(2) [OF 1(5,6) IH])
    moreover have "(\<forall>c \<in> set not_conditions. \<not> selects pg row c)
        \<longleftrightarrow> (\<forall>x \<in> set nots. \<not> filter_matches pg ps mc ov row x)"
      by (rule operands_meaning(3) [OF 1(7,8) IH])
    moreover have "(\<forall>c \<in> set fconds. selects pg row c)
        \<longleftrightarrow> (\<forall>(k, v) \<in> set d. List.member logical_keys k \<or> field_matches pg ps mc ov row k v)"
      by (rule field_conditions_meaning [OF 1(9) mc ov])
    moreover have "or_conditions = [] \<longleftrightarrow> ors = []"
      using traverse_length [OF 1(6)] by auto
    moreover have "selects pg row c \<longleftrightarrow>
        (\<forall>c \<in> set and_conditions. selects pg row c)
        \<and> (or_conditions = [] \<or> (\<exists>c \<in> set or_conditions. selects pg row c))
        \<and> (\<forall>c \<in> set not_conditions. \<not> selects pg row c)
        \<and> (\<forall>c \<in> set fconds. selects pg row c)"
      unfolding 1(10) selects_and_all by (simp add: filter_simps ball_Un)
    ultimately have "selects pg row c \<longleftrightarrow>
        (\<forall>x \<in> set ands. filter_matches pg ps mc ov row x)
        \<and> (ors = [] \<or> (\<exists>x \<in> set ors. filter_matches pg ps mc ov row x))
        \<and> (\<forall>x \<in> set nots. \<not> filter_matches pg ps mc ov row x)
        \<and> (\<forall>(k, v) \<in> set d. List.member logical_keys k \<or> field_matches pg ps mc ov row k v)"
      by (simp only:)
    also have "\<dots> \<longleftrightarrow> filter_matches pg ps mc ov row v"
      using operands_cases [OF 1(3)] operands_cases [OF 1(5)] operands_cases [OF 1(7)]
      unfolding 1(2) filter_matches.simps(1)
      by (elim disjE conjE) (simp_all add: list_all_iff list_ex_iff)
    finally show ?thesis .
  qed
qed

section \<open>Types\<close>

text \<open>What a column reference stands for; the types at which a condition can be sent to the database.\<close>

fun ref_type :: "model_class \<Rightarrow> overrides \<Rightarrow> colref \<Rightarrow> column_type option" where
  "ref_type mc ov (Override k) = dget ov k"
| "ref_type mc ov (Column n) = dget (mc_columns mc) n"

fun value_type :: "sqlval \<Rightarrow> column_type" where
  "value_type (VBool _) = TBool"
| "value_type (VNumber _) = TNumber"
| "value_type (VText _) = TText"
| "value_type (VTime _) = TTime"
| "value_type (VJson _) = TJson"

fun cond_typed :: "(colref \<Rightarrow> column_type option) \<Rightarrow> cond \<Rightarrow> bool" where
  "cond_typed ty CTrue = True"
| "cond_typed ty CFalse = True"
| "cond_typed ty (CIsNull c) = (ty c \<noteq> None)"
| "cond_typed ty (CIsNotNull c) = (ty c \<noteq> None)"
| "cond_typed ty (CCompare op c v) = (ty c = Some (value_type v) \<and> (value_type v = TJson \<longrightarrow> op = OpEq))"
| "cond_typed ty (CDistinct c v) = (ty c = Some (value_type v) \<and> value_type v \<noteq> TJson)"
| "cond_typed ty (CIn c vs) = (ty c \<noteq> None \<and> (\<forall>v \<in> set vs. ty c = Some (value_type v) \<and> value_type v \<noteq> TJson))"
| "cond_typed ty (CIlike c p) = (ty c = Some TText)"
| "cond_typed ty (CContains c v) = (ty c = Some TJson)"
| "cond_typed ty (CField op c field v) = (ty c = Some TJson)"
| "cond_typed ty (CFieldDistinct c field v) = (ty c = Some TJson)"
| "cond_typed ty (CFieldIn c field texts) = (ty c = Some TJson)"
| "cond_typed ty (CFieldIlike c field p) = (ty c = Some TJson)"
| "cond_typed ty (CLinked field entry) = (field \<in> {''source_ids'', ''source_message_ids''} \<and> entry \<noteq> [])"
| "cond_typed ty (CAnd cs) = (\<forall>c \<in> set cs. cond_typed ty c)"
| "cond_typed ty (COr cs) = (\<forall>c \<in> set cs. cond_typed ty c)"
| "cond_typed ty (CIsNotTrue c) = cond_typed ty c"

definition opt_typed :: "(colref \<Rightarrow> column_type option) \<Rightarrow> cond option \<Rightarrow> bool" where
  "opt_typed ty k = (case k of None \<Rightarrow> True | Some c \<Rightarrow> cond_typed ty c)"

lemma opt_typed_simps [simp]: "opt_typed ty None" "opt_typed ty (Some c) = cond_typed ty c"
  by (simp_all add: opt_typed_def)

lemma opt_typed_combined:
  "(\<And>c. c \<in> set cs \<Longrightarrow> cond_typed ty c) \<Longrightarrow> opt_typed ty (combine_conditions_with_and cs)"
  by (auto simp: combine_conditions_with_and_def split: list.split)

lemma somes_mem: "c \<in> set (somes cs) \<longleftrightarrow> Some c \<in> set cs"
  by (force simp: somes_def List.map_filter_def)

lemma combined_typed:
  assumes "res_map (\<lambda>cs. combine_conditions_with_and (somes cs)) (traverse f xs) = Inr k"
    and "\<And>x k. x \<in> set xs \<Longrightarrow> f x = Inr k \<Longrightarrow> opt_typed ty k"
  shows "opt_typed ty k"
proof -
  obtain cs where cs: "traverse f xs = Inr cs" "k = combine_conditions_with_and (somes cs)"
    using assms(1) by (auto simp: res_simps)
  have "cond_typed ty c" if "c \<in> set (somes cs)" for c
    using that traverse_mem [OF cs(1)] assms(2) unfolding somes_mem by fastforce
  with cs(2) show ?thesis by (simp add: opt_typed_combined)
qed

lemma coerced_json:
  "coerce_operand ps TJson nm v operator = Inr x \<Longrightarrow> operator \<in> {'''', ''contains''} \<and> x = VJson v"
  by (simp add: coerce_operand_def split: if_split_asm)

lemma coerced_type:
  assumes "coerce_operand ps ct nm v operator = Inr x"
  shows "value_type x = ct" and "ct = TJson \<Longrightarrow> operator \<in> {'''', ''contains''} \<and> x = VJson v"
proof -
  show "value_type x = ct"
    using assms unfolding coerce_operand_def
    by (cases ct; cases v)
      (simp_all only: column_type.distinct column_type.simps if_True if_False if_cancel pyval.case simp_thms
        split: if_split_asm option.split_asm sum.split_asm, (clarify, simp)+)
  show "ct = TJson \<Longrightarrow> operator \<in> {'''', ''contains''} \<and> x = VJson v"
    using assms coerced_json by blast
qed

lemma coerced_text:
  assumes "coerce_operand ps ct nm v operator = Inr x" and "operator \<in> {''contains'', ''icontains''}"
  shows "ct = TText \<or> (ct = TJson \<and> operator = ''contains'')"
  using assms by (auto simp: coerce_operand_def split: if_splits)

lemma column_operator_typed:
  assumes "build_column_operator ps c ct nm operator v = Inr k" and "ty c = Some ct"
  shows "opt_typed ty k"
proof -
  consider (all) "v = wildcard \<or> v = PNone" | (member) "v \<noteq> wildcard" "v \<noteq> PNone" "operator = ''in''"
    | (other) "v \<noteq> wildcard" "v \<noteq> PNone" "operator \<noteq> ''in''" by blast
  then show ?thesis
  proof cases
    case all
    with assms show ?thesis by (auto simp: build_column_operator_def split: if_splits)
  next
    case member
    then have "build_in ps c ct nm v = Inr k"
      using assms by (simp add: build_column_operator_def split: if_splits)
    then show ?thesis
      using assms(2) coerced_type traverse_mem
      by (fastforce simp: build_in_def res_simps split: option.splits if_splits)
  next
    case other
    then obtain x where x: "coerce_operand ps ct nm v operator = Inr x"
      using assms by (auto simp: build_column_operator_def res_simps split: if_splits)
    have "operator \<noteq> ''''"
      using assms(1) by (auto simp: build_column_operator_def COMPARISON_OPERATORS_def split: if_splits)
    then show ?thesis
      using assms other x coerced_type [OF x] coerced_text [OF x]
      by (auto simp: build_column_operator_def split: if_splits)
  qed
qed

lemma metadata_field_typed:
  assumes "build_metadata_field ps c field v = Inr k" and "ty c = Some TJson"
  shows "opt_typed ty k"
proof (cases "\<exists>d. v = PDict d \<and> is_comparison_dict d")
  case True
  then obtain d where d: "v = PDict d" "is_comparison_dict d" by blast
  with assms(1) have "res_map (\<lambda>cs. combine_conditions_with_and (somes cs))
      (traverse (\<lambda>(operator, op_value). build_comparison_condition ps c field operator op_value) d) = Inr k"
    by (simp add: build_metadata_field_def)
  then show ?thesis
    by (rule combined_typed)
      (use assms(2) in \<open>auto simp: build_comparison_condition_def res_simps split: if_splits option.splits\<close>)
next
  case False
  then show ?thesis
    using assms by (auto simp: build_metadata_field_def split: pyval.splits if_splits)
qed

lemma scalar_typed:
  assumes "build_scalar ps c ct nm v = Inr k" and "json_named nm ct" and "ty c = Some ct"
  shows "opt_typed ty k"
  using assms coerced_type(1) by (fastforce simp: build_scalar_def res_simps json_named_def)

lemma column_condition_typed:
  assumes built: "build_column_condition ps c ct nm v = Inr k"
    and named: "json_named nm ct" and ty: "ty c = Some ct"
  shows "opt_typed ty k"
proof -
  have cmp: "opt_typed ty k" if "build_comparison_conditions ps c ct nm d = Inr k" for d
    using that unfolding build_comparison_conditions_def
    by (rule combined_typed) (use ty in \<open>auto intro: column_operator_typed\<close>)
  have nested: "opt_typed ty k"
    if "build_nested_metadata_conditions ps c d = Inr k" "List.member JSONB_COLUMNS nm" for d
    using that(1) unfolding build_nested_metadata_conditions_def
    by (rule combined_typed) (use named ty that(2) in \<open>auto simp: json_named_def metadata_field_typed\<close>)
  show ?thesis
    using built cmp nested scalar_typed [where c = c and ty = ty, OF _ named ty] ty
    by (auto simp: build_column_condition_def split: if_splits pyval.splits)
qed

lemma link_member_typed:
  assumes "link_member field v = Inr c" and "field \<in> {''source_ids'', ''source_message_ids''}"
    and "ty (Column ''legacy_source_ids'') = Some TJson"
  shows "cond_typed ty c"
  using assms by (auto simp: link_member_def split: pyval.splits if_splits)

lemma link_condition_typed:
  assumes built: "build_link_condition field v = Inr k"
    and field: "field \<in> {''source_ids'', ''source_message_ids''}"
    and legacy: "ty (Column ''legacy_source_ids'') = Some TJson"
  shows "opt_typed ty k"
proof -
  have member: "cond_typed ty c" if "link_member field v = Inr c" for v c
    using that field legacy by (rule link_member_typed)
  have all: "cond_typed ty c" if "traverse (link_member field) xs = Inr cs" "c \<in> set cs" for xs cs c
    using traverse_mem [OF that] member by blast
  have dict: "opt_typed ty k" if "build_link_operator field operator x = Inr k" for operator x k
    using that all member
    by (auto simp: build_link_operator_def res_simps split: if_splits pyval.splits)
  have dicts: "opt_typed ty k"
    if "res_map (\<lambda>cs. combine_conditions_with_and (somes cs))
        (traverse (\<lambda>(operator, op_value). build_link_operator field operator op_value) d) = Inr k" for d
    using that by (rule combined_typed) (auto intro: dict)
  show ?thesis
    using built all member dicts
    by (auto simp: build_link_condition_def res_simps intro!: opt_typed_combined split: if_splits pyval.splits)
qed

lemma field_condition_typed:
  assumes built: "build_field_condition ps mc ov key v = Inr k"
    and mc: "mc \<in> set models" and ov: "overrides_ok ov"
  shows "opt_typed (ref_type mc ov) k"
proof (cases "dget ov key")
  case (Some ct)
  with built have "build_column_condition ps (Override key) ct key v = Inr k"
    by (simp add: build_field_condition_def)
  then show ?thesis
    by (rule column_condition_typed) (use override_named [OF ov Some] Some in simp_all)
next
  case no_override: None
  then obtain n where n: "column_name_of mc key = Some n"
    using built by (auto simp: build_field_condition_def split: option.splits)
  show ?thesis
  proof (cases "mc_name mc = ''Document'' \<and> n \<in> {''source_ids'', ''source_message_ids''}")
    case True
    then have link: "build_link_condition n v = Inr k"
      using built n no_override by (auto simp: build_field_condition_def)
    have "mc = document_model"
      using mc True by (auto simp: models_def workspace_model_def peer_model_def session_model_def message_model_def)
    then have "ref_type mc ov (Column ''legacy_source_ids'') = Some TJson"
      by (simp add: document_model_def)
    with link True show ?thesis using link_condition_typed by blast
  next
    case False
    then obtain ct where ct: "dget (mc_columns mc) n = Some ct" "build_column_condition ps (Column n) ct n v = Inr k"
      using built n no_override by (auto simp: build_field_condition_def split: option.splits if_splits)
    show ?thesis
      by (rule column_condition_typed [OF ct(2) model_named [OF mc ct(1)]]) (simp add: ct(1))
  qed
qed

lemma and_all_typed: "(\<And>c. c \<in> set cs \<Longrightarrow> cond_typed ty c) \<Longrightarrow> cond_typed ty (and_all cs)"
  by (auto simp: and_all_def split: list.split)

lemma filter_typed:
  assumes "build_filter_conditions ps mc ov depth v = Inr c"
    and mc: "mc \<in> set models" and ov: "overrides_ok ov"
  shows "cond_typed (ref_type mc ov) c"
  using assms(1)
proof (induction v arbitrary: depth c rule: measure_induct_rule [where f = size])
  case (less v)
  from less.prems show ?case
  proof (cases rule: build_filter_cases)
    case (1 d ands and_conditions ors or_conditions nots not_conditions fconds)
    have IH: "cond_typed (ref_type mc ov) c"
      if "logical_operands d k = Inr xs" "traverse (build_filter_conditions ps mc ov (depth + 1)) xs = Inr cs"
        "c \<in> set cs" for k xs cs c
    proof -
      from traverse_mem [OF that(2,3)] obtain x
        where x: "x \<in> set xs" "build_filter_conditions ps mc ov (depth + 1) x = Inr c" by blast
      with less.IH [OF _ x(2)] size_operand [OF logical_operands_mem [OF that(1) x(1)] x(1)] 1(2)
      show ?thesis by simp
    qed
    obtain cs where cs: "traverse (\<lambda>(key, v). if List.member logical_keys key then Inr None
        else build_field_condition ps mc ov key v) d = Inr cs" "fconds = somes cs"
      using 1(9) by (auto simp: field_conditions_def res_simps)
    have "cond_typed (ref_type mc ov) c" if "c \<in> set fconds" for c
      using traverse_mem [OF cs(1)] that field_condition_typed [OF _ mc ov]
      unfolding cs(2) somes_mem by (fastforce split: if_splits)
    with IH [OF 1(3,4)] IH [OF 1(5,6)] IH [OF 1(7,8)] show ?thesis
      unfolding 1(10) by (intro and_all_typed) (auto split: if_splits)
  qed
qed

end
