(* ===== verification/FilterProps.thy ===== *)
theory FilterProps
  imports FilterSpec
begin

text \<open>
  What an accepted filter is: bounded in depth, on filterable keys only, typed, and selecting exactly the
  rows the filter means; what a session allowlist is and that enforcing it on documents is exact.
\<close>

section \<open>Sub-filters\<close>

inductive subfilter :: "pyval \<Rightarrow> nat \<Rightarrow> pyval \<Rightarrow> bool" for v where
  whole: "subfilter v 0 v"
| operand: "subfilter v n (PDict d) \<Longrightarrow> List.member logical_keys k \<Longrightarrow> dget d k = Some (PList xs)
    \<Longrightarrow> x \<in> set xs \<Longrightarrow> subfilter v (Suc n) x"

definition filterable_keys :: "model_class \<Rightarrow> overrides \<Rightarrow> string list" where
  "filterable_keys mc ov =
     map fst ov
     @ (if mc_name mc = ''Message'' then map fst COLUMN_MAPPING_MESSAGES
        else if mc_name mc = ''Document'' then map fst COLUMN_MAPPING_DOCUMENTS @ map fst (mc_columns mc)
        else map fst COLUMN_MAPPING)"

lemma traverse_all_ok: "traverse f xs = Inr ys \<Longrightarrow> x \<in> set xs \<Longrightarrow> \<exists>y. f x = Inr y"
  by (induction xs arbitrary: ys) (auto simp: res_simps)

lemma dget_fst: "dget d k = Some v \<Longrightarrow> k \<in> fst ` set d"
  by (force dest: dget_SomeD)

lemma field_filterable:
  assumes "build_field_condition ps mc ov key v = Inr c"
  shows "key \<in> set (filterable_keys mc ov)"
  using assms
  by (auto simp: build_field_condition_def filterable_keys_def column_name_of_def
      split: option.splits if_splits dest!: dget_fst)
    (auto simp: COLUMN_MAPPING_DOCUMENTS_def)

lemma subfilter_built:
  assumes "subfilter v n w" and "build_filter_conditions ps mc ov 0 v = Inr c"
  shows "\<exists>c'. build_filter_conditions ps mc ov n w = Inr c'"
  using assms
proof (induction rule: subfilter.induct)
  case (operand n d k xs x)
  then obtain c' where "build_filter_conditions ps mc ov n (PDict d) = Inr c'" by blast
  then show ?case
  proof (cases rule: build_filter_cases)
    case (1 d' ands and_conditions ors or_conditions nots not_conditions fconds)
    have "logical_operands d k = Inr xs" using operand.hyps(3) by (simp add: logical_operands_def)
    moreover have "k = ''AND'' \<or> k = ''OR'' \<or> k = ''NOT''"
      using operand.hyps(2) by (auto simp: logical_keys_def)
    ultimately show ?thesis
      using 1(2,3,5,7) traverse_all_ok [OF 1(4)] traverse_all_ok [OF 1(6)] traverse_all_ok [OF 1(8)]
        operand.hyps(4) by auto
  qed
qed blast

lemma built_keys:
  assumes "build_filter_conditions ps mc ov n w = Inr c"
  shows "n \<le> 5 \<and> (\<exists>d. w = PDict d \<and>
    (\<forall>(k, v) \<in> set d. List.member logical_keys k \<or> List.member (filterable_keys mc ov) k))"
  using assms
proof (cases rule: build_filter_cases)
  case (1 d ands and_conditions ors or_conditions nots not_conditions fconds)
  then obtain cs where cs: "traverse (\<lambda>(key, v). if List.member logical_keys key then Inr None
      else build_field_condition ps mc ov key v) d = Inr cs"
    by (auto simp: field_conditions_def res_simps)
  have "List.member logical_keys k \<or> List.member (filterable_keys mc ov) k" if "(k, v) \<in> set d" for k v
    using traverse_all_ok [OF cs that] field_filterable by (auto split: if_splits)
  with 1(1,2) show ?thesis by blast
qed

lemma applied:
  "apply_filter ps mc ov (Some d) = Inr (Some c) \<Longrightarrow> build_filter_conditions ps mc ov 0 (PDict d) = Inr c"
  by (auto simp: apply_filter_def split: sum.splits)

section \<open>Allowlists\<close>

text \<open>The sessions a recall filter names.\<close>

fun named_sessions :: "pyval \<Rightarrow> string set" where
  "named_sessions (PStr s) = {s}"
| "named_sessions (PList xs) = {s. PStr s \<in> set xs}"
| "named_sessions (PDict d) = (case dget d ''in'' of Some (PList xs) \<Rightarrow> {s. PStr s \<in> set xs} | _ \<Rightarrow> {})"
| "named_sessions _ = {}"

lemma allowlist_entries_sound:
  assumes "allowlist_entries seen xs = Inr ys"
  shows "distinct ys" "set ys \<inter> set seen = {}" "\<forall>s \<in> set ys. resource_name s"
    "set ys \<union> set seen = {s. PStr s \<in> set xs} \<union> set seen" "length ys \<le> length xs"
    "\<forall>x \<in> set xs. \<exists>s. x = PStr s"
  using assms
proof (induction xs arbitrary: seen ys)
  case (Cons x xs)
  {
    case 1
    then show ?case using Cons.IH(1,2) by (fastforce simp: res_simps split: pyval.splits if_splits)
  next
    case 2
    then show ?case using Cons.IH(2) by (fastforce simp: res_simps split: pyval.splits if_splits)
  next
    case 3
    then show ?case using Cons.IH(3) by (fastforce simp: res_simps split: pyval.splits if_splits)
  next
    case 4
    then show ?case using Cons.IH(4) by (fastforce simp: res_simps split: pyval.splits if_splits)
  next
    case 5
    then show ?case using Cons.IH(5) by (fastforce simp: res_simps split: pyval.splits if_splits)
  next
    case 6
    then show ?case using Cons.IH(6) by (fastforce simp: res_simps split: pyval.splits if_splits)
  }
qed simp_all

lemma allowlist_sound:
  assumes "normalize_session_allowlist xs m = Inr ys"
  shows "distinct ys \<and> length ys \<le> MAX_SESSION_ALLOWLIST_ENTRIES \<and> list_all resource_name ys
    \<and> set ys = {s. PStr s \<in> set xs} \<and> (case m of None \<Rightarrow> True | Some s \<Rightarrow> s \<in> set ys)"
proof -
  have "allowlist_entries [] xs = Inr ys" "length xs \<le> MAX_SESSION_ALLOWLIST_ENTRIES"
    "case m of None \<Rightarrow> True | Some s \<Rightarrow> s \<in> set ys"
    using assms by (auto simp: normalize_session_allowlist_def res_simps split: option.splits if_splits)
  with allowlist_entries_sound [OF this(1)] show ?thesis by (simp add: list_all_iff)
qed

lemma resource_not_wildcard: "resource_name s \<Longrightarrow> s \<noteq> ''*''"
  by (auto simp: resource_name_def resource_char_def)

lemma extracted_sound:
  assumes "extract_session_allowlist (Some d) m = Inr (Some names)"
  shows "\<exists>v. dget d ''session_id'' = Some v \<and> fst ` set d \<subseteq> {''session_id''}
    \<and> distinct names \<and> length names \<le> MAX_SESSION_ALLOWLIST_ENTRIES \<and> list_all resource_name names
    \<and> set names = named_sessions v \<and> (case m of None \<Rightarrow> True | Some s \<Rightarrow> s \<in> set names)"
proof -
  have keys: "fst ` set d \<subseteq> {''session_id''}"
    using assms by (auto simp: extract_session_allowlist_def list_ex_iff split: if_splits)
  obtain v where v: "dget d ''session_id'' = Some v"
    using assms by (auto simp: extract_session_allowlist_def split: if_splits option.splits)
  have "\<exists>xs. normalize_session_allowlist xs m = Inr names \<and> {s. PStr s \<in> set xs} = named_sessions v"
    using assms v
    by (auto simp: extract_session_allowlist_def res_simps split: if_splits pyval.splits list.splits
        prod.splits char.splits bool.splits)
  with keys v allowlist_sound show ?thesis by fastforce
qed

definition ALLOWLIST_SAFE_LEVELS :: "string list" where
  "ALLOWLIST_SAFE_LEVELS = [''explicit'']"

text \<open>The filter recall adds to its document queries.\<close>

definition session_filter :: "string list \<Rightarrow> pydict" where
  "session_filter names =
     [(''session_name'', PDict [(''in'', PList (map PStr names))]),
      (''level'', PDict [(''in'', PList (map PStr ALLOWLIST_SAFE_LEVELS))])]"

lemma coerce_texts:
  assumes "dget ENUM_COLUMN_VALUES nm = None \<or> (\<forall>s \<in> set ss. List.member (the (dget ENUM_COLUMN_VALUES nm)) s)"
  shows "traverse (\<lambda>x. coerce_operand ps TText nm x ''in'') (map PStr ss) = Inr (map VText ss)"
  using assms by (induction ss) (auto simp: coerce_operand_def split: option.splits)

lemma build_text_in:
  assumes "''*'' \<notin> set ss"
    and "dget ENUM_COLUMN_VALUES nm = None \<or> (\<forall>s \<in> set ss. List.member (the (dget ENUM_COLUMN_VALUES nm)) s)"
    and "\<not> List.member JSONB_COLUMNS nm"
  shows "build_column_condition ps c TText nm (PDict [(''in'', PList (map PStr ss))])
    = Inr (Some (CIn c (map VText ss)))"
proof -
  have "wildcard \<notin> set (map PStr ss)" using assms(1) by auto
  then show ?thesis
    using coerce_texts [OF assms(2), of ps]
    by (simp add: build_column_condition_def is_comparison_dict_def COMPARISON_OPERATORS_def
        build_comparison_conditions_def build_column_operator_def build_in_def iter_values_def
        combine_conditions_with_and_def)
qed

lemma session_filter_applied:
  assumes "list_all resource_name names"
  shows "apply_filter ps document_model [] (Some (session_filter names))
    = Inr (Some (CAnd [CIn (Column ''session_name'') (map VText names),
                       CIn (Column ''level'') (map VText ALLOWLIST_SAFE_LEVELS)]))"
proof -
  have "''*'' \<notin> set names" using assms resource_not_wildcard by (auto simp: list_all_iff)
  then have "build_column_condition ps (Column ''session_name'') TText ''session_name''
      (PDict [(''in'', PList (map PStr names))]) = Inr (Some (CIn (Column ''session_name'') (map VText names)))"
    by (rule build_text_in) (simp_all add: ENUM_COLUMN_VALUES_def JSONB_COLUMNS_def)
  moreover have "build_column_condition ps (Column ''level'') TText ''level''
      (PDict [(''in'', PList (map PStr ALLOWLIST_SAFE_LEVELS))])
      = Inr (Some (CIn (Column ''level'') (map VText ALLOWLIST_SAFE_LEVELS)))"
    by (rule build_text_in) (simp_all add: ENUM_COLUMN_VALUES_def JSONB_COLUMNS_def ALLOWLIST_SAFE_LEVELS_def)
  ultimately show ?thesis
    by (simp add: apply_filter_def build_filter_conditions.simps session_filter_def logical_operands_def
        field_conditions_def logical_keys_def and_all_def build_field_condition_def column_name_of_def
        document_model_def COLUMN_MAPPING_DOCUMENTS_def)
qed

lemma selects_text_in:
  "selects pg row (CIn c (map VText ss)) \<longleftrightarrow> (\<exists>s \<in> set ss. fr_value row c = Some (VText s))"
  by (cases "fr_value row c"; cases "the (fr_value row c)") (auto simp: filter_simps same_value_def)

lemma ne_column:
  assumes "v \<noteq> wildcard" "\<And>xs. v \<noteq> PList xs" "\<And>d. v \<noteq> PDict d"
  shows "column_matches pg ps row c ct nm (PDict [(''ne'', v)]) \<longleftrightarrow> \<not> column_matches pg ps row c ct nm v"
  using assms
  by (cases v) (auto simp: column_matches_def is_comparison_dict_def COMPARISON_OPERATORS_def operator_matches_def)

lemma ne_field:
  assumes "build_field_condition ps mc ov k (PDict [(''ne'', v)]) = Inr x"
    and v: "v \<noteq> wildcard" "\<And>xs. v \<noteq> PList xs" "\<And>d. v \<noteq> PDict d"
  shows "field_matches pg ps mc ov row k (PDict [(''ne'', v)]) \<longleftrightarrow> \<not> field_matches pg ps mc ov row k v"
  using assms(1) v(1) ne_column [OF v]
  by (auto simp: field_matches_def build_field_condition_def build_link_condition_def build_link_operator_def
      res_simps split: option.splits if_splits)

lemma single_field:
  assumes "build_filter_conditions ps mc ov 0 (PDict [(k, v)]) = Inr c" and "\<And>xs. v \<noteq> PList xs"
  shows "\<not> List.member logical_keys k \<and> (\<exists>x. build_field_condition ps mc ov k v = Inr x)"
  using assms
  by (auto simp: build_filter_conditions.simps logical_operands_def field_conditions_def logical_keys_def
      res_simps split: if_splits pyval.splits)

section \<open>Properties\<close>

text \<open>C32. The condition built for a filter selects a row, under the database's three-valued logic, exactly
  when the row meets the filter read as a plain yes-or-no statement: NULL columns match no value but do
  match every exclusion, patterns match the literal text, an empty \<open>in\<close> matches nothing and a wildcard
  matches everything, inside any nesting of \<open>AND\<close>, \<open>OR\<close> and \<open>NOT\<close>.\<close>

theorem filter_semantics:
  assumes "apply_filter ps mc ov (Some d) = Inr (Some c)"
    and "mc \<in> set models" and "overrides_ok ov"
  shows "selects pg row c \<longleftrightarrow> filter_matches pg ps mc ov row (PDict d)"
  using applied [OF assms(1)] assms(2,3) by (rule filter_meaning)

text \<open>C33. An accepted filter is typed: every operand bound against a column has the column's type, patterns
  only reach text, containment and field access only JSON, so the statement cannot fail in the
  database for an operator that does not exist between two types.\<close>

theorem filter_well_typed:
  assumes "apply_filter ps mc ov (Some d) = Inr (Some c)"
    and "mc \<in> set models" and "overrides_ok ov"
  shows "cond_typed (ref_type mc ov) c"
  using applied [OF assms(1)] assms(2,3) by (rule filter_typed)

text \<open>An accepted filter nests its logical operators at most five deep, is made of objects only, and
  names no key outside the allowlist of its resource at any depth.\<close>

theorem accepted_filter_bounded:
  assumes "apply_filter ps mc ov (Some d) = Inr (Some c)" and "subfilter (PDict d) n w"
  shows "n \<le> 5 \<and> (\<exists>d'. w = PDict d' \<and>
    (\<forall>(k, v) \<in> set d'. List.member logical_keys k \<or> List.member (filterable_keys mc ov) k))"
  using subfilter_built [OF assms(2) applied [OF assms(1)]] built_keys by blast

text \<open>C34. A session allowlist that is accepted names exactly the requested sessions, once each, at most 1000,
  all of them possible session names, with the session the request itself carries among them; and the
  filter that enforces it on documents is never refused and selects exactly the explicit documents of
  those sessions, so an empty allowlist recalls nothing and a document of no session is never recalled.\<close>

theorem session_allowlist_enforced:
  assumes "extract_session_allowlist (Some d) must_include = Inr (Some names)"
  shows "(\<exists>v. dget d ''session_id'' = Some v \<and> set names = named_sessions v)
    \<and> distinct names \<and> length names \<le> 1000 \<and> list_all resource_name names
    \<and> (case must_include of None \<Rightarrow> True | Some s \<Rightarrow> s \<in> set names)
    \<and> (\<exists>c. apply_filter ps document_model [] (Some (session_filter names)) = Inr (Some c)
      \<and> (selects pg row c \<longleftrightarrow> (\<exists>s \<in> set names. fr_value row (Column ''session_name'') = Some (VText s))
                           \<and> fr_value row (Column ''level'') = Some (VText ''explicit'')))"
proof -
  obtain v where v: "dget d ''session_id'' = Some v" "distinct names"
      "length names \<le> MAX_SESSION_ALLOWLIST_ENTRIES" "list_all resource_name names"
      "set names = named_sessions v" "case must_include of None \<Rightarrow> True | Some s \<Rightarrow> s \<in> set names"
    using extracted_sound [OF assms] by blast
  have "selects pg row (CIn (Column ''level'') (map VText ALLOWLIST_SAFE_LEVELS))
      \<longleftrightarrow> fr_value row (Column ''level'') = Some (VText ''explicit'')"
    unfolding selects_text_in by (simp add: ALLOWLIST_SAFE_LEVELS_def)
  with v session_filter_applied [OF v(4)] show ?thesis
    by (simp add: MAX_SESSION_ALLOWLIST_ENTRIES_def selects_simps selects_text_in)
qed

text \<open>On one field, excluding a value with \<open>ne\<close> and with \<open>NOT\<close> selects the same rows, those whose
  field is unset included; so does excluding null.\<close>

theorem ne_agrees_with_not:
  assumes ne: "apply_filter ps mc ov (Some [(k, PDict [(''ne'', v)])]) = Inr (Some c)"
    and not: "apply_filter ps mc ov (Some [(''NOT'', PList [PDict [(k, v)]])]) = Inr (Some c')"
    and mc: "mc \<in> set models" and ov: "overrides_ok ov"
    and v: "v \<noteq> wildcard" "\<And>xs. v \<noteq> PList xs" "\<And>d. v \<noteq> PDict d"
  shows "selects pg row c \<longleftrightarrow> selects pg row c'"
proof -
  from single_field [OF applied [OF ne]]
  obtain x where k: "\<not> List.member logical_keys k"
    and x: "build_field_condition ps mc ov k (PDict [(''ne'', v)]) = Inr x" by blast
  from k have "k \<noteq> ''AND''" "k \<noteq> ''OR''" "k \<noteq> ''NOT''" by (auto simp: logical_keys_def)
  with k ne_field [OF x v] show ?thesis
    unfolding filter_meaning [OF applied [OF ne] mc ov] filter_meaning [OF applied [OF not] mc ov]
    by (simp add: logical_keys_def)
qed

text \<open>Filters the documentation gives as examples are refused: a peer list by \<open>peer_id\<close>, a session list
  by a \<open>peer_id\<close> wildcard, a workspace list by \<open>name\<close>, a message list by \<open>content\<close>.\<close>

theorem documented_filters_rejected:
  "apply_filter ps peer_model [] (Some [(''peer_id'', PStr ''alice'')]) = Inl FilterError
   \<and> apply_filter ps session_model [] (Some [(''peer_id'', wildcard)]) = Inl FilterError
   \<and> apply_filter ps workspace_model [] (Some [(''name'', PDict [(''contains'', PStr ''prod'')])]) = Inl FilterError
   \<and> apply_filter ps message_model []
     (Some [(''AND'', PList [PDict [(''content'', PDict [(''icontains'', PStr ''error'')])]])]) = Inl FilterError"
  by (simp_all add: apply_filter_def build_filter_conditions.simps logical_operands_def field_conditions_def
      logical_keys_def build_field_condition_def column_name_of_def COLUMN_MAPPING_def COLUMN_MAPPING_MESSAGES_def
      peer_model_def session_model_def workspace_model_def message_model_def)

section \<open>Witnesses\<close>

definition demo_parsers :: parsers where
  "demo_parsers =
     \<lparr>ps_decimal = (\<lambda>s. if s = ''5'' then Some (Finite 5) else None),
      ps_int = (\<lambda>s. if s = ''5'' then Some 5 else None), ps_float = (\<lambda>s. None),
      ps_str = (\<lambda>v. ''None''), ps_iso = (\<lambda>s. if s = ''2024-01-01T00:00:00Z'' then Some 0 else None),
      ps_strptime = (\<lambda>fmt s. None)\<rparr>"

definition demo_pg :: pg_env where
  "demo_pg =
     \<lparr>pg_text_le = (\<lambda>x y. length x \<le> length y), pg_fold = (\<lambda>c. c),
      pg_json_contains = (=), pg_render = (\<lambda>v. ''?''), pg_numeric = (\<lambda>s. None)\<rparr>"

text \<open>A conclusion of no session, and a filter that excludes one session.\<close>

definition demo_row :: filter_row where
  "demo_row =
     \<lparr>fr_value = (\<lambda>c. if c = Column ''level'' then Some (VText ''explicit'')
                   else if c = Column ''times_derived'' then Some (VNumber (Finite 7)) else None),
      fr_linked = (\<lambda>field entry. field = ''source_ids'' \<and> entry = ''x'')\<rparr>"

definition demo_filter :: pydict where
  "demo_filter =
     [(''NOT'', PList [PDict [(''session_id'', PStr ''s1'')]]),
      (''level'', PList [PStr ''explicit'', PStr ''deductive'']),
      (''times_derived'', PDict [(''gte'', PStr ''5'')]),
      (''source_ids'', PStr ''x'')]"

definition demo_cond :: cond where
  "demo_cond =
     CAnd [CAnd [CIsNotTrue (CCompare OpEq (Column ''session_name'') (VText ''s1''))],
       CIn (Column ''level'') [VText ''explicit'', VText ''deductive''],
       CCompare OpGe (Column ''times_derived'') (VNumber (Finite 5)),
       COr [CLinked ''source_ids'' ''x'', CContains (Column ''legacy_source_ids'') (PList [PStr ''x''])]]"

lemma demo_applied: "apply_filter demo_parsers document_model [] (Some demo_filter) = Inr (Some demo_cond)"
  by code_simp

lemma demo_model: "document_model \<in> set models" "overrides_ok []"
  by (simp_all add: models_def overrides_ok_def)

theorem filter_semantics_witness:
  "filter_matches demo_pg demo_parsers document_model [] demo_row (PDict demo_filter)"
proof -
  have "selects demo_pg demo_row demo_cond" by code_simp
  then show ?thesis using filter_semantics [OF demo_applied demo_model] by simp
qed

theorem filter_well_typed_witness: "cond_typed (ref_type document_model []) demo_cond"
  by (rule filter_well_typed [OF demo_applied demo_model])

theorem accepted_filter_bounded_witness:
  "List.member (filterable_keys document_model []) ''session_id''"
proof -
  have "subfilter (PDict demo_filter) (Suc 0) (PDict [(''session_id'', PStr ''s1'')])"
    by (rule subfilter.operand [OF subfilter.whole, where k = "''NOT''" and xs = "[PDict [(''session_id'', PStr ''s1'')]]"])
      (simp_all add: demo_filter_def logical_keys_def)
  from accepted_filter_bounded [OF demo_applied this] show ?thesis by (simp add: logical_keys_def)
qed

definition demo_recall :: pydict where
  "demo_recall = [(''session_id'', PDict [(''in'', PList [PStr ''s1'', PStr ''s2'', PStr ''s1''])])]"

theorem session_allowlist_enforced_witness:
  "\<exists>c. apply_filter demo_parsers document_model [] (Some (session_filter [''s1'', ''s2''])) = Inr (Some c)
    \<and> \<not> selects demo_pg demo_row c"
proof -
  have "extract_session_allowlist (Some demo_recall) (Some ''s2'') = Inr (Some [''s1'', ''s2''])"
    by code_simp
  from session_allowlist_enforced [OF this, of demo_parsers demo_pg demo_row] show ?thesis
    by (auto simp: demo_row_def)
qed

theorem ne_agrees_with_not_witness:
  "selects demo_pg demo_row (CDistinct (Column ''session_name'') (VText ''s1''))
   \<longleftrightarrow> selects demo_pg demo_row (CAnd [CIsNotTrue (CCompare OpEq (Column ''session_name'') (VText ''s1''))])"
proof (rule ne_agrees_with_not [OF _ _ demo_model])
  show "apply_filter demo_parsers document_model [] (Some [(''session_id'', PDict [(''ne'', PStr ''s1'')])])
      = Inr (Some (CDistinct (Column ''session_name'') (VText ''s1'')))" by code_simp
  show "apply_filter demo_parsers document_model []
      (Some [(''NOT'', PList [PDict [(''session_id'', PStr ''s1'')]])])
      = Inr (Some (CAnd [CIsNotTrue (CCompare OpEq (Column ''session_name'') (VText ''s1''))]))" by code_simp
qed simp_all

end
