(* ===== verification/Conclusions.thy ===== *)
theory Conclusions
  imports Prelude
begin

text \<open>
  Storing conclusions (src/src/crud/document.py): the rows of the documents table with their two link
  tables, exact and semantic deduplication of a batch, reinforcement and replacement of existing rows,
  and soft deletion. Vector search, the tokenizer, the database's normalization and the foreign keys are
  the record \<open>doc_env\<close>. A batch runs in one transaction of three looks at the table: the candidates,
  the exact matches, and the rows it locks; what other transactions commit in between is an argument.
\<close>

section \<open>Rows\<close>

datatype sync_state = SyncPending | Synced | SyncFailed

type_synonym links = "(string \<times> nat) list"

record document =
  d_id :: string
  d_workspace :: string
  d_observer :: string
  d_observed :: string
  d_content :: string
  d_level :: string
  d_session :: "string option"
  d_times_derived :: int
  d_embedding :: "pyfloat list"
  d_source_links :: links
  d_message_links :: links
  d_created_at :: timestamp
  d_deleted_at :: "timestamp option"
  d_sync_state :: sync_state
  d_sync_attempts :: int
  d_last_sync_at :: "timestamp option"

text \<open>\<open>schemas.DocumentCreate\<close>; the metadata is stored unread and left out.\<close>

record doc_create =
  dc_content :: string
  dc_session :: "string option"
  dc_level :: string
  dc_times_derived :: int
  dc_embedding :: "pyfloat list"
  dc_source_ids :: "string list option"
  dc_source_message_ids :: "string list option"

record scope =
  sc_workspace :: string
  sc_observer :: string
  sc_observed :: string

record doc_env =
  de_pgvector :: bool
  de_near :: "doc_create \<Rightarrow> string list option"
  de_encode :: "string \<Rightarrow> nat list option"
  de_lower :: "string \<Rightarrow> string"
  de_sql_normalize :: "string \<Rightarrow> string"
  de_messages :: "string list"
  de_sessions :: "string list"
  de_fresh :: "nat \<Rightarrow> string"
  de_now :: timestamp
  de_upsert_ok :: bool

definition in_scope :: "scope \<Rightarrow> document \<Rightarrow> bool" where
  "in_scope sc d \<longleftrightarrow>
     d_workspace d = sc_workspace sc \<and> d_observer d = sc_observer sc \<and> d_observed d = sc_observed sc"

definition live :: "document \<Rightarrow> bool" where
  "live d \<longleftrightarrow> d_deleted_at d = None"

section \<open>Links\<close>

text \<open>\<open>SOURCE_ID_RE.match\<close>: \<open>$\<close> also matches before a final newline. The check constraint of the tables
  is on the whole text.\<close>

definition id_char :: "char \<Rightarrow> bool" where
  "id_char c =
     (let n = (of_char c :: nat)
      in (97 \<le> n \<and> n \<le> 122) \<or> (65 \<le> n \<and> n \<le> 90) \<or> (48 \<le> n \<and> n \<le> 57) \<or> n = 95 \<or> n = 45)"

definition well_formed_id :: "string \<Rightarrow> bool" where
  "well_formed_id s = (length s = 21 \<and> list_all id_char s)"

definition source_id_match :: "string \<Rightarrow> bool" where
  "source_id_match s =
     (well_formed_id s \<or> (s \<noteq> [] \<and> last s = CHR 0x0A \<and> well_formed_id (butlast s)))"

definition build_links :: "string list option \<Rightarrow> links" where
  "build_links ids =
     (case ids of
        None \<Rightarrow> []
      | Some xs \<Rightarrow> filter (\<lambda>(sid, i). source_id_match sid) (zip (fromkeys xs) [0..<length xs]))"

definition cited_ids :: "document \<Rightarrow> string list option" where
  "cited_ids d = (if d_message_links d = [] then None else Some (map fst (sort_key snd (d_message_links d))))"

definition ids_of :: "string list option \<Rightarrow> string list" where
  "ids_of ids = (case ids of None \<Rightarrow> [] | Some xs \<Rightarrow> xs)"

definition merge_citations :: "string list option \<Rightarrow> string list option \<Rightarrow> string list option" where
  "merge_citations first incoming =
     (let xs = fromkeys (ids_of first @ ids_of incoming) in if xs = [] then None else Some xs)"

section \<open>Deduplication keys and candidates\<close>

type_synonym dedup_key = "string \<times> string \<times> string option"

definition normalize_content :: "doc_env \<Rightarrow> string \<Rightarrow> string" where
  "normalize_content de content = de_lower de (py_strip content)"

definition dedup_key_of :: "doc_env \<Rightarrow> string \<Rightarrow> string \<Rightarrow> string option \<Rightarrow> dedup_key" where
  "dedup_key_of de content level session_name =
     (normalize_content de content, level, if level = ''explicit'' then session_name else None)"

definition row_key :: "doc_env \<Rightarrow> document \<Rightarrow> dedup_key" where
  "row_key de d = dedup_key_of de (d_content d) (d_level d) (d_session d)"

definition create_key :: "doc_env \<Rightarrow> doc_create \<Rightarrow> dedup_key" where
  "create_key de doc = dedup_key_of de (dc_content doc) (dc_level doc) (dc_session doc)"

text \<open>The merge scope: a level and, for explicit documents, a session.\<close>

definition semantic_dup_filters :: "doc_create \<Rightarrow> (string \<times> string option) option" where
  "semantic_dup_filters doc =
     (if dc_level doc = ''explicit''
      then (case dc_session doc of None \<Rightarrow> None | Some s \<Rightarrow> Some (dc_level doc, Some s))
      else Some (dc_level doc, None))"

definition matches_semantic_dup_filters :: "document \<Rightarrow> string \<times> string option \<Rightarrow> bool" where
  "matches_semantic_dup_filters d f =
     (d_level d = fst f \<and> (case snd f of None \<Rightarrow> True | Some s \<Rightarrow> d_session d = Some s))"

definition fetch_documents_by_ids :: "scope \<Rightarrow> document list \<Rightarrow> string list \<Rightarrow> document list" where
  "fetch_documents_by_ids sc db ids =
     List.map_filter (\<lambda>i. find (\<lambda>d. d_id d = i \<and> in_scope sc d \<and> live d) db) ids"

text \<open>The nearest document by embedding: one at most, only where the document has a merge scope and an
  embedding. The batch query of pgvector fails as a whole, the external store per document.\<close>

definition dup_candidates :: "doc_env \<Rightarrow> doc_create list \<Rightarrow> string list list res" where
  "dup_candidates de documents =
     traverse (\<lambda>doc.
       if semantic_dup_filters doc = None \<or> dc_embedding doc = [] then Inr []
       else (case de_near de doc of
               Some ids \<Rightarrow> Inr (take 1 ids)
             | None \<Rightarrow> if de_pgvector de then Inl SQLAlchemyError else Inr [])) documents"

section \<open>Scoring\<close>

datatype dup_result = NotDuplicate | ReplacedExisting | Rejected

definition score_semantic_dup :: "doc_env \<Rightarrow> doc_create \<Rightarrow> document \<Rightarrow> dup_result option" where
  "score_semantic_dup de doc existing =
     (case (de_encode de (dc_content doc), de_encode de (d_content existing)) of
        (Some new, Some old) \<Rightarrow>
          let tokens_new = remdups new; tokens_existing = remdups old;
              unique_new = length (filter (\<lambda>t. \<not> List.member tokens_existing t) tokens_new);
              unique_existing = length (filter (\<lambda>t. \<not> List.member tokens_new t) tokens_existing);
              score_new = length tokens_new + unique_new * 10;
              score_existing = length tokens_existing + unique_existing * 10
          in Some (if score_existing \<le> score_new then ReplacedExisting else Rejected)
      | _ \<Rightarrow> None)"

text \<open>\<open>None\<close>: the tokenizer raised.\<close>

definition resolve_semantic_dup ::
  "doc_env \<Rightarrow> doc_create \<Rightarrow> string list \<Rightarrow> document list \<Rightarrow> (dup_result \<times> document option) option" where
  "resolve_semantic_dup de doc candidate_ids candidates =
     (case semantic_dup_filters doc of
        None \<Rightarrow> Some (NotDuplicate, None)
      | Some f \<Rightarrow>
          (case List.map_filter (\<lambda>i. find (\<lambda>d. d_id d = i \<and> matches_semantic_dup_filters d f) candidates)
                  candidate_ids of
             [] \<Rightarrow> Some (NotDuplicate, None)
           | existing # _ \<Rightarrow> map_option (\<lambda>r. (r, Some existing)) (score_semantic_dup de doc existing)))"

section \<open>The batch\<close>

datatype op_kind = Reinforce | Replace

text \<open>The fallback document is an index into the batch: the code's objects are shared and mutable.\<close>

record row_op =
  ro_kind :: op_kind
  ro_document_id :: string
  ro_incoming_times_derived :: int
  ro_fallback :: "nat option"

record batch_state =
  bs_docs :: "doc_create list"
  bs_first :: "dedup_key \<Rightarrow> nat option"
  bs_pending :: "dedup_key \<Rightarrow> nat option"
  bs_rows :: "(nat \<times> document) list"
  bs_replaced_by :: "string \<Rightarrow> (nat \<times> dedup_key) option"
  bs_ops :: "row_op list"
  bs_times :: "string \<Rightarrow> int option"
  bs_in_batch :: nat
  bs_existing :: nat
  bs_rejected :: nat
  bs_replaced :: nat

definition initial_batch :: "doc_create list \<Rightarrow> batch_state" where
  "initial_batch documents =
     \<lparr>bs_docs = documents, bs_first = (\<lambda>_. None), bs_pending = (\<lambda>_. None), bs_rows = [],
      bs_replaced_by = (\<lambda>_. None), bs_ops = [], bs_times = (\<lambda>_. None),
      bs_in_batch = 0, bs_existing = 0, bs_rejected = 0, bs_replaced = 0\<rparr>"

definition document_model_from_create :: "doc_env \<Rightarrow> scope \<Rightarrow> doc_create \<Rightarrow> document" where
  "document_model_from_create de sc doc =
     \<lparr>d_id = [], d_workspace = sc_workspace sc, d_observer = sc_observer sc, d_observed = sc_observed sc,
      d_content = dc_content doc, d_level = dc_level doc, d_session = dc_session doc,
      d_times_derived = dc_times_derived doc,
      d_embedding = (if de_pgvector de then dc_embedding doc else []),
      d_source_links = build_links (dc_source_ids doc),
      d_message_links = build_links (dc_source_message_ids doc),
      d_created_at = de_now de, d_deleted_at = None,
      d_sync_state = SyncPending, d_sync_attempts = 0, d_last_sync_at = None\<rparr>"

definition cite :: "nat \<Rightarrow> string list option \<Rightarrow> doc_create list \<Rightarrow> doc_create list" where
  "cite i ids docs = docs[i := (docs ! i)\<lparr>dc_source_message_ids := ids\<rparr>]"

definition set_row_links :: "nat \<Rightarrow> links \<Rightarrow> (nat \<times> document) list \<Rightarrow> (nat \<times> document) list" where
  "set_row_links i l rows = map (\<lambda>(j, d). if j = i then (j, d\<lparr>d_message_links := l\<rparr>) else (j, d)) rows"

text \<open>Citations folded into a document of the batch and into its pending row, if it has one.\<close>

definition fold_citations :: "nat \<Rightarrow> dedup_key \<Rightarrow> string list option \<Rightarrow> batch_state \<Rightarrow> batch_state" where
  "fold_citations i key incoming st =
     (let ids = merge_citations (dc_source_message_ids (bs_docs st ! i)) incoming
      in st\<lparr>bs_docs := cite i ids (bs_docs st),
            bs_rows := (if bs_pending st key = None then bs_rows st
                        else set_row_links i (build_links ids) (bs_rows st))\<rparr>)"

definition bump_times :: "document \<Rightarrow> int \<Rightarrow> batch_state \<Rightarrow> batch_state" where
  "bump_times existing n st =
     (let current = (case bs_times st (d_id existing) of None \<Rightarrow> d_times_derived existing | Some t \<Rightarrow> t)
      in st\<lparr>bs_times := (bs_times st)(d_id existing \<mapsto> max (current + 1) n)\<rparr>)"

definition reinforce_op :: "nat \<Rightarrow> document \<Rightarrow> batch_state \<Rightarrow> batch_state" where
  "reinforce_op i existing st =
     (let n = dc_times_derived (bs_docs st ! i)
      in (bump_times existing n st)
           \<lparr>bs_ops := bs_ops st @ [\<lparr>ro_kind = Reinforce, ro_document_id = d_id existing,
                                    ro_incoming_times_derived = n, ro_fallback = Some i\<rparr>]\<rparr>)"

definition replace_op :: "nat \<Rightarrow> dedup_key \<Rightarrow> document \<Rightarrow> batch_state \<Rightarrow> batch_state" where
  "replace_op i key existing st =
     (let st' = bump_times existing (dc_times_derived (bs_docs st ! i)) st;
          doc = bs_docs st ! i;
          ids = merge_citations (cited_ids existing) (dc_source_message_ids doc)
      in st'\<lparr>bs_docs := (bs_docs st)[i := doc\<lparr>dc_times_derived := the (bs_times st' (d_id existing)),
                                             dc_source_message_ids := ids\<rparr>],
             bs_ops := bs_ops st @ [\<lparr>ro_kind = Replace, ro_document_id = d_id existing,
                                     ro_incoming_times_derived = 1, ro_fallback = None\<rparr>],
             bs_replaced_by := (if bs_replaced_by st (d_id existing) = None
                                then (bs_replaced_by st)(d_id existing \<mapsto> (i, key)) else bs_replaced_by st),
             bs_replaced := bs_replaced st + 1\<rparr>)"

definition accept_document :: "doc_env \<Rightarrow> scope \<Rightarrow> nat \<Rightarrow> dedup_key \<Rightarrow> batch_state \<Rightarrow> batch_state" where
  "accept_document de sc i key st =
     st\<lparr>bs_rows := bs_rows st @ [(i, document_model_from_create de sc (bs_docs st ! i))],
        bs_pending := (bs_pending st)(key \<mapsto> i)\<rparr>"

definition refused :: "doc_create \<Rightarrow> bool" where
  "refused doc = (dc_level doc = ''explicit'' \<and> dc_session doc = None)"

text \<open>One pass of the loop. \<open>existing\<close> is the prefetched exact match per key.\<close>

definition batch_document ::
  "doc_env \<Rightarrow> scope \<Rightarrow> bool \<Rightarrow> (dedup_key \<Rightarrow> document option) \<Rightarrow> (nat \<Rightarrow> string list) \<Rightarrow> document list
    \<Rightarrow> nat \<Rightarrow> batch_state \<Rightarrow> batch_state" where
  "batch_document de sc deduplicate existing candidate_ids candidates i st =
     (let doc = bs_docs st ! i; key = create_key de doc
      in if refused doc then st
         else (case bs_first st key of
           Some f \<Rightarrow> (fold_citations f key (dc_source_message_ids doc) st)\<lparr>bs_in_batch := bs_in_batch st + 1\<rparr>
         | None \<Rightarrow>
             (let st = st\<lparr>bs_first := (bs_first st)(key \<mapsto> i)\<rparr>
              in case existing key of
                   Some e \<Rightarrow> (reinforce_op i e st)\<lparr>bs_existing := bs_existing st + 1\<rparr>
                 | None \<Rightarrow>
                     if \<not> deduplicate then accept_document de sc i key st
                     else (case resolve_semantic_dup de doc (candidate_ids i) candidates of
                             None \<Rightarrow> st
                           | Some (ReplacedExisting, Some e) \<Rightarrow> accept_document de sc i key (replace_op i key e st)
                           | Some (Rejected, Some e) \<Rightarrow> (reinforce_op i e st)\<lparr>bs_rejected := bs_rejected st + 1\<rparr>
                           | Some _ \<Rightarrow> accept_document de sc i key st))))"

text \<open>A reinforcement of a row the batch replaces gives its citations to the replacement.\<close>

definition redirect_citations :: "row_op \<Rightarrow> batch_state \<Rightarrow> batch_state" where
  "redirect_citations op st =
     (case (ro_kind op, ro_fallback op, bs_replaced_by st (ro_document_id op)) of
        (Reinforce, Some b, Some (r, key)) \<Rightarrow>
          fold_citations r key (dc_source_message_ids (bs_docs st ! b)) st
      | _ \<Rightarrow> st)"

section \<open>Row updates\<close>

definition append_citations :: "string list option \<Rightarrow> links \<Rightarrow> links" where
  "append_citations incoming existing =
     foldl (\<lambda>ls (mid, i). if List.member (map fst ls) mid then ls else ls @ [(mid, length ls)])
       existing (build_links incoming)"

definition update_row :: "string \<Rightarrow> (document \<Rightarrow> document) \<Rightarrow> document list \<Rightarrow> document list" where
  "update_row i f db = map (\<lambda>d. if d_id d = i then f d else d) db"

definition locked_row :: "scope \<Rightarrow> document list \<Rightarrow> string \<Rightarrow> document option" where
  "locked_row sc db i = find (\<lambda>d. d_id d = i \<and> in_scope sc d) db"

definition stale_at_lock :: "scope \<Rightarrow> document list \<Rightarrow> string \<Rightarrow> bool" where
  "stale_at_lock sc db i = (case locked_row sc db i of None \<Rightarrow> True | Some d \<Rightarrow> \<not> live d)"

definition reinforce_row :: "int \<Rightarrow> string list option \<Rightarrow> document \<Rightarrow> document" where
  "reinforce_row n incoming d =
     d\<lparr>d_times_derived := max (d_times_derived d + 1) n,
       d_message_links := append_citations incoming (d_message_links d)\<rparr>"

text \<open>The pass over the operations: the table and the fallbacks so far.\<close>

definition apply_row_op ::
  "doc_env \<Rightarrow> scope \<Rightarrow> (string \<Rightarrow> bool) \<Rightarrow> doc_create list \<Rightarrow> row_op \<Rightarrow> document list \<times> nat list
    \<Rightarrow> document list \<times> nat list" where
  "apply_row_op de sc stale docs op s =
     (case ro_kind op of
        Replace \<Rightarrow>
          (case locked_row sc (fst s) (ro_document_id op) of
             Some d \<Rightarrow> if live d
                       then (update_row (d_id d) (\<lambda>d. d\<lparr>d_deleted_at := Some (de_now de)\<rparr>) (fst s), snd s)
                       else s
           | None \<Rightarrow> s)
      | Reinforce \<Rightarrow>
          if stale (ro_document_id op)
          then (fst s, snd s @ (case ro_fallback op of None \<Rightarrow> [] | Some b \<Rightarrow> [b]))
          else (case locked_row sc (fst s) (ro_document_id op) of
                  Some d \<Rightarrow>
                    if live d
                    then (update_row (d_id d)
                            (reinforce_row (ro_incoming_times_derived op)
                               (case ro_fallback op of None \<Rightarrow> None | Some b \<Rightarrow> dc_source_message_ids (docs ! b)))
                            (fst s), snd s)
                    else s
                | None \<Rightarrow> s))"

definition apply_document_row_updates ::
  "doc_env \<Rightarrow> scope \<Rightarrow> doc_create list \<Rightarrow> row_op list \<Rightarrow> document list \<Rightarrow> document list \<times> nat list" where
  "apply_document_row_updates de sc docs ops db =
     foldl (\<lambda>s op. apply_row_op de sc (stale_at_lock sc db) docs op s) (db, []) ops"

section \<open>The transaction\<close>

text \<open>The check constraints and foreign keys, checked on rows written; new rows get their ids here.\<close>

definition link_ok :: "string \<Rightarrow> bool" where
  "link_ok s = well_formed_id s"

definition row_ok :: "doc_env \<Rightarrow> document \<Rightarrow> bool" where
  "row_ok de d \<longleftrightarrow>
     int (length (d_content d)) \<le> 65535
     \<and> list_all link_ok (map fst (d_source_links d))
     \<and> list_all (\<lambda>s. link_ok s \<and> List.member (de_messages de) s) (map fst (d_message_links d))
     \<and> (case d_session d of None \<Rightarrow> True | Some s \<Rightarrow> List.member (de_sessions de) s)"

definition with_ids :: "doc_env \<Rightarrow> document list \<Rightarrow> document list" where
  "with_ids de rows = map (\<lambda>(k, d). d\<lparr>d_id := de_fresh de k\<rparr>) (zip [0..<length rows] rows)"

definition mark_synced :: "doc_env \<Rightarrow> document \<Rightarrow> document" where
  "mark_synced de d = d\<lparr>d_sync_state := Synced, d_last_sync_at := Some (de_now de), d_sync_attempts := 0\<rparr>"

definition mark_unsynced :: "doc_env \<Rightarrow> document \<Rightarrow> document" where
  "mark_unsynced de d = d\<lparr>d_sync_attempts := d_sync_attempts d + 1, d_last_sync_at := Some (de_now de)\<rparr>"

text \<open>After the commit: the rows whose document has an embedding are marked by how the upsert went.\<close>

definition sync_rows :: "doc_env \<Rightarrow> string list \<Rightarrow> document list \<Rightarrow> document list" where
  "sync_rows de ids db =
     map (\<lambda>d. if List.member ids (d_id d) then (if de_upsert_ok de then mark_synced de d else mark_unsynced de d)
              else d) db"

record create_result =
  cr_created :: "doc_create list"
  cr_in_batch :: nat
  cr_existing :: nat
  cr_rejected :: nat
  cr_replaced :: nat

definition existing_by_key :: "doc_env \<Rightarrow> scope \<Rightarrow> doc_create list \<Rightarrow> document list \<Rightarrow> dedup_key \<Rightarrow> document option" where
  "existing_by_key de sc documents db key =
     find (\<lambda>d. row_key de d = key)
       (filter (\<lambda>d. in_scope sc d \<and> live d
          \<and> list_ex (\<lambda>doc. normalize_content de (dc_content doc) = de_sql_normalize de (d_content d)) documents) db)"

definition plan_batch ::
  "doc_env \<Rightarrow> scope \<Rightarrow> bool \<Rightarrow> doc_create list \<Rightarrow> document list \<Rightarrow> document list \<Rightarrow> batch_state res" where
  "plan_batch de sc deduplicate documents seen1 seen2 =
     res_map (\<lambda>candidate_ids.
         let candidates = fetch_documents_by_ids sc seen1 (remdups (concat candidate_ids));
             st = foldl (\<lambda>st i. batch_document de sc deduplicate (existing_by_key de sc documents seen2)
                               (\<lambda>i. candidate_ids ! i) candidates i st)
                    (initial_batch documents) [0..<length documents]
         in foldl (\<lambda>st op. redirect_citations op st) st (bs_ops st))
       (if deduplicate then dup_candidates de documents else Inr (map (\<lambda>_. []) documents))"

text \<open>The transaction that writes the batch. Its one failure here is a violated constraint, which the code turns into
  \<open>ValidationException\<close>; another database error (a deadlock, a lost connection) rolls back as well and is raised
  as it is. A row that was written is checked whole, so that a foreign key it had before is checked again.\<close>

definition commit_batch ::
  "doc_env \<Rightarrow> scope \<Rightarrow> batch_state \<Rightarrow> document list \<Rightarrow> (create_result \<times> document list) res" where
  "commit_batch de sc st db =
     (let (db', fallbacks) = apply_document_row_updates de sc (bs_docs st) (bs_ops st) db;
          accepted = map fst (bs_rows st) @ fallbacks;
          rows = map snd (bs_rows st) @ map (\<lambda>b. document_model_from_create de sc (bs_docs st ! b)) fallbacks;
          new = with_ids de rows;
          table = db' @ new
      in if list_all (\<lambda>d. List.member db d \<or> row_ok de d) table \<and> distinct (map d_id table)
         then let synced = map snd (filter (\<lambda>(b, i). dc_embedding (bs_docs st ! b) \<noteq> [])
                                     (zip accepted (map d_id new)))
              in Inr (\<lparr>cr_created = map (\<lambda>b. bs_docs st ! b) accepted, cr_in_batch = bs_in_batch st,
                       cr_existing = bs_existing st, cr_rejected = bs_rejected st,
                       cr_replaced = bs_replaced st\<rparr>, sync_rows de synced table)
         else Inl ValidationException)"

text \<open>\<open>seen1\<close> and \<open>seen2\<close> are the table at the two prefetches, \<open>db\<close> the table at the row locks.\<close>

definition create_documents ::
  "doc_env \<Rightarrow> scope \<Rightarrow> bool \<Rightarrow> doc_create list \<Rightarrow> document list \<Rightarrow> document list \<Rightarrow> document list
    \<Rightarrow> (create_result \<times> document list) res" where
  "create_documents de sc deduplicate documents seen1 seen2 db =
     res_bind (plan_batch de sc deduplicate documents seen1 seen2) (\<lambda>st. commit_batch de sc st db)"

end
