(* ===== verification/ConclusionProps.thy ===== *)
theory ConclusionProps
  imports Conclusions
begin

text \<open>
  What storing a batch of conclusions promises: no second live row per deduplication key, no citation
  lost, nothing merged across levels or, for explicit conclusions, across sessions, no other pair's rows
  touched.
\<close>

declare split_paired_All [simp del] split_paired_Ex [simp del]

section \<open>Citations\<close>

lemma ids_of_simps [simp]: "ids_of None = []" "ids_of (Some xs) = xs"
  by (simp_all add: ids_of_def)

lemma set_merge [simp]:
  "set (ids_of (merge_citations a b)) = set (ids_of a) \<union> set (ids_of b)"
proof -
  have "fromkeys (ids_of a @ ids_of b) = [] \<longleftrightarrow> ids_of a @ ids_of b = []"
    by (metis append_is_Nil_conv set_empty set_first_seen Diff_empty list.set(1))
  then show ?thesis by (simp add: merge_citations_def Let_def)
qed

lemma length_first_seen: "length (first_seen seen xs) \<le> length xs"
  by (induction seen xs rule: first_seen.induct) auto

lemma set_build_links: "fst ` set (build_links ids) = {s \<in> set (ids_of ids). source_id_match s}"
proof (cases ids)
  case (Some xs)
  have "fst ` set (filter (\<lambda>(s, i). P s) (zip ys zs)) = {s \<in> set ys. P s}" if "length ys \<le> length zs"
    for P :: "string \<Rightarrow> bool" and ys and zs :: "nat list"
    using that by (induction ys zs rule: list_induct2') auto
  from this [of "fromkeys xs" "[0..<length xs]"] show ?thesis
    using length_first_seen [of "[]" xs] Some by (simp add: build_links_def)
qed (simp add: build_links_def)

lemma set_cited_ids: "set (ids_of (cited_ids d)) = fst ` set (d_message_links d)"
  by (simp add: cited_ids_def)

definition cites :: "doc_create \<Rightarrow> string set" where
  "cites doc = set (ids_of (dc_source_message_ids doc))"

section \<open>The batch invariant\<close>

text \<open>What a document keeps while its citations and its count grow.\<close>

definition same_doc :: "doc_create \<Rightarrow> doc_create \<Rightarrow> bool" where
  "same_doc a b \<longleftrightarrow>
     dc_content a = dc_content b \<and> dc_session a = dc_session b \<and> dc_level a = dc_level b
     \<and> dc_embedding a = dc_embedding b \<and> dc_source_ids a = dc_source_ids b"

lemma same_doc_refl [simp]: "same_doc a a"
  by (simp add: same_doc_def)

lemma same_doc_key: "same_doc a b \<Longrightarrow> create_key de a = create_key de b"
  by (simp add: same_doc_def create_key_def)

lemma same_doc_refused: "same_doc a b \<Longrightarrow> refused a = refused b"
  by (simp add: same_doc_def refused_def)

lemma same_doc_trans: "same_doc a b \<Longrightarrow> same_doc b c \<Longrightarrow> same_doc a c"
  by (simp add: same_doc_def)

text \<open>A row a document may be merged into: same level and, for explicit documents, same session.\<close>

definition compat :: "doc_create \<Rightarrow> document \<Rightarrow> bool" where
  "compat doc d \<longleftrightarrow> d_level d = dc_level doc \<and> (dc_level doc = ''explicit'' \<longrightarrow> d_session d = dc_session doc)"

definition extends :: "doc_create list \<Rightarrow> doc_create list \<Rightarrow> bool" where
  "extends docs docs' \<longleftrightarrow>
     length docs' = length docs
     \<and> (\<forall>i < length docs. same_doc (docs ! i) (docs' ! i) \<and> cites (docs ! i) \<subseteq> cites (docs' ! i))"

lemma extends_refl [simp]: "extends docs docs"
  by (simp add: extends_def)

lemma extends_trans: "extends a b \<Longrightarrow> extends b c \<Longrightarrow> extends a c"
  unfolding extends_def by (metis order_trans same_doc_trans)

definition rows_inv :: "doc_env \<Rightarrow> scope \<Rightarrow> doc_create list \<Rightarrow> batch_state \<Rightarrow> bool" where
  "rows_inv de sc docs st \<longleftrightarrow>
     extends docs (bs_docs st)
     \<and> distinct (map fst (bs_rows st))
     \<and> (\<forall>(i, d) \<in> set (bs_rows st). i < length docs
           \<and> d = document_model_from_create de sc (bs_docs st ! i)
           \<and> bs_pending st (create_key de (docs ! i)) = Some i)
     \<and> (\<forall>k f. bs_pending st k = Some f \<longrightarrow> f \<in> fst ` set (bs_rows st) \<and> k = create_key de (docs ! f))"

definition placed :: "batch_state \<Rightarrow> nat \<Rightarrow> bool" where
  "placed st f \<longleftrightarrow>
     f \<in> fst ` set (bs_rows st) \<or> (\<exists>op \<in> set (bs_ops st). ro_kind op = Reinforce \<and> ro_fallback op = Some f)"

text \<open>\<open>U\<close>: the documents the tokenizer may make the loop skip.\<close>

definition first_inv :: "doc_env \<Rightarrow> (doc_create \<Rightarrow> bool) \<Rightarrow> doc_create list \<Rightarrow> nat \<Rightarrow> batch_state \<Rightarrow> bool" where
  "first_inv de U docs n st \<longleftrightarrow>
     (\<forall>i < n. \<not> refused (docs ! i) \<longrightarrow>
        (\<exists>f. bs_first st (create_key de (docs ! i)) = Some f \<and> cites (docs ! i) \<subseteq> cites (bs_docs st ! f)))
     \<and> (\<forall>k f. bs_first st k = Some f \<longrightarrow> f < n \<and> k = create_key de (docs ! f) \<and> \<not> refused (docs ! f)
          \<and> (\<not> U (docs ! f) \<longrightarrow> placed st f))
     \<and> (\<forall>f \<in> fst ` set (bs_rows st). bs_first st (create_key de (docs ! f)) = Some f)"

section \<open>Folding citations\<close>

lemma length_cite [simp]: "length (cite i ids docs) = length docs"
  by (simp add: cite_def)

lemma fst_set_row_links [simp]: "map fst (set_row_links i l rows) = map fst rows"
  by (auto simp: set_row_links_def)

lemma fst_set_row_links' [simp]: "fst ` set (set_row_links i l rows) = fst ` set rows"
  by (metis fst_set_row_links list.set_map)

lemma fold_frame [simp]:
  "bs_first (fold_citations i k x st) = bs_first st" "bs_pending (fold_citations i k x st) = bs_pending st"
  "bs_replaced_by (fold_citations i k x st) = bs_replaced_by st" "bs_ops (fold_citations i k x st) = bs_ops st"
  "fst ` set (bs_rows (fold_citations i k x st)) = fst ` set (bs_rows st)"
  "map fst (bs_rows (fold_citations i k x st)) = map fst (bs_rows st)"
  "bs_times (fold_citations i k x st) = bs_times st"
  "bs_in_batch (fold_citations i k x st) = bs_in_batch st"
  "bs_existing (fold_citations i k x st) = bs_existing st"
  "bs_rejected (fold_citations i k x st) = bs_rejected st"
  "bs_replaced (fold_citations i k x st) = bs_replaced st"
  by (simp_all add: fold_citations_def Let_def)

lemma fold_docs:
  "i < length (bs_docs st) \<Longrightarrow> bs_docs (fold_citations i k x st) ! i
     = (bs_docs st ! i)\<lparr>dc_source_message_ids := merge_citations (dc_source_message_ids (bs_docs st ! i)) x\<rparr>"
  "j \<noteq> i \<Longrightarrow> bs_docs (fold_citations i k x st) ! j = bs_docs st ! j"
  "length (bs_docs (fold_citations i k x st)) = length (bs_docs st)"
  by (simp_all add: fold_citations_def Let_def cite_def)

lemma fold_cites:
  assumes "i < length (bs_docs st)"
  shows "cites (bs_docs (fold_citations i k x st) ! i) = cites (bs_docs st ! i) \<union> set (ids_of x)"
  by (simp add: fold_docs(1) [OF assms] cites_def)

lemma fold_extends:
  assumes "extends docs (bs_docs st)" and "i < length docs"
  shows "extends docs (bs_docs (fold_citations i k x st))"
    and "extends (bs_docs st) (bs_docs (fold_citations i k x st))"
proof -
  have i: "i < length (bs_docs st)" using assms by (simp add: extends_def)
  show "extends (bs_docs st) (bs_docs (fold_citations i k x st))"
    unfolding extends_def
  proof (intro conjI allI impI)
    fix j
    assume "j < length (bs_docs st)"
    then show "same_doc (bs_docs st ! j) (bs_docs (fold_citations i k x st) ! j)"
      and "cites (bs_docs st ! j) \<subseteq> cites (bs_docs (fold_citations i k x st) ! j)"
      using fold_docs(1) [OF i, of k x] fold_cites [OF i, of k x] i
      by (cases "j = i"; simp add: same_doc_def fold_docs(2))+
  qed (simp add: fold_docs)
  with assms(1) show "extends docs (bs_docs (fold_citations i k x st))" by (rule extends_trans)
qed

lemma fold_rows_inv:
  assumes inv: "rows_inv de sc docs st" and i: "i < length docs" and k: "k = create_key de (docs ! i)"
  shows "rows_inv de sc docs (fold_citations i k x st)"
proof -
  let ?st = "fold_citations i k x st"
  have len: "i < length (bs_docs st)" using inv i by (simp add: rows_inv_def extends_def)
  have row: "d = document_model_from_create de sc (bs_docs ?st ! j) \<and> j < length docs
      \<and> bs_pending st (create_key de (docs ! j)) = Some j"
    if "(j, d) \<in> set (bs_rows ?st)" for j d
  proof -
    have "j \<in> fst ` set (bs_rows st)" using imageI [OF that, of fst] by simp
    then obtain d0 where d0: "(j, d0) \<in> set (bs_rows st)" by auto
    with inv have j: "j < length docs" "d0 = document_model_from_create de sc (bs_docs st ! j)"
        "bs_pending st (create_key de (docs ! j)) = Some j"
      by (auto simp: rows_inv_def)
    have once: "d' = d0" if "(j, d') \<in> set (bs_rows st)" for d'
      using that d0 inv by (auto simp: rows_inv_def dest: eq_key_imp_eq_value)
    show ?thesis
    proof (cases "j = i")
      case True
      with j k have "bs_pending st k \<noteq> None" by simp
      with that True once have "d = d0\<lparr>d_message_links :=
          build_links (merge_citations (dc_source_message_ids (bs_docs st ! i)) x)\<rparr>"
        by (auto simp: fold_citations_def Let_def set_row_links_def split: if_splits)
      with True j fold_docs(1) [OF len, of k x] show ?thesis
        by (simp add: document_model_from_create_def)
    next
      case False
      with that have "(j, d) \<in> set (bs_rows st)"
        by (auto simp: fold_citations_def Let_def set_row_links_def split: if_splits)
      with once j False show ?thesis by (simp add: fold_docs(2))
    qed
  qed
  have "extends docs (bs_docs ?st)"
    using inv i by (intro fold_extends) (simp_all add: rows_inv_def)
  with row inv show ?thesis by (auto simp: rows_inv_def)
qed

lemma placed_fold [simp]: "placed (fold_citations i k x st) f = placed st f"
  by (simp add: placed_def)

lemma row_key_compat:
  assumes "row_key de e = create_key de doc"
  shows "compat doc e"
  using assms by (auto simp: row_key_def create_key_def dedup_key_of_def compat_def split: if_splits)

lemma map_filter_mem: "x \<in> set (List.map_filter f xs) \<longleftrightarrow> (\<exists>y \<in> set xs. f y = Some x)"
  by (force simp: List.map_filter_def)

lemma resolved:
  assumes "resolve_semantic_dup de doc ids cands = Some (res, Some e)"
  shows "e \<in> set cands \<and> compat doc e"
proof -
  obtain f es where f: "semantic_dup_filters doc = Some f"
    and e: "List.map_filter (\<lambda>i. find (\<lambda>d. d_id d = i \<and> matches_semantic_dup_filters d f) cands) ids = e # es"
    using assms by (auto simp: resolve_semantic_dup_def split: option.splits list.splits)
  then have "e \<in> set (List.map_filter (\<lambda>i. find (\<lambda>d. d_id d = i \<and> matches_semantic_dup_filters d f) cands) ids)"
    by simp
  then have "e \<in> set cands" "matches_semantic_dup_filters e f"
    unfolding map_filter_mem by (auto simp: find_Some_iff)
  with f show ?thesis
    by (auto simp: semantic_dup_filters_def matches_semantic_dup_filters_def compat_def split: if_splits option.splits)
qed

text \<open>The tokenizer failed on the document or on the row it was to be compared with.\<close>

definition unread :: "doc_env \<Rightarrow> document set \<Rightarrow> doc_create \<Rightarrow> bool" where
  "unread de K doc \<longleftrightarrow>
     (\<exists>e \<in> K. compat doc e \<and> (de_encode de (dc_content doc) = None \<or> de_encode de (d_content e) = None))"

lemma resolve_fails:
  assumes "resolve_semantic_dup de doc ids cands = None"
  shows "unread de (set cands) doc"
proof -
  obtain f e es where f: "semantic_dup_filters doc = Some f"
    and e: "List.map_filter (\<lambda>i. find (\<lambda>d. d_id d = i \<and> matches_semantic_dup_filters d f) cands) ids = e # es"
    and n: "score_semantic_dup de doc e = None"
    using assms by (auto simp: resolve_semantic_dup_def split: option.splits list.splits)
  from e have "e \<in> set (List.map_filter (\<lambda>i. find (\<lambda>d. d_id d = i \<and> matches_semantic_dup_filters d f) cands) ids)"
    by simp
  then have "e \<in> set cands" "matches_semantic_dup_filters e f"
    unfolding map_filter_mem by (auto simp: find_Some_iff)
  with f have "e \<in> set cands" "compat doc e"
    by (auto simp: semantic_dup_filters_def matches_semantic_dup_filters_def compat_def split: if_splits option.splits)
  moreover have "de_encode de (dc_content doc) = None \<or> de_encode de (d_content e) = None"
    using n by (auto simp: score_semantic_dup_def Let_def split: option.splits)
  ultimately show ?thesis unfolding unread_def by blast
qed

lemma unread_mono: "unread de A doc \<Longrightarrow> A \<subseteq> B \<Longrightarrow> unread de B doc"
  unfolding unread_def by blast

lemma unread_same: "same_doc a b \<Longrightarrow> unread de K b = unread de K a"
  by (simp add: unread_def same_doc_def compat_def)

lemma first_inv_row:
  "first_inv de U docs n st \<Longrightarrow> f \<in> fst ` set (bs_rows st) \<Longrightarrow> bs_first st (create_key de (docs ! f)) = Some f"
  unfolding first_inv_def by blast

lemma first_inv_D:
  assumes "first_inv de U docs n st" and "bs_first st k = Some f"
  shows "f < n" "k = create_key de (docs ! f)" "\<not> refused (docs ! f)"
  using assms unfolding first_inv_def by blast+

text \<open>The outcomes for a document whose key is new.\<close>

abbreviation with_first :: "doc_env \<Rightarrow> doc_create list \<Rightarrow> nat \<Rightarrow> batch_state \<Rightarrow> batch_state" where
  "with_first de docs n st \<equiv> st\<lparr>bs_first := (bs_first st)(create_key de (docs ! n) \<mapsto> n)\<rparr>"

lemma first_inv_step:
  assumes inv: "first_inv de U docs n st" and n: "\<not> refused (docs ! n)"
    and new: "bs_first st (create_key de (docs ! n)) = None"
    and frame: "bs_first st' = (bs_first st)(create_key de (docs ! n) \<mapsto> n)"
    and old: "\<And>i. i < n \<Longrightarrow> bs_docs st' ! i = bs_docs st ! i"
    and now: "cites (docs ! n) \<subseteq> cites (bs_docs st' ! n)"
    and rows: "fst ` set (bs_rows st') \<subseteq> insert n (fst ` set (bs_rows st))"
    and placed: "\<And>f. placed st f \<Longrightarrow> placed st' f" "\<not> U (docs ! n) \<longrightarrow> placed st' n"
  shows "first_inv de U docs (Suc n) st'"
  unfolding first_inv_def
proof (intro conjI allI impI ballI)
  fix i
  assume i: "i < Suc n" "\<not> refused (docs ! i)"
  show "\<exists>f. bs_first st' (create_key de (docs ! i)) = Some f \<and> cites (docs ! i) \<subseteq> cites (bs_docs st' ! f)"
  proof (cases "i = n")
    case True
    with frame now show ?thesis by simp
  next
    case False
    then obtain g where g: "bs_first st (create_key de (docs ! i)) = Some g" "cites (docs ! i) \<subseteq> cites (bs_docs st ! g)"
      using inv i by (auto simp: first_inv_def less_Suc_eq)
    moreover have "create_key de (docs ! i) \<noteq> create_key de (docs ! n)" using g(1) new by auto
    ultimately show ?thesis using frame old first_inv_D(1) [OF inv g(1)] by simp
  qed
next
  fix f
  assume "f \<in> fst ` set (bs_rows st')"
  with rows first_inv_row [OF inv] have "f = n \<or> bs_first st (create_key de (docs ! f)) = Some f" by blast
  then show "bs_first st' (create_key de (docs ! f)) = Some f" using frame new by auto
qed (use inv n frame placed in \<open>auto simp: first_inv_def less_Suc_eq split: if_splits\<close>)

text \<open>What a batch may merge, as an interface: \<open>C doc e\<close> says that the row \<open>e\<close> may stand for \<open>doc\<close>. Exact matches
  always may; it depends only on the keys of documents; and what replaces a row may stand for all the row does.\<close>

locale merge_scope =
  fixes de :: doc_env and C :: "doc_create \<Rightarrow> document \<Rightarrow> bool"
  assumes exact: "row_key de e = create_key de doc \<Longrightarrow> C doc e"
    and same: "create_key de a = create_key de b \<Longrightarrow> C a e = C b e"
    and through: "C a e \<Longrightarrow> C b e \<Longrightarrow> row_key de d = create_key de b \<Longrightarrow> C a d"
    and rows: "row_key de d = row_key de e \<Longrightarrow> C a d = C a e"
begin

text \<open>\<open>K\<close>: the rows of the prefetches.\<close>

definition ops_inv :: "document set \<Rightarrow> doc_create list \<Rightarrow> batch_state \<Rightarrow> bool" where
  "ops_inv K docs st \<longleftrightarrow>
     (\<forall>id r k. bs_replaced_by st id = Some (r, k) \<longrightarrow> r \<in> fst ` set (bs_rows st) \<and> k = create_key de (docs ! r)
        \<and> (\<exists>e \<in> K. d_id e = id \<and> C (docs ! r) e
              \<and> set (ids_of (cited_ids e)) \<subseteq> cites (bs_docs st ! r)))
     \<and> (\<forall>op \<in> set (bs_ops st). case ro_kind op of
          Replace \<Rightarrow> bs_replaced_by st (ro_document_id op) \<noteq> None
        | Reinforce \<Rightarrow> \<exists>b. ro_fallback op = Some b \<and> b < length docs \<and> b \<notin> fst ` set (bs_rows st)
            \<and> bs_first st (create_key de (docs ! b)) = Some b
            \<and> (\<exists>e \<in> K. d_id e = ro_document_id op \<and> C (docs ! b) e))"

lemma inv_initial:
  "rows_inv de sc docs (initial_batch docs)" "ops_inv K docs (initial_batch docs)"
  "first_inv de U docs 0 (initial_batch docs)"
  by (simp_all add: rows_inv_def ops_inv_def first_inv_def initial_batch_def)

lemma fold_ops_inv:
  assumes inv: "ops_inv K docs st" and i: "i < length docs" and ext: "extends docs (bs_docs st)"
  shows "ops_inv K docs (fold_citations i k x st)"
proof -
  have len: "i < length (bs_docs st)" using ext i by (simp add: extends_def)
  have more: "cites (bs_docs st ! r) \<subseteq> cites (bs_docs (fold_citations i k x st) ! r)" for r
    using fold_cites [OF len, of k x] by (cases "r = i") (auto simp: fold_docs(2))
  show ?thesis
    using inv more unfolding ops_inv_def by (simp cong: op_kind.case_cong) (meson order_trans)
qed

section \<open>The loop\<close>

definition batch_inv :: "scope \<Rightarrow> document set \<Rightarrow> (doc_create \<Rightarrow> bool) \<Rightarrow> doc_create list \<Rightarrow> nat \<Rightarrow> batch_state \<Rightarrow> bool" where
  "batch_inv sc K U docs n st \<longleftrightarrow> rows_inv de sc docs st \<and> ops_inv K docs st \<and> first_inv de U docs n st"

lemma batch_invD:
  assumes "batch_inv sc K U docs n st" and "n < length docs"
  shows "length (bs_docs st) = length docs" "same_doc (docs ! n) (bs_docs st ! n)"
    "cites (docs ! n) \<subseteq> cites (bs_docs st ! n)"
    "create_key de (bs_docs st ! n) = create_key de (docs ! n)"
    "refused (bs_docs st ! n) = refused (docs ! n)"
  using assms same_doc_key same_doc_refused
  by (auto simp: batch_inv_def rows_inv_def extends_def)

lemma inv_refused:
  assumes "batch_inv sc K U docs n st" and "refused (docs ! n)"
  shows "batch_inv sc K U docs (Suc n) st"
  using assms by (auto simp: batch_inv_def first_inv_def less_Suc_eq)

lemma inv_duplicate:
  assumes inv: "batch_inv sc K U docs n st" and n: "n < length docs"
    and f: "bs_first st (create_key de (docs ! n)) = Some f"
  shows "batch_inv sc K U docs (Suc n)
    (fold_citations f (create_key de (docs ! n)) (dc_source_message_ids (bs_docs st ! n)) st)"
proof -
  let ?st = "fold_citations f (create_key de (docs ! n)) (dc_source_message_ids (bs_docs st ! n)) st"
  have parts: "rows_inv de sc docs st" "ops_inv K docs st" "first_inv de U docs n st"
    using inv by (simp_all add: batch_inv_def)
  have ext: "extends docs (bs_docs st)" using parts(1) by (simp add: rows_inv_def)
  note F = first_inv_D [OF parts(3) f]
  have fl: "f < length docs" using F(1) n by simp
  have grow: "cites (bs_docs st ! i) \<subseteq> cites (bs_docs ?st ! i)" if "i < length docs" for i
    using fold_extends(2) [OF ext fl, of "create_key de (docs ! n)"] that batch_invD(1) [OF inv n]
    by (simp add: extends_def)
  have here: "cites (docs ! n) \<subseteq> cites (bs_docs ?st ! f)"
    using fold_cites [of f st] batch_invD(1,3) [OF inv n] fl by (auto simp: cites_def)
  have "first_inv de U docs (Suc n) ?st"
    unfolding first_inv_def
  proof (intro conjI allI impI ballI)
    fix i
    assume i: "i < Suc n" "\<not> refused (docs ! i)"
    show "\<exists>f. bs_first ?st (create_key de (docs ! i)) = Some f \<and> cites (docs ! i) \<subseteq> cites (bs_docs ?st ! f)"
    proof (cases "i = n")
      case True
      with f here show ?thesis by auto
    next
      case False
      then obtain g where g: "bs_first st (create_key de (docs ! i)) = Some g" "cites (docs ! i) \<subseteq> cites (bs_docs st ! g)"
        using parts(3) i by (auto simp: first_inv_def less_Suc_eq)
      with grow [of g] first_inv_D(1) [OF parts(3) g(1)] n show ?thesis by fastforce
    qed
  qed (use parts(3) in \<open>auto simp: first_inv_def less_Suc_eq\<close>)
  with fold_rows_inv [OF parts(1) fl F(2)] fold_ops_inv [OF parts(2) fl ext] show ?thesis
    by (simp add: batch_inv_def)
qed

lemma fresh_index:
  assumes "batch_inv sc K U docs n st"
  shows "n \<notin> fst ` set (bs_rows st)"
  using assms first_inv_row first_inv_D(1) unfolding batch_inv_def by blast

lemma ops_inv_first:
  assumes "ops_inv K docs st" and "bs_first st k = None"
  shows "ops_inv K docs (st\<lparr>bs_first := (bs_first st)(k \<mapsto> n)\<rparr>)"
  unfolding ops_inv_def
proof (intro conjI ballI)
  fix op
  assume "op \<in> set (bs_ops (st\<lparr>bs_first := (bs_first st)(k \<mapsto> n)\<rparr>))"
  then have "case ro_kind op of Replace \<Rightarrow> bs_replaced_by st (ro_document_id op) \<noteq> None
      | Reinforce \<Rightarrow> \<exists>b. ro_fallback op = Some b \<and> b < length docs \<and> b \<notin> fst ` set (bs_rows st)
          \<and> bs_first st (create_key de (docs ! b)) = Some b
          \<and> (\<exists>e \<in> K. d_id e = ro_document_id op \<and> C (docs ! b) e)"
    using assms(1) by (simp add: ops_inv_def)
  then show "case ro_kind op of
      Replace \<Rightarrow> bs_replaced_by (st\<lparr>bs_first := (bs_first st)(k \<mapsto> n)\<rparr>) (ro_document_id op) \<noteq> None
      | Reinforce \<Rightarrow> \<exists>b. ro_fallback op = Some b \<and> b < length docs
          \<and> b \<notin> fst ` set (bs_rows (st\<lparr>bs_first := (bs_first st)(k \<mapsto> n)\<rparr>))
          \<and> bs_first (st\<lparr>bs_first := (bs_first st)(k \<mapsto> n)\<rparr>) (create_key de (docs ! b)) = Some b
          \<and> (\<exists>e \<in> K. d_id e = ro_document_id op \<and> C (docs ! b) e)"
    using assms(2) by (cases "ro_kind op") auto
qed (use assms in \<open>simp add: ops_inv_def\<close>)

lemma inv_dropped:
  assumes inv: "batch_inv sc K U docs n st" and n: "n < length docs" "\<not> refused (docs ! n)"
    and new: "bs_first st (create_key de (docs ! n)) = None" and fails: "U (docs ! n)"
  shows "batch_inv sc K U docs (Suc n) (with_first de docs n st)"
proof -
  have "first_inv de U docs (Suc n) (with_first de docs n st)"
  proof (rule first_inv_step [where st = st])
    show "\<not> U (docs ! n) \<longrightarrow> placed (with_first de docs n st) n" using fails by blast
  qed (use inv n new batch_invD(3) [OF inv n(1)] in \<open>auto simp: batch_inv_def placed_def\<close>)
  moreover have "rows_inv de sc docs (with_first de docs n st)"
    using inv by (simp add: batch_inv_def rows_inv_def)
  moreover have "ops_inv K docs (with_first de docs n st)"
    using inv new ops_inv_first [where st = st] by (simp add: batch_inv_def)
  ultimately show ?thesis by (simp add: batch_inv_def)
qed

lemma inv_reinforced:
  assumes inv: "batch_inv sc K U docs n st" and n: "n < length docs" "\<not> refused (docs ! n)"
    and new: "bs_first st (create_key de (docs ! n)) = None"
    and e: "e \<in> K" "C (docs ! n) e"
  shows "batch_inv sc K U docs (Suc n) (reinforce_op n e (with_first de docs n st))"
proof -
  let ?st = "reinforce_op n e (with_first de docs n st)"
  have frame: "bs_docs ?st = bs_docs st" "bs_rows ?st = bs_rows st" "bs_pending ?st = bs_pending st"
      "bs_replaced_by ?st = bs_replaced_by st" "bs_first ?st = (bs_first st)(create_key de (docs ! n) \<mapsto> n)"
    by (simp_all add: reinforce_op_def bump_times_def Let_def)
  obtain op where op: "bs_ops ?st = bs_ops st @ [op]" "ro_kind op = Reinforce" "ro_fallback op = Some n"
      "ro_document_id op = d_id e"
    by (simp add: reinforce_op_def bump_times_def Let_def)
  have "first_inv de U docs (Suc n) ?st"
    by (rule first_inv_step [where st = st])
      (use inv n new batch_invD(3) [OF inv n(1)] frame op in \<open>auto simp: batch_inv_def placed_def\<close>)
  moreover have "rows_inv de sc docs ?st"
    using inv frame by (simp add: batch_inv_def rows_inv_def)
  moreover have "ops_inv K docs ?st"
    unfolding ops_inv_def
  proof (intro conjI allI impI ballI)
    fix op'
    assume "op' \<in> set (bs_ops ?st)"
    then consider "op' = op" | "op' \<in> set (bs_ops st)" using op(1) by auto
    then show "case ro_kind op' of Replace \<Rightarrow> bs_replaced_by ?st (ro_document_id op') \<noteq> None
        | Reinforce \<Rightarrow> \<exists>b. ro_fallback op' = Some b \<and> b < length docs \<and> b \<notin> fst ` set (bs_rows ?st)
            \<and> bs_first ?st (create_key de (docs ! b)) = Some b
            \<and> (\<exists>e \<in> K. d_id e = ro_document_id op' \<and> C (docs ! b) e)"
    proof cases
      case 1
      with op e frame n fresh_index [OF inv] show ?thesis by auto
    next
      case 2
      with inv have "case ro_kind op' of Replace \<Rightarrow> bs_replaced_by st (ro_document_id op') \<noteq> None
        | Reinforce \<Rightarrow> \<exists>b. ro_fallback op' = Some b \<and> b < length docs \<and> b \<notin> fst ` set (bs_rows st)
            \<and> bs_first st (create_key de (docs ! b)) = Some b
            \<and> (\<exists>e \<in> K. d_id e = ro_document_id op' \<and> C (docs ! b) e)"
        by (auto simp: batch_inv_def ops_inv_def)
      with new show ?thesis unfolding frame by (cases "ro_kind op'") auto
    qed
  qed (use inv frame in \<open>auto simp: batch_inv_def ops_inv_def\<close>)
  ultimately show ?thesis by (simp add: batch_inv_def)
qed

lemma inv_accepted:
  assumes inv: "batch_inv sc K U docs n st" and n: "n < length docs" "\<not> refused (docs ! n)"
    and new: "bs_first st (create_key de (docs ! n)) = None"
    and e: "case r of None \<Rightarrow> True | Some e \<Rightarrow> e \<in> K \<and> C (docs ! n) e"
  shows "batch_inv sc K U docs (Suc n)
    (accept_document de sc n (create_key de (docs ! n))
      (case r of None \<Rightarrow> with_first de docs n st
       | Some e \<Rightarrow> replace_op n (create_key de (docs ! n)) e (with_first de docs n st)))"
proof -
  let ?k = "create_key de (docs ! n)"
  let ?mid = "case r of None \<Rightarrow> with_first de docs n st | Some e \<Rightarrow> replace_op n ?k e (with_first de docs n st)"
  let ?st = "accept_document de sc n ?k ?mid"
  have parts: "rows_inv de sc docs st" "ops_inv K docs st" "first_inv de U docs n st"
    using inv by (simp_all add: batch_inv_def)
  note D = batch_invD [OF inv n(1)]
  have ext: "extends docs (bs_docs st)" using parts(1) by (simp add: rows_inv_def)
  have mid: "bs_rows ?mid = bs_rows st" "bs_pending ?mid = bs_pending st" "bs_first ?mid = (bs_first st)(?k \<mapsto> n)"
      "length (bs_docs ?mid) = length docs" "\<And>i. i \<noteq> n \<Longrightarrow> bs_docs ?mid ! i = bs_docs st ! i"
    using D(1) by (auto simp: replace_op_def bump_times_def Let_def split: option.splits)
  have midn: "same_doc (docs ! n) (bs_docs ?mid ! n)" "cites (bs_docs st ! n) \<subseteq> cites (bs_docs ?mid ! n)"
    using D(1,2) n(1) by (auto simp: replace_op_def bump_times_def Let_def same_doc_def cites_def split: option.splits)
  have ids: "cites (docs ! i) \<subseteq> cites (bs_docs ?mid ! i) \<and> same_doc (docs ! i) (bs_docs ?mid ! i)"
    if "i < length docs" for i
    using that ext midn mid(5) [of i] D(3) by (cases "i = n") (auto simp: extends_def)
  have ext': "extends docs (bs_docs ?mid)" using ids mid(4) by (simp add: extends_def)
  have old_rows: "j < n \<and> bs_first st (create_key de (docs ! j)) = Some j" if "(j, d) \<in> set (bs_rows st)" for j d
  proof -
    have "j \<in> fst ` set (bs_rows st)" using imageI [OF that, of fst] by simp
    then show ?thesis using first_inv_row [OF parts(3)] first_inv_D(1) [OF parts(3)] by blast
  qed
  have ops: "set (bs_ops ?mid) \<subseteq> set (bs_ops st) \<union> {op. ro_kind op = Replace \<and> bs_replaced_by ?mid (ro_document_id op) \<noteq> None}"
      "set (bs_ops st) \<subseteq> set (bs_ops ?mid)"
    by (auto simp: replace_op_def bump_times_def Let_def split: option.splits)
  have fr: "bs_docs ?st = bs_docs ?mid" "bs_ops ?st = bs_ops ?mid" "bs_first ?st = bs_first ?mid"
      "bs_replaced_by ?st = bs_replaced_by ?mid" "bs_pending ?st = (bs_pending st)(?k \<mapsto> n)"
      "bs_rows ?st = bs_rows st @ [(n, document_model_from_create de sc (bs_docs ?mid ! n))]"
    using mid by (simp_all add: accept_document_def)
  have rows: "rows_inv de sc docs ?st"
    unfolding rows_inv_def
  proof (intro conjI ballI allI impI)
    show "extends docs (bs_docs ?st)" using ext' fr by simp
    show "distinct (map fst (bs_rows ?st))"
      using parts(1) fresh_index [OF inv] fr by (auto simp: rows_inv_def)
    fix p
    assume "p \<in> set (bs_rows ?st)"
    then consider "p = (n, document_model_from_create de sc (bs_docs ?mid ! n))" | "p \<in> set (bs_rows st)"
      using fr by auto
    then show "case p of (i, d) \<Rightarrow> i < length docs \<and> d = document_model_from_create de sc (bs_docs ?st ! i)
        \<and> bs_pending ?st (create_key de (docs ! i)) = Some i"
    proof cases
      case 2
      obtain i d where p: "p = (i, d)" by (cases p)
      have "i < n" "bs_first st (create_key de (docs ! i)) = Some i" using old_rows 2 p by blast+
      moreover have "i < length docs \<and> d = document_model_from_create de sc (bs_docs st ! i)
          \<and> bs_pending st (create_key de (docs ! i)) = Some i"
        using 2 p parts(1) by (auto simp: rows_inv_def)
      ultimately show ?thesis using p fr mid(5) [of i] new by auto
    qed (use fr n in auto)
  next
    fix k f
    assume "bs_pending ?st k = Some f"
    with fr parts(1) show "f \<in> fst ` set (bs_rows ?st)" "k = create_key de (docs ! f)"
      by (auto simp: rows_inv_def split: if_splits)
  qed
  have first: "first_inv de U docs (Suc n) ?st"
  proof (rule first_inv_step [OF parts(3) n(2) new])
    show "\<And>f. placed st f \<Longrightarrow> placed ?st f" using ops(2) fr by (auto simp: placed_def)
  qed (use fr mid ids [OF n(1)] in \<open>auto simp: placed_def\<close>)
  have replaced: "bs_replaced_by ?mid id = bs_replaced_by st id
      \<or> (\<exists>e. r = Some e \<and> id = d_id e \<and> bs_replaced_by st id = None \<and> bs_replaced_by ?mid id = Some (n, ?k)
          \<and> set (ids_of (cited_ids e)) \<subseteq> cites (bs_docs ?mid ! n))" for id
    using D(1) n(1) by (auto simp: replace_op_def bump_times_def Let_def cites_def split: option.splits)
  have "ops_inv K docs ?st"
    unfolding ops_inv_def
  proof (intro conjI allI impI ballI)
    fix id q k
    assume "bs_replaced_by ?st id = Some (q, k)"
    with replaced [of id] fr consider "bs_replaced_by st id = Some (q, k)"
      | e where "r = Some e" "id = d_id e" "(q, k) = (n, ?k)" "set (ids_of (cited_ids e)) \<subseteq> cites (bs_docs ?mid ! n)"
      by auto
    then have "q \<in> fst ` set (bs_rows ?st) \<and> k = create_key de (docs ! q)
        \<and> (\<exists>e \<in> K. d_id e = id \<and> C (docs ! q) e \<and> set (ids_of (cited_ids e)) \<subseteq> cites (bs_docs ?st ! q))"
    proof cases
      case 1
      then have q: "q \<in> fst ` set (bs_rows st)" "k = create_key de (docs ! q)"
          "\<exists>e \<in> K. d_id e = id \<and> C (docs ! q) e \<and> set (ids_of (cited_ids e)) \<subseteq> cites (bs_docs st ! q)"
        using parts(2) by (auto simp: ops_inv_def)
      then have "q \<noteq> n" using fresh_index [OF inv] by blast
      with q fr mid(5) [of q] show ?thesis by auto
    next
      case 2
      with assms(5) fr show ?thesis by auto
    qed
    then show "q \<in> fst ` set (bs_rows ?st)" "k = create_key de (docs ! q)"
      "\<exists>e \<in> K. d_id e = id \<and> C (docs ! q) e \<and> set (ids_of (cited_ids e)) \<subseteq> cites (bs_docs ?st ! q)"
      by blast+
  next
    fix op
    assume "op \<in> set (bs_ops ?st)"
    with ops(1) fr(2) consider "op \<in> set (bs_ops st)"
      | "ro_kind op = Replace" "bs_replaced_by ?mid (ro_document_id op) \<noteq> None" by auto
    then show "case ro_kind op of Replace \<Rightarrow> bs_replaced_by ?st (ro_document_id op) \<noteq> None
        | Reinforce \<Rightarrow> \<exists>b. ro_fallback op = Some b \<and> b < length docs \<and> b \<notin> fst ` set (bs_rows ?st)
            \<and> bs_first ?st (create_key de (docs ! b)) = Some b
            \<and> (\<exists>e \<in> K. d_id e = ro_document_id op \<and> C (docs ! b) e)"
    proof cases
      case 1
      then have old: "case ro_kind op of Replace \<Rightarrow> bs_replaced_by st (ro_document_id op) \<noteq> None
        | Reinforce \<Rightarrow> \<exists>b. ro_fallback op = Some b \<and> b < length docs \<and> b \<notin> fst ` set (bs_rows st)
            \<and> bs_first st (create_key de (docs ! b)) = Some b
            \<and> (\<exists>e \<in> K. d_id e = ro_document_id op \<and> C (docs ! b) e)"
        using parts(2) by (auto simp: ops_inv_def)
      show ?thesis
      proof (cases "ro_kind op")
        case Replace
        with old replaced [of "ro_document_id op"] fr(4) show ?thesis by auto
      next
        case Reinforce
        with old obtain b where b: "ro_fallback op = Some b" "b < length docs" "b \<notin> fst ` set (bs_rows st)"
            "bs_first st (create_key de (docs ! b)) = Some b"
            "\<exists>e \<in> K. d_id e = ro_document_id op \<and> C (docs ! b) e" by auto
        then have "b < n" "create_key de (docs ! b) \<noteq> ?k" using first_inv_D(1) [OF parts(3)] new by auto
        with b Reinforce fr mid(3) show ?thesis by auto
      qed
    qed (use fr in simp)
  qed
  with rows first show ?thesis by (simp add: batch_inv_def)
qed

lemma inv_counters [simp]:
  "batch_inv sc K U docs n (st\<lparr>bs_in_batch := m\<rparr>) = batch_inv sc K U docs n st"
  "batch_inv sc K U docs n (st\<lparr>bs_existing := m\<rparr>) = batch_inv sc K U docs n st"
  "batch_inv sc K U docs n (st\<lparr>bs_rejected := m\<rparr>) = batch_inv sc K U docs n st"
  by (simp_all add: batch_inv_def rows_inv_def ops_inv_def first_inv_def placed_def cong: op_kind.case_cong)

lemma batch_step:
  assumes inv: "batch_inv sc K U docs n st" and n: "n < length docs"
    and existing: "\<And>k e. existing k = Some e \<Longrightarrow> e \<in> K \<and> row_key de e = k"
    and cands: "\<And>doc i r e. dd \<Longrightarrow> resolve_semantic_dup de doc (ids i) cands = Some (r, Some e) \<Longrightarrow> e \<in> K \<and> C doc e"
    and skips: "\<And>doc. dd \<Longrightarrow> unread de (set cands) doc \<Longrightarrow> U doc"
  shows "batch_inv sc K U docs (Suc n) (batch_document de sc dd existing ids cands n st)"
proof -
  note D = batch_invD [OF inv n]
  let ?k = "create_key de (docs ! n)"
  have same_n: "semantic_dup_filters (bs_docs st ! n) = semantic_dup_filters (docs ! n)"
      "\<And>e. C (bs_docs st ! n) e = C (docs ! n) e"
    using D(2) same [OF D(4)] by (auto simp: same_doc_def semantic_dup_filters_def split: option.split)
  show ?thesis
  proof (cases "refused (docs ! n)")
    case True
    then show ?thesis using inv_refused [OF inv] D by (simp add: batch_document_def Let_def)
  next
    case live: False
    show ?thesis
    proof (cases "bs_first st ?k")
      case (Some f)
      have "batch_inv sc K U docs (Suc n) (fold_citations f ?k (dc_source_message_ids (bs_docs st ! n)) st)"
        by (rule inv_duplicate [OF inv n Some])
      then have "batch_inv sc K U docs (Suc n)
          ((fold_citations f ?k (dc_source_message_ids (bs_docs st ! n)) st)\<lparr>bs_in_batch := bs_in_batch st + 1\<rparr>)"
        by simp
      with Some live D show ?thesis by (simp add: batch_document_def Let_def)
    next
      case new: None
      let ?st = "with_first de docs n st"
      have acc: "batch_inv sc K U docs (Suc n) (accept_document de sc n ?k ?st)"
        using inv_accepted [OF inv n live new, of None] by simp
      have rein: "batch_inv sc K U docs (Suc n) ((reinforce_op n e ?st)\<lparr>bs_existing := m\<rparr>)"
          "batch_inv sc K U docs (Suc n) ((reinforce_op n e ?st)\<lparr>bs_rejected := m\<rparr>)"
        if "e \<in> K" "C (docs ! n) e" for e m
        using inv_reinforced [OF inv n live new that] by simp_all
      show ?thesis
      proof (cases "existing ?k")
        case (Some e)
        then have "e \<in> K" "C (docs ! n) e" using existing exact by blast+
        with rein Some new live D show ?thesis by (simp add: batch_document_def Let_def)
      next
        case no_exact: None
        show ?thesis
        proof (cases dd)
          case False
          with acc new live no_exact D show ?thesis by (simp add: batch_document_def Let_def)
        next
          case True
          let ?r = "resolve_semantic_dup de (bs_docs st ! n) (ids n) cands"
          consider "?r = None" | res where "?r = Some (res, None)"
            | res e where "?r = Some (res, Some e)" by (metis option.exhaust surj_pair)
          then show ?thesis
          proof cases
            case 1
            with resolve_fails unread_same [OF D(2)] skips [OF True] have "U (docs ! n)" by blast
            from inv_dropped [OF inv n live new this] 1 True new live no_exact D show ?thesis
              by (simp add: batch_document_def Let_def)
          next
            case 2
            with acc True new live no_exact D show ?thesis
              by (simp add: batch_document_def Let_def split: dup_result.split)
          next
            case 3
            with cands [OF True 3] same_n have e: "e \<in> K" "C (docs ! n) e" by auto
            from inv_accepted [OF inv n live new, of "Some e"] e
            have "batch_inv sc K U docs (Suc n) (accept_document de sc n ?k (replace_op n ?k e ?st))" by simp
            with 3 rein [OF e] acc True new live no_exact D show ?thesis
              by (simp add: batch_document_def Let_def split: dup_result.split)
          qed
        qed
      qed
    qed
  qed
qed

lemma loop_inv:
  assumes existing: "\<And>k e. existing k = Some e \<Longrightarrow> e \<in> K \<and> row_key de e = k"
    and cands: "\<And>doc i r e. dd \<Longrightarrow> resolve_semantic_dup de doc (ids i) cands = Some (r, Some e) \<Longrightarrow> e \<in> K \<and> C doc e"
    and skips: "\<And>doc. dd \<Longrightarrow> unread de (set cands) doc \<Longrightarrow> U doc"
    and n: "n \<le> length docs"
  shows "batch_inv sc K U docs n
    (foldl (\<lambda>st i. batch_document de sc dd existing ids cands i st) (initial_batch docs) [0..<n])"
  using n
proof (induction n)
  case 0
  then show ?case using inv_initial by (simp add: batch_inv_def)
next
  case (Suc n)
  then have "batch_inv sc K U docs n
      (foldl (\<lambda>st i. batch_document de sc dd existing ids cands i st) (initial_batch docs) [0..<n])" by simp
  from batch_step [OF this _ existing cands skips] Suc.prems show ?case by simp
qed

lemma ops_inv_replaced:
  assumes "ops_inv K docs st" and "bs_replaced_by st i = Some (r, k)"
  shows "r \<in> fst ` set (bs_rows st)" "k = create_key de (docs ! r)"
    "\<exists>e \<in> K. d_id e = i \<and> C (docs ! r) e \<and> set (ids_of (cited_ids e)) \<subseteq> cites (bs_docs st ! r)"
  using assms unfolding ops_inv_def by blast+

lemma ops_inv_op:
  assumes "ops_inv K docs st" and "op \<in> set (bs_ops st)"
  shows "ro_kind op = Replace \<Longrightarrow> bs_replaced_by st (ro_document_id op) \<noteq> None"
    and "ro_kind op = Reinforce \<Longrightarrow> \<exists>b. ro_fallback op = Some b \<and> b < length docs
      \<and> b \<notin> fst ` set (bs_rows st) \<and> bs_first st (create_key de (docs ! b)) = Some b
      \<and> (\<exists>e \<in> K. d_id e = ro_document_id op \<and> C (docs ! b) e)"
  using assms by (fastforce simp: ops_inv_def)+

lemma rows_inv_row:
  assumes "rows_inv de sc docs st" and "(i, d) \<in> set (bs_rows st)"
  shows "i < length docs" "d = document_model_from_create de sc (bs_docs st ! i)"
    "bs_pending st (create_key de (docs ! i)) = Some i"
  using assms unfolding rows_inv_def by blast+

lemma rows_inv_index: "rows_inv de sc docs st \<Longrightarrow> i \<in> fst ` set (bs_rows st) \<Longrightarrow> i < length docs"
  by (elim imageE) (use rows_inv_row(1) in fastforce)

section \<open>Redirected citations\<close>

definition redirected :: "batch_state \<Rightarrow> row_op \<Rightarrow> bool" where
  "redirected st op \<longleftrightarrow>
     (case (ro_kind op, ro_fallback op, bs_replaced_by st (ro_document_id op)) of
        (Reinforce, Some b, Some (r, k)) \<Rightarrow> cites (bs_docs st ! b) \<subseteq> cites (bs_docs st ! r)
      | _ \<Rightarrow> True)"

text \<open>After the pass: replaced rows pass on what reinforcements would have given them.\<close>

lemma redirect_inv:
  assumes "rows_inv de sc docs st" "ops_inv K docs st" "first_inv de U docs N st"
    and "set ops \<subseteq> set (bs_ops st)"
  shows "let st' = foldl (\<lambda>st op. redirect_citations op st) st ops in
    rows_inv de sc docs st' \<and> ops_inv K docs st' \<and> extends (bs_docs st) (bs_docs st')
    \<and> bs_first st' = bs_first st \<and> bs_ops st' = bs_ops st \<and> bs_replaced_by st' = bs_replaced_by st
    \<and> map fst (bs_rows st') = map fst (bs_rows st)
    \<and> (\<forall>i. i \<notin> fst ` set (bs_rows st) \<longrightarrow> bs_docs st' ! i = bs_docs st ! i)
    \<and> (\<forall>op \<in> set ops. redirected st' op)
    \<and> bs_in_batch st' = bs_in_batch st \<and> bs_existing st' = bs_existing st
    \<and> bs_rejected st' = bs_rejected st \<and> bs_replaced st' = bs_replaced st"
  using assms(4)
proof (induction ops rule: rev_induct)
  case Nil
  then show ?case using assms by (simp add: Let_def)
next
  case (snoc op ops)
  let ?st = "foldl (\<lambda>st op. redirect_citations op st) st ops"
  have IH: "rows_inv de sc docs ?st" "ops_inv K docs ?st" "extends (bs_docs st) (bs_docs ?st)"
      "bs_first ?st = bs_first st" "bs_ops ?st = bs_ops st" "bs_replaced_by ?st = bs_replaced_by st"
      "map fst (bs_rows ?st) = map fst (bs_rows st)"
      "\<And>i. i \<notin> fst ` set (bs_rows st) \<Longrightarrow> bs_docs ?st ! i = bs_docs st ! i"
      "\<And>op. op \<in> set ops \<Longrightarrow> redirected ?st op"
      "bs_in_batch ?st = bs_in_batch st" "bs_existing ?st = bs_existing st"
      "bs_rejected ?st = bs_rejected st" "bs_replaced ?st = bs_replaced st"
    using snoc by (simp_all add: Let_def)
  have op: "op \<in> set (bs_ops ?st)" using snoc.prems IH(5) by simp
  have rows: "fst ` set (bs_rows ?st) = fst ` set (bs_rows st)" using IH(7) by (metis list.set_map)
  have ext: "extends docs (bs_docs ?st)" using IH(1) by (simp add: rows_inv_def)
  show ?case
  proof (cases "ro_kind op = Reinforce \<and> bs_replaced_by st (ro_document_id op) \<noteq> None")
    case False
    then have "redirect_citations op ?st = ?st"
      by (auto simp: redirect_citations_def [of op] IH(6) split: op_kind.splits option.splits)
    moreover have "redirected ?st op"
      using False by (auto simp: redirected_def IH(6) split: op_kind.splits option.splits)
    ultimately show ?thesis using IH by (auto simp: Let_def)
  next
    case True
    then obtain r k where r: "bs_replaced_by ?st (ro_document_id op) = Some (r, k)" using IH(6) by auto
    obtain b where b: "ro_fallback op = Some b" "b \<notin> fst ` set (bs_rows ?st)" "b < length docs"
      using ops_inv_op(2) [OF IH(2) op] True by blast
    have rk: "r \<in> fst ` set (bs_rows ?st)" "k = create_key de (docs ! r)"
      using ops_inv_replaced [OF IH(2) r] by blast+
    then have rl: "r < length docs" using rows_inv_index [OF IH(1)] by blast
    let ?st' = "fold_citations r k (dc_source_message_ids (bs_docs ?st ! b)) ?st"
    have eq: "redirect_citations op ?st = ?st'"
      using True r b by (simp add: redirect_citations_def [of op])
    have len: "r < length (bs_docs ?st)" using rl ext by (simp add: extends_def)
    have grow: "cites (bs_docs ?st ! i) \<subseteq> cites (bs_docs ?st' ! i)" for i
      using fold_cites [OF len, of k] by (cases "i = r") (auto simp: fold_docs(2))
    have others: "redirected ?st' op'" if "redirected ?st op'" "op' \<in> set (bs_ops ?st)" for op'
    proof (cases "ro_kind op'")
      case Reinforce
      with ops_inv_op(2) [OF IH(2) that(2)] obtain b'
        where b': "ro_fallback op' = Some b'" "b' \<notin> fst ` set (bs_rows ?st)" by blast
      with rk(1) have "b' \<noteq> r" by auto
      with that(1) Reinforce b' grow show ?thesis
        by (auto simp: redirected_def fold_docs(2) split: option.splits)
    qed (simp add: redirected_def)
    have "b \<noteq> r" using b rk by auto
    then have "redirected ?st' op"
      using True r b fold_cites [OF len, of k "dc_source_message_ids (bs_docs ?st ! b)"]
      by (auto simp: redirected_def fold_docs(2) cites_def)
    moreover have "redirected ?st' op'" if "op' \<in> set ops" for op'
      using others IH(9) that snoc.prems IH(5) by auto
    moreover have "rows_inv de sc docs ?st'" by (rule fold_rows_inv [OF IH(1) rl rk(2)])
    moreover have "ops_inv K docs ?st'" by (rule fold_ops_inv [OF IH(2) rl ext])
    moreover have "extends (bs_docs st) (bs_docs ?st')"
      by (rule extends_trans [OF IH(3) fold_extends(2) [OF ext rl]])
    moreover have "bs_docs ?st' ! i = bs_docs st ! i" if "i \<notin> fst ` set (bs_rows st)" for i
      using that rk(1) rows IH(8) by (metis fold_docs(2))
    ultimately show ?thesis using eq IH by (simp add: Let_def)
  qed
qed

end

section \<open>Row updates\<close>

definition op_on_row ::
  "doc_env \<Rightarrow> scope \<Rightarrow> (string \<Rightarrow> bool) \<Rightarrow> doc_create list \<Rightarrow> row_op \<Rightarrow> document \<Rightarrow> document" where
  "op_on_row de sc stale docs op d =
     (if ro_document_id op = d_id d \<and> in_scope sc d \<and> live d
      then (case ro_kind op of
              Replace \<Rightarrow> d\<lparr>d_deleted_at := Some (de_now de)\<rparr>
            | Reinforce \<Rightarrow> if stale (d_id d) then d
                else reinforce_row (ro_incoming_times_derived op)
                       (case ro_fallback op of None \<Rightarrow> None | Some b \<Rightarrow> dc_source_message_ids (docs ! b)) d)
      else d)"

definition row_after ::
  "doc_env \<Rightarrow> scope \<Rightarrow> (string \<Rightarrow> bool) \<Rightarrow> doc_create list \<Rightarrow> row_op list \<Rightarrow> document \<Rightarrow> document" where
  "row_after de sc stale docs ops d = foldl (\<lambda>d op. op_on_row de sc stale docs op d) d ops"

definition fallbacks :: "(string \<Rightarrow> bool) \<Rightarrow> row_op list \<Rightarrow> nat list" where
  "fallbacks stale ops =
     List.map_filter ro_fallback (filter (\<lambda>op. ro_kind op = Reinforce \<and> stale (ro_document_id op)) ops)"

text \<open>The columns no operation writes, and what operations only add.\<close>

definition kept :: "document \<Rightarrow> document \<Rightarrow> bool" where
  "kept d d' \<longleftrightarrow>
     d_id d' = d_id d \<and> d_workspace d' = d_workspace d \<and> d_observer d' = d_observer d
     \<and> d_observed d' = d_observed d \<and> d_content d' = d_content d \<and> d_level d' = d_level d
     \<and> d_session d' = d_session d \<and> d_source_links d' = d_source_links d
     \<and> fst ` set (d_message_links d) \<subseteq> fst ` set (d_message_links d')
     \<and> d_times_derived d \<le> d_times_derived d' \<and> (live d' \<longrightarrow> live d)"

lemma kept_refl [simp]: "kept d d"
  by (simp add: kept_def)

lemma kept_trans: "kept a b \<Longrightarrow> kept b c \<Longrightarrow> kept a c"
  unfolding kept_def by (auto intro: order_trans)

lemma set_append_citations:
  "fst ` set (append_citations ids ls) = fst ` set ls \<union> {s \<in> set (ids_of ids). source_id_match s}"
proof -
  have "fst ` set (foldl (\<lambda>ls (mid, i). if List.member (map fst ls) mid then ls else ls @ [(mid, length ls)]) ls xs)
      = fst ` set ls \<union> fst ` set xs" for xs :: links and ls
  proof (induction xs arbitrary: ls)
    case (Cons x xs)
    obtain mid i where x: "x = (mid, i)" by (cases x)
    show ?case
    proof (cases "mid \<in> fst ` set ls")
      case True
      then show ?thesis using Cons [of ls] x by (auto simp: insert_absorb)
    next
      case False
      then show ?thesis using Cons [of "ls @ [(mid, length ls)]"] x by simp
    qed
  qed simp
  then show ?thesis unfolding append_citations_def using set_build_links [of ids] by simp
qed

lemma op_on_row_kept: "kept d (op_on_row de sc stale docs op d)"
  by (auto simp: op_on_row_def kept_def reinforce_row_def live_def set_append_citations split: op_kind.split)

lemma row_after_kept: "kept d (row_after de sc stale docs ops d)"
  by (induction ops rule: rev_induct) (auto simp: row_after_def intro: kept_trans op_on_row_kept)

lemma row_after_frame: "\<not> in_scope sc d \<Longrightarrow> row_after de sc stale docs ops d = d"
  by (induction ops rule: rev_induct) (simp_all add: row_after_def op_on_row_def)

lemma row_after_append:
  "row_after de sc stale docs (ops @ [op]) d = op_on_row de sc stale docs op (row_after de sc stale docs ops d)"
  by (simp add: row_after_def)

lemma locked_row_Some:
  assumes "distinct (map d_id db)" and "locked_row sc db i = Some d"
  shows "d \<in> set db \<and> d_id d = i \<and> in_scope sc d \<and> (\<forall>d' \<in> set db. d_id d' = i \<longrightarrow> d' = d)"
proof -
  have d: "d \<in> set db" "d_id d = i" "in_scope sc d"
    using assms(2) by (auto simp: locked_row_def find_Some_iff)
  moreover have "d' = d" if "d' \<in> set db" "d_id d' = i" for d'
    using assms(1) d that by (auto simp: distinct_map inj_on_def)
  ultimately show ?thesis by blast
qed

lemma locked_row_None: "locked_row sc db i = None \<longleftrightarrow> (\<forall>d \<in> set db. d_id d = i \<longrightarrow> \<not> in_scope sc d)"
  by (auto simp: locked_row_def find_None_iff)

lemma apply_row_op_map:
  assumes "distinct (map d_id db)"
  shows "apply_row_op de sc stale docs op (db, fb)
    = (map (op_on_row de sc stale docs op) db, fb @ fallbacks stale [op])"
proof (cases "locked_row sc db (ro_document_id op)")
  case None
  then have "map (op_on_row de sc stale docs op) db = db"
    by (auto simp: locked_row_None op_on_row_def intro!: map_idI)
  with None show ?thesis
    by (auto simp: apply_row_op_def fallbacks_def List.map_filter_def split: op_kind.split option.split)
next
  case (Some d)
  note D = locked_row_Some [OF assms Some]
  have upd: "map (op_on_row de sc stale docs op) db = update_row (d_id d) f db"
    if "live d" "f d = op_on_row de sc stale docs op d" for f
    unfolding update_row_def
  proof (rule map_cong [OF refl])
    fix x
    assume "x \<in> set db"
    then have "d_id x = ro_document_id op \<Longrightarrow> x = d" using D by blast
    moreover have "d_id d = ro_document_id op" using D by blast
    ultimately show "op_on_row de sc stale docs op x = (if d_id x = d_id d then f x else x)"
      using that(2) by (cases "d_id x = d_id d") (simp_all add: op_on_row_def)
  qed
  have dead: "map (op_on_row de sc stale docs op) db = db"
    if "\<not> live d \<or> (ro_kind op = Reinforce \<and> stale (ro_document_id op))"
    using D that by (auto simp: op_on_row_def intro!: map_idI split: op_kind.split)
  have eff: "op_on_row de sc stale docs op d =
      (case ro_kind op of Replace \<Rightarrow> d\<lparr>d_deleted_at := Some (de_now de)\<rparr>
       | Reinforce \<Rightarrow> reinforce_row (ro_incoming_times_derived op)
                       (case ro_fallback op of None \<Rightarrow> None | Some b \<Rightarrow> dc_source_message_ids (docs ! b)) d)"
    if "live d" "\<not> (ro_kind op = Reinforce \<and> stale (ro_document_id op))"
    using D that by (auto simp: op_on_row_def split: op_kind.split)
  show ?thesis
  proof (cases "ro_kind op")
    case Replace
    show ?thesis
    proof (cases "live d")
      case True
      have "map (op_on_row de sc stale docs op) db = update_row (d_id d) (\<lambda>d. d\<lparr>d_deleted_at := Some (de_now de)\<rparr>) db"
        by (rule upd [OF True]) (simp add: eff True Replace)
      with Some Replace True show ?thesis by (simp add: apply_row_op_def fallbacks_def List.map_filter_def)
    next
      case False
      with Some Replace dead show ?thesis by (simp add: apply_row_op_def fallbacks_def List.map_filter_def)
    qed
  next
    case Reinforce
    show ?thesis
    proof (cases "stale (ro_document_id op)")
      case True
      with Reinforce dead show ?thesis
        by (simp add: apply_row_op_def fallbacks_def List.map_filter_def split: option.split)
    next
      case fresh: False
      show ?thesis
      proof (cases "live d")
        case True
        let ?f = "reinforce_row (ro_incoming_times_derived op)
          (case ro_fallback op of None \<Rightarrow> None | Some b \<Rightarrow> dc_source_message_ids (docs ! b))"
        have "map (op_on_row de sc stale docs op) db = update_row (d_id d) ?f db"
          by (rule upd [OF True]) (simp add: eff True Reinforce fresh)
        with Some Reinforce True fresh show ?thesis
          by (simp add: apply_row_op_def fallbacks_def List.map_filter_def)
      next
        case False
        with Some Reinforce dead fresh show ?thesis
          by (simp add: apply_row_op_def fallbacks_def List.map_filter_def)
      qed
    qed
  qed
qed

lemma fallbacks_append: "fallbacks stale (xs @ ys) = fallbacks stale xs @ fallbacks stale ys"
  by (simp add: fallbacks_def List.map_filter_def)

lemma apply_ops_map:
  assumes "distinct (map d_id db)"
  shows "apply_document_row_updates de sc docs ops db
    = (map (row_after de sc (stale_at_lock sc db) docs ops) db, fallbacks (stale_at_lock sc db) ops)"
proof -
  have "foldl (\<lambda>s op. apply_row_op de sc stale docs op s) (db, []) ops
      = (map (row_after de sc stale docs ops) db, fallbacks stale ops)" for stale
  proof (induction ops rule: rev_induct)
    case Nil
    have "row_after de sc stale docs [] = (\<lambda>d. d)" by (rule ext) (simp add: row_after_def)
    then show ?case by (simp add: fallbacks_def List.map_filter_def)
  next
    case (snoc op ops)
    have "d_id (row_after de sc stale docs ops d) = d_id d" for d
      using row_after_kept [of d] by (simp add: kept_def)
    then have "map d_id (map (row_after de sc stale docs ops) db) = map d_id db" by simp
    then have "distinct (map d_id (map (row_after de sc stale docs ops) db))" using assms by (simp only:)
    from apply_row_op_map [OF this] snoc show ?case
      by (simp add: fallbacks_append row_after_append)
  qed
  then show ?thesis by (simp add: apply_document_row_updates_def)
qed

text \<open>What the operations do to a row that is live at the lock.\<close>

lemma row_after_live:
  assumes "live d" and "\<And>op. op \<in> set ops \<Longrightarrow> ro_document_id op = d_id d \<Longrightarrow> ro_kind op \<noteq> Replace"
  shows "live (row_after de sc stale docs ops d)"
  using assms(2)
proof (induction ops rule: rev_induct)
  case (snoc op ops)
  then have "live (row_after de sc stale docs ops d)" by simp
  moreover have "ro_document_id op = d_id (row_after de sc stale docs ops d) \<Longrightarrow> ro_kind op \<noteq> Replace"
    using snoc.prems row_after_kept [of d] by (simp add: kept_def)
  ultimately show ?case
    unfolding row_after_append by (auto simp: op_on_row_def live_def reinforce_row_def split: op_kind.split)
qed (simp add: row_after_def assms(1))

lemma in_scope_kept: "kept d d' \<Longrightarrow> in_scope sc d' = in_scope sc d"
  by (simp add: kept_def in_scope_def)

lemma row_after_reinforced:
  assumes d: "live d" "in_scope sc d" "\<not> stale (d_id d)"
    and no_replace: "\<And>op. op \<in> set ops \<Longrightarrow> ro_document_id op = d_id d \<Longrightarrow> ro_kind op \<noteq> Replace"
    and op: "op \<in> set ops" "ro_kind op = Reinforce" "ro_document_id op = d_id d" "ro_fallback op = Some b"
  shows "{s \<in> cites (docs ! b). source_id_match s} \<subseteq> fst ` set (d_message_links (row_after de sc stale docs ops d))"
  using no_replace op(1)
proof (induction ops rule: rev_induct)
  case (snoc op' ops)
  let ?d = "row_after de sc stale docs ops d"
  have kept: "kept d ?d" by (rule row_after_kept)
  have step: "fst ` set (d_message_links ?d) \<subseteq> fst ` set (d_message_links (row_after de sc stale docs (ops @ [op']) d))"
    using op_on_row_kept [of ?d] by (simp add: row_after_append kept_def)
  show ?case
  proof (cases "op \<in> set ops")
    case True
    with snoc step show ?thesis by auto
  next
    case False
    with snoc.prems have "op' = op" by simp
    moreover have "live ?d" using d(1) snoc.prems(1) by (intro row_after_live) auto
    ultimately have "row_after de sc stale docs (ops @ [op']) d =
        reinforce_row (ro_incoming_times_derived op) (dc_source_message_ids (docs ! b)) ?d"
      using op d kept in_scope_kept [OF kept] by (simp add: row_after_append op_on_row_def kept_def)
    then show ?thesis by (simp add: reinforce_row_def set_append_citations cites_def)
  qed
qed simp

section \<open>The transaction\<close>

lemma with_ids_nth:
  "k < length rows \<Longrightarrow> with_ids de rows ! k = (rows ! k)\<lparr>d_id := de_fresh de k\<rparr>"
  "length (with_ids de rows) = length rows"
  by (simp_all add: with_ids_def)

lemma with_ids_mem:
  assumes "d \<in> set rows"
  shows "\<exists>i. d\<lparr>d_id := i\<rparr> \<in> set (with_ids de rows)"
proof -
  obtain k where "k < length rows" "d = rows ! k" using assms by (auto simp: in_set_conv_nth)
  then show ?thesis using with_ids_nth by (metis nth_mem)
qed

lemma with_ids_cases:
  assumes "d \<in> set (with_ids de rows)"
  shows "\<exists>d0 \<in> set rows. \<exists>i. d = d0\<lparr>d_id := i\<rparr>"
  using assms by (auto simp: with_ids_def dest: set_zip_rightD)

text \<open>Marking rows synchronized changes the synchronization columns alone.\<close>

definition marked :: "document \<Rightarrow> document \<Rightarrow> bool" where
  "marked d d' \<longleftrightarrow>
     d_id d' = d_id d \<and> d_message_links d' = d_message_links d \<and> d_source_links d' = d_source_links d
     \<and> live d' = live d \<and> (\<forall>sc. in_scope sc d' = in_scope sc d) \<and> d_level d' = d_level d
     \<and> d_session d' = d_session d \<and> d_content d' = d_content d \<and> d_times_derived d' = d_times_derived d
     \<and> (\<forall>de. row_key de d' = row_key de d)"

lemma sync_rows_map: "\<exists>f. sync_rows de ids db = map f db \<and> (\<forall>d. marked d (f d) \<and> (d_id d \<notin> set ids \<longrightarrow> f d = d))"
  by (intro exI [of _ "\<lambda>d. if List.member ids (d_id d)
        then (if de_upsert_ok de then mark_synced de d else mark_unsynced de d) else d"])
    (auto simp: sync_rows_def marked_def mark_synced_def mark_unsynced_def live_def in_scope_def row_key_def)

lemma sync_rows_mem: "d \<in> set db \<Longrightarrow> \<exists>d' \<in> set (sync_rows de ids db). marked d d'"
  using sync_rows_map [of de ids db] by auto

lemma sync_rows_cases: "d' \<in> set (sync_rows de ids db) \<Longrightarrow> \<exists>d \<in> set db. marked d d'"
  using sync_rows_map [of de ids db] by (metis (no_types, lifting) image_iff list.set_map)

definition prefetched :: "scope \<Rightarrow> document list \<Rightarrow> document list \<Rightarrow> document set" where
  "prefetched sc seen1 seen2 = {d \<in> set seen1 \<union> set seen2. in_scope sc d \<and> live d}"

lemma existing_by_key_Some:
  assumes "existing_by_key de sc documents db key = Some e"
  shows "e \<in> set db \<and> in_scope sc e \<and> live e \<and> row_key de e = key"
  using assms by (auto simp: existing_by_key_def find_Some_iff dest: nth_mem)

lemma fetched: "d \<in> set (fetch_documents_by_ids sc db ids) \<Longrightarrow> d \<in> set db \<and> in_scope sc d \<and> live d"
  by (auto simp: fetch_documents_by_ids_def map_filter_mem find_Some_iff)

lemma model_row:
  "live (document_model_from_create de sc doc)" "in_scope sc (document_model_from_create de sc doc)"
  "row_key de (document_model_from_create de sc doc) = create_key de doc"
  "fst ` set (d_message_links (document_model_from_create de sc doc)) = {s \<in> cites doc. source_id_match s}"
  by (simp_all add: document_model_from_create_def live_def in_scope_def row_key_def create_key_def
      set_build_links cites_def)

lemma foldl_redirect_ops: "bs_ops (foldl (\<lambda>st op. redirect_citations op st) st ops) = bs_ops st"
proof (induction ops rule: rev_induct)
  case (snoc op ops)
  then show ?case
    by (auto simp: redirect_citations_def [of op] split: op_kind.split option.split)
qed simp

lemma map_filter_append: "List.map_filter f (xs @ ys) = List.map_filter f xs @ List.map_filter f ys"
  by (simp add: List.map_filter_def)

text \<open>Each document is the fallback of at most one operation.\<close>

lemma batch_document_ops:
  "\<exists>new. bs_ops (batch_document de sc dd existing ids cands n st) = bs_ops st @ new
    \<and> List.map_filter ro_fallback new \<in> {[], [n]}"
  by (auto simp: batch_document_def Let_def reinforce_op_def replace_op_def bump_times_def accept_document_def
      List.map_filter_def split: option.split dup_result.split)

lemma loop_fallbacks:
  "let bs = List.map_filter ro_fallback (bs_ops
      (foldl (\<lambda>st i. batch_document de sc dd existing ids cands i st) (initial_batch docs) [0..<n]))
   in distinct bs \<and> (\<forall>b \<in> set bs. b < n)"
proof (induction n)
  case (Suc n)
  let ?st = "foldl (\<lambda>st i. batch_document de sc dd existing ids cands i st) (initial_batch docs) [0..<n]"
  obtain new where "bs_ops (batch_document de sc dd existing ids cands n ?st) = bs_ops ?st @ new"
      "List.map_filter ro_fallback new = [] \<or> List.map_filter ro_fallback new = [n]"
    using batch_document_ops [of de sc dd existing ids cands n ?st] by blast
  then show ?case using Suc by (auto simp: Let_def less_Suc_eq map_filter_append)
qed (simp add: initial_batch_def List.map_filter_def Let_def)

lemma distinct_fallbacks:
  assumes "distinct (List.map_filter ro_fallback ops)"
  shows "distinct (fallbacks stale ops)" "set (fallbacks stale ops) \<subseteq> set (List.map_filter ro_fallback ops)"
  using assms
  by (induction ops) (auto simp: fallbacks_def List.map_filter_def split: if_splits)

lemma apply_ops_ids:
  "map d_id (fst (apply_document_row_updates de sc docs ops db)) = map d_id db"
proof -
  have "map d_id (fst (foldl (\<lambda>s op. apply_row_op de sc stale docs op s) (db, []) ops)) = map d_id db" for stale
  proof (induction ops rule: rev_induct)
    case (snoc op ops)
    moreover have "map d_id (fst (apply_row_op de sc stale docs op s)) = map d_id (fst s)" for s
      by (auto simp: apply_row_op_def update_row_def reinforce_row_def split: op_kind.split option.split)
    ultimately show ?case by simp
  qed simp
  then show ?thesis by (simp add: apply_document_row_updates_def)
qed

text \<open>The table after a commit: the rows the operations leave, then the new rows.\<close>

lemma commit_table:
  assumes "commit_batch de sc st db = Inr (res, db')"
  shows "distinct (map d_id db)"
    and "\<exists>xs. db' = sync_rows de xs (map (row_after de sc (stale_at_lock sc db) (bs_docs st) (bs_ops st)) db
        @ with_ids de (map snd (bs_rows st)
            @ map (\<lambda>b. document_model_from_create de sc (bs_docs st ! b)) (fallbacks (stale_at_lock sc db) (bs_ops st))))
      \<and> set xs \<inter> d_id ` set db = {}"
    and "distinct (map d_id (map (row_after de sc (stale_at_lock sc db) (bs_docs st) (bs_ops st)) db
        @ with_ids de (map snd (bs_rows st)
            @ map (\<lambda>b. document_model_from_create de sc (bs_docs st ! b)) (fallbacks (stale_at_lock sc db) (bs_ops st)))))"
proof -
  obtain t fb where t: "apply_document_row_updates de sc (bs_docs st) (bs_ops st) db = (t, fb)" by fastforce
  let ?new = "with_ids de (map snd (bs_rows st) @ map (\<lambda>b. document_model_from_create de sc (bs_docs st ! b)) fb)"
  have table: "distinct (map d_id (t @ ?new))"
    and db': "db' = sync_rows de (map snd (filter (\<lambda>(b, i). dc_embedding (bs_docs st ! b) \<noteq> [])
        (zip (map fst (bs_rows st) @ fb) (map d_id ?new)))) (t @ ?new)"
    using assms by (simp_all add: commit_batch_def t Let_def split: if_splits)
  have ids: "map d_id t = map d_id db" using apply_ops_ids [of de sc "bs_docs st" "bs_ops st" db] t by simp
  with table show d: "distinct (map d_id db)" by simp
  note A = apply_ops_map [OF d, of de sc "bs_docs st" "bs_ops st", unfolded t prod.inject]
  from table show "distinct (map d_id (map (row_after de sc (stale_at_lock sc db) (bs_docs st) (bs_ops st)) db
        @ with_ids de (map snd (bs_rows st)
            @ map (\<lambda>b. document_model_from_create de sc (bs_docs st ! b)) (fallbacks (stale_at_lock sc db) (bs_ops st)))))"
    using A by simp
  have "set (map snd (filter P (zip ys zs))) \<subseteq> set zs" for P ys and zs :: "string list"
    by (auto dest: set_zip_rightD)
  then have "set (map snd (filter (\<lambda>(b, i). dc_embedding (bs_docs st ! b) \<noteq> [])
        (zip (map fst (bs_rows st) @ fb) (map d_id ?new)))) \<subseteq> d_id ` set ?new"
    by (metis (no_types, lifting) list.set_map)
  moreover have "d_id ` set db = d_id ` set t" using ids by (metis list.set_map)
  moreover have "d_id ` set t \<inter> d_id ` set ?new = {}" using table by auto
  ultimately have "set (map snd (filter (\<lambda>(b, i). dc_embedding (bs_docs st ! b) \<noteq> [])
        (zip (map fst (bs_rows st) @ fb) (map d_id ?new)))) \<inter> d_id ` set db = {}" by blast
  with db' show "\<exists>xs. db' = sync_rows de xs (map (row_after de sc (stale_at_lock sc db) (bs_docs st) (bs_ops st)) db
        @ with_ids de (map snd (bs_rows st)
            @ map (\<lambda>b. document_model_from_create de sc (bs_docs st ! b)) (fallbacks (stale_at_lock sc db) (bs_ops st))))
      \<and> set xs \<inter> d_id ` set db = {}"
    unfolding conjunct1 [OF A, symmetric] conjunct2 [OF A, symmetric] by blast
qed

section \<open>Exact matches\<close>

text \<open>Rows are new keys; a reinforcement of an exact match names the matching row.\<close>

definition exact_inv :: "doc_env \<Rightarrow> (dedup_key \<Rightarrow> document option) \<Rightarrow> doc_create list \<Rightarrow> batch_state \<Rightarrow> bool" where
  "exact_inv de existing docs st \<longleftrightarrow>
     (\<forall>f \<in> fst ` set (bs_rows st). existing (create_key de (docs ! f)) = None)
     \<and> (\<forall>op \<in> set (bs_ops st). \<forall>b. ro_fallback op = Some b \<longrightarrow>
          (case existing (create_key de (docs ! b)) of None \<Rightarrow> True | Some e \<Rightarrow> d_id e = ro_document_id op))"

lemma exact_step:
  assumes inv: "exact_inv de existing docs st" and ext: "extends docs (bs_docs st)" and n: "n < length docs"
  shows "exact_inv de existing docs (batch_document de sc dd existing ids cands n st)"
proof -
  have key: "create_key de (bs_docs st ! n) = create_key de (docs ! n)"
    using ext n same_doc_key unfolding extends_def by metis
  have old: "\<forall>f \<in> fst ` set (bs_rows st). existing (create_key de (docs ! f)) = None"
    "\<forall>op \<in> set (bs_ops st). \<forall>b. ro_fallback op = Some b \<longrightarrow>
          (case existing (create_key de (docs ! b)) of None \<Rightarrow> True | Some e \<Rightarrow> d_id e = ro_document_id op)"
    using conjunct1 [OF inv [unfolded exact_inv_def]] conjunct2 [OF inv [unfolded exact_inv_def]] by blast+
  show ?thesis
    unfolding exact_inv_def
  proof (intro conjI ballI allI impI)
    fix f
    assume "f \<in> fst ` set (bs_rows (batch_document de sc dd existing ids cands n st))"
    then have "f \<in> fst ` set (bs_rows st) \<or> (f = n \<and> existing (create_key de (docs ! n)) = None)"
      by (auto simp: batch_document_def Let_def key reinforce_op_def replace_op_def bump_times_def accept_document_def
          split: option.splits dup_result.splits if_splits)
    with old(1) show "existing (create_key de (docs ! f)) = None" by (elim disjE conjE) (erule (1) bspec, simp)
  next
    fix op b
    assume "op \<in> set (bs_ops (batch_document de sc dd existing ids cands n st))" and b: "ro_fallback op = Some b"
    then consider "op \<in> set (bs_ops st)"
      | "b = n" "case existing (create_key de (docs ! n)) of None \<Rightarrow> True | Some e \<Rightarrow> d_id e = ro_document_id op"
      by (auto simp: batch_document_def Let_def key reinforce_op_def replace_op_def bump_times_def accept_document_def
          split: option.splits dup_result.splits if_splits)
    then show "case existing (create_key de (docs ! b)) of None \<Rightarrow> True | Some e \<Rightarrow> d_id e = ro_document_id op"
    proof cases
      case 1
      with old(2) b show ?thesis by blast
    qed simp
  qed
qed

text \<open>How each document is counted.\<close>

lemma batch_document_counts:
  assumes total: "\<And>s. de_encode de s \<noteq> None"
  shows "(let st' = batch_document de sc dd existing ids cands n st in
    length (bs_rows st') + bs_in_batch st' + bs_existing st' + bs_rejected st'
      = length (bs_rows st) + bs_in_batch st + bs_existing st + bs_rejected st
        + (if refused (bs_docs st ! n) then 0 else 1)
    \<and> bs_replaced st' + length (bs_rows st) \<le> bs_replaced st + length (bs_rows st'))"
proof -
  have len: "length (bs_rows (fold_citations i k x st)) = length (bs_rows st)" for i k x
    by (metis fold_frame(6) length_map)
  obtain r m where "resolve_semantic_dup de (bs_docs st ! n) (ids n) cands = Some (r, m)"
    using resolve_fails total by (metis option.exhaust surj_pair unread_def)
  then show ?thesis
    by (cases r; cases m) (auto simp: batch_document_def Let_def len reinforce_op_def replace_op_def bump_times_def accept_document_def
        split: option.split dup_result.split)
qed

context merge_scope
begin

lemma loop_exact_inv:
  assumes existing: "\<And>k e. existing k = Some e \<Longrightarrow> e \<in> K \<and> row_key de e = k"
    and cands: "\<And>doc i r e. dd \<Longrightarrow> resolve_semantic_dup de doc (ids i) cands = Some (r, Some e) \<Longrightarrow> e \<in> K \<and> C doc e"
    and skips: "\<And>doc. dd \<Longrightarrow> unread de (set cands) doc \<Longrightarrow> U doc"
    and n: "n \<le> length docs"
  shows "exact_inv de existing docs
    (foldl (\<lambda>st i. batch_document de sc dd existing ids cands i st) (initial_batch docs) [0..<n])"
  using n
proof (induction n)
  case 0
  then show ?case by (simp add: exact_inv_def initial_batch_def)
next
  case (Suc n)
  let ?st = "foldl (\<lambda>st i. batch_document de sc dd existing ids cands i st) (initial_batch docs) [0..<n]"
  have "extends docs (bs_docs ?st)"
    using loop_inv [OF existing cands skips, where docs = docs and n = n and sc = sc] Suc.prems
    by (simp add: batch_inv_def rows_inv_def)
  from exact_step [OF _ this] Suc show ?case by simp
qed

end

section \<open>Plans\<close>

context merge_scope
begin

definition planned ::
  "scope \<Rightarrow> document set \<Rightarrow> (doc_create \<Rightarrow> bool) \<Rightarrow> (dedup_key \<Rightarrow> document option) \<Rightarrow> doc_create list \<Rightarrow> batch_state \<Rightarrow> bool" where
  "planned sc K U existing docs st \<longleftrightarrow>
     exact_inv de existing docs st \<and>
     rows_inv de sc docs st \<and> ops_inv K docs st \<and> first_inv de U docs (length docs) st
     \<and> (\<forall>op \<in> set (bs_ops st). redirected st op)
     \<and> distinct (List.map_filter ro_fallback (bs_ops st))"

lemma plan_planned:
  assumes plan: "plan_batch de sc dd docs seen1 seen2 = Inr st"
    and sem: "\<And>doc ids cands r e. dd \<Longrightarrow> resolve_semantic_dup de doc ids cands = Some (r, Some e) \<Longrightarrow> C doc e"
  shows "planned sc (prefetched sc seen1 seen2) (\<lambda>doc. dd \<and> unread de (prefetched sc seen1 seen2) doc) (existing_by_key de sc docs seen2) docs st"
proof -
  let ?K = "prefetched sc seen1 seen2" and ?U = "\<lambda>doc. dd \<and> unread de (prefetched sc seen1 seen2) doc"
  obtain cids where st: "st = (let cands = fetch_documents_by_ids sc seen1 (remdups (concat cids));
        st = foldl (\<lambda>st i. batch_document de sc dd (existing_by_key de sc docs seen2) (\<lambda>i. cids ! i) cands i st)
              (initial_batch docs) [0..<length docs]
      in foldl (\<lambda>st op. redirect_citations op st) st (bs_ops st))"
    using plan by (auto simp: plan_batch_def res_simps)
  define cands where "cands = fetch_documents_by_ids sc seen1 (remdups (concat cids))"
  define st0 where "st0 = foldl (\<lambda>st i. batch_document de sc dd (existing_by_key de sc docs seen2) (\<lambda>i. cids ! i) cands i st)
      (initial_batch docs) [0..<length docs]"
  have st_eq: "st = foldl (\<lambda>st op. redirect_citations op st) st0 (bs_ops st0)"
    using st by (simp add: st0_def cands_def Let_def)
  have ex: "e \<in> ?K \<and> row_key de e = k" if "existing_by_key de sc docs seen2 k = Some e" for k e
    using existing_by_key_Some [OF that] by (simp add: prefetched_def)
  have cd: "e \<in> ?K \<and> C doc e" if "dd" "resolve_semantic_dup de doc (cids ! i) cands = Some (r, Some e)" for doc i r e
    using sem [OF that] resolved [OF that(2)] fetched [of e sc seen1 "remdups (concat cids)"] by (simp add: cands_def prefetched_def)
  have sk: "?U doc" if dd "unread de (set cands) doc" for doc
    using that unread_mono [OF that(2)] fetched [of _ sc seen1 "remdups (concat cids)"] by (simp add: cands_def prefetched_def subset_iff)
  have "batch_inv sc ?K ?U docs (length docs) st0"
    unfolding st0_def by (rule loop_inv [OF ex cd sk]) simp_all
  have xi: "exact_inv de (existing_by_key de sc docs seen2) docs st0"
    unfolding st0_def by (rule loop_exact_inv [OF ex cd sk]) simp_all
  from \<open>batch_inv sc ?K ?U docs (length docs) st0\<close>
  have inv: "rows_inv de sc docs st0" "ops_inv ?K docs st0" "first_inv de ?U docs (length docs) st0"
    by (simp_all add: batch_inv_def)
  from redirect_inv [OF inv subset_refl]
  have R: "rows_inv de sc docs st" "ops_inv ?K docs st" "extends (bs_docs st0) (bs_docs st)"
      "bs_first st = bs_first st0" "bs_ops st = bs_ops st0" "map fst (bs_rows st) = map fst (bs_rows st0)"
      "\<forall>op \<in> set (bs_ops st0). redirected st op"
    unfolding st_eq by (simp_all add: Let_def)
  have rows: "fst ` set (bs_rows st) = fst ` set (bs_rows st0)" using R(6) by (metis list.set_map)
  have len: "length (bs_docs st0) = length docs" using inv(1) by (simp add: rows_inv_def extends_def)
  have "first_inv de ?U docs (length docs) st"
    unfolding first_inv_def R(4)
  proof (intro conjI allI impI ballI)
    fix i
    assume "i < length docs" "\<not> refused (docs ! i)"
    then obtain f where f: "bs_first st0 (create_key de (docs ! i)) = Some f" "cites (docs ! i) \<subseteq> cites (bs_docs st0 ! f)"
      using inv(3) unfolding first_inv_def by blast
    moreover have "cites (bs_docs st0 ! f) \<subseteq> cites (bs_docs st ! f)"
      using R(3) first_inv_D(1) [OF inv(3) f(1)] len by (simp add: extends_def)
    ultimately show "\<exists>f. bs_first st0 (create_key de (docs ! i)) = Some f \<and> cites (docs ! i) \<subseteq> cites (bs_docs st ! f)"
      by blast
  next
    fix k f
    assume k: "bs_first st0 k = Some f"
    then show "f < length docs" "k = create_key de (docs ! f)" "\<not> refused (docs ! f)"
      using first_inv_D [OF inv(3)] by blast+
    assume "\<not> ?U (docs ! f)"
    with k inv(3) have "placed st0 f" unfolding first_inv_def by blast
    then show "placed st f" by (simp add: placed_def rows R(5))
  next
    fix f
    assume "f \<in> fst ` set (bs_rows st)"
    with rows first_inv_row [OF inv(3)] show "bs_first st0 (create_key de (docs ! f)) = Some f" by simp
  qed
  moreover have "distinct (List.map_filter ro_fallback (bs_ops st))"
    using loop_fallbacks [of de sc dd "existing_by_key de sc docs seen2" "\<lambda>i. cids ! i" cands docs "length docs"]
    by (simp add: R(5) st0_def Let_def)
  moreover have "exact_inv de (existing_by_key de sc docs seen2) docs st"
    using xi unfolding exact_inv_def rows R(5) .
  ultimately show ?thesis using R by (simp add: planned_def)
qed

text \<open>Where a document ends up.\<close>

lemma planned_stored:
  assumes plan: "planned sc K U existing docs st" and commit: "commit_batch de sc st db = Inr (res, db')"
    and read: "\<And>f. f < length docs \<Longrightarrow> create_key de (docs ! f) = create_key de (docs ! i) \<Longrightarrow> \<not> U (docs ! f)"
    and others: "\<And>e d doc. e \<in> K \<Longrightarrow> d \<in> set db \<Longrightarrow> d_id e = d_id d \<Longrightarrow> C doc e = C doc d"
    and others2: "\<And>e e' doc. e \<in> K \<Longrightarrow> e' \<in> K \<Longrightarrow> d_id e = d_id e' \<Longrightarrow> C doc e = C doc e'"
    and i: "i < length docs" "\<not> refused (docs ! i)"
  shows "\<exists>d \<in> set db'. live d \<and> in_scope sc d \<and> C (docs ! i) d
    \<and> {s \<in> cites (docs ! i). source_id_match s} \<subseteq> fst ` set (d_message_links d)"
proof -
  have P: "rows_inv de sc docs st" "ops_inv K docs st" "first_inv de U docs (length docs) st"
      "\<And>op. op \<in> set (bs_ops st) \<Longrightarrow> redirected st op"
    using plan by (simp_all add: planned_def)
  let ?stale = "stale_at_lock sc db"
  let ?new = "with_ids de (map snd (bs_rows st)
      @ map (\<lambda>b. document_model_from_create de sc (bs_docs st ! b)) (fallbacks ?stale (bs_ops st)))"
  note ids = commit_table(1) [OF commit]
  obtain xs where db': "db' = sync_rows de xs (map (row_after de sc ?stale (bs_docs st) (bs_ops st)) db @ ?new)"
    using commit_table(2) [OF commit] by blast
  have final: "\<exists>d' \<in> set db'. live d' \<and> in_scope sc d' \<and> C (docs ! i) d'
      \<and> {s \<in> cites (docs ! i). source_id_match s} \<subseteq> fst ` set (d_message_links d')" if
    "d \<in> set (map (row_after de sc ?stale (bs_docs st) (bs_ops st)) db @ ?new)"
    "live d" "in_scope sc d" "C (docs ! i) d"
    "{s \<in> cites (docs ! i). source_id_match s} \<subseteq> fst ` set (d_message_links d)" for d
  proof -
    from sync_rows_mem [OF that(1)] db' obtain d' where "d' \<in> set db'" "marked d d'" by blast
    with that rows [of d' d] show ?thesis by (intro bexI [of _ d']) (simp_all add: marked_def)
  qed
  obtain f where f: "bs_first st (create_key de (docs ! i)) = Some f" "cites (docs ! i) \<subseteq> cites (bs_docs st ! f)"
    using P(3) i unfolding first_inv_def by blast
  note F = first_inv_D [OF P(3) f(1)]
  have fkey: "create_key de (bs_docs st ! f) = create_key de (docs ! f)"
    using P(1) F(1) same_doc_key unfolding rows_inv_def extends_def by metis
  have inserted: ?thesis if r: "r < length docs" "document_model_from_create de sc (bs_docs st ! r) \<in>
      set (map snd (bs_rows st) @ map (\<lambda>b. document_model_from_create de sc (bs_docs st ! b)) (fallbacks ?stale (bs_ops st)))"
    "cites (docs ! i) \<subseteq> cites (bs_docs st ! r)"
    "\<And>d. row_key de d = create_key de (docs ! r) \<Longrightarrow> C (docs ! i) d" for r
  proof -
    obtain k where "(document_model_from_create de sc (bs_docs st ! r))\<lparr>d_id := k\<rparr> \<in> set ?new"
      using with_ids_mem [OF r(2)] by blast
    moreover have "create_key de (bs_docs st ! r) = create_key de (docs ! r)"
      using P(1) r(1) same_doc_key unfolding rows_inv_def extends_def by metis
    moreover have "row_key de (d\<lparr>d_id := k\<rparr>) = row_key de d" "live (d\<lparr>d_id := k\<rparr>) = live d"
      "in_scope sc (d\<lparr>d_id := k\<rparr>) = in_scope sc d" for d
      by (simp_all add: row_key_def live_def in_scope_def)
    ultimately show ?thesis
      using r(3,4) model_row [where sc = sc and de = de and doc = "bs_docs st ! r"]
      by (intro final [where d = "(document_model_from_create de sc (bs_docs st ! r))\<lparr>d_id := k\<rparr>"]) auto
  qed
  have as_f: "C (docs ! i) d" if "row_key de d = create_key de (docs ! f)" for d
    using exact that F(2) by simp
  have "placed st f" using P(3) f(1) read [OF F(1)] F(2) unfolding first_inv_def by metis
  then consider (row) "f \<in> fst ` set (bs_rows st)"
    | (op) op where "op \<in> set (bs_ops st)" "ro_kind op = Reinforce" "ro_fallback op = Some f"
    unfolding placed_def by blast
  then show ?thesis
  proof cases
    case row
    then obtain d where d: "(f, d) \<in> set (bs_rows st)" by auto
    with rows_inv_row(2) [OF P(1) d] have "document_model_from_create de sc (bs_docs st ! f) \<in> set (map snd (bs_rows st))"
      by force
    then show ?thesis using F(1) f(2) as_f by (intro inserted [of f]) auto
  next
    case op
    obtain e where e: "e \<in> K" "d_id e = ro_document_id op" "C (docs ! f) e"
      using ops_inv_op(2) [OF P(2) op(1,2)] op(3) by auto
    have Ci: "C (docs ! i) x = C (docs ! f) x" for x using same F(2) by blast
    show ?thesis
    proof (cases "?stale (ro_document_id op)")
      case True
      then have "f \<in> set (fallbacks ?stale (bs_ops st))"
        using op by (auto simp: fallbacks_def map_filter_mem)
      then show ?thesis using F(1) f(2) as_f by (intro inserted [of f]) auto
    next
      case False
      then obtain d where d: "locked_row sc db (ro_document_id op) = Some d" "live d"
        by (auto simp: stale_at_lock_def split: option.splits)
      note L = locked_row_Some [OF ids d(1)]
      show ?thesis
      proof (cases "\<exists>op' \<in> set (bs_ops st). ro_kind op' = Replace \<and> ro_document_id op' = d_id d")
        case True
        then obtain op' where op': "op' \<in> set (bs_ops st)" "ro_kind op' = Replace" "ro_document_id op' = d_id d" by blast
        then obtain r k where r: "bs_replaced_by st (ro_document_id op) = Some (r, k)"
          using ops_inv_op(1) [OF P(2) op'(1,2)] L by fastforce
        have cites: "cites (bs_docs st ! f) \<subseteq> cites (bs_docs st ! r)"
          using P(4) [OF op(1)] op r by (simp add: redirected_def)
        obtain e' where e': "e' \<in> K" "d_id e' = ro_document_id op" "C (docs ! r) e'"
          using ops_inv_replaced(3) [OF P(2) r] by blast
        obtain dr where dr: "(r, dr) \<in> set (bs_rows st)" using ops_inv_replaced(1) [OF P(2) r] by auto
        have rl: "r < length docs" using rows_inv_row(1) [OF P(1) dr] .
        have "document_model_from_create de sc (bs_docs st ! r) \<in> set (map snd (bs_rows st))"
          using rows_inv_row(2) [OF P(1) dr] dr by force
        moreover have "C (docs ! i) x" if "row_key de x = create_key de (docs ! r)" for x
          using through [OF _ e'(3) that] Ci e others2 [OF e(1) e'(1)] e'(2) by auto
        ultimately show ?thesis using rl f(2) cites by (intro inserted [of r]) auto
      next
        case False
        let ?d = "row_after de sc ?stale (bs_docs st) (bs_ops st) d"
        have kept: "kept d ?d" by (rule row_after_kept)
        have "live ?d" by (rule row_after_live [OF d(2)]) (use False in auto)
        moreover have "{s \<in> cites (bs_docs st ! f). source_id_match s} \<subseteq> fst ` set (d_message_links ?d)"
          by (rule row_after_reinforced [OF d(2)]) (use L op False \<open>\<not> ?stale (ro_document_id op)\<close> in auto)
        moreover have "C (docs ! i) ?d"
        proof -
          have "row_key de ?d = row_key de d" using kept by (simp add: kept_def row_key_def)
          with rows have "C (docs ! i) ?d = C (docs ! i) d" by blast
          with others [OF e(1), of d] L e Ci show ?thesis by auto
        qed
        ultimately show ?thesis
          using L f(2) in_scope_kept [OF kept] by (intro final [of ?d]) auto
      qed
    qed
  qed
qed

end

text \<open>The two readings of the interface: a level and session, and the deduplication key itself.\<close>

lemma compat_key: "create_key de a = create_key de b \<Longrightarrow> compat a e = compat b e"
  by (auto simp: create_key_def dedup_key_of_def compat_def split: if_splits)

lemma compat_row: "row_key de d = row_key de e \<Longrightarrow> compat a d = compat a e"
  by (auto simp: row_key_def dedup_key_of_def compat_def split: if_splits)

lemma compat_through:
  "compat a e \<Longrightarrow> compat b e \<Longrightarrow> row_key de d = create_key de b \<Longrightarrow> compat a d"
  by (auto simp: row_key_def create_key_def dedup_key_of_def compat_def split: if_splits)

interpretation level: merge_scope de compat for de
  by unfold_locales (erule row_key_compat compat_key compat_row compat_through; assumption)+

interpretation key: merge_scope de "\<lambda>doc d. row_key de d = create_key de doc" for de
  by unfold_locales auto

end
