(* ===== verification/ConclusionClaims.thy ===== *)
theory ConclusionClaims
  imports ConclusionProps
begin

text \<open>The properties of storing a batch of conclusions, over the lemmas of ConclusionProps.\<close>

declare split_paired_All [simp del] split_paired_Ex [simp del]

text \<open>A row as another transaction may have left it: what no code path rewrites is the same.\<close>

definition same_identity :: "document \<Rightarrow> document \<Rightarrow> bool" where
  "same_identity d d' \<longleftrightarrow>
     d_content d' = d_content d \<and> d_level d' = d_level d \<and> d_session d' = d_session d
     \<and> d_workspace d' = d_workspace d \<and> d_observer d' = d_observer d \<and> d_observed d' = d_observed d"




lemma same_identity_sym: "same_identity d d' \<Longrightarrow> same_identity d' d"
  by (simp add: same_identity_def)

lemma create_documents_cases:
  assumes "create_documents de sc dd docs seen1 seen2 db = Inr (res, db')"
  obtains st where "plan_batch de sc dd docs seen1 seen2 = Inr st" "commit_batch de sc st db = Inr (res, db')"
  using assms by (auto simp: create_documents_def res_simps)


section \<open>Nothing is lost\<close>




section \<open>Unique keys\<close>

definition live_rows :: "scope \<Rightarrow> document list \<Rightarrow> document list" where
  "live_rows sc db = filter (\<lambda>d. in_scope sc d \<and> live d) db"

definition keys_unique :: "doc_env \<Rightarrow> scope \<Rightarrow> document list \<Rightarrow> bool" where
  "keys_unique de sc db = distinct (map (row_key de) (live_rows sc db))"

lemma keys_unique_iff:
  assumes "distinct (map d_id db)"
  shows "keys_unique de sc db \<longleftrightarrow>
    (\<forall>d \<in> set db. \<forall>d' \<in> set db. in_scope sc d \<and> live d \<and> in_scope sc d' \<and> live d' \<and> row_key de d = row_key de d'
       \<longrightarrow> d_id d = d_id d')"
proof -
  have "distinct (live_rows sc db)" using assms by (auto simp: live_rows_def distinct_map)
  moreover have "d = d'" if "d \<in> set db" "d' \<in> set db" "d_id d = d_id d'" for d d'
    using assms that by (auto simp: distinct_map inj_on_def)
  ultimately show ?thesis
    unfolding keys_unique_def distinct_map inj_on_def by (auto simp: live_rows_def)
qed

text \<open>No live row appeared between the look for exact matches and the locks.\<close>

definition no_new_rows :: "scope \<Rightarrow> document list \<Rightarrow> document list \<Rightarrow> bool" where
  "no_new_rows sc seen db \<longleftrightarrow>
     list_all (\<lambda>d. list_ex (\<lambda>e. d_id e = d_id d \<and> same_identity e d \<and> live e) seen) (live_rows sc db)"

lemma no_new_rowsD:
  "no_new_rows sc seen db \<Longrightarrow> d \<in> set db \<Longrightarrow> in_scope sc d \<Longrightarrow> live d \<Longrightarrow>
     \<exists>e \<in> set seen. d_id e = d_id d \<and> live e \<and> in_scope sc e \<and> row_key de e = row_key de d"
proof -
  assume "no_new_rows sc seen db" and d: "d \<in> set db" "in_scope sc d" "live d"
  then have "list_ex (\<lambda>e. d_id e = d_id d \<and> same_identity e d \<and> live e) seen"
    by (simp add: no_new_rows_def live_rows_def list_all_iff)
  then obtain e where "e \<in> set seen" "d_id e = d_id d" "same_identity e d" "live e" by (auto simp: list_ex_iff)
  with d(2) show ?thesis
    by (intro bexI [of _ e]) (simp_all add: same_identity_def in_scope_def row_key_def)
qed

text \<open>The database normalizes the contents of the pair's live rows as the program does.\<close>

definition spelled_alike :: "doc_env \<Rightarrow> scope \<Rightarrow> document list \<Rightarrow> bool" where
  "spelled_alike de sc db =
     list_all (\<lambda>d. de_sql_normalize de (d_content d) = normalize_content de (d_content d)) (live_rows sc db)"

lemma exact_match_found:
  assumes sync: "spelled_alike de sc seen"
    and e: "e \<in> set seen" "live e" "in_scope sc e" "row_key de e = create_key de (docs ! f)" and f: "f < length docs"
    and unique: "keys_unique de sc seen" and ids: "distinct (map d_id seen)"
  shows "\<exists>e'. existing_by_key de sc docs seen (create_key de (docs ! f)) = Some e' \<and> d_id e' = d_id e"
proof -
  have "normalize_content de (dc_content (docs ! f)) = de_sql_normalize de (d_content e)"
    using e sync by (auto simp: spelled_alike_def live_rows_def list_all_iff row_key_def create_key_def dedup_key_of_def)
  then have "list_ex (\<lambda>doc. normalize_content de (dc_content doc) = de_sql_normalize de (d_content e)) docs"
    using f by (auto simp: list_ex_iff)
  then have "existing_by_key de sc docs seen (create_key de (docs ! f)) \<noteq> None"
    using e by (auto simp: existing_by_key_def find_None_iff)
  then obtain e' where e': "existing_by_key de sc docs seen (create_key de (docs ! f)) = Some e'" by blast
  note E = existing_by_key_Some [OF e']
  have "d_id e' = d_id e"
    using unique [unfolded keys_unique_iff [OF ids]] E e by (metis (no_types))
  with e' show ?thesis by blast
qed

lemma rows_inv_key:
  "rows_inv de sc docs st \<Longrightarrow> i < length docs \<Longrightarrow> create_key de (bs_docs st ! i) = create_key de (docs ! i)"
  using same_doc_key unfolding rows_inv_def extends_def by metis

lemma new_row_index:
  assumes plan: "level.planned de sc K U existing docs st"
    and d: "d \<in> set (with_ids de (map snd (bs_rows st)
        @ map (\<lambda>b. document_model_from_create de sc (bs_docs st ! b)) (fallbacks stale (bs_ops st))))"
  shows "\<exists>k f. k < length (map fst (bs_rows st) @ fallbacks stale (bs_ops st))
    \<and> (map fst (bs_rows st) @ fallbacks stale (bs_ops st)) ! k = f \<and> d_id d = de_fresh de k
    \<and> f < length docs \<and> row_key de d = create_key de (docs ! f) \<and> bs_first st (create_key de (docs ! f)) = Some f"
proof -
  let ?idx = "map fst (bs_rows st) @ fallbacks stale (bs_ops st)"
  let ?rows = "map snd (bs_rows st) @ map (\<lambda>b. document_model_from_create de sc (bs_docs st ! b)) (fallbacks stale (bs_ops st))"
  have P: "rows_inv de sc docs st" "level.ops_inv de K docs st" "first_inv de U docs (length docs) st"
    using plan by (simp_all add: level.planned_def)
  have "\<forall>(i, x) \<in> set (bs_rows st). x = document_model_from_create de sc (bs_docs st ! i)"
    using level.rows_inv_row(2) [OF P(1)] by blast
  then have rows: "?rows = map (\<lambda>b. document_model_from_create de sc (bs_docs st ! b)) ?idx"
    by (auto intro!: map_cong)
  have idx: "f < length docs \<and> bs_first st (create_key de (docs ! f)) = Some f" if "f \<in> set ?idx" for f
  proof -
    from that consider "f \<in> fst ` set (bs_rows st)" | "f \<in> set (fallbacks stale (bs_ops st))" by auto
    then show ?thesis
    proof cases
      case 1
      then show ?thesis using level.rows_inv_index [OF P(1)] first_inv_row [OF P(3)] by blast
    next
      case 2
      then obtain op where op: "op \<in> set (bs_ops st)" "ro_kind op = Reinforce" "ro_fallback op = Some f"
        by (auto simp: fallbacks_def map_filter_mem)
      show ?thesis using level.ops_inv_op(2) [OF P(2) op(1,2)] op(3) by auto
    qed
  qed
  obtain k where k: "k < length ?rows" "d = (?rows ! k)\<lparr>d_id := de_fresh de k\<rparr>"
    using d with_ids_nth(1) [of _ ?rows de] with_ids_nth(2) [of de ?rows] by (auto simp: in_set_conv_nth)
  have kl: "k < length ?idx" using k(1) by simp
  let ?f = "?idx ! k"
  have f: "?f < length docs" "bs_first st (create_key de (docs ! ?f)) = Some ?f" using idx nth_mem [OF kl] by blast+
  have row: "?rows ! k = document_model_from_create de sc (bs_docs st ! ?f)" unfolding rows by (rule nth_map [OF kl])
  have "create_key de (bs_docs st ! ?f) = create_key de (docs ! ?f)"
    using rows_inv_key [OF P(1) f(1)] .
  moreover have "row_key de (x\<lparr>d_id := i\<rparr>) = row_key de x" for x i by (simp add: row_key_def)
  ultimately have "row_key de d = create_key de (docs ! ?f)" unfolding k(2) row by (simp add: model_row)
  with k(2) kl f show ?thesis by (intro exI [of _ k] exI [of _ ?f]) simp
qed

lemma planned_distinct:
  assumes plan: "level.planned de sc K U existing docs st"
  shows "distinct (map fst (bs_rows st) @ fallbacks stale (bs_ops st))"
proof -
  have P: "rows_inv de sc docs st" "level.ops_inv de K docs st"
      "distinct (List.map_filter ro_fallback (bs_ops st))"
    using plan by (simp_all add: level.planned_def)
  have "f \<notin> fst ` set (bs_rows st)" if "f \<in> set (fallbacks stale (bs_ops st))" for f
  proof -
    from that obtain op where op: "op \<in> set (bs_ops st)" "ro_kind op = Reinforce" "ro_fallback op = Some f"
      by (auto simp: fallbacks_def map_filter_mem)
    show ?thesis using level.ops_inv_op(2) [OF P(2) op(1,2)] op(3) by auto
  qed
  moreover have "distinct (map fst (bs_rows st))" using P(1) by (simp add: rows_inv_def)
  ultimately show ?thesis using distinct_fallbacks(1) [OF P(3)] by auto
qed

abbreviation new_rows :: "doc_env \<Rightarrow> scope \<Rightarrow> batch_state \<Rightarrow> document list \<Rightarrow> document list" where
  "new_rows de sc st db \<equiv> with_ids de (map snd (bs_rows st)
     @ map (\<lambda>b. document_model_from_create de sc (bs_docs st ! b)) (fallbacks (stale_at_lock sc db) (bs_ops st)))"

abbreviation left_row :: "doc_env \<Rightarrow> scope \<Rightarrow> batch_state \<Rightarrow> document list \<Rightarrow> document \<Rightarrow> document" where
  "left_row de sc st db \<equiv> row_after de sc (stale_at_lock sc db) (bs_docs st) (bs_ops st)"

lemma left_row_origin:
  assumes "d \<in> left_row de sc st db ` set db" and "in_scope sc d" "live d"
  shows "\<exists>d0 \<in> set db. in_scope sc d0 \<and> live d0 \<and> row_key de d0 = row_key de d \<and> d_id d0 = d_id d"
proof -
  from assms(1) obtain d0 where d0: "d0 \<in> set db" "d = left_row de sc st db d0" by blast
  have kept: "kept d0 d" unfolding d0(2) by (rule row_after_kept)
  have "live d0" using kept \<open>live d\<close> by (auto simp: kept_def)
  moreover have "in_scope sc d0" using in_scope_kept [OF kept] \<open>in_scope sc d\<close> by simp
  moreover have "row_key de d0 = row_key de d" "d_id d0 = d_id d" using kept by (simp_all add: kept_def row_key_def)
  ultimately show ?thesis using d0 by blast
qed

lemma left_rows_unique:
  assumes unique: "keys_unique de sc seen" and ids: "distinct (map d_id seen)" and others: "no_new_rows sc seen db"
    and d: "d \<in> left_row de sc st db ` set db" "in_scope sc d" "live d"
    and d': "d' \<in> left_row de sc st db ` set db" "in_scope sc d'" "live d'" and key: "row_key de d = row_key de d'"
  shows "d_id d = d_id d'"
proof -
  obtain a b where ab: "a \<in> set db" "in_scope sc a" "live a" "row_key de a = row_key de d" "d_id a = d_id d"
      "b \<in> set db" "in_scope sc b" "live b" "row_key de b = row_key de d'" "d_id b = d_id d'"
    using left_row_origin [OF d] left_row_origin [OF d'] by blast
  obtain e e' where "e \<in> set seen" "d_id e = d_id a" "live e" "in_scope sc e" "row_key de e = row_key de a"
      "e' \<in> set seen" "d_id e' = d_id b" "live e'" "in_scope sc e'" "row_key de e' = row_key de b"
    using no_new_rowsD [OF others ab(1-3), of de] no_new_rowsD [OF others ab(6-8), of de] by blast
  with unique keys_unique_iff [OF ids] ab key show ?thesis by metis
qed

lemma new_row_key_fresh:
  assumes plan: "level.planned de sc K U (existing_by_key de sc docs seen) docs st" and db: "distinct (map d_id db)"
    and sync: "spelled_alike de sc seen"
    and unique: "keys_unique de sc seen" and ids: "distinct (map d_id seen)" and others: "no_new_rows sc seen db"
    and d: "d \<in> left_row de sc st db ` set db" "in_scope sc d" "live d" and n: "n \<in> set (new_rows de sc st db)"
  shows "row_key de n \<noteq> row_key de d"
proof
  assume nd: "row_key de n = row_key de d"
  let ?stale = "stale_at_lock sc db"
  let ?idx = "map fst (bs_rows st) @ fallbacks ?stale (bs_ops st)"
  have xi: "exact_inv de (existing_by_key de sc docs seen) docs st" using plan by (simp add: level.planned_def)
  obtain d0 where d0: "d0 \<in> set db" "in_scope sc d0" "live d0" "row_key de d0 = row_key de d"
    using left_row_origin [OF d] by blast
  obtain k f where f: "k < length ?idx" "?idx ! k = f" "f < length docs" "row_key de n = create_key de (docs ! f)"
    using new_row_index [OF plan n(1)] by blast
  obtain e where e: "e \<in> set seen" "d_id e = d_id d0" "live e" "in_scope sc e" "row_key de e = row_key de d0"
    using no_new_rowsD [OF others d0(1-3), of de] by blast
  have "row_key de e = create_key de (docs ! f)" using e d0 nd f by simp
  from exact_match_found [OF sync e(1,3,4) this f(3) unique ids] obtain e'
    where e': "existing_by_key de sc docs seen (create_key de (docs ! f)) = Some e'" "d_id e' = d_id d0"
    using e(2) by auto
  have "f \<in> set ?idx" using f nth_mem by blast
  moreover have "f \<notin> fst ` set (bs_rows st)"
    using conjunct1 [OF xi [unfolded exact_inv_def]] e'(1) by fastforce
  ultimately obtain op where op: "op \<in> set (bs_ops st)" "?stale (ro_document_id op)" "ro_fallback op = Some f"
    by (auto simp: fallbacks_def map_filter_mem)
  then have "d_id e' = ro_document_id op"
    using conjunct2 [OF xi [unfolded exact_inv_def]] e'(1) by fastforce
  then have "ro_document_id op = d_id d0" using e'(2) by simp
  moreover obtain x where x: "locked_row sc db (d_id d0) = Some x" using d0 locked_row_None [of sc db "d_id d0"] by blast
  moreover have "x = d0" using locked_row_Some [OF db x] d0(1) by auto
  ultimately show False using op(2) d0(3) by (simp add: stale_at_lock_def)
qed

lemma new_rows_unique:
  assumes plan: "level.planned de sc K U existing docs st"
    and n: "n \<in> set (new_rows de sc st db)" "n' \<in> set (new_rows de sc st db)" and key: "row_key de n = row_key de n'"
  shows "d_id n = d_id n'"
proof -
  let ?idx = "map fst (bs_rows st) @ fallbacks (stale_at_lock sc db) (bs_ops st)"
  obtain k f where f: "k < length ?idx" "?idx ! k = f" "d_id n = de_fresh de k"
      "row_key de n = create_key de (docs ! f)" "bs_first st (create_key de (docs ! f)) = Some f"
    using new_row_index [OF plan n(1)] by blast
  obtain k' f' where f': "k' < length ?idx" "?idx ! k' = f'" "d_id n' = de_fresh de k'"
      "row_key de n' = create_key de (docs ! f')" "bs_first st (create_key de (docs ! f')) = Some f'"
    using new_row_index [OF plan n(2)] by blast
  have "f = f'" using f(4,5) f'(4,5) key by (metis option.inject)
  then have "k = k'"
    using nth_eq_iff_index_eq [OF planned_distinct [OF plan] f(1) f'(1)] f(2) f'(2) by simp
  with f(3) f'(3) show ?thesis by simp
qed

lemma keys_stay_unique:
  assumes plan: "level.planned de sc K U (existing_by_key de sc docs seen) docs st"
    and commit: "commit_batch de sc st db = Inr (res, db')"
    and sync: "spelled_alike de sc seen"
    and unique: "keys_unique de sc seen" and ids: "distinct (map d_id seen)" and others: "no_new_rows sc seen db"
  shows "keys_unique de sc db'"
proof -
  let ?table = "map (left_row de sc st db) db @ new_rows de sc st db"
  note T = commit_table [OF commit]
  note old_new = new_row_key_fresh [OF plan T(1) sync unique ids others]
  obtain xs where db': "db' = sync_rows de xs ?table" using T(2) by blast
  have table: "d_id d = d_id d'"
    if "d \<in> set ?table" "d' \<in> set ?table" "in_scope sc d" "live d" "in_scope sc d'" "live d'"
      "row_key de d = row_key de d'" for d d'
  proof -
    have "d \<in> left_row de sc st db ` set db \<or> d \<in> set (new_rows de sc st db)"
      "d' \<in> left_row de sc st db ` set db \<or> d' \<in> set (new_rows de sc st db)"
      using that(1,2) by (simp_all only: set_append set_map Un_iff)
    then show ?thesis
      using left_rows_unique [OF unique ids others _ that(3,4) _ that(5,6,7)] old_new [OF _ that(3,4)] that(7)
        old_new [OF _ that(5,6)] new_rows_unique [OF plan _ _ that(7)] by metis
  qed
  obtain g where g: "db' = map g ?table" "\<And>d. marked d (g d)" using sync_rows_map [of de xs ?table] db' by blast
  have "map d_id db' = map d_id ?table" using g by (simp add: marked_def)
  then have "distinct (map d_id db')" using T(3) by (simp only:)
  then show ?thesis
    unfolding keys_unique_iff [OF \<open>distinct (map d_id db')\<close>]
  proof (intro ballI impI)
    fix d d'
    assume "d \<in> set db'" "d' \<in> set db'"
      "in_scope sc d \<and> live d \<and> in_scope sc d' \<and> live d' \<and> row_key de d = row_key de d'"
    then obtain a b where "a \<in> set ?table" "d = g a" "b \<in> set ?table" "d' = g b" unfolding g(1) by auto
    with table [of a b] g(2) [of a] g(2) [of b]
      \<open>in_scope sc d \<and> live d \<and> in_scope sc d' \<and> live d' \<and> row_key de d = row_key de d'\<close>
    show "d_id d = d_id d'" by (simp add: marked_def)
  qed
qed

section \<open>One transaction after another\<close>

text \<open>The first row of a plan's index list, stored under some id.\<close>

lemma committed_row:
  assumes commit: "commit_batch de sc st db = Inr (res, db')"
    and r: "(r, d) \<in> set (bs_rows st)" "d = document_model_from_create de sc (bs_docs st ! r)"
  shows "\<exists>d' \<in> set db'. live d' \<and> in_scope sc d' \<and> d_level d' = dc_level (bs_docs st ! r)
    \<and> d_session d' = dc_session (bs_docs st ! r)
    \<and> fst ` set (d_message_links d') = {s \<in> cites (bs_docs st ! r). source_id_match s}"
proof -
  let ?rows = "map snd (bs_rows st) @ map (\<lambda>b. document_model_from_create de sc (bs_docs st ! b))
      (fallbacks (stale_at_lock sc db) (bs_ops st))"
  obtain xs where db': "db' = sync_rows de xs
      (map (row_after de sc (stale_at_lock sc db) (bs_docs st) (bs_ops st)) db @ with_ids de ?rows)"
    using commit_table(2) [OF commit] by blast
  have "d \<in> set ?rows" using r(1) by force
  then obtain k where "d\<lparr>d_id := k\<rparr> \<in> set (with_ids de ?rows)" using with_ids_mem by blast
  then have "d\<lparr>d_id := k\<rparr> \<in> set (map (row_after de sc (stale_at_lock sc db) (bs_docs st) (bs_ops st)) db
      @ with_ids de ?rows)" by simp
  from sync_rows_mem [OF this, of de xs] obtain d' where d': "d' \<in> set db'" "marked (d\<lparr>d_id := k\<rparr>) d'"
    unfolding db' by blast
  have "live (d\<lparr>d_id := k\<rparr>)" "in_scope sc (d\<lparr>d_id := k\<rparr>)"
    using model_row(1,2) [where de = de and sc = sc and doc = "bs_docs st ! r"] r(2)
    by (simp_all add: live_def in_scope_def)
  moreover have "fst ` set (d_message_links (d\<lparr>d_id := k\<rparr>)) = {s \<in> cites (bs_docs st ! r). source_id_match s}"
    using model_row(4) r(2) by simp
  ultimately show ?thesis
    using d' r(2) by (intro bexI [of _ d']) (simp_all add: marked_def document_model_from_create_def)
qed

lemma kept_row:
  assumes commit: "commit_batch de sc st db = Inr (res, db')" and d: "d \<in> set db"
  shows "\<exists>d' \<in> set db'. marked (row_after de sc (stale_at_lock sc db) (bs_docs st) (bs_ops st) d) d'"
  using commit_table(2) [OF commit] d sync_rows_mem by fastforce

lemma other_row:
  assumes commit: "commit_batch de sc st db = Inr (res, db')" and d: "d \<in> set db" "\<not> in_scope sc d"
  shows "d \<in> set db'"
proof -
  let ?table = "map (row_after de sc (stale_at_lock sc db) (bs_docs st) (bs_ops st)) db
      @ with_ids de (map snd (bs_rows st) @ map (\<lambda>b. document_model_from_create de sc (bs_docs st ! b))
          (fallbacks (stale_at_lock sc db) (bs_ops st)))"
  obtain xs where db': "db' = sync_rows de xs ?table" and xs: "set xs \<inter> d_id ` set db = {}"
    using commit_table(2) [OF commit] by blast
  obtain f where f: "sync_rows de xs ?table = map f ?table" "\<And>x. d_id x \<notin> set xs \<Longrightarrow> f x = x"
    using sync_rows_map [of de xs ?table] by blast
  have "d \<in> row_after de sc (stale_at_lock sc db) (bs_docs st) (bs_ops st) ` set db"
    using row_after_frame [OF d(2)] d(1) by (intro image_eqI [of _ _ d]) simp_all
  then have "d \<in> set ?table" by simp
  moreover have "f d = d" using f(2) xs d(1) by blast
  ultimately have "d \<in> f ` set ?table" by (metis image_eqI)
  then show ?thesis unfolding db' f(1) by (simp only: set_map)
qed

lemma row_preserved:
  assumes plan: "level.planned de sc (prefetched sc db db) U existing docs st"
    and commit: "commit_batch de sc st db = Inr (res, db')"
    and d: "d \<in> set db" "in_scope sc d" "live d"
    and links: "list_all (\<lambda>(s, i). well_formed_id s) (d_message_links d)"
  shows "\<exists>d' \<in> set db'. live d' \<and> in_scope sc d' \<and> d_level d' = d_level d
    \<and> (d_level d = ''explicit'' \<longrightarrow> d_session d' = d_session d)
    \<and> fst ` set (d_message_links d) \<subseteq> fst ` set (d_message_links d')"
proof -
  have P: "rows_inv de sc docs st" "level.ops_inv de (prefetched sc db db) docs st"
    using plan by (simp_all add: level.planned_def)
  let ?d = "row_after de sc (stale_at_lock sc db) (bs_docs st) (bs_ops st) d"
  show ?thesis
  proof (cases "\<exists>op \<in> set (bs_ops st). ro_kind op = Replace \<and> ro_document_id op = d_id d")
    case False
    then have "live ?d" by (intro row_after_live [OF d(3)]) auto
    obtain d' where d': "d' \<in> set db'" "marked ?d d'" using kept_row [OF commit d(1)] by blast
    have "kept d ?d" by (rule row_after_kept)
    with d' d(2) \<open>live ?d\<close> in_scope_kept [of d ?d sc] show ?thesis
      by (intro bexI [of _ d']) (simp_all add: marked_def kept_def)
  next
    case True
    then obtain op where op: "op \<in> set (bs_ops st)" "ro_kind op = Replace" "ro_document_id op = d_id d" by blast
    then obtain r k where r: "bs_replaced_by st (d_id d) = Some (r, k)"
      using level.ops_inv_op(1) [OF P(2) op(1,2)] by auto
    obtain e where e: "e \<in> prefetched sc db db" "d_id e = d_id d" "compat (docs ! r) e"
        "set (ids_of (cited_ids e)) \<subseteq> cites (bs_docs st ! r)"
      using level.ops_inv_replaced(3) [OF P(2) r] by blast
    have "e = d"
      using e(1,2) d(1) commit_table(1) [OF commit] by (auto simp: prefetched_def distinct_map inj_on_def)
    obtain x where x: "(r, x) \<in> set (bs_rows st)" using level.ops_inv_replaced(1) [OF P(2) r] by auto
    note R = level.rows_inv_row [OF P(1) x]
    from committed_row [OF commit x R(2)] obtain d' where d': "d' \<in> set db'" "live d'" "in_scope sc d'"
        "d_level d' = dc_level (bs_docs st ! r)" "d_session d' = dc_session (bs_docs st ! r)"
        "fst ` set (d_message_links d') = {s \<in> cites (bs_docs st ! r). source_id_match s}"
      by blast
    have "same_doc (docs ! r) (bs_docs st ! r)" using P(1) R(1) by (simp add: rows_inv_def extends_def)
    then have "d_level d' = d_level d \<and> (d_level d = ''explicit'' \<longrightarrow> d_session d' = d_session d)"
      using e(3) d'(4,5) \<open>e = d\<close> by (simp add: same_doc_def compat_def)
    moreover have "fst ` set (d_message_links d) \<subseteq> fst ` set (d_message_links d')"
      using e(4) \<open>e = d\<close> links d'(6) by (auto simp: set_cited_ids list_all_iff source_id_match_def)
    ultimately show ?thesis using d' by blast
  qed
qed

text \<open>When nothing intervenes no operation is stale.\<close>

lemma no_fallbacks:
  assumes plan: "level.planned de sc (prefetched sc db db) U existing docs st" and ids: "distinct (map d_id db)"
  shows "fallbacks (stale_at_lock sc db) (bs_ops st) = []"
proof -
  have ops: "level.ops_inv de (prefetched sc db db) docs st" using plan by (simp add: level.planned_def)
  have "\<not> stale_at_lock sc db (ro_document_id op)" if op: "op \<in> set (bs_ops st)" "ro_kind op = Reinforce" for op
  proof -
    from level.ops_inv_op(2) [OF ops op] obtain e where e: "e \<in> set db" "in_scope sc e" "live e" "d_id e = ro_document_id op"
      by (auto simp: prefetched_def)
    then obtain x where x: "locked_row sc db (ro_document_id op) = Some x"
      using locked_row_None [of sc db "ro_document_id op"] by blast
    with locked_row_Some [OF ids x] e show ?thesis by (auto simp: stale_at_lock_def)
  qed
  then show ?thesis by (auto simp: fallbacks_def List.map_filter_def filter_empty_conv split: option.splits)
qed

lemma loop_counts:
  assumes total: "\<And>s. de_encode de s \<noteq> None" and n: "n \<le> length docs"
    and existing: "\<And>k e. existing k = Some e \<Longrightarrow> e \<in> K \<and> row_key de e = k"
    and cands: "\<And>doc i r e. dd \<Longrightarrow> resolve_semantic_dup de doc (ids i) cands = Some (r, Some e) \<Longrightarrow> e \<in> K \<and> compat doc e"
  shows "let st = foldl (\<lambda>st i. batch_document de sc dd existing ids cands i st) (initial_batch docs) [0..<n]
    in length (bs_rows st) + bs_in_batch st + bs_existing st + bs_rejected st
         = length (filter (\<lambda>i. \<not> refused (docs ! i)) [0..<n])
       \<and> bs_replaced st \<le> length (bs_rows st)"
  using n
proof (induction n)
  case 0
  then show ?case by (simp add: initial_batch_def)
next
  case (Suc n)
  let ?st = "foldl (\<lambda>st i. batch_document de sc dd existing ids cands i st) (initial_batch docs) [0..<n]"
  have "level.batch_inv de sc K (\<lambda>_. False) docs n ?st"
    by (rule level.loop_inv [OF existing cands]) (use Suc.prems total in \<open>simp_all add: unread_def\<close>)
  from level.batch_invD(5) [OF this] Suc.prems have "refused (bs_docs ?st ! n) = refused (docs ! n)" by simp
  with Suc batch_document_counts [OF total, of sc dd existing ids cands n ?st] show ?case
    by (simp add: Let_def)
qed


lemma redirect_counts:
  "let st' = foldl (\<lambda>st op. redirect_citations op st) st ops
   in length (bs_rows st') = length (bs_rows st) \<and> bs_in_batch st' = bs_in_batch st \<and> bs_existing st' = bs_existing st
     \<and> bs_rejected st' = bs_rejected st \<and> bs_replaced st' = bs_replaced st"
proof (induction ops rule: rev_induct)
  case (snoc op ops)
  have len: "length (bs_rows (fold_citations i k x st)) = length (bs_rows st)" for i k x st
    by (metis fold_frame(6) length_map)
  from snoc show ?case
    by (auto simp: Let_def redirect_citations_def [of op] len split: op_kind.split option.split)
qed simp

lemma plan_level:
  assumes "plan_batch de sc dd docs seen1 seen2 = Inr st"
  shows "level.planned de sc (prefetched sc seen1 seen2) (\<lambda>doc. dd \<and> unread de (prefetched sc seen1 seen2) doc) (existing_by_key de sc docs seen2) docs st"
  by (rule level.plan_planned [OF assms]) (use resolved in blast)

lemma plan_counts:
  assumes plan: "plan_batch de sc dd docs seen1 seen2 = Inr st" and total: "\<And>s. de_encode de s \<noteq> None"
  shows "length (bs_rows st) + bs_in_batch st + bs_existing st + bs_rejected st
      = length (filter (\<lambda>doc. \<not> refused doc) docs)" and "bs_replaced st \<le> length (bs_rows st)"
proof -
  let ?K = "prefetched sc seen1 seen2"
  obtain cids cands where cands: "cands = fetch_documents_by_ids sc seen1 (remdups (concat cids))"
    and st: "st = (let st = foldl (\<lambda>st i. batch_document de sc dd (existing_by_key de sc docs seen2) (\<lambda>i. cids ! i) cands i st)
              (initial_batch docs) [0..<length docs]
      in foldl (\<lambda>st op. redirect_citations op st) st (bs_ops st))"
    using plan by (auto simp: plan_batch_def res_simps Let_def)
  have ex: "e \<in> ?K \<and> row_key de e = k" if "existing_by_key de sc docs seen2 k = Some e" for k e
    using existing_by_key_Some [OF that] by (simp add: prefetched_def)
  have cd: "e \<in> ?K \<and> compat doc e" if "resolve_semantic_dup de doc (cids ! i) cands = Some (r, Some e)" for doc i r e
    using resolved [OF that] fetched [of e sc seen1 "remdups (concat cids)"] by (simp add: cands prefetched_def)
  let ?st = "foldl (\<lambda>st i. batch_document de sc dd (existing_by_key de sc docs seen2) (\<lambda>i. cids ! i) cands i st)
      (initial_batch docs) [0..<length docs]"
  have "length (filter (\<lambda>i. \<not> refused (docs ! i)) [0..<length docs]) = length (filter (\<lambda>doc. \<not> refused doc) docs)"
    by (metis (no_types, lifting) filter_map length_map map_nth comp_apply filter_cong)
  with loop_counts [OF total order_refl ex cd, where sc = sc and dd = dd and docs = docs] redirect_counts [of ?st "bs_ops ?st"]
  show "length (bs_rows st) + bs_in_batch st + bs_existing st + bs_rejected st
      = length (filter (\<lambda>doc. \<not> refused doc) docs)" and "bs_replaced st \<le> length (bs_rows st)"
    by (simp_all add: st Let_def)
qed

lemma commit_result:
  assumes commit: "commit_batch de sc st db = Inr (res, db')"
  shows "cr_in_batch res = bs_in_batch st" "cr_existing res = bs_existing st" "cr_rejected res = bs_rejected st"
    "cr_replaced res = bs_replaced st"
    "length (cr_created res) = length (bs_rows st) + length (fallbacks (stale_at_lock sc db) (bs_ops st))"
proof -
  obtain t fb where t: "apply_document_row_updates de sc (bs_docs st) (bs_ops st) db = (t, fb)" by fastforce
  have "fb = fallbacks (stale_at_lock sc db) (bs_ops st)"
    using apply_ops_map [OF commit_table(1) [OF commit], of de sc "bs_docs st" "bs_ops st"] t by simp
  then show "cr_in_batch res = bs_in_batch st" "cr_existing res = bs_existing st" "cr_rejected res = bs_rejected st"
    "cr_replaced res = bs_replaced st"
    "length (cr_created res) = length (bs_rows st) + length (fallbacks (stale_at_lock sc db) (bs_ops st))"
    using commit by (auto simp: commit_batch_def t Let_def split: if_splits)
qed

lemma commit_length:
  assumes commit: "commit_batch de sc st db = Inr (res, db')"
  shows "length db' = length db + length (cr_created res)"
  using commit_table(2) [OF commit] commit_result(5) [OF commit]
  by (auto simp: sync_rows_def with_ids_nth(2))

text \<open>Every new row passed the table's checks.\<close>

lemma committed_rows_ok:
  assumes commit: "commit_batch de sc st db = Inr (res, db')" and r: "(r, d) \<in> set (bs_rows st)"
  shows "row_ok de d"
proof -
  obtain t fb where t: "apply_document_row_updates de sc (bs_docs st) (bs_ops st) db = (t, fb)" by fastforce
  let ?rows = "map snd (bs_rows st) @ map (\<lambda>b. document_model_from_create de sc (bs_docs st ! b)) fb"
  have C: "list_all (\<lambda>d. List.member db d \<or> row_ok de d) (t @ with_ids de ?rows)"
      "distinct (map d_id (t @ with_ids de ?rows))"
    using commit by (simp_all add: commit_batch_def t Let_def split: if_splits)
  have ids: "map d_id t = map d_id db" using apply_ops_ids [of de sc "bs_docs st" "bs_ops st" db] t by simp
  have "d \<in> set ?rows" using r by force
  then obtain k where k: "d\<lparr>d_id := k\<rparr> \<in> set (with_ids de ?rows)" using with_ids_mem by blast
  have "d\<lparr>d_id := k\<rparr> \<notin> set db"
  proof
    assume "d\<lparr>d_id := k\<rparr> \<in> set db"
    then have "k \<in> d_id ` set t" using ids by (metis document.select_convs(1) document.surjective document.update_convs(1) image_eqI list.set_map)
    moreover have "k \<in> d_id ` set (with_ids de ?rows)" using imageI [OF k, of d_id] by simp
    ultimately show False using C(2) by auto
  qed
  then have "row_ok de (d\<lparr>d_id := k\<rparr>)" using C(1) k by (auto simp: list_all_iff)
  then show ?thesis by (simp add: row_ok_def)
qed


lemma commit_error: "commit_batch de sc st db = Inl e \<Longrightarrow> e = ValidationException"
  by (auto simp: commit_batch_def Let_def split: if_splits prod.splits)

lemma oversize_not_ok:
  assumes "length (dc_content doc) > 65535
      \<or> (\<exists>s \<in> set (ids_of (dc_source_ids doc)) \<union> cites doc. source_id_match s \<and> \<not> well_formed_id s)"
  shows "\<not> row_ok de (document_model_from_create de sc doc)"
proof
  let ?d = "document_model_from_create de sc doc"
  assume ok: "row_ok de ?d"
  have s: "fst ` set (d_source_links ?d) = {s \<in> set (ids_of (dc_source_ids doc)). source_id_match s}"
    by (simp add: document_model_from_create_def set_build_links)
  have "well_formed_id s" if "s \<in> fst ` set (d_source_links ?d) \<union> fst ` set (d_message_links ?d)" for s
    using ok that by (auto simp: row_ok_def link_ok_def list_all_iff)
  moreover have "length (dc_content doc) \<le> 65535" using ok by (simp add: row_ok_def document_model_from_create_def)
  ultimately show False using assms unfolding s model_row(4) by auto
qed

section \<open>Properties\<close>


text \<open>C12. Exact deduplication: if no two live rows of the pair had one deduplication key when the exact matches
  were read, no row appeared before the locks, and the database normalizes the contents of the pair's live rows as
  the program does, then no two live rows have one key after the batch, whichever of them were inserted,
  reinforced, replaced or put back because their target had vanished.\<close>

theorem conclusion_keys_unique:
  assumes "create_documents de sc dd docs seen1 seen2 db = Inr (res, db')"
    and "spelled_alike de sc seen2"
    and "distinct (map d_id seen2)" "keys_unique de sc seen2" "no_new_rows sc seen2 db"
  shows "keys_unique de sc db'"
  using assms(1)
proof (cases rule: create_documents_cases)
  case (1 st)
  show ?thesis by (rule keys_stay_unique [OF plan_level [OF 1(1)] 1(2) assms(2,4,3,5)])
qed

text \<open>C26. What was known stays known: rows of other pairs are untouched, and when nothing intervenes every live row
  of the pair still has a live row of its level, and session if explicit, with all its citations: itself or
  its replacement.\<close>

theorem existing_conclusions_preserved:
  assumes "create_documents de sc dd docs seen1 seen2 db = Inr (res, db')" and "d \<in> set db"
  shows "(\<not> in_scope sc d \<longrightarrow> d \<in> set db')
    \<and> (seen1 = db \<and> seen2 = db \<and> in_scope sc d \<and> live d
         \<and> list_all (\<lambda>(s, i). well_formed_id s) (d_message_links d) \<longrightarrow>
       (\<exists>d' \<in> set db'. live d' \<and> in_scope sc d' \<and> d_level d' = d_level d
          \<and> (d_level d = ''explicit'' \<longrightarrow> d_session d' = d_session d)
          \<and> fst ` set (d_message_links d) \<subseteq> fst ` set (d_message_links d')))"
  using assms(1)
proof (cases rule: create_documents_cases)
  case (1 st)
  show ?thesis
    using other_row [OF 1(2) assms(2)] row_preserved [OF _ 1(2) assms(2)] plan_level [OF 1(1)] by blast
qed

text \<open>C27. Every admitted document is counted once: inserted, folded into an earlier one of the batch, an exact match
  of a row, or semantically rejected; replacements are among the inserted; and the table grows by the
  documents the result reports as created. (Nothing intervening, a tokenizer that never fails.)\<close>

theorem every_document_accounted:
  assumes "create_documents de sc dd docs db db db = Inr (res, db')" and "\<And>s. de_encode de s \<noteq> None"
  shows "length (cr_created res) + cr_in_batch res + cr_existing res + cr_rejected res
      = length (filter (\<lambda>doc. \<not> refused doc) docs)
    \<and> cr_replaced res \<le> length (cr_created res) \<and> length db' = length db + length (cr_created res)"
  using assms(1)
proof (cases rule: create_documents_cases)
  case (1 st)
  have "fallbacks (stale_at_lock sc db) (bs_ops st) = []"
    by (rule no_fallbacks [OF plan_level [OF 1(1)] commit_table(1) [OF 1(2)]])
  then show ?thesis
    using commit_result [OF 1(2)] plan_counts [OF 1(1) assms(2)] commit_length [OF 1(2)] by simp
qed

text \<open>C35. One bad document fails the whole batch: content the schema admits (up to 100000 characters) but the table
  does not (65535), or a cited id that passes the pattern only because of a final newline. If such a document is
  new, nothing of the batch is stored. New: no other document of the batch has its key, and the pair has no live
  row it could be merged with (of its key, or with semantic deduplication of its level and, for an explicit
  document, session). With semantic deduplication the search for candidates must have succeeded.\<close>

theorem bad_document_fails_batch:
  assumes "i < length docs" "\<not> refused (docs ! i)"
    and "length (dc_content (docs ! i)) > 65535
      \<or> (\<exists>s \<in> set (ids_of (dc_source_ids (docs ! i))) \<union> set (ids_of (dc_source_message_ids (docs ! i))).
           source_id_match s \<and> \<not> well_formed_id s)"
    and first: "\<And>j. j < length docs \<Longrightarrow> create_key de (docs ! j) = create_key de (docs ! i) \<Longrightarrow> j = i"
    and new: "\<And>d. d \<in> prefetched sc seen1 seen2 \<Longrightarrow>
      if dd then \<not> compat (docs ! i) d else row_key de d \<noteq> create_key de (docs ! i)"
    and searched: "dd \<Longrightarrow> is_ok (dup_candidates de docs)"
  shows "create_documents de sc dd docs seen1 seen2 db = Inl ValidationException"
proof -
  obtain st where st: "plan_batch de sc dd docs seen1 seen2 = Inr st"
    using searched is_ok_iff by (cases dd) (fastforce simp: plan_batch_def res_simps)+
  let ?K = "prefetched sc seen1 seen2"
  have P: "level.planned de sc ?K (\<lambda>doc. dd \<and> unread de ?K doc) (existing_by_key de sc docs seen2) docs st"
    by (rule plan_level [OF st])
  then have inv: "rows_inv de sc docs st" "first_inv de (\<lambda>doc. dd \<and> unread de ?K doc) docs (length docs) st"
    by (simp_all add: level.planned_def)
  obtain f where f: "bs_first st (create_key de (docs ! i)) = Some f"
    using inv(2) assms(1,2) unfolding first_inv_def by blast
  with first_inv_D [OF inv(2) f] first have "f = i" by metis
  moreover have "\<not> (dd \<and> unread de ?K (docs ! i))" using new unfolding unread_def by (metis (full_types))
  ultimately have "placed st i" using f inv(2) unfolding first_inv_def by blast
  moreover have False if "op \<in> set (bs_ops st)" "ro_kind op = Reinforce" "ro_fallback op = Some i" for op
  proof (cases dd)
    case True
    have "level.ops_inv de ?K docs st" using P by (simp add: level.planned_def)
    from level.ops_inv_op(2) [OF this that(1,2)] that(3) new True show ?thesis by auto
  next
    case False
    then have "key.planned de sc ?K (\<lambda>doc. dd \<and> unread de ?K doc) (existing_by_key de sc docs seen2) docs st"
      by (intro key.plan_planned [OF st]) simp
    then have "key.ops_inv de ?K docs st" by (simp add: key.planned_def)
    from key.ops_inv_op(2) [OF this that(1,2)] that(3) new False show ?thesis by auto
  qed
  ultimately obtain d where d: "(i, d) \<in> set (bs_rows st)" unfolding placed_def by force
  have same: "same_doc (docs ! i) (bs_docs st ! i)" "cites (docs ! i) \<subseteq> cites (bs_docs st ! i)"
    using inv(1) assms(1) by (simp_all add: rows_inv_def extends_def)
  have "\<not> row_ok de d"
    unfolding key.rows_inv_row(2) [OF inv(1) d]
    by (rule oversize_not_ok) (use assms(3) same in \<open>auto simp: same_doc_def cites_def\<close>)
  then have "commit_batch de sc st db \<noteq> Inr (res, db')" for res db' using committed_rows_ok [OF _ d] by blast
  then have "commit_batch de sc st db = Inl ValidationException"
    using commit_error by (cases "commit_batch de sc st db") auto
  then show ?thesis using st by (simp add: create_documents_def res_simps)
qed

section \<open>A batch\<close>

text \<open>A pair with two rows; a batch with a repeated explicit conclusion, a re-derivation, a richer version of the
  second row, and a conclusion the session rule refuses.\<close>

definition demo_id :: "char \<Rightarrow> string" where
  "demo_id c = replicate 21 c"

definition demo_env :: doc_env where
  "demo_env = \<lparr>de_pgvector = True,
     de_near = (\<lambda>doc. Some (if dc_level doc = ''deductive'' then [demo_id CHR ''b''] else [])),
     de_encode = (\<lambda>s. Some [0..<length s]), de_lower = (\<lambda>s. s), de_sql_normalize = py_strip,
     de_messages = [demo_id CHR ''m'', demo_id CHR ''n'', demo_id CHR ''o''], de_sessions = [''s1''],
     de_fresh = (\<lambda>k. demo_id (if k = 0 then CHR ''x'' else CHR ''y'')), de_now = 7, de_upsert_ok = True\<rparr>"

definition demo_scope :: scope where
  "demo_scope = \<lparr>sc_workspace = ''w'', sc_observer = ''alice'', sc_observed = ''bob''\<rparr>"

definition demo_row :: "char \<Rightarrow> string \<Rightarrow> string \<Rightarrow> links \<Rightarrow> document" where
  "demo_row c content level l =
     \<lparr>d_id = demo_id c, d_workspace = ''w'', d_observer = ''alice'', d_observed = ''bob'', d_content = content,
      d_level = level, d_session = Some ''s1'', d_times_derived = 1, d_embedding = [], d_source_links = [],
      d_message_links = l, d_created_at = 1, d_deleted_at = None, d_sync_state = Synced, d_sync_attempts = 0,
      d_last_sync_at = None\<rparr>"

definition demo_table :: "document list" where
  "demo_table = [demo_row CHR ''a'' ''reads'' ''explicit'' [(demo_id CHR ''m'', 0)],
     demo_row CHR ''b'' ''cook'' ''deductive'' [(demo_id CHR ''m'', 0)],
     (demo_row CHR ''c'' ''cook'' ''deductive'' [])\<lparr>d_observed := ''carol''\<rparr>]"

definition demo_doc :: "string \<Rightarrow> string \<Rightarrow> string option \<Rightarrow> char \<Rightarrow> doc_create" where
  "demo_doc content level session m =
     \<lparr>dc_content = content, dc_session = session, dc_level = level, dc_times_derived = 1,
      dc_embedding = [PosInf], dc_source_ids = None, dc_source_message_ids = Some [demo_id m]\<rparr>"

definition demo_batch :: "doc_create list" where
  "demo_batch = [demo_doc ''reads '' ''explicit'' (Some ''s1'') CHR ''o'',
     demo_doc ''cooks well'' ''deductive'' (Some ''s1'') CHR ''n'', demo_doc ''lost'' ''explicit'' None CHR ''m'']"

lemma demo_result:
  "map_sum id (\<lambda>(r, t). ((length (cr_created r), cr_in_batch r, cr_existing r, cr_rejected r, cr_replaced r),
       map (\<lambda>d. (d_content d, live d, d_times_derived d, map (hd \<circ> fst) (d_message_links d))) t))
     (create_documents demo_env demo_scope True demo_batch demo_table demo_table demo_table)
   = Inr ((1, 0, 1, 0, 1),
       [(''reads'', True, 2, [CHR ''m'', CHR ''o'']), (''cook'', False, 1, [CHR ''m'']), (''cook'', True, 1, []),
        (''cooks well'', True, 2, [CHR ''m'', CHR ''n''])])"
  by code_simp

lemma demo_stored:
  obtains res t where "create_documents demo_env demo_scope True demo_batch demo_table demo_table demo_table = Inr (res, t)"
  using demo_result
  by (cases "create_documents demo_env demo_scope True demo_batch demo_table demo_table demo_table") auto

lemma demo_total: "de_encode demo_env s \<noteq> None"
  by (simp add: demo_env_def)


theorem conclusion_keys_unique_witness:
  "\<exists>res t. create_documents demo_env demo_scope True demo_batch demo_table demo_table demo_table = Inr (res, t)
     \<and> keys_unique demo_env demo_scope t"
proof -
  obtain res t where r: "create_documents demo_env demo_scope True demo_batch demo_table demo_table demo_table = Inr (res, t)"
    by (rule demo_stored)
  have s: "spelled_alike demo_env demo_scope demo_table" by code_simp
  have h: "distinct (map d_id demo_table)" "keys_unique demo_env demo_scope demo_table"
      "no_new_rows demo_scope demo_table demo_table"
    by code_simp+
  from conclusion_keys_unique [OF r s h] r show ?thesis by blast
qed

theorem existing_conclusions_preserved_witness:
  "\<exists>res t. create_documents demo_env demo_scope True demo_batch demo_table demo_table demo_table = Inr (res, t)
     \<and> demo_table ! 2 \<in> set t"
proof -
  obtain res t where r: "create_documents demo_env demo_scope True demo_batch demo_table demo_table demo_table = Inr (res, t)"
    by (rule demo_stored)
  have "demo_table ! 2 \<in> set demo_table" by (simp add: demo_table_def)
  moreover have "\<not> in_scope demo_scope (demo_table ! 2)" by code_simp
  ultimately show ?thesis using existing_conclusions_preserved [OF r, of "demo_table ! 2"] r by blast
qed

theorem every_document_accounted_witness:
  "\<exists>res t. create_documents demo_env demo_scope True demo_batch demo_table demo_table demo_table = Inr (res, t)
     \<and> length (cr_created res) + cr_in_batch res + cr_existing res + cr_rejected res = 2 \<and> length t = 3 + length (cr_created res)"
proof -
  obtain res t where r: "create_documents demo_env demo_scope True demo_batch demo_table demo_table demo_table = Inr (res, t)"
    by (rule demo_stored)
  have "length (filter (\<lambda>doc. \<not> refused doc) demo_batch) = 2" "length demo_table = 3" by code_simp+
  with every_document_accounted [OF r demo_total] r show ?thesis by auto
qed

theorem bad_document_fails_batch_witness:
  "create_documents demo_env demo_scope True
     [demo_doc ''tea'' ''explicit'' (Some ''s1'') CHR ''m'',
      (demo_doc ''new'' ''inductive'' None CHR ''m'')\<lparr>dc_source_ids := Some [demo_id CHR ''a'' @ [CHR 0x0A]]\<rparr>]
     demo_table demo_table demo_table = Inl ValidationException" (is "create_documents _ _ _ ?docs _ _ _ = _")
proof (rule bad_document_fails_batch [of 1])
  show "length (dc_content (?docs ! 1)) > 65535
      \<or> (\<exists>s \<in> set (ids_of (dc_source_ids (?docs ! 1))) \<union> set (ids_of (dc_source_message_ids (?docs ! 1))).
           source_id_match s \<and> \<not> well_formed_id s)"
  proof (intro disjI2 bexI [of _ "demo_id CHR ''a'' @ [CHR 0x0A]"])
    show "source_id_match (demo_id CHR ''a'' @ [CHR 0x0A]) \<and> \<not> well_formed_id (demo_id CHR ''a'' @ [CHR 0x0A])"
      by code_simp
  qed simp
  show "j = 1" if "j < length ?docs" "create_key demo_env (?docs ! j) = create_key demo_env (?docs ! 1)" for j
  proof -
    have "create_key demo_env (?docs ! 0) \<noteq> create_key demo_env (?docs ! 1)" by code_simp
    moreover have "j = 0 \<or> j = 1" using that(1) by auto
    ultimately show ?thesis using that(2) by auto
  qed
  show "if True then \<not> compat (?docs ! 1) d else row_key demo_env d \<noteq> create_key demo_env (?docs ! 1)"
    if "d \<in> prefetched demo_scope demo_table demo_table" for d
  proof -
    have "list_all (\<lambda>d. \<not> compat (?docs ! 1) d) demo_table" by code_simp
    with that show ?thesis by (auto simp: prefetched_def list_all_iff)
  qed
  show "is_ok (dup_candidates demo_env ?docs)" by code_simp
qed (simp_all add: refused_def demo_doc_def)

section \<open>What the tokenizer cannot read\<close>





section \<open>Spellings the database sees differently\<close>

text \<open>Exact deduplication rests on the database and the program normalizing alike: where they differ (the
  separators 0x1c to 0x1f and the no-break space are stripped by \<open>str.strip\<close> and not by \<open>\s\<close>), a conclusion
  is stored again although the pair has a live row of its key.\<close>

theorem divergent_spelling_duplicated:
  assumes "d \<in> set db" "in_scope sc d" "live d" "row_key de d = create_key de doc" and "\<not> refused doc"
    and "\<forall>e \<in> set db. in_scope sc e \<and> live e \<longrightarrow> de_sql_normalize de (d_content e) \<noteq> normalize_content de (dc_content doc)"
    and "distinct (map d_id db)" "de_fresh de 0 \<notin> d_id ` set db" "row_ok de (document_model_from_create de sc doc)"
  shows "\<exists>res db'. create_documents de sc False [doc] db db db = Inr (res, db') \<and> cr_created res = [doc]
    \<and> \<not> keys_unique de sc db'"
proof -
  let ?m = "document_model_from_create de sc doc" and ?n = "(document_model_from_create de sc doc)\<lparr>d_id := de_fresh de 0\<rparr>"
  define st where "st = accept_document de sc 0 (create_key de doc)
    ((initial_batch [doc])\<lparr>bs_first := [create_key de doc \<mapsto> 0]\<rparr>)"
  have no: "existing_by_key de sc [doc] db k = None" for k
    using assms(6) by (auto simp: existing_by_key_def find_None_iff)
  have p: "plan_batch de sc False [doc] db db = Inr st"
    using assms(5) no
    by (simp add: plan_batch_def batch_document_def Let_def st_def initial_batch_def accept_document_def)
  have st: "bs_rows st = [(0, ?m)]" "bs_ops st = []" "bs_docs st = [doc]"
    by (simp_all add: st_def accept_document_def initial_batch_def)
  have ok: "row_ok de ?n" using assms(9) by (simp add: row_ok_def)
  have "list_all (\<lambda>x. List.member db x \<or> row_ok de x) (db @ [?n])" using ok by (simp add: list_all_iff)
  then obtain res xs where c: "commit_batch de sc st db = Inr (res, sync_rows de xs (db @ [?n]))" "cr_created res = [doc]"
    using assms(7,8) by (auto simp: commit_batch_def st apply_document_row_updates_def with_ids_def)
  obtain f where f: "sync_rows de xs (db @ [?n]) = map f (db @ [?n])" "\<And>x. marked x (f x)"
    using sync_rows_map by blast
  let ?t = "map f (db @ [?n])"
  have dist: "distinct (map d_id ?t)" using assms(7,8) f(2) by (simp add: marked_def comp_def)
  have "d_id d \<noteq> de_fresh de 0" using assms(8) imageI [OF assms(1), of d_id] by metis
  then have ids: "d_id (f d) \<noteq> d_id (f ?n)" using f(2) by (simp add: marked_def)
  have key: "row_key de (f d) = row_key de (f ?n)" and inS: "in_scope sc (f d)" "live (f d)" "in_scope sc (f ?n)" "live (f ?n)"
    using f(2) [of d] f(2) [of ?n] assms(2-4) model_row [where sc = sc and de = de and doc = doc]
    by (simp_all add: marked_def row_key_def in_scope_def live_def)
  have mem: "f d \<in> set ?t" "f ?n \<in> set ?t" using assms(1) by simp_all
  have "\<not> keys_unique de sc ?t"
    using ids key inS mem unfolding keys_unique_iff [OF dist] by blast
  with c f(1) p show ?thesis by (simp add: create_documents_def)
qed

section \<open>Both on examples\<close>

definition strict_env :: doc_env where
  "strict_env = demo_env\<lparr>de_encode := (\<lambda>s. if s = ''<|endoftext|>'' then None else Some [0..<length s]),
     de_sql_normalize := (\<lambda>s. s)\<rparr>"


theorem divergent_spelling_duplicated_witness:
  "\<exists>res db'. create_documents strict_env demo_scope False [demo_doc (''tea'' @ [CHR 0x1C]) ''explicit'' (Some ''s1'') CHR ''m'']
      [demo_row CHR ''a'' (''tea'' @ [CHR 0x1C]) ''explicit'' []] [demo_row CHR ''a'' (''tea'' @ [CHR 0x1C]) ''explicit'' []]
      [demo_row CHR ''a'' (''tea'' @ [CHR 0x1C]) ''explicit'' []] = Inr (res, db')
    \<and> \<not> keys_unique strict_env demo_scope db'"
proof -
  let ?d = "demo_row CHR ''a'' (''tea'' @ [CHR 0x1C]) ''explicit'' []"
  let ?doc = "demo_doc (''tea'' @ [CHR 0x1C]) ''explicit'' (Some ''s1'') CHR ''m''"
  have "in_scope demo_scope ?d" "live ?d" "row_key strict_env ?d = create_key strict_env ?doc" "\<not> refused ?doc"
    "de_sql_normalize strict_env (d_content ?d) \<noteq> normalize_content strict_env (dc_content ?doc)"
    "de_fresh strict_env 0 \<noteq> d_id ?d" "row_ok strict_env (document_model_from_create strict_env demo_scope ?doc)"
    by code_simp+
  with divergent_spelling_duplicated [of ?d "[?d]" demo_scope strict_env ?doc] show ?thesis by auto
qed

end
