(* ===== verification/ConclusionStore.thy ===== *)
theory ConclusionStore
  imports Conclusions ScopePeers "HOL-Library.Product_Lexorder"
begin

text \<open>
  Reading and removing conclusions (src/src/crud/document.py): the ordered queries, soft deletion, the removal of
  soft-deleted rows, the single-document duplicate check, reranking, and conclusions created by clients. The
  order the database gives to ids is an argument \<open>rank\<close>; rows that tie keep the order of the table.
\<close>

section \<open>Queries\<close>

definition pair_rows :: "scope \<Rightarrow> document list \<Rightarrow> document list" where
  "pair_rows sc db = filter (\<lambda>d. in_scope sc d \<and> live d) db"

definition query_documents_recent :: "scope \<Rightarrow> document list \<Rightarrow> nat \<Rightarrow> string option \<Rightarrow> document list" where
  "query_documents_recent sc db limit session_name =
     take limit (sort_key (\<lambda>d. - d_created_at d)
       (filter (\<lambda>d. case session_name of None \<Rightarrow> True | Some s \<Rightarrow> d_session d = Some s) (pair_rows sc db)))"

definition query_documents_most_derived ::
  "(string \<Rightarrow> int) \<Rightarrow> scope \<Rightarrow> document list \<Rightarrow> nat \<Rightarrow> document list" where
  "query_documents_most_derived rank sc db limit =
     take limit (sort_key (\<lambda>d. (- d_times_derived d, - d_created_at d, rank (d_id d))) (pair_rows sc db))"

record level_summary =
  ls_counts :: "(string \<times> nat) list"
  ls_earliest :: "timestamp option"
  ls_latest :: "timestamp option"

text \<open>One row per level, in some order: here the order of first occurrence.\<close>

definition level_rows :: "document list \<Rightarrow> (string \<times> nat \<times> timestamp \<times> timestamp) list" where
  "level_rows rows =
     map (\<lambda>level. let ds = filter (\<lambda>d. d_level d = level) rows; ts = map d_created_at ds
                  in (level, length ds, Min (set ts), Max (set ts)))
       (fromkeys (map d_level rows))"

definition summarize_row :: "string \<times> nat \<times> timestamp \<times> timestamp \<Rightarrow> level_summary \<Rightarrow> level_summary" where
  "summarize_row row s =
     (case row of (level, count, level_min, level_max) \<Rightarrow>
        \<lparr>ls_counts = dset (ls_counts s) level count,
         ls_earliest = (case ls_earliest s of None \<Rightarrow> Some level_min
                        | Some e \<Rightarrow> if level_min < e then Some level_min else Some e),
         ls_latest = (case ls_latest s of None \<Rightarrow> Some level_max
                      | Some l \<Rightarrow> if l < level_max then Some level_max else Some l)\<rparr>)"

definition summarize_documents_by_level :: "scope \<Rightarrow> document list \<Rightarrow> level_summary" where
  "summarize_documents_by_level sc db =
     foldl (\<lambda>s row. summarize_row row s) \<lparr>ls_counts = [], ls_earliest = None, ls_latest = None\<rparr>
       (level_rows (pair_rows sc db))"

text \<open>Keyset paging: rows strictly past a position, else past a time, oldest first, with their total.\<close>

type_synonym position = "timestamp \<times> string"

definition past :: "(string \<Rightarrow> int) \<Rightarrow> position option \<Rightarrow> timestamp option \<Rightarrow> document \<Rightarrow> bool" where
  "past rank after since d =
     (case after of
        Some (t, i) \<Rightarrow> (t, rank i) < (d_created_at d, rank (d_id d))
      | None \<Rightarrow> (case since of None \<Rightarrow> True | Some t \<Rightarrow> t < d_created_at d))"

definition explicit_after ::
  "(string \<Rightarrow> int) \<Rightarrow> scope \<Rightarrow> document list \<Rightarrow> position option \<Rightarrow> timestamp option \<Rightarrow> document list" where
  "explicit_after rank sc db after since =
     filter (\<lambda>d. d_level d = ''explicit'' \<and> past rank after since d) (pair_rows sc db)"

definition query_explicit_documents_after ::
  "(string \<Rightarrow> int) \<Rightarrow> scope \<Rightarrow> document list \<Rightarrow> position option \<Rightarrow> timestamp option \<Rightarrow> nat
    \<Rightarrow> document list \<times> nat" where
  "query_explicit_documents_after rank sc db after since limit =
     (let rows = explicit_after rank sc db after since
      in if rows = [] then ([], 0)
         else (take limit (sort_key (\<lambda>d. (d_created_at d, rank (d_id d))) rows), length rows))"

definition get_documents_by_ids :: "string \<Rightarrow> document list \<Rightarrow> string list \<Rightarrow> document list" where
  "get_documents_by_ids workspace_name db ids =
     filter (\<lambda>d. d_workspace d = workspace_name \<and> List.member ids (d_id d) \<and> live d) db"

section \<open>Reranking\<close>

text \<open>The provider's indices, best first. An index out of range raises; a negative one counts from the end.\<close>

definition py_index :: "'a list \<Rightarrow> int \<Rightarrow> 'a res" where
  "py_index xs i =
     (if 0 \<le> i \<and> i < int (length xs) then Inr (xs ! nat i)
      else if i < 0 \<and> - int (length xs) \<le> i then Inr (xs ! nat (int (length xs) + i))
      else Inl IndexError)"

definition maybe_rerank_documents :: "'a list \<Rightarrow> nat \<Rightarrow> bool \<Rightarrow> int list option \<Rightarrow> 'a list res" where
  "maybe_rerank_documents docs top_k rerank ranked =
     (if \<not> rerank \<or> length docs \<le> 1 then Inr (take top_k docs)
      else (case ranked of
              None \<Rightarrow> Inr (take top_k docs)
            | Some [] \<Rightarrow> Inr (take top_k docs)
            | Some idx \<Rightarrow>
                res_map (\<lambda>picked.
                    take top_k (if length picked < top_k
                                then picked @ map snd (filter (\<lambda>(i, d). \<not> List.member idx (int i)) (zip [0..<length docs] docs))
                                else picked))
                  (traverse (py_index docs) (fromkeys idx))))"

section \<open>Deletion\<close>

definition delete_where :: "(document \<Rightarrow> bool) \<Rightarrow> timestamp \<Rightarrow> document list \<Rightarrow> document list" where
  "delete_where P now db = map (\<lambda>d. if P d then d\<lparr>d_deleted_at := Some now\<rparr> else d) db"

definition deletable :: "scope \<Rightarrow> string list \<Rightarrow> string option \<Rightarrow> document \<Rightarrow> bool" where
  "deletable sc ids session_name d =
     (List.member ids (d_id d) \<and> in_scope sc d \<and> live d
      \<and> (case session_name of None \<Rightarrow> True | Some s \<Rightarrow> d_session d = Some s))"

definition delete_document ::
  "scope \<Rightarrow> string \<Rightarrow> string option \<Rightarrow> timestamp \<Rightarrow> document list \<Rightarrow> document list res" where
  "delete_document sc i session_name now db =
     (if list_ex (deletable sc [i] session_name) db
      then Inr (delete_where (deletable sc [i] session_name) now db) else Inl ResourceNotFoundException)"

definition delete_documents ::
  "scope \<Rightarrow> string list \<Rightarrow> string option \<Rightarrow> timestamp \<Rightarrow> document list \<Rightarrow> (string \<times> string) list \<times> document list" where
  "delete_documents sc ids session_name now db =
     (if ids = [] then ([], db)
      else (map (\<lambda>d. (d_id d, d_level d)) (filter (deletable sc ids session_name) db),
            delete_where (deletable sc ids session_name) now db))"

definition delete_document_by_id :: "string \<Rightarrow> string \<Rightarrow> timestamp \<Rightarrow> document list \<Rightarrow> document list res" where
  "delete_document_by_id workspace_name i now db =
     (let P = (\<lambda>d. d_id d = i \<and> d_workspace d = workspace_name \<and> live d)
      in if list_ex P db then Inr (delete_where P now db) else Inl ResourceNotFoundException)"

text \<open>Hard deletion of rows soft-deleted before the cutoff, a namespace at a time; \<open>chosen\<close> says which rows the
  query picks among more than a batch (any, skipping locked ones), \<open>vectors_ok\<close> whether a namespace's vectors
  could be deleted.\<close>

definition cleanup_soft_deleted_documents ::
  "(document list \<Rightarrow> document list) \<Rightarrow> (document \<Rightarrow> 'ns) \<Rightarrow> ('ns \<Rightarrow> bool) \<Rightarrow> nat \<Rightarrow> int \<Rightarrow> timestamp
    \<Rightarrow> document list \<Rightarrow> nat \<times> document list" where
  "cleanup_soft_deleted_documents chosen namespace vectors_ok batch_size older_than_minutes now db =
     (let cutoff = now - seconds (older_than_minutes * 60);
          documents = take batch_size (chosen (filter (\<lambda>d. case d_deleted_at d of None \<Rightarrow> False | Some t \<Rightarrow> t < cutoff) db));
          deleted = remdups (map d_id (filter (\<lambda>d. vectors_ok (namespace d)) documents))
      in if deleted = [] then (0, db)
         else (length deleted, filter (\<lambda>d. \<not> List.member deleted (d_id d)) db))"

section \<open>One document at a time\<close>

text \<open>\<open>nearest\<close>: the rows in the merge scope that are similar enough, nearest first.\<close>

definition semantic_dup_decision ::
  "doc_env \<Rightarrow> doc_create \<Rightarrow> document list \<Rightarrow> (dup_result \<times> document option) option" where
  "semantic_dup_decision de doc nearest =
     (if semantic_dup_filters doc = None \<or> nearest = [] then Some (NotDuplicate, None)
      else map_option (\<lambda>r. (r, Some (hd nearest))) (score_semantic_dup de doc (hd nearest)))"

definition is_rejected_duplicate ::
  "doc_env \<Rightarrow> doc_create \<Rightarrow> document list \<Rightarrow> document list \<Rightarrow> (dup_result \<times> doc_create \<times> document list) option" where
  "is_rejected_duplicate de doc nearest db =
     (case semantic_dup_decision de doc nearest of
        None \<Rightarrow> None
      | Some (r, None) \<Rightarrow> Some (r, doc, db)
      | Some (ReplacedExisting, Some e) \<Rightarrow>
          Some (ReplacedExisting, doc\<lparr>dc_times_derived := max (dc_times_derived doc) (d_times_derived e + 1)\<rparr>,
                update_row (d_id e) (\<lambda>d. d\<lparr>d_deleted_at := Some (de_now de)\<rparr>) db)
      | Some (r, Some e) \<Rightarrow>
          Some (r, doc, update_row (d_id e)
                  (\<lambda>d. d\<lparr>d_times_derived := max (d_times_derived d + 1) (dc_times_derived doc)\<rparr>) db))"

section \<open>Conclusions created by clients\<close>

record conclusion_create =
  cc_content :: string
  cc_observer :: string
  cc_observed :: string
  cc_session :: "string option"

record observation_env =
  oe_active :: "string \<Rightarrow> bool"
  oe_embed :: "string list \<Rightarrow> pyfloat list list option"
  oe_store_in_postgres :: bool
  oe_external :: bool
  oe_upsert_ok :: "string \<times> string \<Rightarrow> bool"
  oe_fresh :: "nat \<Rightarrow> string"
  oe_now :: timestamp

definition get_session :: "observation_env \<Rightarrow> tables \<Rightarrow> string \<Rightarrow> string \<Rightarrow> unit res" where
  "get_session oe tb workspace_name session_name =
     (if list_ex (\<lambda>s. se_workspace s = workspace_name \<and> se_name s = session_name \<and> live_session_row tb s) (t_sessions tb)
         \<and> oe_active oe session_name
      then Inr () else Inl ResourceNotFoundException)"

definition get_peer :: "tables \<Rightarrow> string \<Rightarrow> string \<Rightarrow> unit res" where
  "get_peer tb workspace_name peer_name =
     (if list_ex (\<lambda>p. pe_workspace p = workspace_name \<and> pe_name p = peer_name \<and> live_peer_row tb p) (t_peers tb)
      then Inr () else Inl ResourceNotFoundException)"

definition observation_model :: "observation_env \<Rightarrow> string \<Rightarrow> conclusion_create \<Rightarrow> pyfloat list \<Rightarrow> document" where
  "observation_model oe workspace_name obs embedding =
     \<lparr>d_id = [], d_workspace = workspace_name, d_observer = cc_observer obs, d_observed = cc_observed obs,
      d_content = cc_content obs, d_level = ''explicit'', d_session = cc_session obs, d_times_derived = 1,
      d_embedding = (if oe_store_in_postgres oe then embedding else []), d_source_links = [], d_message_links = [],
      d_created_at = oe_now oe, d_deleted_at = None, d_sync_state = SyncPending, d_sync_attempts = 0,
      d_last_sync_at = None\<rparr>"

definition sync_observation :: "observation_env \<Rightarrow> document \<Rightarrow> document" where
  "sync_observation oe d =
     (if \<not> oe_external oe \<or> oe_upsert_ok oe (d_observer d, d_observed d)
      then d\<lparr>d_sync_state := Synced, d_last_sync_at := Some (oe_now oe), d_sync_attempts := 0\<rparr>
      else d\<lparr>d_sync_attempts := d_sync_attempts d + 1, d_last_sync_at := Some (oe_now oe)\<rparr>)"

definition validate_observations ::
  "observation_env \<Rightarrow> tables \<Rightarrow> string \<Rightarrow> conclusion_create list \<Rightarrow> unit res" where
  "validate_observations oe tb workspace_name observations =
     res_bind (traverse (get_session oe tb workspace_name) (remdups (List.map_filter cc_session observations))) (\<lambda>_.
     res_bind (traverse (get_peer tb workspace_name)
                (remdups (map cc_observer observations @ map cc_observed observations))) (\<lambda>_.
       reject_scope_observed tb workspace_name (remdups (map cc_observed observations))))"

text \<open>The collections of the pairs are created first and committed at once; what follows may still raise.\<close>

definition create_observations ::
  "observation_env \<Rightarrow> tables \<Rightarrow> string \<Rightarrow> conclusion_create list \<Rightarrow> (string \<times> string) list \<times> document list
    \<Rightarrow> document list res \<times> (string \<times> string) list \<times> document list" where
  "create_observations oe tb workspace_name observations st =
     (let (collections, db) = st
      in if observations = [] then (Inr [], st)
         else (case validate_observations oe tb workspace_name observations of
           Inl e \<Rightarrow> (Inl e, st)
         | Inr _ \<Rightarrow>
             (let collections' = fromkeys (collections @ map (\<lambda>ob. (cc_observer ob, cc_observed ob)) observations)
              in case oe_embed oe (map cc_content observations) of
                   None \<Rightarrow> (Inl ValidationException, (collections', db))
                 | Some embeddings \<Rightarrow>
                     if length embeddings \<noteq> length observations then (Inl ValueError, (collections', db))
                     else (let rows = map (\<lambda>(k, d). d\<lparr>d_id := oe_fresh oe k\<rparr>)
                                 (zip [0..<length observations]
                                   (map (\<lambda>(ob, v). observation_model oe workspace_name ob v) (zip observations embeddings)))
                           in if list_all (\<lambda>d. int (length (d_content d)) \<le> 65535) rows \<and> distinct (map d_id (db @ rows))
                              then (let new = map (sync_observation oe) rows in (Inr new, (collections', db @ new)))
                              else (Inl ValidationException, (collections', db))))))"

end
