(* ===== verification/Tokens.thy ===== *)
theory Tokens
  imports Prelude
begin

text \<open>
  Token estimates (src/src/utils/tokens.py) and the JSON text they are often taken of: \<open>json.dumps\<close> with its
  default settings, which escapes everything outside printable ASCII. The tokenizer and the printing of floats
  are parameters; a \<open>PDateTime\<close> is the value that \<open>json.dumps\<close> refuses with TypeError.
\<close>

fun join_str :: "string \<Rightarrow> string list \<Rightarrow> string" where
  "join_str sep [] = []"
| "join_str sep [x] = x"
| "join_str sep (x # y # xs) = x @ sep @ join_str sep (y # xs)"

text \<open>\<open>estimate_tokens\<close>: when the tokenizer fails a quarter of the length.\<close>

definition estimate_tokens :: "(string \<Rightarrow> nat option) \<Rightarrow> string \<Rightarrow> nat" where
  "estimate_tokens enc text =
     (if text = [] then 0 else (case enc text of Some n \<Rightarrow> n | None \<Rightarrow> length text div 4))"

definition estimate_tokens_list :: "(string \<Rightarrow> nat option) \<Rightarrow> string list \<Rightarrow> nat" where
  "estimate_tokens_list enc texts =
     (if texts = [] then 0
      else let text = join_with (CHR 0x0A) texts in (case enc text of Some n \<Rightarrow> n | None \<Rightarrow> length text div 4))"

section \<open>JSON text\<close>

definition hex_digit :: "nat \<Rightarrow> char" where
  "hex_digit n = char_of (if n < 10 then 48 + n else 87 + n)"

definition json_char :: "char \<Rightarrow> string" where
  "json_char c =
     (let n = (of_char c :: nat)
      in if n = 34 then [CHR 0x5C, CHR 0x22]
         else if n = 92 then [CHR 0x5C, CHR 0x5C]
         else if n = 10 then [CHR 0x5C, CHR ''n'']
         else if n = 13 then [CHR 0x5C, CHR ''r'']
         else if n = 9 then [CHR 0x5C, CHR ''t'']
         else if n = 12 then [CHR 0x5C, CHR ''f'']
         else if n = 8 then [CHR 0x5C, CHR ''b'']
         else if 32 \<le> n \<and> n \<le> 126 then [c]
         else [CHR 0x5C, CHR ''u'', CHR ''0'', CHR ''0'', hex_digit (n div 16), hex_digit (n mod 16)])"

definition json_string :: "string \<Rightarrow> string" where
  "json_string s = CHR 0x22 # concat (map json_char s) @ [CHR 0x22]"

fun json_dumps :: "(pyfloat \<Rightarrow> string) \<Rightarrow> pyval \<Rightarrow> string res" where
  "json_dumps fr PNone = Inr ''null''"
| "json_dumps fr (PBool b) = Inr (if b then ''true'' else ''false'')"
| "json_dumps fr (PInt n) = Inr (show_int n)"
| "json_dumps fr (PFloat f) = Inr (fr f)"
| "json_dumps fr (PStr s) = Inr (json_string s)"
| "json_dumps fr (PList xs) =
     res_map (\<lambda>ts. ''['' @ join_str '', '' ts @ '']'') (traverse (json_dumps fr) xs)"
| "json_dumps fr (PDict d) =
     res_map (\<lambda>ts. ''{'' @ join_str '', '' ts @ ''}'')
       (traverse (\<lambda>(k, v). res_map (\<lambda>t. json_string k @ '': '' @ t) (json_dumps fr v)) d)"
| "json_dumps fr (PDateTime t) = Inl TypeError"

text \<open>\<open>{n:,}\<close>\<close>

definition pad3 :: "nat \<Rightarrow> string" where
  "pad3 n = (if n < 10 then ''00'' else if n < 100 then ''0'' else []) @ show_nat n"

fun show_commas :: "nat \<Rightarrow> string" where
  "show_commas n =
     (if n < 1000 then show_nat n else show_commas (n div 1000) @ '','' @ pad3 (n mod 1000))"

declare show_commas.simps [simp del]

end
