(* ===== verification/WorkingMemory.thy ===== *)
theory WorkingMemory
  imports ConclusionStore Tokens
begin

text \<open>
  The dreamer's working memory (src/src/dreamer/working_memory.py): the cursor over the explicit conclusions of
  a pair, the work list past it, and the notes its specialists keep, all stored in the metadata of the pair's
  collection. Pydantic's validation and dump of an entry and of the cursor, the tokenizer, the parsing of
  dates and the order of ids are the record \<open>wm_env\<close>; dates are microseconds.
\<close>

section \<open>Entries and cursor\<close>

datatype note_kind = NotePending | NoteOpen | NoteCovered | NoteMap

definition NOTE_KINDS :: "(string \<times> note_kind) list" where
  "NOTE_KINDS = [(''pending'', NotePending), (''open'', NoteOpen), (''covered'', NoteCovered), (''map'', NoteMap)]"

fun kind_value :: "note_kind \<Rightarrow> string" where
  "kind_value NotePending = ''pending''"
| "kind_value NoteOpen = ''open''"
| "kind_value NoteCovered = ''covered''"
| "kind_value NoteMap = ''map''"

definition NOTES_KEY :: string where "NOTES_KEY = ''dream_notes''"
definition EPOCH_KEY :: string where "EPOCH_KEY = ''epoch''"
definition PENDING_TTL_DREAMS :: int where "PENDING_TTL_DREAMS = 3"
definition COVERED_TTL_DREAMS :: int where "COVERED_TTL_DREAMS = 5"
definition MAX_CURSOR_HOLDS :: int where "MAX_CURSOR_HOLDS = 3"

record notes_cursor =
  nc_through_created_at :: "timestamp option"
  nc_through_id :: "string option"
  nc_last_run_id :: "string option"
  nc_dreams :: int
  nc_holds :: int

definition fresh_cursor :: notes_cursor where
  "fresh_cursor = \<lparr>nc_through_created_at = None, nc_through_id = None, nc_last_run_id = None,
                   nc_dreams = 0, nc_holds = 0\<rparr>"

definition cursor_position :: "notes_cursor \<Rightarrow> position option" where
  "cursor_position c =
     (case (nc_through_created_at c, nc_through_id c) of (Some t, Some i) \<Rightarrow> Some (t, i) | _ \<Rightarrow> None)"

record note_entry =
  ne_id :: string
  ne_kind :: note_kind
  ne_specialist :: string
  ne_text :: string
  ne_ids :: "string list"
  ne_created_dream :: int
  ne_updated_at :: timestamp
  ne_run_id :: "string option"

definition render_entry :: "note_entry \<Rightarrow> string" where
  "render_entry e =
     (let cited = (if ne_ids e = [] then []
                   else '' (refs: '' @ join_str '', '' (map (\<lambda>i. ''id:'' @ i) (ne_ids e)) @ '')'')
      in ''- ['' @ ne_id e @ ''] '' @ kind_value (ne_kind e) @ '' ('' @ ne_specialist e @ ''): '' @ ne_text e @ cited)"

record wm_env =
  wm_validate_entry :: "pyval \<Rightarrow> note_entry option"
  wm_dump_entry :: "note_entry \<Rightarrow> pyval"
  wm_validate_cursor :: "pyval \<Rightarrow> notes_cursor option"
  wm_dump_cursor :: "notes_cursor \<Rightarrow> pyval"
  wm_parse_iso :: "string \<Rightarrow> timestamp option"
  wm_stated_at :: "document \<Rightarrow> timestamp option"
  wm_json_text :: "pyval \<Rightarrow> string"
  wm_encode :: "string \<Rightarrow> nat option"
  wm_rank :: "string \<Rightarrow> int"
  wm_max_new_conclusions :: nat
  wm_max_new_tokens :: nat
  wm_notes_max_tokens :: nat
  wm_shadow :: bool

definition entry_expired :: "int \<Rightarrow> note_entry \<Rightarrow> bool" where
  "entry_expired dream_number e =
     (let age = dream_number - ne_created_dream e
      in case ne_kind e of
           NotePending \<Rightarrow> PENDING_TTL_DREAMS \<le> age
         | NoteCovered \<Rightarrow> COVERED_TTL_DREAMS \<le> age
         | _ \<Rightarrow> False)"

definition notes_tokens :: "wm_env \<Rightarrow> note_entry list \<Rightarrow> nat" where
  "notes_tokens wm entries = estimate_tokens_list (wm_encode wm) (map render_entry entries)"

definition notes_share_tokens :: "wm_env \<Rightarrow> nat" where
  "notes_share_tokens wm = wm_notes_max_tokens wm div 2"

definition own :: "string \<Rightarrow> note_entry list \<Rightarrow> note_entry list" where
  "own specialist entries = filter (\<lambda>e. ne_specialist e = specialist) entries"

section \<open>What is stored\<close>

text \<open>The metadata of the collection; \<open>None\<close>: there is no such collection.\<close>

definition get_metadata_value :: "pydict option \<Rightarrow> string \<Rightarrow> pyval" where
  "get_metadata_value md key = (case md of None \<Rightarrow> PNone | Some d \<Rightarrow> dget_none d key)"

definition json_text :: "wm_env \<Rightarrow> pyval \<Rightarrow> string option" where
  "json_text wm v = (case v of PNone \<Rightarrow> None | PStr s \<Rightarrow> Some s | _ \<Rightarrow> Some (wm_json_text wm v))"

definition sub_text :: "wm_env \<Rightarrow> pydict \<Rightarrow> string \<Rightarrow> string \<Rightarrow> string option" where
  "sub_text wm md key subkey =
     (case dget md key of Some (PDict d) \<Rightarrow> json_text wm (dget_none d subkey) | _ \<Rightarrow> None)"

text \<open>\<open>value || patch\<close> one level down, in one statement, only while \<open>if_unchanged\<close> holds.\<close>

definition merge_metadata_value ::
  "wm_env \<Rightarrow> string \<Rightarrow> pydict \<Rightarrow> (string \<times> string option) option \<Rightarrow> pydict option \<Rightarrow> bool \<times> pydict option" where
  "merge_metadata_value wm key patch if_unchanged md =
     (case md of
        None \<Rightarrow> (False, None)
      | Some d \<Rightarrow>
          if (case if_unchanged of None \<Rightarrow> True | Some (subkey, expected) \<Rightarrow> sub_text wm d key subkey = expected)
          then (True, Some (dset d key
                  (jsonb_concat (case dget d key of None \<Rightarrow> PDict [] | Some v \<Rightarrow> v) (PDict patch))))
          else (False, md))"

definition parse_entries :: "wm_env \<Rightarrow> pyval \<Rightarrow> note_entry list" where
  "parse_entries wm stored =
     (case stored of
        PDict d \<Rightarrow> (case dget d ''entries'' of
                     Some (PList raw) \<Rightarrow> List.map_filter (wm_validate_entry wm) raw
                   | _ \<Rightarrow> [])
      | _ \<Rightarrow> [])"

definition parse_epoch :: "pyval \<Rightarrow> string option" where
  "parse_epoch stored =
     (case stored of
        PDict d \<Rightarrow> (case dget d EPOCH_KEY of Some (PStr s) \<Rightarrow> Some s | _ \<Rightarrow> None)
      | _ \<Rightarrow> None)"

definition parse_cursor :: "wm_env \<Rightarrow> pyval \<Rightarrow> notes_cursor" where
  "parse_cursor wm stored =
     (case stored of
        PDict d \<Rightarrow>
          (let raw = dget_none d ''cursor'' in
           case wm_validate_cursor wm (if truthy raw then raw else PDict []) of
             Some c \<Rightarrow> c | None \<Rightarrow> fresh_cursor)
      | _ \<Rightarrow> fresh_cursor)"

section \<open>The work list\<close>

record work_item =
  wi_id :: string
  wi_content :: string
  wi_created_at :: timestamp
  wi_stated_at :: "timestamp option"

record work_list =
  wl_items :: "work_item list"
  wl_remaining :: nat

definition work_through :: "work_list \<Rightarrow> position option" where
  "work_through w =
     (if wl_items w = [] then None else Some (wi_created_at (last (wl_items w)), wi_id (last (wl_items w))))"

record dream_state =
  ds_cursor :: notes_cursor
  ds_entries :: "note_entry list"
  ds_notes_epoch :: "string option"
  ds_work_list :: "work_list option"

definition dream_ordinal :: "dream_state \<Rightarrow> int" where
  "dream_ordinal st = nc_dreams (ds_cursor st) + 1"

definition work_item_of :: "wm_env \<Rightarrow> document \<Rightarrow> work_item" where
  "work_item_of wm d = \<lparr>wi_id = d_id d, wi_content = d_content d, wi_created_at = d_created_at d,
                        wi_stated_at = wm_stated_at wm d\<rparr>"

text \<open>The page stops at the token cap, but not before its first item.\<close>

fun take_page :: "wm_env \<Rightarrow> bool \<Rightarrow> nat \<Rightarrow> document list \<Rightarrow> document list" where
  "take_page wm nonempty tokens [] = []"
| "take_page wm nonempty tokens (d # ds) =
     (let tokens' = tokens + estimate_tokens (wm_encode wm) (d_content d)
      in if nonempty \<and> wm_max_new_tokens wm < tokens' then [] else d # take_page wm True tokens' ds)"

definition load_work_list ::
  "wm_env \<Rightarrow> scope \<Rightarrow> document list \<Rightarrow> position option \<Rightarrow> timestamp option \<Rightarrow> work_list" where
  "load_work_list wm sc db after since =
     (let (documents, total) = query_explicit_documents_after (wm_rank wm) sc db after since (wm_max_new_conclusions wm);
          items = map (work_item_of wm) (take_page wm False 0 documents)
      in \<lparr>wl_items = items, wl_remaining = total - length items\<rparr>)"

definition last_dream_at :: "wm_env \<Rightarrow> pydict option \<Rightarrow> timestamp option" where
  "last_dream_at wm md =
     (case get_metadata_value md ''dream'' of
        PDict d \<Rightarrow> (case dget d ''last_dream_at'' of Some (PStr s) \<Rightarrow> wm_parse_iso wm s | _ \<Rightarrow> None)
      | _ \<Rightarrow> None)"

definition load_dream_state ::
  "wm_env \<Rightarrow> scope \<Rightarrow> document list \<Rightarrow> pydict option \<Rightarrow> bool \<Rightarrow> dream_state" where
  "load_dream_state wm sc db md include_work_list =
     (let stored = get_metadata_value md NOTES_KEY;
          cursor = parse_cursor wm stored;
          since = (if cursor_position cursor = None then last_dream_at wm md else None)
      in \<lparr>ds_cursor = cursor, ds_entries = parse_entries wm stored, ds_notes_epoch = parse_epoch stored,
          ds_work_list = (if include_work_list then Some (load_work_list wm sc db (cursor_position cursor) since)
                          else None)\<rparr>)"

section \<open>Moving the cursor\<close>

definition clear_cursor :: "notes_cursor \<Rightarrow> notes_cursor" where
  "clear_cursor c = c\<lparr>nc_through_created_at := None, nc_through_id := None, nc_holds := 0\<rparr>"

definition move_cursor :: "notes_cursor \<Rightarrow> work_list \<Rightarrow> bool \<Rightarrow> bool \<Rightarrow> notes_cursor \<times> nat" where
  "move_cursor cursor w any_ok all_ok =
     (let counted = (if any_ok then cursor\<lparr>nc_dreams := nc_dreams cursor + 1\<rparr> else cursor)
      in case work_through w of
           None \<Rightarrow> (counted, wl_remaining w)
         | Some (t, i) \<Rightarrow>
             let held_too_long = (any_ok \<and> MAX_CURSOR_HOLDS \<le> nc_holds cursor + 1)
             in if all_ok \<or> held_too_long
                then (counted\<lparr>nc_through_created_at := Some t, nc_through_id := Some i, nc_holds := 0\<rparr>, wl_remaining w)
                else let held = (if any_ok then counted\<lparr>nc_holds := nc_holds cursor + 1\<rparr> else counted);
                         pinned = (if cursor_position cursor = None
                                   then held\<lparr>nc_through_created_at := Some (wi_created_at (hd (wl_items w))),
                                             nc_through_id := Some []\<rparr>
                                   else held)
                     in (pinned, wl_remaining w + length (wl_items w)))"

definition plan_cursor_move :: "dream_state \<Rightarrow> bool \<Rightarrow> bool \<Rightarrow> notes_cursor \<times> nat" where
  "plan_cursor_move st any_ok all_ok =
     (case ds_work_list st of
        None \<Rightarrow>
          (clear_cursor (if any_ok then (ds_cursor st)\<lparr>nc_dreams := nc_dreams (ds_cursor st) + 1\<rparr> else ds_cursor st), 0)
      | Some w \<Rightarrow> move_cursor (ds_cursor st) w any_ok all_ok)"

definition clear_position :: "wm_env \<Rightarrow> pyval \<Rightarrow> pydict option" where
  "clear_position wm stored =
     (case stored of
        PDict d \<Rightarrow>
          (let cursor = parse_cursor wm stored
           in if cursor_position cursor = None then None
              else Some (dset d ''cursor'' (wm_dump_cursor wm (clear_cursor cursor))))
      | _ \<Rightarrow> None)"

definition advance_cursor ::
  "wm_env \<Rightarrow> scope \<Rightarrow> document list \<Rightarrow> dream_state option \<Rightarrow> string \<Rightarrow> bool \<Rightarrow> bool \<Rightarrow> pydict option \<Rightarrow> pydict option" where
  "advance_cursor wm sc db state run_id any_ok all_ok md =
     (let updated = (case state of
            None \<Rightarrow> let c = ds_cursor (load_dream_state wm sc db md False)
                    in c\<lparr>nc_dreams := nc_dreams c + (if any_ok then 1 else 0)\<rparr>
          | Some st \<Rightarrow> fst (plan_cursor_move st any_ok all_ok));
          updated = updated\<lparr>nc_last_run_id := Some run_id\<rparr>
      in snd (merge_metadata_value wm NOTES_KEY
                [(''version'', PInt 1), (''cursor'', wm_dump_cursor wm updated)] None md))"

section \<open>Recording a dream\<close>

text \<open>What \<open>process_dream\<close> (src/src/dreamer/orchestrator.py) writes after a dream that ran: the guard pair of the
  scheduler, the cursor, and the follow-up it schedules (0: none). \<open>enabled\<close> is \<open>working_memory_enabled()\<close>,
  \<open>state\<close> is \<open>None\<close> when loading it failed. An exception is swallowed and ends the recording: the collection is
  gone, or its scheduler value is no object.\<close>

definition WORK_LIST_BACKLOG_KEY :: string where "WORK_LIST_BACKLOG_KEY = ''work_list_backlog''"

definition explicit_count :: "scope \<Rightarrow> document list \<Rightarrow> int" where
  "explicit_count sc db = int (length (filter (\<lambda>d. in_scope sc d \<and> d_level d = ''explicit'') db))"

definition record_dream ::
  "wm_env \<Rightarrow> bool \<Rightarrow> scope \<Rightarrow> document list \<Rightarrow> dream_state option \<Rightarrow> string \<Rightarrow> string \<Rightarrow> bool \<Rightarrow> bool
     \<Rightarrow> pydict option \<Rightarrow> nat \<times> pydict option" where
  "record_dream wm enabled sc db state run_id ended_iso deduction_ok induction_ok md =
     (let any_ok = (deduction_ok \<or> induction_ok); all_ok = (deduction_ok \<and> induction_ok);
          backlog = (case state of Some st \<Rightarrow> if enabled then snd (plan_cursor_move st any_ok all_ok) else 0 | None \<Rightarrow> 0);
          follow_up = (if any_ok then backlog else 0)
      in case md of
           None \<Rightarrow> (0, None)
         | Some d \<Rightarrow>
             (case dget_default d ''dream'' (PDict []) of
                PDict meta \<Rightarrow>
                  (let meta = dset meta ''last_dream_at'' (PStr ended_iso);
                       meta = dset meta ''last_dream_document_count'' (PInt (max 0 (explicit_count sc db - int backlog)));
                       meta = dset meta WORK_LIST_BACKLOG_KEY (PInt (int follow_up));
                       d1 = dset d ''dream'' (PDict meta);
                       d1 = (if enabled then d1
                             else (case clear_position wm (dget_none d NOTES_KEY) of
                                     None \<Rightarrow> d1 | Some n \<Rightarrow> dset d1 NOTES_KEY (PDict n)))
                   in (follow_up,
                       if enabled \<and> (any_ok \<or> state \<noteq> None)
                       then advance_cursor wm sc db state run_id any_ok all_ok (Some d1) else Some d1))
              | _ \<Rightarrow> (0, md)))"

section \<open>Editing the notes\<close>

definition py_isdigit :: "char \<Rightarrow> bool" where
  "py_isdigit c = (let n = (of_char c :: nat) in (48 \<le> n \<and> n \<le> 57) \<or> n = 178 \<or> n = 179 \<or> n = 185)"

text \<open>\<open>int(s)\<close> for a string of digits: the superscript digits of \<open>isdigit\<close> are refused.\<close>

fun digits_value :: "int \<Rightarrow> string \<Rightarrow> int res" where
  "digits_value acc [] = Inr acc"
| "digits_value acc (c # cs) =
     (let n = (of_char c :: nat)
      in if 48 \<le> n \<and> n \<le> 57 then digits_value (10 * acc + (int n - 48)) cs else Inl ValueError)"

definition numbered :: "note_entry \<Rightarrow> bool" where
  "numbered e = (starts_with ''n'' (ne_id e) \<and> tl (ne_id e) \<noteq> [] \<and> list_all py_isdigit (tl (ne_id e)))"

definition next_entry_id :: "note_entry list \<Rightarrow> int res" where
  "next_entry_id entries =
     res_map (\<lambda>numbers. (if numbers = [] then 0 else Max (set numbers)) + 1)
       (traverse (\<lambda>e. digits_value 0 (tl (ne_id e))) (filter numbered entries))"

definition remove_prefix :: "string \<Rightarrow> string \<Rightarrow> string" where
  "remove_prefix p s = (if starts_with p s then drop (length p) s else s)"

definition clean_ids :: "pyval \<Rightarrow> string list" where
  "clean_ids raw =
     (case raw of
        PList xs \<Rightarrow> List.map_filter
          (\<lambda>v. case v of PStr s \<Rightarrow> if py_strip s = [] then None else Some (remove_prefix ''id:'' (py_strip s)) | _ \<Rightarrow> None) xs
      | _ \<Rightarrow> [])"

record notes_edit =
  ed_added :: "string list"
  ed_replaced :: "string list"
  ed_removed :: "string list"
  ed_pending_removed :: nat

text \<open>The entries are objects: \<open>ob_list\<close> is the list by object number, \<open>ob_by_id\<close> the dictionary. \<open>remove\<close> drops the
  first entry that is equal to the one found.\<close>

record notes_objects =
  ob_list :: "(nat \<times> note_entry) list"
  ob_by_id :: "(string \<times> nat) list"
  ob_next :: nat
  ob_next_id :: int
  ob_edit :: notes_edit

definition ob_entry :: "notes_objects \<Rightarrow> nat \<Rightarrow> note_entry option" where
  "ob_entry ob h = map_of (ob_list ob) h"

fun remove_equal :: "note_entry \<Rightarrow> (nat \<times> note_entry) list \<Rightarrow> (nat \<times> note_entry) list" where
  "remove_equal e [] = []"
| "remove_equal e ((h, x) # xs) = (if x = e then xs else (h, x) # remove_equal e xs)"

definition notes_objects_of :: "note_entry list \<Rightarrow> notes_objects res" where
  "notes_objects_of entries =
     res_map (\<lambda>n. \<lparr>ob_list = zip [0..<length entries] entries,
                   ob_by_id = foldl (\<lambda>d (h, e). dset d (ne_id e) h) [] (zip [0..<length entries] entries),
                   ob_next = length entries, ob_next_id = n,
                   ob_edit = \<lparr>ed_added = [], ed_replaced = [], ed_removed = [], ed_pending_removed = 0\<rparr>\<rparr>)
       (next_entry_id entries)"

record note_call =
  cl_specialist :: string
  cl_run_id :: "string option"
  cl_dream_number :: int
  cl_now :: timestamp

definition text_of :: "pydict \<Rightarrow> string option" where
  "text_of op = (case dget op ''text'' of
     Some (PStr s) \<Rightarrow> if py_strip s = [] then None else Some (py_strip s) | _ \<Rightarrow> None)"

definition op_add :: "note_call \<Rightarrow> pydict \<Rightarrow> notes_objects \<Rightarrow> notes_objects res" where
  "op_add cl op ob =
     (case dget op ''kind'' of
        Some (PStr k) \<Rightarrow>
          (case (dget NOTE_KINDS k, text_of op) of
             (Some kind, Some text) \<Rightarrow>
               (let entry = \<lparr>ne_id = ''n'' @ show_int (ob_next_id ob), ne_kind = kind, ne_specialist = cl_specialist cl,
                             ne_text = text, ne_ids = clean_ids (dget_none op ''ids''),
                             ne_created_dream = cl_dream_number cl, ne_updated_at = cl_now cl, ne_run_id = cl_run_id cl\<rparr>
                in Inr (ob\<lparr>ob_list := ob_list ob @ [(ob_next ob, entry)],
                           ob_by_id := dset (ob_by_id ob) (ne_id entry) (ob_next ob),
                           ob_next := ob_next ob + 1, ob_next_id := ob_next_id ob + 1,
                           ob_edit := (ob_edit ob)\<lparr>ed_added := ed_added (ob_edit ob) @ [ne_id entry]\<rparr>\<rparr>))
           | _ \<Rightarrow> Inl ValueError)
      | _ \<Rightarrow> Inl ValueError)"

text \<open>The entry an operation names, if it is the specialist's own.\<close>

definition find_own :: "note_call \<Rightarrow> pydict \<Rightarrow> notes_objects \<Rightarrow> (string \<times> nat \<times> note_entry) res" where
  "find_own cl op ob =
     (case dget op ''entry_id'' of
        Some (PStr i) \<Rightarrow>
          (case dget (ob_by_id ob) i of
             None \<Rightarrow> Inl ValueError
           | Some h \<Rightarrow> (case ob_entry ob h of
                          None \<Rightarrow> Inl OutOfModel
                        | Some e \<Rightarrow> if ne_specialist e = cl_specialist cl then Inr (i, h, e) else Inl ValueError))
      | _ \<Rightarrow> Inl ValueError)"

definition op_replace :: "note_call \<Rightarrow> pydict \<Rightarrow> notes_objects \<Rightarrow> notes_objects res" where
  "op_replace cl op ob =
     res_bind (find_own cl op ob) (\<lambda>(i, h, e).
       case text_of op of
         None \<Rightarrow> Inl ValueError
       | Some text \<Rightarrow>
           let e' = e\<lparr>ne_text := text, ne_ids := (if has_key op ''ids'' then clean_ids (dget_none op ''ids'') else ne_ids e),
                      ne_updated_at := cl_now cl, ne_run_id := cl_run_id cl\<rparr>
           in Inr (ob\<lparr>ob_list := map (\<lambda>(h', x). if h' = h then (h', e') else (h', x)) (ob_list ob),
                      ob_edit := (ob_edit ob)\<lparr>ed_replaced := ed_replaced (ob_edit ob) @ [i]\<rparr>\<rparr>))"

definition op_remove :: "note_call \<Rightarrow> pydict \<Rightarrow> notes_objects \<Rightarrow> notes_objects res" where
  "op_remove cl op ob =
     res_map (\<lambda>(i, h, e).
         ob\<lparr>ob_list := remove_equal e (ob_list ob), ob_by_id := dpop (ob_by_id ob) i,
            ob_edit := (ob_edit ob)\<lparr>ed_removed := ed_removed (ob_edit ob) @ [i],
                         ed_pending_removed := ed_pending_removed (ob_edit ob) + (if ne_kind e = NotePending then 1 else 0)\<rparr>\<rparr>)
       (find_own cl op ob)"

definition apply_operation :: "note_call \<Rightarrow> pyval \<Rightarrow> notes_objects \<Rightarrow> notes_objects res" where
  "apply_operation cl raw ob =
     (case raw of
        PDict op \<Rightarrow>
          (case dget op ''op'' of
             Some (PStr s) \<Rightarrow>
               if s = ''add'' then op_add cl op ob
               else if s = ''replace'' then op_replace cl op ob
               else if s = ''remove'' then op_remove cl op ob
               else Inl ValueError
           | _ \<Rightarrow> Inl ValueError)
      | _ \<Rightarrow> Inl ValueError)"

fun apply_operations :: "note_call \<Rightarrow> pyval list \<Rightarrow> notes_objects \<Rightarrow> notes_objects res" where
  "apply_operations cl [] ob = Inr ob"
| "apply_operations cl (raw # ops) ob = res_bind (apply_operation cl raw ob) (apply_operations cl ops)"

definition apply_note_operations ::
  "note_call \<Rightarrow> pyval \<Rightarrow> note_entry list \<Rightarrow> (note_entry list \<times> notes_edit) res" where
  "apply_note_operations cl operations entries =
     (case operations of
        PList (raw # ops) \<Rightarrow>
          res_map (\<lambda>ob. (map snd (ob_list ob), ob_edit ob))
            (res_bind (notes_objects_of entries) (apply_operations cl (raw # ops)))
      | _ \<Rightarrow> Inl ValueError)"

section \<open>Storing and pruning\<close>

definition store_entries ::
  "wm_env \<Rightarrow> note_entry list \<Rightarrow> string option \<Rightarrow> pydict option \<Rightarrow> bool \<times> pydict option" where
  "store_entries wm entries epoch md =
     merge_metadata_value wm NOTES_KEY
       [(''version'', PInt 1), (''entries'', PList (map (wm_dump_entry wm) entries))] (Some (EPOCH_KEY, epoch)) md"

record loaded_notes =
  ln_entries :: "note_entry list"
  ln_pending_expired :: nat
  ln_dropped :: nat
  ln_stripped :: nat

definition live_ids :: "scope \<Rightarrow> document list \<Rightarrow> note_entry list \<Rightarrow> string list" where
  "live_ids sc db entries =
     map d_id (fetch_documents_by_ids sc db (sort (remdups (concat (map ne_ids entries)))))"

definition prune_entry :: "int \<Rightarrow> string list \<Rightarrow> note_entry \<Rightarrow> loaded_notes \<Rightarrow> loaded_notes" where
  "prune_entry dream_number alive e notes =
     (if entry_expired dream_number e
      then notes\<lparr>ln_pending_expired := ln_pending_expired notes + (if ne_kind e = NotePending then 1 else 0)\<rparr>
      else let l = filter (List.member alive) (ne_ids e)
           in if ne_ids e \<noteq> [] \<and> l = [] then notes\<lparr>ln_dropped := ln_dropped notes + 1\<rparr>
              else notes\<lparr>ln_entries := ln_entries notes @ [if length l = length (ne_ids e) then e else e\<lparr>ne_ids := l\<rparr>],
                      ln_stripped := ln_stripped notes + (length (ne_ids e) - length l)\<rparr>)"

definition prune_notes :: "int \<Rightarrow> string list \<Rightarrow> note_entry list \<Rightarrow> loaded_notes" where
  "prune_notes dream_number alive entries =
     foldl (\<lambda>notes e. prune_entry dream_number alive e notes)
       \<lparr>ln_entries = [], ln_pending_expired = 0, ln_dropped = 0, ln_stripped = 0\<rparr> entries"

text \<open>\<open>md\<close> is the metadata when the notes are read, \<open>md'\<close> when they are written back.\<close>

definition load_notes_for_pass ::
  "wm_env \<Rightarrow> scope \<Rightarrow> document list \<Rightarrow> int \<Rightarrow> string option \<Rightarrow> pydict option \<Rightarrow> pydict option
    \<Rightarrow> loaded_notes \<times> pydict option" where
  "load_notes_for_pass wm sc db dream_number epoch md md' =
     (let entries = parse_entries wm (get_metadata_value md NOTES_KEY);
          notes = prune_notes dream_number (live_ids sc db entries) entries
      in (notes, if length (ln_entries notes) \<noteq> length entries \<or> ln_stripped notes \<noteq> 0
              then snd (store_entries wm (ln_entries notes) epoch md') else md'))"

definition load_map_entries :: "wm_env \<Rightarrow> scope \<Rightarrow> document list \<Rightarrow> pydict option \<Rightarrow> note_entry list" where
  "load_map_entries wm sc db md =
     (let entries = filter (\<lambda>e. ne_kind e = NoteMap) (parse_entries wm (get_metadata_value md NOTES_KEY));
          alive = live_ids sc db entries
      in filter (\<lambda>e. ne_ids e = [] \<or> list_ex (List.member alive) (ne_ids e)) entries)"

section \<open>The tool\<close>

fun evict_loop :: "wm_env \<Rightarrow> nat \<Rightarrow> note_entry list \<Rightarrow> note_entry list \<Rightarrow> note_entry list \<times> nat" where
  "evict_loop wm cap kept [] = (kept, notes_tokens wm [])"
| "evict_loop wm cap kept (e # es) =
     (if cap < notes_tokens wm (e # es) then evict_loop wm cap (remove1 e kept) es
      else (kept, notes_tokens wm (e # es)))"

definition evict_oldest :: "wm_env \<Rightarrow> string \<Rightarrow> nat \<Rightarrow> note_entry list \<Rightarrow> note_entry list \<times> nat" where
  "evict_oldest wm specialist cap entries =
     evict_loop wm cap entries (sort_key ne_updated_at (own specialist entries))"

datatype notes_result = NotesReset | NotesError | NotesTooBig nat | NotesUpdated notes_edit nat

text \<open>\<open>handle\<close>: reads the metadata \<open>md\<close>, writes to the metadata \<open>md'\<close>.\<close>

definition update_notes ::
  "wm_env \<Rightarrow> note_call \<Rightarrow> string option \<Rightarrow> pyval \<Rightarrow> pydict option \<Rightarrow> pydict option
    \<Rightarrow> notes_result res \<times> pydict option" where
  "update_notes wm cl epoch operations md md' =
     (let stored = get_metadata_value md NOTES_KEY
      in if parse_epoch stored \<noteq> epoch then (Inr NotesReset, md')
         else let current = filter (\<lambda>e. \<not> entry_expired (cl_dream_number cl) e) (parse_entries wm stored)
              in case apply_note_operations cl operations current of
                   Inl e \<Rightarrow> (if e = ValueError then Inr NotesError else Inl e, md')
                 | Inr (updated, edit) \<Rightarrow>
                     let cap = notes_share_tokens wm;
                         size0 = notes_tokens wm (own (cl_specialist cl) updated);
                         (entries, size) = (if cap < size0 \<and> wm_shadow wm
                                            then evict_oldest wm (cl_specialist cl) cap updated else (updated, size0))
                     in if cap < size \<and> notes_tokens wm (own (cl_specialist cl) current) < size
                        then (Inr (NotesTooBig size), md')
                        else (case store_entries wm entries epoch md' of
                                (True, md'') \<Rightarrow> (Inr (NotesUpdated edit size), md'')
                              | (False, md'') \<Rightarrow> (Inr NotesReset, md'')))"

end
