(* ===== verification/WorkingMemoryProps.thy ===== *)
theory WorkingMemoryProps
  imports WorkingMemory "HOL-Library.Multiset"
begin

text \<open>
  What the working memory promises: consecutive dreams work through a pair's explicit conclusions in order without
  skipping or repeating any, a failing specialist delays this by a bounded number of dreams, an edit touches
  the specialist's own entries only and keeps within its share, and nothing is written over a reset.
\<close>

section \<open>The work order\<close>












section \<open>One dream after another\<close>




lemma keys_differ [simp]: "NOTES_KEY \<noteq> ''dream''" "''dream'' \<noteq> NOTES_KEY"
  by (simp_all add: NOTES_KEY_def)




text \<open>The dreams in which a specialist succeeded.\<close>

definition worked :: "(string \<times> string \<times> bool \<times> bool) list \<Rightarrow> nat" where
  "worked outcomes = length (filter (\<lambda>(_, _, deduction_ok, induction_ok). deduction_ok \<or> induction_ok) outcomes)"

lemma worked_Nil [simp]: "worked [] = 0"
  by (simp add: worked_def)



lemma cursor_position_update [simp]:
  "cursor_position (c\<lparr>nc_dreams := n\<rparr>) = cursor_position c" "cursor_position (c\<lparr>nc_holds := n\<rparr>) = cursor_position c"
  "cursor_position (c\<lparr>nc_last_run_id := r\<rparr>) = cursor_position c"
  "cursor_position (c\<lparr>nc_through_created_at := Some t, nc_through_id := Some i\<rparr>) = Some (t, i)"
  by (simp_all add: cursor_position_def cong: option.case_cong)










section \<open>Numbered ids\<close>

lemma digits_append: "digits_value acc (xs @ ys) = res_bind (digits_value acc xs) (\<lambda>a. digits_value a ys)"
  by (induction acc xs rule: digits_value.induct) (auto simp: Let_def)

lemma show_nat_digits:
  "list_all (\<lambda>c. 48 \<le> (of_char c :: nat) \<and> (of_char c :: nat) \<le> 57) (show_nat n) \<and> show_nat n \<noteq> []
   \<and> digits_value 0 (show_nat n) = Inr (int n)"
proof (induction n rule: show_nat.induct)
  case (1 n)
  have d: "(of_char (char_of (48 + k) :: char) :: nat) = 48 + k" if "k < 10" for k
    using that by simp
  show ?case
  proof (cases "n < 10")
    case True
    then have sn: "show_nat n = [char_of (48 + n)]" by (subst show_nat.simps) simp
    show ?thesis unfolding sn using d [OF True] True by (simp del: of_char_of)
  next
    case False
    with 1 have ih: "list_all (\<lambda>c. 48 \<le> (of_char c :: nat) \<and> (of_char c :: nat) \<le> 57) (show_nat (n div 10))"
      "digits_value 0 (show_nat (n div 10)) = Inr (int (n div 10))" by auto
    have "n mod 10 < 10" by simp
    note d [OF this]
    moreover have "10 * int (n div 10) + int (n mod 10) = int n" by presburger
    moreover have sn: "show_nat n = show_nat (n div 10) @ [char_of (48 + n mod 10)]"
      using False by (subst show_nat.simps) simp
    ultimately show ?thesis unfolding sn digits_append using ih by (simp del: of_char_of)
  qed
qed

lemma numbered_id:
  assumes "0 \<le> n" and "ne_id e = ''n'' @ show_int n"
  shows "numbered e \<and> digits_value 0 (tl (ne_id e)) = Inr n"
proof -
  have "show_int n = show_nat (nat n)" using assms(1) by (simp add: show_int_def)
  moreover have "py_isdigit c" if "48 \<le> (of_char c :: nat) \<and> (of_char c :: nat) \<le> 57" for c
    using that by (simp add: py_isdigit_def)
  ultimately show ?thesis
    using assms show_nat_digits [of "nat n"] by (auto simp: numbered_def starts_with_def list_all_iff)
qed

lemma traverse_arg: "traverse f xs = Inr ys \<Longrightarrow> x \<in> set xs \<Longrightarrow> \<exists>y \<in> set ys. f x = Inr y"
  by (induction xs arbitrary: ys) (auto simp: res_simps)

section \<open>Editing\<close>

text \<open>The objects of one call: handles are distinct, ids are distinct and lead to their objects, numbers in use are
  below the next one.\<close>

definition objects_inv :: "notes_objects \<Rightarrow> bool" where
  "objects_inv ob \<longleftrightarrow>
     distinct (map fst (ob_list ob)) \<and> distinct (map (ne_id \<circ> snd) (ob_list ob))
     \<and> (\<forall>(h, e) \<in> set (ob_list ob). h < ob_next ob)
     \<and> (\<forall>i h. dget (ob_by_id ob) i = Some h \<longleftrightarrow> (\<exists>e. (h, e) \<in> set (ob_list ob) \<and> ne_id e = i))
     \<and> 0 \<le> ob_next_id ob
     \<and> (\<forall>(h, e) \<in> set (ob_list ob). \<forall>n. numbered e \<and> digits_value 0 (tl (ne_id e)) = Inr n \<longrightarrow> n < ob_next_id ob)"

definition others :: "string \<Rightarrow> notes_objects \<Rightarrow> note_entry list" where
  "others specialist ob = filter (\<lambda>e. ne_specialist e \<noteq> specialist) (map snd (ob_list ob))"

lemma by_id_zip:
  assumes "distinct (map ne_id (map snd xs))"
  shows "dget (foldl (\<lambda>d (h, e). dset d (ne_id e) h) d0 xs) i
    = (case map_of (map (\<lambda>(h, e). (ne_id e, h)) xs) i of Some h \<Rightarrow> Some h | None \<Rightarrow> dget d0 i)"
  using assms
proof (induction xs arbitrary: d0)
  case (Cons x xs)
  obtain h e where x: "x = (h, e)" by (cases x)
  show ?case
  proof (cases "i = ne_id e")
    case True
    with Cons.prems x have "map_of (map (\<lambda>(h, e). (ne_id e, h)) xs) i = None"
      by (force simp: map_of_eq_None_iff)
    with Cons True x show ?thesis by simp
  qed (use Cons x in \<open>simp cong: option.case_cong\<close>)
qed simp

lemma objects_of_inv:
  assumes ob: "notes_objects_of entries = Inr ob" and ids: "distinct (map ne_id entries)"
  shows "objects_inv ob" "map snd (ob_list ob) = entries"
proof -
  obtain numbers where numbers: "traverse (\<lambda>e. digits_value 0 (tl (ne_id e))) (filter numbered entries) = Inr numbers"
    and ob: "ob = \<lparr>ob_list = zip [0..<length entries] entries,
                   ob_by_id = foldl (\<lambda>d (h, e). dset d (ne_id e) h) [] (zip [0..<length entries] entries),
                   ob_next = length entries, ob_next_id = (if numbers = [] then 0 else Max (set numbers)) + 1,
                   ob_edit = \<lparr>ed_added = [], ed_replaced = [], ed_removed = [], ed_pending_removed = 0\<rparr>\<rparr>"
    using ob by (auto simp: notes_objects_of_def next_entry_id_def res_simps)
  let ?xs = "zip [0..<length entries] entries"
  show entries: "map snd (ob_list ob) = entries" by (simp add: ob)
  have below: "n < ob_next_id ob" if "e \<in> set entries" "numbered e" "digits_value 0 (tl (ne_id e)) = Inr n" for e n
  proof -
    have "e \<in> set (filter numbered entries)" using that by simp
    from traverse_arg [OF numbers this] obtain y where "y \<in> set numbers" "digits_value 0 (tl (ne_id e)) = Inr y"
      by blast
    with that(3) have "n \<in> set numbers" by simp
    then have "n \<le> Max (set numbers)" "numbers \<noteq> []" by auto
    then show ?thesis by (simp add: ob)
  qed
  have nonneg: "0 \<le> acc \<Longrightarrow> digits_value acc s = Inr n \<Longrightarrow> 0 \<le> n" for acc s n
    by (induction acc s rule: digits_value.induct) (auto simp: Let_def split: if_splits)
  have "0 \<le> ob_next_id ob"
  proof (cases "numbers = []")
    case False
    then have "Max (set numbers) \<in> set numbers" by simp
    then obtain e :: note_entry where "digits_value 0 (tl (ne_id e)) = Inr (Max (set numbers))"
      using traverse_mem [OF numbers, of "Max (set numbers)"] by blast
    with nonneg [of 0] False show ?thesis by (simp add: ob)
  qed (simp add: ob)
  moreover have "dget (ob_by_id ob) i = Some h \<longleftrightarrow> (\<exists>e. (h, e) \<in> set ?xs \<and> ne_id e = i)" for i h
  proof -
    have "map snd ?xs = entries" by simp
    then have d: "distinct (map ne_id (map snd ?xs))" using ids by (simp only:)
    have "map fst (map (\<lambda>(h, e). (ne_id e, h)) xs) = map ne_id (map snd xs)" for xs :: "(nat \<times> note_entry) list"
      by (induction xs) auto
    then have "distinct (map fst (map (\<lambda>(h, e). (ne_id e, h)) ?xs))" using d by (simp only:)
    from map_of_eq_Some_iff [OF this] have "map_of (map (\<lambda>(h, e). (ne_id e, h)) ?xs) i = Some h
        \<longleftrightarrow> (\<exists>e. (h, e) \<in> set ?xs \<and> ne_id e = i)" by force
    with by_id_zip [OF d, of "[]" i] show ?thesis by (simp add: ob split: option.splits)
  qed
  moreover have "distinct (map (ne_id \<circ> snd) ?xs)"
  proof -
    have "map (ne_id \<circ> snd) ?xs = map ne_id (map snd ?xs)" by (simp only: map_map)
    also have "map snd ?xs = entries" by simp
    finally show ?thesis using ids by (simp only:)
  qed
  ultimately show "objects_inv ob"
    using below by (auto simp: objects_inv_def ob set_zip dest: nth_mem)
qed


lemma objects_invD:
  assumes "objects_inv ob"
  shows "distinct (map fst (ob_list ob))" "distinct (map (ne_id \<circ> snd) (ob_list ob))"
    "\<And>h e. (h, e) \<in> set (ob_list ob) \<Longrightarrow> h < ob_next ob"
    "\<And>i h. dget (ob_by_id ob) i = Some h \<longleftrightarrow> (\<exists>e. (h, e) \<in> set (ob_list ob) \<and> ne_id e = i)"
    "0 \<le> ob_next_id ob"
    "\<And>h e n. (h, e) \<in> set (ob_list ob) \<Longrightarrow> numbered e \<Longrightarrow> digits_value 0 (tl (ne_id e)) = Inr n \<Longrightarrow> n < ob_next_id ob"
  using assms unfolding objects_inv_def by blast+

lemma fresh_note_id:
  assumes inv: "objects_inv ob" and e: "(h, e) \<in> set (ob_list ob)"
  shows "ne_id e \<noteq> ''n'' @ show_int (ob_next_id ob)"
  using objects_invD(6) [OF inv e] numbered_id [OF objects_invD(5) [OF inv], of e] by blast

lemma op_add_inv:
  assumes inv: "objects_inv ob" and add: "op_add cl op ob = Inr ob'"
  shows "objects_inv ob' \<and> others (cl_specialist cl) ob' = others (cl_specialist cl) ob"
proof -
  let ?id = "''n'' @ show_int (ob_next_id ob)"
  obtain entry where ob': "ob' = ob\<lparr>ob_list := ob_list ob @ [(ob_next ob, entry)],
        ob_by_id := dset (ob_by_id ob) (ne_id entry) (ob_next ob),
        ob_next := ob_next ob + 1, ob_next_id := ob_next_id ob + 1,
        ob_edit := (ob_edit ob)\<lparr>ed_added := ed_added (ob_edit ob) @ [ne_id entry]\<rparr>\<rparr>"
    and entry: "ne_id entry = ?id" "ne_specialist entry = cl_specialist cl"
    using add by (auto simp: op_add_def Let_def split: option.splits pyval.splits)
  note I = objects_invD [OF inv]
  have new: "digits_value 0 (tl (ne_id entry)) = Inr (ob_next_id ob)" using numbered_id [OF I(5) entry(1)] by simp
  have "objects_inv ob'"
    unfolding objects_inv_def
  proof (intro conjI allI ballI)
    show "distinct (map fst (ob_list ob'))" using I(1,3) by (force simp: ob')
    show "distinct (map (ne_id \<circ> snd) (ob_list ob'))"
      using I(2) fresh_note_id [OF inv] entry(1) by (force simp: ob')
    show "dget (ob_by_id ob') i = Some h \<longleftrightarrow> (\<exists>e. (h, e) \<in> set (ob_list ob') \<and> ne_id e = i)" for i h
      using I(4) [of i h] fresh_note_id [OF inv] entry(1) by (auto simp: ob' dget_dset)
  next
    fix x
    assume x: "x \<in> set (ob_list ob')"
    show "case x of (h, e) \<Rightarrow> h < ob_next ob'" using x I(3) by (force simp: ob' less_Suc_eq)
    show "case x of (h, e) \<Rightarrow> \<forall>n. numbered e \<and> digits_value 0 (tl (ne_id e)) = Inr n \<longrightarrow> n < ob_next_id ob'"
      using x I(6) new by (force simp: ob')
  qed (use I(5) in \<open>simp add: ob'\<close>)
  then show ?thesis using entry(2) by (simp add: ob' others_def)
qed

lemma find_own_Inr:
  assumes "find_own cl op ob = Inr (i, h, e)"
  shows "dget (ob_by_id ob) i = Some h \<and> (h, e) \<in> set (ob_list ob) \<and> ne_specialist e = cl_specialist cl"
  using assms by (auto simp: find_own_def ob_entry_def dest: map_of_SomeD split: option.splits pyval.splits if_splits)

lemma find_own_Inl:
  assumes inv: "objects_inv ob" and "find_own cl op ob = Inl x"
  shows "x = ValueError"
proof -
  have "ob_entry ob h \<noteq> None" if "dget (ob_by_id ob) i = Some h" for i h
  proof -
    from that objects_invD(4) [OF inv, of i h] obtain e where e: "(h, e) \<in> set (ob_list ob)" by blast
    have "h \<in> fst ` set (ob_list ob)" using imageI [OF e, of fst] by simp
    then show ?thesis by (simp add: ob_entry_def map_of_eq_None_iff)
  qed
  then show ?thesis using assms(2) by (fastforce simp: find_own_def split: option.splits pyval.splits if_splits)
qed

lemma op_replace_inv:
  assumes inv: "objects_inv ob" and rep: "op_replace cl op ob = Inr ob'"
  shows "objects_inv ob' \<and> others (cl_specialist cl) ob' = others (cl_specialist cl) ob"
proof -
  obtain i h e t where f: "find_own cl op ob = Inr (i, h, e)" and t: "text_of op = Some t"
    using rep by (auto simp: op_replace_def Let_def res_simps split: option.splits)
  define e' where "e' = e\<lparr>ne_text := t,
      ne_ids := (if has_key op ''ids'' then clean_ids (dget_none op ''ids'') else ne_ids e),
      ne_updated_at := cl_now cl, ne_run_id := cl_run_id cl\<rparr>"
  define edit where "edit = (ob_edit ob)\<lparr>ed_replaced := ed_replaced (ob_edit ob) @ [i]\<rparr>"
  have e': "ne_id e' = ne_id e" "ne_specialist e' = ne_specialist e" by (simp_all add: e'_def)
  have ob': "ob' = ob\<lparr>ob_list := map (\<lambda>(h', x). if h' = h then (h', e') else (h', x)) (ob_list ob), ob_edit := edit\<rparr>"
    unfolding e'_def edit_def using rep by (simp add: op_replace_def f t Let_def)
  note I = objects_invD [OF inv] and F = find_own_Inr [OF f]
  let ?f = "\<lambda>(h', x). if h' = h then (h', e') else (h', x)"
  have at_h: "x = e" if "(h, x) \<in> set (ob_list ob)" for x
    using eq_key_imp_eq_value [OF I(1), of h x e] that F by simp
  have fst: "map fst (map ?f (ob_list ob)) = map fst (ob_list ob)" by auto
  have ids: "map (ne_id \<circ> snd) (map ?f (ob_list ob)) = map (ne_id \<circ> snd) (ob_list ob)"
    using at_h e'(1) by auto
  have mem: "(\<exists>x'. (h', x') \<in> set (map ?f (ob_list ob)) \<and> ne_id x' = j) \<longleftrightarrow> (\<exists>x. (h', x) \<in> set (ob_list ob) \<and> ne_id x = j)"
    for h' j
  proof (cases "h' = h")
    case True
    have "?f (h, e) \<in> ?f ` set (ob_list ob)" using F by (intro imageI) simp
    then have "(h, e') \<in> set (map ?f (ob_list ob))" by simp
    moreover have "x' = e'" if "(h, x') \<in> set (map ?f (ob_list ob))" for x' using that by (auto split: if_splits)
    ultimately have "(\<exists>x'. (h, x') \<in> set (map ?f (ob_list ob)) \<and> ne_id x' = j) \<longleftrightarrow> ne_id e' = j" by blast
    moreover have "(\<exists>x. (h, x) \<in> set (ob_list ob) \<and> ne_id x = j) \<longleftrightarrow> ne_id e = j" using F at_h by blast
    ultimately show ?thesis using True e'(1) by simp
  next
    case False
    then have "(h', x') \<in> set (map ?f (ob_list ob)) \<longleftrightarrow> (h', x') \<in> set (ob_list ob)" for x' by force
    then show ?thesis by simp
  qed
  have l: "ob_list ob' = map ?f (ob_list ob)" by (simp add: ob')
  have "objects_inv ob'"
    unfolding objects_inv_def
  proof (intro conjI allI ballI)
    show "distinct (map fst (ob_list ob'))" unfolding l fst by (rule I(1))
    show "distinct (map (ne_id \<circ> snd) (ob_list ob'))" unfolding l ids by (rule I(2))
    show "dget (ob_by_id ob') j = Some h' \<longleftrightarrow> (\<exists>e. (h', e) \<in> set (ob_list ob') \<and> ne_id e = j)" for j h'
      using I(4) [of j h'] mem [of h' j] by (simp add: ob')
  next
    fix x
    assume "x \<in> set (ob_list ob')"
    then obtain h' y where y: "(h', y) \<in> set (ob_list ob)" "fst x = h'" "ne_id (snd x) = ne_id y"
      using at_h e'(1) by (auto simp: ob' split: if_splits)
    show "case x of (h, e) \<Rightarrow> h < ob_next ob'" using y I(3) by (auto simp: ob' split: prod.split)
    show "case x of (h, e) \<Rightarrow> \<forall>n. numbered e \<and> digits_value 0 (tl (ne_id e)) = Inr n \<longrightarrow> n < ob_next_id ob'"
      using y I(6) [OF y(1)] by (auto simp: ob' numbered_def split: prod.split)
  qed (use I(5) in \<open>simp add: ob'\<close>)
  moreover have "filter (\<lambda>e. ne_specialist e \<noteq> cl_specialist cl) (map snd (map ?f xs))
      = filter (\<lambda>e. ne_specialist e \<noteq> cl_specialist cl) (map snd xs)"
    if "\<And>x. (h, x) \<in> set xs \<Longrightarrow> x = e" for xs
    using that
  proof (induction xs)
    case (Cons p xs)
    obtain h' x where p: "p = (h', x)" by (cases p)
    have "h' = h \<Longrightarrow> x = e" using Cons.prems [of x] p by simp
    with Cons p F e'(2) show ?case by auto
  qed simp
  ultimately show ?thesis using at_h by (simp add: ob' others_def)
qed

lemma remove_equal_filter:
  assumes "distinct (map (ne_id \<circ> snd) xs)" and "(h, e) \<in> set xs"
  shows "remove_equal e xs = filter (\<lambda>p. p \<noteq> (h, e)) xs"
  using assms
proof (induction xs)
  case (Cons p xs)
  obtain h' x where p: "p = (h', x)" by (cases p)
  show ?case
  proof (cases "x = e")
    case True
    then have "(h, e) \<notin> set xs" using Cons.prems(1) p by force
    then have "h = h'" "filter (\<lambda>q. q \<noteq> (h, e)) xs = xs" using Cons.prems(2) p by (auto simp: filter_id_conv)
    with True p show ?thesis by simp
  next
    case False
    with Cons p show ?thesis by auto
  qed
qed simp

lemma op_remove_inv:
  assumes inv: "objects_inv ob" and rem: "op_remove cl op ob = Inr ob'"
  shows "objects_inv ob' \<and> others (cl_specialist cl) ob' = others (cl_specialist cl) ob"
proof -
  obtain i h e edit where f: "find_own cl op ob = Inr (i, h, e)"
    and ob': "ob' = ob\<lparr>ob_list := remove_equal e (ob_list ob), ob_by_id := dpop (ob_by_id ob) i, ob_edit := edit\<rparr>"
    using rem by (auto simp: op_remove_def res_simps)
  note I = objects_invD [OF inv] and F = find_own_Inr [OF f]
  have l: "ob_list ob' = filter (\<lambda>p. p \<noteq> (h, e)) (ob_list ob)"
    using remove_equal_filter [OF I(2)] F by (simp add: ob')
  have id: "ne_id e = i" using I(4) [of i h] F eq_key_imp_eq_value [OF I(1)] by blast
  have once: "h' = h \<and> x = e" if "(h', x) \<in> set (ob_list ob)" "ne_id x = i" for h' x
  proof -
    have "dget (ob_by_id ob) i = Some h'" using I(4) that by blast
    then have "h' = h" using F by simp
    with that(1) F eq_key_imp_eq_value [OF I(1), of h x e] show ?thesis by simp
  qed
  have "objects_inv ob'"
    unfolding objects_inv_def
  proof (intro conjI allI ballI)
    show "distinct (map fst (ob_list ob'))" "distinct (map (ne_id \<circ> snd) (ob_list ob'))"
      unfolding l using I(1,2) by (auto intro: distinct_map_filter)
    show "dget (ob_by_id ob') j = Some h' \<longleftrightarrow> (\<exists>e. (h', e) \<in> set (ob_list ob') \<and> ne_id e = j)" for j h'
    proof -
      have "dget (ob_by_id ob') j = Some h' \<longleftrightarrow> j \<noteq> i \<and> dget (ob_by_id ob) j = Some h'"
        by (simp add: ob' dget_dpop)
      then show ?thesis unfolding l I(4) using once id by auto
    qed
  next
    fix x
    assume x: "x \<in> set (ob_list ob')"
    show "case x of (h, e) \<Rightarrow> h < ob_next ob'" using x I(3) unfolding l by (auto simp: ob')
    show "case x of (h, e) \<Rightarrow> \<forall>n. numbered e \<and> digits_value 0 (tl (ne_id e)) = Inr n \<longrightarrow> n < ob_next_id ob'"
      using x I(6) unfolding l by (auto simp: ob')
  qed (use I(5) in \<open>simp add: ob'\<close>)
  moreover have "filter (\<lambda>e. ne_specialist e \<noteq> cl_specialist cl) (map snd (filter (\<lambda>p. p \<noteq> (h, e)) xs))
      = filter (\<lambda>e. ne_specialist e \<noteq> cl_specialist cl) (map snd xs)" for xs
    using F by (induction xs) auto
  ultimately show ?thesis unfolding others_def l by simp
qed

lemma operation_errors:
  assumes "objects_inv ob"
  shows "op_add cl op ob = Inl x \<Longrightarrow> x = ValueError" "op_replace cl op ob = Inl x \<Longrightarrow> x = ValueError"
    "op_remove cl op ob = Inl x \<Longrightarrow> x = ValueError"
  using find_own_Inl [OF assms, of cl op x]
  by (auto simp: op_add_def op_replace_def op_remove_def Let_def res_simps split: pyval.splits option.splits)

lemma apply_operation_cases:
  "apply_operation cl raw ob = Inl ValueError
   \<or> (\<exists>op. apply_operation cl raw ob \<in> {op_add cl op ob, op_replace cl op ob, op_remove cl op ob})"
  by (auto simp: apply_operation_def split: pyval.split option.split)

lemma apply_operation_inv:
  assumes "objects_inv ob"
  shows "apply_operation cl raw ob = Inr ob' \<Longrightarrow>
      objects_inv ob' \<and> others (cl_specialist cl) ob' = others (cl_specialist cl) ob"
    and "apply_operation cl raw ob = Inl x \<Longrightarrow> x = ValueError"
  using apply_operation_cases [of cl raw ob] op_add_inv [OF assms] op_replace_inv [OF assms] op_remove_inv [OF assms]
    operation_errors [OF assms] by auto

lemma apply_operations_inv:
  assumes "objects_inv ob"
  shows "case apply_operations cl ops ob of Inl x \<Rightarrow> x = ValueError
    | Inr ob' \<Rightarrow> objects_inv ob' \<and> others (cl_specialist cl) ob' = others (cl_specialist cl) ob"
  using assms
proof (induction ops arbitrary: ob)
  case (Cons raw ops)
  show ?case
  proof (cases "apply_operation cl raw ob")
    case (Inl x)
    with apply_operation_inv(2) [OF Cons.prems Inl] show ?thesis by simp
  next
    case (Inr ob1)
    note I = apply_operation_inv(1) [OF Cons.prems Inr]
    with Cons.IH [of ob1] Inr show ?thesis by (auto split: sum.splits)
  qed
qed simp

lemma edits_keep_others:
  assumes "distinct (map ne_id entries)"
  shows "case apply_note_operations cl operations entries of
     Inl x \<Rightarrow> x = ValueError
   | Inr (updated, edit) \<Rightarrow> distinct (map ne_id updated)
       \<and> filter (\<lambda>e. ne_specialist e \<noteq> cl_specialist cl) updated = filter (\<lambda>e. ne_specialist e \<noteq> cl_specialist cl) entries"
proof (cases "apply_note_operations cl operations entries")
  case (Inl x)
  have "y = ValueError" if "digits_value acc s = Inl y" for acc s y
    using that by (induction acc s rule: digits_value.induct) (auto simp: Let_def split: if_splits)
  then have "y = ValueError" if "notes_objects_of entries = Inl y" for y
    using that by (auto simp: notes_objects_of_def next_entry_id_def res_simps dest!: traverse_Inl)
  moreover have "y = ValueError" if "notes_objects_of entries = Inr ob" "apply_operations cl ops ob = Inl y" for ob ops y
    using apply_operations_inv [OF objects_of_inv(1) [OF that(1) assms], of cl ops] that(2) by simp
  ultimately have "x = ValueError"
    using Inl by (auto simp: apply_note_operations_def res_simps simp del: apply_operations.simps
        split: pyval.splits list.splits)
  with Inl show ?thesis by simp
next
  case (Inr r)
  then obtain ops ob ob' where ob: "notes_objects_of entries = Inr ob" "apply_operations cl ops ob = Inr ob'"
      "r = (map snd (ob_list ob'), ob_edit ob')"
    by (auto simp: apply_note_operations_def res_simps simp del: apply_operations.simps split: pyval.splits list.splits)
  note O = objects_of_inv [OF ob(1) assms]
  have "objects_inv ob' \<and> others (cl_specialist cl) ob' = others (cl_specialist cl) ob"
    using apply_operations_inv [OF O(1), of cl ops] ob(2) by simp
  moreover have "map ne_id (map snd xs) = map (ne_id \<circ> snd) xs" for xs :: "(nat \<times> note_entry) list" by simp
  ultimately show ?thesis
    using Inr ob(3) O(2) objects_invD(2) [of ob'] by (simp add: others_def)
qed

text \<open>C25. A specialist edits its own notes only: a call of update_notes either raises ValueError, and then nothing is
  stored, or leaves the entries of the other specialists as they were, in their order, with all ids distinct.\<close>

theorem note_edits_own_only:
  assumes "distinct (map ne_id entries)"
  shows "case apply_note_operations cl operations entries of
     Inl x \<Rightarrow> x = ValueError
   | Inr (updated, edit) \<Rightarrow> distinct (map ne_id updated)
       \<and> filter (\<lambda>e. ne_specialist e \<noteq> cl_specialist cl) updated = filter (\<lambda>e. ne_specialist e \<noteq> cl_specialist cl) entries"
  by (rule edits_keep_others [OF assms])


section \<open>The share of a specialist\<close>

lemma others_remove1:
  "\<not> P e \<Longrightarrow> filter P (remove1 e xs) = filter P xs"
  by (induction xs) auto

lemma evict_fits:
  assumes "evict_loop wm cap kept es = (entries, sz)" and "mset (own s kept) = mset es"
  shows "\<exists>order. mset order = mset (own s entries) \<and> sz = notes_tokens wm order \<and> sz \<le> cap"
    and "filter (\<lambda>e. ne_specialist e \<noteq> s) entries = filter (\<lambda>e. ne_specialist e \<noteq> s) kept"
proof -
  have "(\<exists>order. mset order = mset (own s entries) \<and> sz = notes_tokens wm order \<and> sz \<le> cap)
    \<and> filter (\<lambda>e. ne_specialist e \<noteq> s) entries = filter (\<lambda>e. ne_specialist e \<noteq> s) kept"
    using assms
  proof (induction es arbitrary: kept)
    case Nil
    then have "entries = kept" "sz = notes_tokens wm []" by auto
    moreover have "notes_tokens wm [] \<le> cap" by (simp add: notes_tokens_def estimate_tokens_list_def)
    ultimately show ?case using Nil.prems(2) by (intro conjI exI [of _ "[]"]) auto
  next
    case (Cons e es)
    show ?case
    proof (cases "cap < notes_tokens wm (e # es)")
      case True
      have "e \<in> set (own s kept)" using Cons.prems(2) by (metis list.set_intros(1) mset_eq_setD)
      then have s: "ne_specialist e = s" by (simp add: own_def)
      have "mset (own s (remove1 e kept)) = mset es"
        using Cons.prems(2) s by (simp add: own_def filter_diff_mset)
      moreover have "evict_loop wm cap (remove1 e kept) es = (entries, sz)" using Cons.prems(1) True by simp
      ultimately show ?thesis using Cons.IH s by (simp add: others_remove1)
    next
      case False
      with Cons.prems show ?thesis by (intro conjI exI [of _ "e # es"]) auto
    qed
  qed
  then show "\<exists>order. mset order = mset (own s entries) \<and> sz = notes_tokens wm order \<and> sz \<le> cap"
    and "filter (\<lambda>e. ne_specialist e \<noteq> s) entries = filter (\<lambda>e. ne_specialist e \<noteq> s) kept" by blast+
qed

text \<open>C36. An accepted call of update_notes leaves the specialist within its share: the size it reports is that of its
  entries in some order and fits the share, or at least did not grow; in shadow mode, where the oldest entries
  are evicted, it always fits. The other specialists' unexpired entries are stored as they were.\<close>

theorem notes_within_share:
  assumes call: "update_notes wm cl epoch operations md md' = (Inr (NotesUpdated edit sz), md'')"
    and "current = filter (\<lambda>e. \<not> entry_expired (cl_dream_number cl) e) (parse_entries wm (get_metadata_value md NOTES_KEY))"
    and "distinct (map ne_id current)"
  shows "\<exists>entries order. md'' = snd (store_entries wm entries epoch md')
    \<and> mset order = mset (own (cl_specialist cl) entries) \<and> sz = notes_tokens wm order
    \<and> (sz \<le> notes_share_tokens wm \<or> \<not> wm_shadow wm \<and> sz \<le> notes_tokens wm (own (cl_specialist cl) current))
    \<and> filter (\<lambda>e. ne_specialist e \<noteq> cl_specialist cl) entries = filter (\<lambda>e. ne_specialist e \<noteq> cl_specialist cl) current"
proof -
  let ?s = "cl_specialist cl" and ?cap = "notes_share_tokens wm"
  obtain updated where up: "apply_note_operations cl operations current = Inr (updated, edit)"
    and fits: "let sz0 = notes_tokens wm (own ?s updated);
          (entries, sz') = (if ?cap < sz0 \<and> wm_shadow wm then evict_oldest wm ?s ?cap updated else (updated, sz0))
       in sz' = sz \<and> md'' = snd (store_entries wm entries epoch md')
          \<and> \<not> (?cap < sz \<and> notes_tokens wm (own ?s current) < sz)"
    using call assms(2) by (auto simp: update_notes_def Let_def split: sum.splits prod.splits if_splits bool.splits)
  have others: "filter (\<lambda>e. ne_specialist e \<noteq> ?s) updated = filter (\<lambda>e. ne_specialist e \<noteq> ?s) current"
    using edits_keep_others [OF assms(3), of cl operations] up by simp
  show ?thesis
  proof (cases "?cap < notes_tokens wm (own ?s updated) \<and> wm_shadow wm")
    case True
    obtain entries sz' where ev: "evict_oldest wm ?s ?cap updated = (entries, sz')" by fastforce
    with fits True have "sz' = sz" "md'' = snd (store_entries wm entries epoch md')" by (simp_all add: Let_def)
    moreover have "mset (own ?s updated) = mset (sort_key ne_updated_at (own ?s updated))" by simp
    note evict_fits [OF ev [unfolded evict_oldest_def] this]
    ultimately show ?thesis using others by auto
  next
    case False
    with fits have "md'' = snd (store_entries wm updated epoch md')" "sz = notes_tokens wm (own ?s updated)"
      "\<not> (?cap < sz \<and> notes_tokens wm (own ?s current) < sz)" by (simp_all add: Let_def)
    with False others show ?thesis
      by (intro exI [of _ updated] exI [of _ "own ?s updated"]) auto
  qed
qed

section \<open>Resets\<close>

text \<open>C21. A reset of the notes is never written over: once the stored epoch is not the one the dream started with,
  neither an edit nor the pruning of a pass changes what is stored, whatever either of them had read before, and
  no edit is reported as made.\<close>

theorem reset_not_overwritten:
  assumes "sub_text wm d NOTES_KEY EPOCH_KEY \<noteq> epoch"
  shows "snd (update_notes wm cl epoch operations md (Some d)) = Some d
    \<and> snd (load_notes_for_pass wm sc db n epoch md (Some d)) = Some d
    \<and> (\<forall>edit sz. fst (update_notes wm cl epoch operations md (Some d)) \<noteq> Inr (NotesUpdated edit sz))"
proof -
  have store: "store_entries wm entries epoch (Some d) = (False, Some d)" for entries
    using assms by (simp add: store_entries_def merge_metadata_value_def)
  then show ?thesis
    by (simp add: update_notes_def load_notes_for_pass_def Let_def split: sum.split prod.split)
qed

section \<open>Pruning\<close>

definition surviving :: "int \<Rightarrow> string list \<Rightarrow> note_entry \<Rightarrow> bool" where
  "surviving n alive e \<longleftrightarrow> \<not> entry_expired n e \<and> (ne_ids e = [] \<or> (\<exists>i \<in> set (ne_ids e). i \<in> set alive))"

lemma prune_step:
  "ln_entries (prune_entry n alive x acc) = ln_entries acc
     @ (if surviving n alive x then [x\<lparr>ne_ids := filter (\<lambda>i. i \<in> set alive) (ne_ids x)\<rparr>] else [])"
proof -
  let ?l = "filter (\<lambda>i. i \<in> set alive) (ne_ids x)"
  have m: "List.member alive = (\<lambda>i. i \<in> set alive)" by (rule ext) simp
  show ?thesis
  proof (cases "entry_expired n x")
    case True
    then show ?thesis by (simp add: prune_entry_def surviving_def)
  next
    case False
    have nil: "?l = [] \<longleftrightarrow> \<not> (\<exists>i \<in> set (ne_ids x). i \<in> set alive)" by (auto simp: filter_empty_conv)
    have same: "(if length ?l = length (ne_ids x) then x else x\<lparr>ne_ids := ?l\<rparr>) = x\<lparr>ne_ids := ?l\<rparr>"
    proof (cases "length ?l = length (ne_ids x)")
      case True
      then have "?l = ne_ids x" by (metis filter_id_conv length_filter_less less_irrefl)
      then show ?thesis by simp
    qed simp
    show ?thesis
      using False by (simp add: prune_entry_def Let_def m same nil surviving_def)
  qed
qed

lemma prune_entries:
  "ln_entries (prune_notes n alive entries)
     = map (\<lambda>e. e\<lparr>ne_ids := filter (\<lambda>i. i \<in> set alive) (ne_ids e)\<rparr>) (filter (surviving n alive) entries)"
proof -
  have "ln_entries (foldl (\<lambda>notes e. prune_entry n alive e notes) acc entries)
      = ln_entries acc @ map (\<lambda>e. e\<lparr>ne_ids := filter (\<lambda>i. i \<in> set alive) (ne_ids e)\<rparr>) (filter (surviving n alive) entries)"
    for acc
    by (induction entries arbitrary: acc) (simp_all add: prune_step)
  then show ?thesis by (simp add: prune_notes_def)
qed

lemma set_live_ids:
  "set (live_ids sc db entries) = {i \<in> \<Union> (set ` ne_ids ` set entries). \<exists>d \<in> set db. d_id d = i \<and> in_scope sc d \<and> live d}"
proof -
  let ?P = "\<lambda>i d. d_id d = i \<and> in_scope sc d \<and> live d"
  let ?ids = "sort (remdups (concat (map ne_ids entries)))"
  have "set (live_ids sc db entries) = d_id ` {d. \<exists>i \<in> set ?ids. find (?P i) db = Some d}"
    by (force simp: live_ids_def fetch_documents_by_ids_def List.map_filter_def)
  also have "\<dots> = {i \<in> set ?ids. find (?P i) db \<noteq> None}"
    by (auto simp: find_Some_iff image_iff)
  also have "\<dots> = {i \<in> set ?ids. \<exists>d \<in> set db. ?P i d}"
    by (intro Collect_cong) (auto simp: find_None_iff)
  also have "set ?ids = \<Union> (set ` ne_ids ` set entries)" by simp
  finally show ?thesis .
qed

text \<open>What a pass loads: the unexpired entries, in order, with exactly their citations of live conclusions of the
  pair, less those that cited something and have nothing left.\<close>

theorem pruned_notes:
  assumes "entries = parse_entries wm (get_metadata_value md NOTES_KEY)"
  shows "ln_entries (fst (load_notes_for_pass wm sc db n epoch md md'))
     = map (\<lambda>e. e\<lparr>ne_ids := filter (\<lambda>i. \<exists>d \<in> set db. d_id d = i \<and> in_scope sc d \<and> live d) (ne_ids e)\<rparr>)
         (filter (\<lambda>e. \<not> entry_expired n e
             \<and> (ne_ids e = [] \<or> (\<exists>i \<in> set (ne_ids e). \<exists>d \<in> set db. d_id d = i \<and> in_scope sc d \<and> live d))) entries)"
proof -
  let ?alive = "live_ids sc db entries"
  have at: "i \<in> set ?alive \<longleftrightarrow> (\<exists>d \<in> set db. d_id d = i \<and> in_scope sc d \<and> live d)"
    if "e \<in> set entries" "i \<in> set (ne_ids e)" for e i
    using that unfolding set_live_ids by auto
  have "ln_entries (fst (load_notes_for_pass wm sc db n epoch md md')) = ln_entries (prune_notes n ?alive entries)"
    by (simp add: load_notes_for_pass_def Let_def assms)
  also have "\<dots> = map (\<lambda>e. e\<lparr>ne_ids := filter (\<lambda>i. i \<in> set ?alive) (ne_ids e)\<rparr>) (filter (surviving n ?alive) entries)"
    by (rule prune_entries)
  also have "filter (surviving n ?alive) entries = filter (\<lambda>e. \<not> entry_expired n e
      \<and> (ne_ids e = [] \<or> (\<exists>i \<in> set (ne_ids e). \<exists>d \<in> set db. d_id d = i \<and> in_scope sc d \<and> live d))) entries"
    by (rule filter_cong [OF refl]) (use at in \<open>auto simp: surviving_def\<close>)
  finally show ?thesis
    using at by (auto intro!: map_cong arg_cong [where f = "\<lambda>l. _\<lparr>ne_ids := l\<rparr>"] filter_cong)
qed


section \<open>A pair\<close>

text \<open>Two explicit conclusions, a fresh cursor, and a note of each specialist; ids are ranked by length.\<close>

definition wm_dump :: "notes_cursor \<Rightarrow> pyval" where
  "wm_dump c = PDict [(''t'', case nc_through_created_at c of None \<Rightarrow> PNone | Some t \<Rightarrow> PInt t),
     (''i'', opt_str (nc_through_id c)), (''r'', opt_str (nc_last_run_id c)),
     (''d'', PInt (nc_dreams c)), (''h'', PInt (nc_holds c))]"

definition wm_read_str :: "pyval \<Rightarrow> string option" where
  "wm_read_str v = (case v of PStr s \<Rightarrow> Some s | _ \<Rightarrow> None)"

definition wm_read_int :: "pyval \<Rightarrow> int option" where
  "wm_read_int v = (case v of PInt n \<Rightarrow> Some n | _ \<Rightarrow> None)"

definition wm_read :: "pyval \<Rightarrow> notes_cursor option" where
  "wm_read v = (case v of
     PDict d \<Rightarrow> (case (wm_read_int (dget_none d ''d''), wm_read_int (dget_none d ''h'')) of
        (Some n, Some h) \<Rightarrow> Some \<lparr>nc_through_created_at = wm_read_int (dget_none d ''t''),
           nc_through_id = wm_read_str (dget_none d ''i''), nc_last_run_id = wm_read_str (dget_none d ''r''),
           nc_dreams = n, nc_holds = h\<rparr>
      | _ \<Rightarrow> None)
   | _ \<Rightarrow> None)"

definition wm_note :: "string \<Rightarrow> note_entry" where
  "wm_note s = \<lparr>ne_id = s, ne_kind = NoteOpen, ne_specialist = (if s = ''n1'' then ''deduction'' else ''induction''),
     ne_text = ''check'', ne_ids = (if s = ''n1'' then [''a'', ''gone''] else []), ne_created_dream = 1, ne_updated_at = 5,
     ne_run_id = None\<rparr>"

definition demo_wm :: wm_env where
  "demo_wm = \<lparr>wm_validate_entry = (\<lambda>v. map_option wm_note (wm_read_str v)), wm_dump_entry = (\<lambda>e. PStr (ne_id e)),
     wm_validate_cursor = wm_read, wm_dump_cursor = wm_dump, wm_parse_iso = (\<lambda>_. None), wm_stated_at = (\<lambda>_. None),
     wm_json_text = (\<lambda>_. []), wm_encode = (\<lambda>s. Some (length s)), wm_rank = (\<lambda>s. int (length s)),
     wm_max_new_conclusions = 1, wm_max_new_tokens = 100, wm_notes_max_tokens = 200, wm_shadow = False\<rparr>"

definition wm_doc :: "string \<Rightarrow> timestamp \<Rightarrow> document" where
  "wm_doc i t = \<lparr>d_id = i, d_workspace = ''w'', d_observer = ''alice'', d_observed = ''bob'', d_content = ''likes tea'',
      d_level = ''explicit'', d_session = Some ''s'', d_times_derived = 1, d_embedding = [], d_source_links = [],
      d_message_links = [], d_created_at = t, d_deleted_at = None, d_sync_state = Synced, d_sync_attempts = 0,
      d_last_sync_at = None\<rparr>"

definition wm_scope :: scope where
  "wm_scope = \<lparr>sc_workspace = ''w'', sc_observer = ''alice'', sc_observed = ''bob''\<rparr>"

definition wm_table :: "document list" where
  "wm_table = [wm_doc ''bb'' 7, wm_doc ''a'' 7]"

definition wm_metadata :: pydict where
  "wm_metadata = [(NOTES_KEY, PDict [(''entries'', PList [PStr ''n1'', PStr ''n2'']), (EPOCH_KEY, PStr ''e'')])]"



theorem note_edits_own_only_witness:
  "case apply_note_operations \<lparr>cl_specialist = ''deduction'', cl_run_id = None, cl_dream_number = 2, cl_now = 9\<rparr>
      (PList [PDict [(''op'', PStr ''remove''), (''entry_id'', PStr ''n1'')],
              PDict [(''op'', PStr ''add''), (''kind'', PStr ''map''), (''text'', PStr '' topics '')]])
      [wm_note ''n1'', wm_note ''n2''] of
     Inl x \<Rightarrow> False
   | Inr (updated, edit) \<Rightarrow> filter (\<lambda>e. ne_specialist e \<noteq> ''deduction'') updated = [wm_note ''n2'']"
proof -
  let ?cl = "\<lparr>cl_specialist = ''deduction'', cl_run_id = None, cl_dream_number = 2, cl_now = 9\<rparr>"
  let ?ops = "PList [PDict [(''op'', PStr ''remove''), (''entry_id'', PStr ''n1'')],
              PDict [(''op'', PStr ''add''), (''kind'', PStr ''map''), (''text'', PStr '' topics '')]]"
  have d: "distinct (map ne_id [wm_note ''n1'', wm_note ''n2''])"
    and f: "filter (\<lambda>e. ne_specialist e \<noteq> ''deduction'') [wm_note ''n1'', wm_note ''n2''] = [wm_note ''n2'']"
    by code_simp+
  have "is_ok (apply_note_operations ?cl ?ops [wm_note ''n1'', wm_note ''n2''])" by code_simp
  with note_edits_own_only [OF d, of ?cl ?ops] f show ?thesis by (auto split: sum.splits)
qed

theorem notes_within_share_witness:
  "\<exists>edit sz md''. update_notes demo_wm \<lparr>cl_specialist = ''deduction'', cl_run_id = None, cl_dream_number = 2, cl_now = 9\<rparr>
      (Some ''e'') (PList [PDict [(''op'', PStr ''replace''), (''entry_id'', PStr ''n1''), (''text'', PStr ''done'')]])
      (Some wm_metadata) (Some wm_metadata) = (Inr (NotesUpdated edit sz), md'') \<and> sz \<le> 100"
proof -
  let ?cl = "\<lparr>cl_specialist = ''deduction'', cl_run_id = None, cl_dream_number = 2, cl_now = 9\<rparr>"
  let ?ops = "PList [PDict [(''op'', PStr ''replace''), (''entry_id'', PStr ''n1''), (''text'', PStr ''done'')]]"
  let ?current = "filter (\<lambda>e. \<not> entry_expired (cl_dream_number ?cl) e)
    (parse_entries demo_wm (get_metadata_value (Some wm_metadata) NOTES_KEY))"
  have "case update_notes demo_wm ?cl (Some ''e'') ?ops (Some wm_metadata) (Some wm_metadata) of
      (Inr (NotesUpdated edit sz), _) \<Rightarrow> True | _ \<Rightarrow> False" by code_simp
  then obtain edit sz md'' where u: "update_notes demo_wm ?cl (Some ''e'') ?ops (Some wm_metadata) (Some wm_metadata)
      = (Inr (NotesUpdated edit sz), md'')"
    by (auto split: prod.splits sum.splits notes_result.splits)
  have d: "distinct (map ne_id ?current)" by code_simp
  have c: "notes_tokens demo_wm (own ''deduction'' ?current) \<le> 100" "notes_share_tokens demo_wm = 100" by code_simp+
  from notes_within_share [OF u refl d] c have "sz \<le> 100" by auto
  with u show ?thesis by blast
qed

theorem reset_not_overwritten_witness:
  "snd (update_notes demo_wm \<lparr>cl_specialist = ''deduction'', cl_run_id = None, cl_dream_number = 2, cl_now = 9\<rparr>
      None (PList [PDict [(''op'', PStr ''remove''), (''entry_id'', PStr ''n1'')]]) None (Some wm_metadata)) = Some wm_metadata"
proof -
  have "sub_text demo_wm wm_metadata NOTES_KEY EPOCH_KEY \<noteq> None" by code_simp
  from reset_not_overwritten [OF this] show ?thesis by blast
qed

theorem pruned_notes_witness:
  "map ne_ids (ln_entries (fst (load_notes_for_pass demo_wm wm_scope wm_table 2 (Some ''e'') (Some wm_metadata) (Some wm_metadata))))
     = [[''a''], []]"
proof -
  have "parse_entries demo_wm (get_metadata_value (Some wm_metadata) NOTES_KEY) = [wm_note ''n1'', wm_note ''n2'']" by code_simp
  note pruned_notes [OF this [symmetric], of wm_scope wm_table 2 "Some ''e''" "Some wm_metadata"]
  then show ?thesis
    by (simp add: wm_note_def entry_expired_def wm_table_def wm_doc_def in_scope_def wm_scope_def live_def)
qed

section \<open>A dream whose state failed to load\<close>



end
