(* ===== verification/Conversation.thy ===== *)
theory Conversation
  imports Tokens
begin

text \<open>
  Shaping the conversation a tool loop sends (src/src/llm/conversation.py): counting its tokens, grouping it into
  units that keep a tool call with its results, and truncating it to a budget. A message is the dictionary the
  program handles. A payload is addressed by the number of its message and its place there, and a message is a
  tree: no two places share an object.
\<close>

record token_env =
  tk_encode :: "string \<Rightarrow> nat option"
  tk_float :: "pyfloat \<Rightarrow> string"
  tk_str :: "pyval \<Rightarrow> string"

definition as_dict :: "pyval \<Rightarrow> pydict option" where
  "as_dict v = (case v of PDict d \<Rightarrow> Some d | _ \<Rightarrow> None)"

definition as_list :: "pyval \<Rightarrow> pyval list option" where
  "as_list v = (case v of PList xs \<Rightarrow> Some xs | _ \<Rightarrow> None)"

text \<open>\<open>as_list(v) or ()\<close>\<close>

definition items_of :: "pyval \<Rightarrow> pyval list" where
  "items_of v = (case as_list v of Some xs \<Rightarrow> xs | None \<Rightarrow> [])"

section \<open>Counting\<close>

definition message_tokens :: "token_env \<Rightarrow> pydict \<Rightarrow> nat res" where
  "message_tokens tk m =
     res_map (\<lambda>n. n + (case dget m ''parts'' of
                        None \<Rightarrow> 0
                      | Some v \<Rightarrow> (case json_dumps (tk_float tk) v of
                                    Inr text \<Rightarrow> estimate_tokens (tk_encode tk) text
                                  | Inl _ \<Rightarrow> estimate_tokens (tk_encode tk) (tk_str tk v))))
       (case dget_default m ''content'' (PStr []) of
          PStr s \<Rightarrow> Inr (estimate_tokens (tk_encode tk) s)
        | PList xs \<Rightarrow> res_map (estimate_tokens (tk_encode tk)) (json_dumps (tk_float tk) (PList xs))
        | _ \<Rightarrow> Inr 0)"

fun count_message_tokens :: "token_env \<Rightarrow> pydict list \<Rightarrow> nat res" where
  "count_message_tokens tk [] = Inr 0"
| "count_message_tokens tk (m # ms) =
     res_bind (message_tokens tk m) (\<lambda>n. res_map (\<lambda>k. n + k) (count_message_tokens tk ms))"

section \<open>Kinds of messages\<close>

definition has_content_block :: "pydict \<Rightarrow> string \<Rightarrow> bool" where
  "has_content_block m block_type =
     list_ex (\<lambda>b. case as_dict b of Some d \<Rightarrow> dget d ''type'' = Some (PStr block_type) | None \<Rightarrow> False)
       (items_of (dget_none m ''content''))"

definition has_part_key :: "pydict \<Rightarrow> string \<Rightarrow> bool" where
  "has_part_key m key =
     list_ex (\<lambda>p. case as_dict p of Some d \<Rightarrow> has_key d key | None \<Rightarrow> False) (items_of (dget_none m ''parts''))"

definition is_tool_use_message :: "pydict \<Rightarrow> bool" where
  "is_tool_use_message m \<longleftrightarrow>
     has_content_block m ''tool_use'' \<or> has_part_key m ''function_call'' \<or> truthy (dget_none m ''tool_calls'')"

definition is_tool_result_message :: "pydict \<Rightarrow> bool" where
  "is_tool_result_message m \<longleftrightarrow>
     has_content_block m ''tool_result'' \<or> has_part_key m ''function_response''
     \<or> dget m ''role'' = Some (PStr ''tool'')"

definition is_plain_user_message :: "pydict \<Rightarrow> bool" where
  "is_plain_user_message m \<longleftrightarrow>
     dget m ''role'' = Some (PStr ''user'') \<and> \<not> is_tool_use_message m \<and> \<not> is_tool_result_message m"

text \<open>A call with its results and the note behind them, or a single message; orphans are skipped.\<close>

function group_into_units :: "pydict list \<Rightarrow> pydict list list" where
  "group_into_units [] = []"
| "group_into_units (m # ms) =
     (if is_tool_use_message m then
        (case (takeWhile is_tool_result_message ms, dropWhile is_tool_result_message ms) of
           ([], _) \<Rightarrow> group_into_units ms
         | (r # rs, n # rest) \<Rightarrow>
             if is_plain_user_message n then (m # r # rs @ [n]) # group_into_units rest
             else (m # r # rs) # group_into_units (n # rest)
         | (r # rs, []) \<Rightarrow> [m # r # rs])
      else if is_tool_result_message m then group_into_units ms
      else [m] # group_into_units ms)"
  by pat_completeness auto
termination
proof -
  have sub: "length rest < length ms" if "n # rest = dropWhile is_tool_result_message ms" for n :: pydict and rest ms
    using arg_cong [OF that, of length] length_dropWhile_le [of is_tool_result_message ms] by simp
  show ?thesis
  proof (relation "measure length")
    fix n :: pydict and rest ms and m x y
    assume "(x, y) = (takeWhile is_tool_result_message ms, dropWhile is_tool_result_message ms)" "y = n # rest"
    then have "length rest < length ms" by (intro sub [where n = n]) simp
    then show "(rest, m # ms) \<in> measure length" "(n # rest, m # ms) \<in> measure length" by simp_all
  qed simp_all
qed

section \<open>Payloads\<close>

definition MIN_CLIPPED_CHARS :: nat where "MIN_CLIPPED_CHARS = 200"
definition MAX_CHARS_PER_TOKEN :: nat where "MAX_CHARS_PER_TOKEN = 8"

definition clip_marker :: "nat \<Rightarrow> nat \<Rightarrow> string" where
  "clip_marker removed characters =
     [CHR 0x0A, CHR 0x0A] @ ''[TRUNCATED to fit the input budget: '' @ show_commas removed @ '' of ''
       @ show_commas characters @ '' characters removed]''"

datatype payload_place = MessageContent | BlockContent nat | PartResult nat

definition block_payload :: "pyval \<Rightarrow> string option" where
  "block_payload b =
     (case b of
        PDict d \<Rightarrow> (case (dget d ''type'', dget d ''content'') of
                      (Some (PStr t), Some (PStr s)) \<Rightarrow> if t = ''tool_result'' then Some s else None
                    | _ \<Rightarrow> None)
      | _ \<Rightarrow> None)"

definition sub_dict :: "pyval \<Rightarrow> string \<Rightarrow> pydict" where
  "sub_dict v key = (case v of PDict d \<Rightarrow> (case dget d key of Some (PDict d') \<Rightarrow> d' | _ \<Rightarrow> []) | _ \<Rightarrow> [])"

definition part_payload :: "pyval \<Rightarrow> string option" where
  "part_payload p =
     (case dget (sub_dict (PDict (sub_dict p ''function_response'')) ''response'') ''result'' of
        Some (PStr s) \<Rightarrow> Some s | _ \<Rightarrow> None)"

definition places :: "(nat \<Rightarrow> payload_place) \<Rightarrow> (pyval \<Rightarrow> string option) \<Rightarrow> pyval list \<Rightarrow> (payload_place \<times> string) list" where
  "places place payload xs =
     List.map_filter (\<lambda>(i, x). map_option (Pair (place i)) (payload x)) (enumerate 0 xs)"

definition payload_slots :: "pydict \<Rightarrow> (payload_place \<times> string) list" where
  "payload_slots m =
     (case (dget m ''role'' = Some (PStr ''tool''), dget m ''content'') of
        (True, Some (PStr s)) \<Rightarrow> [(MessageContent, s)]
      | _ \<Rightarrow> places BlockContent block_payload (items_of (dget_none m ''content''))
             @ places PartResult part_payload (items_of (dget_none m ''parts'')))"

fun put_payload :: "pydict \<Rightarrow> payload_place \<Rightarrow> string \<Rightarrow> pydict" where
  "put_payload m MessageContent s = dset m ''content'' (PStr s)"
| "put_payload m (BlockContent i) s =
     (let blocks = items_of (dget_none m ''content'')
      in case blocks ! i of
           PDict d \<Rightarrow> dset m ''content'' (PList (blocks[i := PDict (dset d ''content'' (PStr s))]))
         | _ \<Rightarrow> m)"
| "put_payload m (PartResult i) s =
     (let parts = items_of (dget_none m ''parts'');
          response = sub_dict (parts ! i) ''function_response'';
          res = sub_dict (PDict response) ''response''
      in case parts ! i of
           PDict d \<Rightarrow>
             dset m ''parts'' (PList (parts[i := PDict (dset d ''function_response''
               (PDict (dset response ''response'' (PDict (dset res ''result'' (PStr s))))))]))
         | _ \<Rightarrow> m)"

fun encoded :: "payload_place \<Rightarrow> bool" where
  "encoded MessageContent = False"
| "encoded (BlockContent i) = True"
| "encoded (PartResult i) = True"

record payload_slot =
  sl_message :: nat
  sl_place :: payload_place
  sl_original :: string
  sl_kept_chars :: "nat option"

definition all_slots :: "pydict list \<Rightarrow> payload_slot list" where
  "all_slots msgs = concat (map (\<lambda>(i, m). map (\<lambda>(p, s).
     \<lparr>sl_message = i, sl_place = p, sl_original = s, sl_kept_chars = None\<rparr>) (payload_slots m)) (enumerate 0 msgs))"

definition kept_text :: "payload_slot \<Rightarrow> string" where
  "kept_text sl = (case sl_kept_chars sl of None \<Rightarrow> sl_original sl | Some n \<Rightarrow> take n (sl_original sl))"

definition slot_tokens :: "token_env \<Rightarrow> payload_slot \<Rightarrow> string \<Rightarrow> nat" where
  "slot_tokens tk sl text = estimate_tokens (tk_encode tk) (if encoded (sl_place sl) then json_string text else text)"

text \<open>
  The arithmetic of \<open>keep_ratio\<close> is that of 64-bit floats: \<open>round_double n d\<close> is the float nearest to \<open>n / d\<close> (ties
  to even) as a pair of a mantissa and a negated exponent, for quotients below \<open>2 ^ 53\<close>; 0.9 is
  \<open>8106479329266893 / 2 ^ 53\<close>.
\<close>

fun bits :: "int \<Rightarrow> nat" where
  "bits n = (if n \<le> 0 then 0 else Suc (bits (n div 2)))"

declare bits.simps [simp del]

definition round_double :: "int \<Rightarrow> int \<Rightarrow> int \<times> nat" where
  "round_double n d =
     (if n = 0 then (0, 0)
      else let k0 = 53 + bits d - bits n;
               k = (if n * 2 ^ k0 div d < 2 ^ 53 then k0 else k0 - 1);
               q = n * 2 ^ k div d;
               r = n * 2 ^ k mod d
           in (if 2 * r < d \<or> (2 * r = d \<and> even q) then q else q + 1, k))"

definition kept_length :: "nat \<Rightarrow> int \<Rightarrow> int \<Rightarrow> int" where
  "kept_length len kept_tokens excess =
     (let (m1, k1) = round_double (max (kept_tokens - excess) 0) kept_tokens;
          (m2, k2) = round_double (int len * m1) (2 ^ k1);
          (m3, k3) = round_double (m2 * 8106479329266893) (2 ^ (k2 + 53))
      in m3 div 2 ^ k3)"

text \<open>\<open>cut_by\<close>: the slot and the new text of its payload, or \<open>None\<close> at the floor.\<close>

definition cut_text :: "payload_slot \<Rightarrow> nat \<Rightarrow> string" where
  "cut_text sl n = take n (sl_original sl) @ clip_marker (length (sl_original sl) - n) (length (sl_original sl))"

definition cut_by :: "token_env \<Rightarrow> int \<Rightarrow> payload_slot \<Rightarrow> (payload_slot \<times> string) option" where
  "cut_by tk excess sl =
     (let kept = kept_text sl in
      if length kept \<le> MIN_CLIPPED_CHARS then None
      else let kept_tokens = max (int (slot_tokens tk sl kept)) 1;
               n = max (nat (kept_length (length kept) kept_tokens excess)) MIN_CLIPPED_CHARS
           in Some (sl\<lparr>sl_kept_chars := Some n\<rparr>, cut_text sl n))"

definition write_slot :: "pydict list \<Rightarrow> payload_slot \<Rightarrow> string \<Rightarrow> pydict list" where
  "write_slot msgs sl text = msgs[sl_message sl := put_payload (msgs ! sl_message sl) (sl_place sl) text]"

text \<open>\<open>max(slots, key=...)\<close>: the first of the longest.\<close>

fun longest :: "payload_slot list \<Rightarrow> nat option" where
  "longest [] = None"
| "longest (sl # slots) =
     (case longest slots of
        None \<Rightarrow> Some 0
      | Some i \<Rightarrow> if length (kept_text sl) < length (kept_text (slots ! i)) then Some (Suc i) else Some 0)"

fun clip_passes :: "token_env \<Rightarrow> int \<Rightarrow> nat \<Rightarrow> payload_slot list \<Rightarrow> pydict list \<Rightarrow> pydict list res" where
  "clip_passes tk max_tokens 0 slots msgs = Inr msgs"
| "clip_passes tk max_tokens (Suc n) slots msgs =
     res_bind (count_message_tokens tk msgs) (\<lambda>tokens.
       if int tokens - max_tokens \<le> 0 then Inr msgs
       else case longest slots of
              None \<Rightarrow> Inl ValueError
            | Some i \<Rightarrow> (case cut_by tk (int tokens - max_tokens) (slots ! i) of
                           None \<Rightarrow> Inr msgs
                         | Some (sl, text) \<Rightarrow> clip_passes tk max_tokens n (slots[i := sl]) (write_slot msgs sl text)))"

definition clip_tool_results :: "token_env \<Rightarrow> int \<Rightarrow> pydict list \<Rightarrow> pydict list res" where
  "clip_tool_results tk max_tokens msgs =
     (if \<not> list_ex is_tool_result_message msgs then Inr msgs
      else clip_passes tk max_tokens (2 * length (all_slots msgs) + 2) (all_slots msgs) msgs)"

definition over_cap :: "token_env \<Rightarrow> nat \<Rightarrow> payload_slot \<Rightarrow> bool" where
  "over_cap tk max_tokens sl \<longleftrightarrow>
     max_tokens < slot_tokens tk sl (take (max_tokens * MAX_CHARS_PER_TOKEN) (sl_original sl))
     \<or> max_tokens * MAX_CHARS_PER_TOKEN < length (sl_original sl)"

definition cap_slot :: "token_env \<Rightarrow> nat \<Rightarrow> payload_slot \<Rightarrow> pydict list \<Rightarrow> pydict list" where
  "cap_slot tk max_tokens sl msgs =
     (let char_cap = max_tokens * MAX_CHARS_PER_TOKEN;
          sl = (if char_cap < length (sl_original sl) then sl\<lparr>sl_kept_chars := Some char_cap\<rparr> else sl);
          excess = int (slot_tokens tk sl (kept_text sl)) - int max_tokens
      in if 0 < excess
         then (case cut_by tk excess sl of None \<Rightarrow> msgs | Some (sl', text) \<Rightarrow> write_slot msgs sl' text)
         else (case sl_kept_chars sl of None \<Rightarrow> msgs | Some n \<Rightarrow> write_slot msgs sl (cut_text sl n)))"

definition cap_each_tool_result :: "token_env \<Rightarrow> nat \<Rightarrow> pydict list \<Rightarrow> pydict list" where
  "cap_each_tool_result tk max_tokens msgs =
     (if \<not> list_ex (over_cap tk max_tokens) (all_slots msgs) then msgs
      else fold (cap_slot tk max_tokens) (all_slots msgs) msgs)"

section \<open>Truncating\<close>

definition is_system_message :: "pydict \<Rightarrow> bool" where
  "is_system_message m \<longleftrightarrow> dget m ''role'' = Some (PStr ''system'')"

text \<open>The last unit with tool results, else the last unit.\<close>

definition evidence_of :: "pydict list list \<Rightarrow> nat" where
  "evidence_of units =
     (case filter (\<lambda>i. list_ex is_tool_result_message (units ! i)) (rev [0..<length units]) of
        i # _ \<Rightarrow> i | [] \<Rightarrow> length units - 1)"

definition fits :: "token_env \<Rightarrow> int \<Rightarrow> pydict list list \<Rightarrow> bool res" where
  "fits tk available units = res_map (\<lambda>n. int n \<le> available) (count_message_tokens tk (concat units))"

fun drop_units :: "token_env \<Rightarrow> int \<Rightarrow> nat list \<Rightarrow> nat list \<Rightarrow> pydict list list \<Rightarrow> pydict list list res" where
  "drop_units tk available held [] units = Inr units"
| "drop_units tk available held (i # is) units =
     res_bind (fits tk available units) (\<lambda>b.
       if b then Inr units
       else drop_units tk available held is (if List.member held i then units else units[i := []]))"

definition clip_or_drop_opening :: "token_env \<Rightarrow> int \<Rightarrow> pydict list list \<Rightarrow> pydict list res" where
  "clip_or_drop_opening tk available units =
     res_bind (clip_tool_results tk available (concat units)) (\<lambda>flat.
     res_bind (count_message_tokens tk flat) (\<lambda>n.
       if available < int n \<and> units ! 0 \<noteq> [] \<and> list_ex (\<lambda>u. u \<noteq> []) (tl units)
       then clip_tool_results tk available (concat (units[0 := []]))
       else Inr flat))"

text \<open>\<open>None\<close> is the list itself, \<open>Some\<close> a new one.\<close>

definition truncate_units ::
  "token_env \<Rightarrow> int \<Rightarrow> pydict list \<Rightarrow> pydict list list \<Rightarrow> pydict list option res" where
  "truncate_units tk available system units =
     (if units = [] then Inr (Some system)
      else
        res_bind (drop_units tk available [0, evidence_of units, length units - 1] [0..<length units] units) (\<lambda>units.
        res_bind (fits tk available units) (\<lambda>b.
          if b then Inr (Some (system @ concat units))
          else res_map (\<lambda>flat. Some (system @ flat)) (clip_or_drop_opening tk available units))))"

definition truncate_messages_to_fit ::
  "token_env \<Rightarrow> bool \<Rightarrow> int \<Rightarrow> pydict list \<Rightarrow> pydict list option res" where
  "truncate_messages_to_fit tk preserve_system max_tokens msgs =
     res_bind (count_message_tokens tk msgs) (\<lambda>current_tokens.
       if int current_tokens \<le> max_tokens then Inr None
       else
         let system = filter (\<lambda>m. is_system_message m \<and> preserve_system) msgs;
             conversation = filter (\<lambda>m. \<not> (is_system_message m \<and> preserve_system)) msgs
         in res_bind (count_message_tokens tk system) (\<lambda>system_tokens.
              let available = max_tokens - int system_tokens
              in if available \<le> 0 then Inr None
                 else truncate_units tk available system
                        (group_into_units (cap_each_tool_result tk (nat (available div 2)) conversation))))"

definition truncated_messages :: "pydict list \<Rightarrow> pydict list option \<Rightarrow> pydict list" where
  "truncated_messages msgs r = (case r of None \<Rightarrow> msgs | Some msgs' \<Rightarrow> msgs')"

section \<open>Thinking blocks\<close>

definition THINKING_BLOCK_TYPES :: "string list" where
  "THINKING_BLOCK_TYPES = [''thinking'', ''redacted_thinking'']"

text \<open>A type that is not a string is in no set of types; one that cannot be hashed (a list or a dictionary), for which
  the code raises \<open>TypeError\<close>, counts as such too.\<close>

definition is_thinking_block :: "pyval \<Rightarrow> bool" where
  "is_thinking_block b =
     (case as_dict b of
        None \<Rightarrow> False
      | Some d \<Rightarrow> (case dget d ''type'' of Some (PStr t) \<Rightarrow> List.member THINKING_BLOCK_TYPES t | _ \<Rightarrow> False))"

fun strip_thinking_blocks :: "pydict list \<Rightarrow> pydict list \<times> nat" where
  "strip_thinking_blocks [] = ([], 0)"
| "strip_thinking_blocks (m # ms) =
     (let (rest, removed) = strip_thinking_blocks ms in
      case as_list (dget_none m ''content'') of
        None \<Rightarrow> (m # rest, removed)
      | Some content \<Rightarrow>
          let kept = filter (\<lambda>b. \<not> is_thinking_block b) content in
          if length kept = length content then (m # rest, removed)
          else ((if kept = [] then [] else [dset m ''content'' (PList kept)]) @ rest,
                length content - length kept + removed))"

end
