(* ===== verification/ConversationProps.thy ===== *)
theory ConversationProps
  imports Conversation
begin

text \<open>
  What truncation keeps: the system messages, whole rounds of the conversation in their order, every message but
  for the bulk of its tool results, and a tool call never without its results. Payloads are followed by their
  place, as in \<open>payload_at\<close>.
\<close>

section \<open>Payloads by place\<close>

definition nested_payload :: "pydict \<Rightarrow> payload_place \<Rightarrow> string option" where
  "nested_payload m q =
     (case q of
             MessageContent \<Rightarrow> None
           | BlockContent i \<Rightarrow>
               (let bs = items_of (dget_none m ''content'') in if i < length bs then block_payload (bs ! i) else None)
           | PartResult i \<Rightarrow>
               (let ps = items_of (dget_none m ''parts'') in if i < length ps then part_payload (ps ! i) else None))"

definition payload_at :: "pydict \<Rightarrow> payload_place \<Rightarrow> string option" where
  "payload_at m q =
     (case (dget m ''role'' = Some (PStr ''tool''), dget m ''content'') of
        (True, Some (PStr s)) \<Rightarrow> (if q = MessageContent then Some s else None)
      | _ \<Rightarrow> nested_payload m q)"

lemma payload_at_nested:
  "\<not> (dget m ''role'' = Some (PStr ''tool'') \<and> (\<exists>s. dget m ''content'' = Some (PStr s))) \<Longrightarrow>
     payload_at m q = nested_payload m q"
  by (auto simp: payload_at_def split: option.splits pyval.splits bool.splits)

lemma set_places:
  "(q, s) \<in> set (places place payload xs) \<longleftrightarrow> (\<exists>i < length xs. q = place i \<and> payload (xs ! i) = Some s)"
  by (auto simp: places_def List.map_filter_def in_set_enumerate_eq set_zip enumerate_eq_zip image_iff
      split: option.splits; force)

lemma set_payload_slots: "(q, s) \<in> set (payload_slots m) \<longleftrightarrow> payload_at m q = Some s"
proof (cases "dget m ''role'' = Some (PStr ''tool'') \<and> (\<exists>s. dget m ''content'' = Some (PStr s))")
  case True
  then show ?thesis by (auto simp: payload_slots_def payload_at_def split: if_splits)
next
  case False
  then have "payload_slots m = places BlockContent block_payload (items_of (dget_none m ''content''))
             @ places PartResult part_payload (items_of (dget_none m ''parts''))"
    by (auto simp: payload_slots_def split: option.splits pyval.splits bool.splits)
  then show ?thesis by (cases q) (auto simp: payload_at_nested [OF False] nested_payload_def set_places Let_def)
qed

lemma items_of_PList [simp]: "items_of (PList xs) = xs" "items_of (PStr s) = []" "items_of PNone = []"
  by (simp_all add: items_of_def as_list_def)

lemma dget_default_dset [simp]:
  "dget_default (dset m k v) k d = v" "k' \<noteq> k \<Longrightarrow> dget_default (dset m k v) k' d = dget_default m k' d"
  by (simp_all add: dget_default_def)

text \<open>Blocks and parts before and after a write of their payload.\<close>

lemma block_payload_dict: "block_payload b = Some s \<Longrightarrow>
   \<exists>d. b = PDict d \<and> dget d ''type'' = Some (PStr ''tool_result'') \<and> dget d ''content'' = Some (PStr s)"
  by (auto simp: block_payload_def split: pyval.splits option.splits if_splits)

lemma part_payload_dict: "part_payload p = Some s \<Longrightarrow>
   \<exists>d fr r. p = PDict d \<and> dget d ''function_response'' = Some (PDict fr) \<and> dget fr ''response'' = Some (PDict r)
     \<and> dget r ''result'' = Some (PStr s)"
  by (auto simp: part_payload_def sub_dict_def split: pyval.splits option.splits)

lemma items_of_nonempty: "i < length (items_of v) \<Longrightarrow> \<exists>xs. v = PList xs"
  by (cases v) (auto simp: items_of_def as_list_def)

lemma dget_none_PList: "dget_none m k = PList xs \<Longrightarrow> dget m k = Some (PList xs)"
  by (auto simp: dget_default_def split: option.splits)

lemma payload_at_cases:
  assumes "payload_at m q = Some s"
  obtains "q = MessageContent" "dget m ''role'' = Some (PStr ''tool'')" "dget m ''content'' = Some (PStr s)"
  | i bs d where "q = BlockContent i" "dget m ''content'' = Some (PList bs)" "i < length bs" "bs ! i = PDict d"
      "dget d ''type'' = Some (PStr ''tool_result'')" "dget d ''content'' = Some (PStr s)"
  | i ps d fr r where "q = PartResult i" "dget m ''parts'' = Some (PList ps)" "i < length ps" "ps ! i = PDict d"
      "dget d ''function_response'' = Some (PDict fr)" "dget fr ''response'' = Some (PDict r)"
      "dget r ''result'' = Some (PStr s)" "\<not> (dget m ''role'' = Some (PStr ''tool'') \<and> (\<exists>s. dget m ''content'' = Some (PStr s)))"
proof (cases "dget m ''role'' = Some (PStr ''tool'') \<and> (\<exists>s. dget m ''content'' = Some (PStr s))")
  case True
  with assms that(1) show ?thesis by (auto simp: payload_at_def split: if_splits)
next
  case False
  note p = payload_at_nested [OF False, of q, unfolded nested_payload_def]
  show ?thesis
  proof (cases q)
    case MessageContent
    with p assms show ?thesis by simp
  next
    case (BlockContent i)
    with p assms have i: "i < length (items_of (dget_none m ''content''))"
      and b: "block_payload (items_of (dget_none m ''content'') ! i) = Some s" by (auto simp: Let_def split: if_splits)
    from items_of_nonempty [OF i] obtain bs where "dget_none m ''content'' = PList bs" by blast
    then show ?thesis
      using i block_payload_dict [OF b] dget_none_PList that(2) [OF BlockContent] by auto
  next
    case (PartResult i)
    with p assms have i: "i < length (items_of (dget_none m ''parts''))"
      and b: "part_payload (items_of (dget_none m ''parts'') ! i) = Some s" by (auto simp: Let_def split: if_splits)
    from items_of_nonempty [OF i] obtain ps where "dget_none m ''parts'' = PList ps" by blast
    then show ?thesis
      using i part_payload_dict [OF b] dget_none_PList that(3) [OF PartResult _ _ _ _ _ _ False] by auto
  qed
qed

lemma list_ex_update: "i < length xs \<Longrightarrow> P y = P (xs ! i) \<Longrightarrow> list_ex P (xs[i := y]) = list_ex P xs"
  by (subst (2) id_take_nth_drop [of i xs]) (simp_all add: upd_conv_take_nth_drop)

lemma put_block:
  assumes "dget m ''content'' = Some (PList bs)" "bs ! i = PDict d"
  shows "put_payload m (BlockContent i) t = dset m ''content'' (PList (bs[i := PDict (dset d ''content'' (PStr t))]))"
  using assms by (simp add: dget_default_def)

lemma put_part:
  assumes "dget m ''parts'' = Some (PList ps)" "ps ! i = PDict d" "dget d ''function_response'' = Some (PDict fr)"
    "dget fr ''response'' = Some (PDict r)"
  shows "put_payload m (PartResult i) t = dset m ''parts'' (PList (ps[i := PDict (dset d ''function_response''
     (PDict (dset fr ''response'' (PDict (dset r ''result'' (PStr t))))))]))"
  using assms by (simp add: dget_default_def sub_dict_def)

lemma has_content_block_list:
  "dget m ''content'' = Some (PList bs) \<Longrightarrow> has_content_block m t
     = list_ex (\<lambda>b. case as_dict b of Some d \<Rightarrow> dget d ''type'' = Some (PStr t) | None \<Rightarrow> False) bs"
  by (simp add: has_content_block_def dget_default_def)

lemma has_part_key_list:
  "dget m ''parts'' = Some (PList ps) \<Longrightarrow> has_part_key m k
     = list_ex (\<lambda>p. case as_dict p of Some d \<Rightarrow> has_key d k | None \<Rightarrow> False) ps"
  by (simp add: has_part_key_def dget_default_def)

lemma put_payload_blocks:
  assumes "payload_at m q = Some s"
  shows "has_content_block (put_payload m q t) k = has_content_block m k"
  using assms
proof (cases rule: payload_at_cases)
  case 1
  then show ?thesis by (simp add: has_content_block_def dget_default_def)
next
  case (2 i bs d)
  then show ?thesis unfolding 2(1) put_block [OF 2(2,4)]
    by (simp add: has_content_block_list [OF 2(2)] has_content_block_list list_ex_update as_dict_def)
next
  case (3 i ps d fr r)
  then show ?thesis unfolding 3(1) put_part [OF 3(2,4,5,6)] by (simp add: has_content_block_def)
qed

lemma put_payload_parts:
  assumes "payload_at m q = Some s"
  shows "has_part_key (put_payload m q t) k = has_part_key m k"
  using assms
proof (cases rule: payload_at_cases)
  case 1
  then show ?thesis by (simp add: has_part_key_def)
next
  case (2 i bs d)
  then show ?thesis unfolding 2(1) put_block [OF 2(2,4)] by (simp add: has_part_key_def)
next
  case (3 i ps d fr r)
  then show ?thesis unfolding 3(1) put_part [OF 3(2,4,5,6)]
    using 3(3,4,5) by (simp add: has_part_key_list [OF 3(2)] has_part_key_list)
      (rule list_ex_update, auto simp: as_dict_def has_key_dget dget_dset)
qed

lemma put_payload_keeps:
  assumes "payload_at m q = Some s" "k \<noteq> ''content''" "k \<noteq> ''parts''"
  shows "dget (put_payload m q t) k = dget m k"
  using assms(1)
proof (cases rule: payload_at_cases)
  case (2 i bs d)
  then show ?thesis unfolding 2(1) put_block [OF 2(2,4)] using assms(2) by simp
next
  case (3 i ps d fr r)
  then show ?thesis unfolding 3(1) put_part [OF 3(2,4,5,6)] using assms(3) by simp
qed (use assms in simp)

lemma put_payload_kind:
  assumes "payload_at m q = Some s"
  shows "is_tool_use_message (put_payload m q t) = is_tool_use_message m"
    "is_tool_result_message (put_payload m q t) = is_tool_result_message m"
    "is_plain_user_message (put_payload m q t) = is_plain_user_message m"
    "is_system_message (put_payload m q t) = is_system_message m"
  using put_payload_blocks [OF assms] put_payload_parts [OF assms] put_payload_keeps [OF assms]
  by (simp_all add: is_tool_use_message_def is_tool_result_message_def is_plain_user_message_def is_system_message_def
      dget_default_def)

lemma payload_at_list:
  "dget m ''content'' = Some (PList bs) \<Longrightarrow> payload_at m q = nested_payload m q"
  by (rule payload_at_nested) simp

lemma payload_at_put:
  assumes "payload_at m q = Some s"
  shows "payload_at (put_payload m q t) q' = (if q' = q then Some t else payload_at m q')"
  using assms
proof (cases rule: payload_at_cases)
  case 1
  then show ?thesis by (simp add: payload_at_def)
next
  case (2 i bs d)
  have "block_payload (PDict (dset d ''content'' (PStr t))) = Some t" using 2(5) by (simp add: block_payload_def)
  with 2(3) show ?thesis unfolding 2(1) put_block [OF 2(2,4)]
    by (cases q') (auto simp: payload_at_list [OF 2(2)] payload_at_list nested_payload_def dget_default_def [of m]
        nth_list_update 2(2))
next
  case (3 i ps d fr r)
  let ?p = "PDict (dset d ''function_response'' (PDict (dset fr ''response'' (PDict (dset r ''result'' (PStr t))))))"
  let ?m = "dset m ''parts'' (PList (ps[i := ?p]))"
  have "part_payload ?p = Some t" by (simp add: part_payload_def sub_dict_def)
  moreover have "payload_at ?m q' = nested_payload ?m q'" by (rule payload_at_nested) (use 3(8) in simp)
  ultimately show ?thesis unfolding 3(1) put_part [OF 3(2,4,5,6)] payload_at_nested [OF 3(8)]
    using 3(2,3) by (cases q') (auto simp: nested_payload_def nth_list_update dget_default_def [of m])
qed

section \<open>Clipping\<close>

text \<open>A payload cut down: over \<open>L\<close> characters long, replaced by a text that starts with the same \<open>L\<close> and says that it
  was cut. A message is clipped when only such payloads changed.\<close>

definition cut :: "nat \<Rightarrow> string \<Rightarrow> string \<Rightarrow> bool" where
  "cut L s t \<longleftrightarrow> L < length s \<and> take L t = take L s \<and> (\<exists>p. t = p @ '' characters removed]'')"

inductive clipped :: "nat \<Rightarrow> pydict \<Rightarrow> pydict \<Rightarrow> bool" where
  clipped_refl: "clipped L m m"
| clipped_cut: "clipped L m m' \<Longrightarrow> (q, s) \<in> set (payload_slots m') \<Longrightarrow> cut L s t \<Longrightarrow> clipped L m (put_payload m' q t)"

lemma clipped_trans: "clipped L m m' \<Longrightarrow> clipped L k m \<Longrightarrow> clipped L k m'"
  by (induction rule: clipped.induct) (assumption, blast intro: clipped_cut)

lemma clipped_kind:
  assumes "clipped L m m'"
  shows "is_tool_use_message m' = is_tool_use_message m" "is_tool_result_message m' = is_tool_result_message m"
    "is_plain_user_message m' = is_plain_user_message m" "is_system_message m' = is_system_message m"
  using assms by (induction; simp add: set_payload_slots put_payload_kind)+

lemma clipped_all_trans:
  "list_all2 (clipped L) xs ys \<Longrightarrow> list_all2 (clipped L) ys zs \<Longrightarrow> list_all2 (clipped L) xs zs"
proof (rule list_all2_trans)
  show "clipped L a c" if "clipped L a b" "clipped L b c" for a b c by (rule clipped_trans [OF that(2,1)])
qed

lemma clipped_all_refl [simp]: "list_all2 (clipped L) xs xs"
  by (simp add: list_all2_same clipped_refl)

text \<open>The slots of a clipping loop still lie at their places and agree with the text there on \<open>L\<close> characters.\<close>

definition slot_at :: "nat \<Rightarrow> pydict list \<Rightarrow> payload_slot \<Rightarrow> bool" where
  "slot_at L msgs sl \<longleftrightarrow> sl_message sl < length msgs
     \<and> (\<exists>t. payload_at (msgs ! sl_message sl) (sl_place sl) = Some t \<and> take L t = take L (sl_original sl)
           \<and> (L < length (sl_original sl) \<longrightarrow> L < length t))"

lemma write_slot_clips:
  assumes "slot_at L msgs sl" "L < length (sl_original sl)" "take L t = take L (sl_original sl)" "L < length t"
    and "\<exists>p. t = p @ '' characters removed]''"
  shows "list_all2 (clipped L) msgs (write_slot msgs sl t)"
    and "slot_at L msgs sl' \<Longrightarrow> slot_at L (write_slot msgs sl t) sl'"
proof -
  let ?i = "sl_message sl" let ?q = "sl_place sl"
  obtain s where s: "?i < length msgs" "payload_at (msgs ! ?i) ?q = Some s" "take L s = take L (sl_original sl)" "L < length s"
    using assms(1,2) by (auto simp: slot_at_def)
  have "cut L s t" unfolding cut_def using s assms(3,5) by simp
  then have "clipped L (msgs ! ?i) (put_payload (msgs ! ?i) ?q t)"
    by (rule clipped_cut [OF clipped_refl, rotated]) (simp add: s set_payload_slots)
  then show "list_all2 (clipped L) msgs (write_slot msgs sl t)"
    using s(1) by (simp add: write_slot_def list_all2_conv_all_nth nth_list_update clipped_refl)
  show "slot_at L (write_slot msgs sl t) sl'" if "slot_at L msgs sl'"
    using that s assms(3,4) payload_at_put [OF s(2)]
    by (cases "sl_message sl' = ?i"; cases "sl_place sl' = ?q") (auto simp: slot_at_def write_slot_def)
qed

lemma cut_text_facts:
  assumes "L \<le> n" "L < length (sl_original sl)"
  shows "take L (cut_text sl n) = take L (sl_original sl)" "L < length (cut_text sl n)"
    "\<exists>p. cut_text sl n = p @ '' characters removed]''"
proof -
  show "take L (cut_text sl n) = take L (sl_original sl)" using assms by (simp add: cut_text_def min_absorb1)
  show "L < length (cut_text sl n)" using assms by (simp add: cut_text_def clip_marker_def)
  show "\<exists>p. cut_text sl n = p @ '' characters removed]''"
    by (rule exI [of _ "take n (sl_original sl) @ [CHR 0x0A, CHR 0x0A] @ ''[TRUNCATED to fit the input budget: ''
      @ show_commas (length (sl_original sl) - n) @ '' of '' @ show_commas (length (sl_original sl))"])
      (simp add: cut_text_def clip_marker_def)
qed

lemma cut_by_facts:
  assumes "cut_by tk excess sl = Some (sl', t)"
  shows "MIN_CLIPPED_CHARS < length (sl_original sl)"
    "\<exists>n. MIN_CLIPPED_CHARS \<le> n \<and> sl' = sl\<lparr>sl_kept_chars := Some n\<rparr> \<and> t = cut_text sl n"
proof -
  show "MIN_CLIPPED_CHARS < length (sl_original sl)"
    using assms by (auto simp: cut_by_def Let_def kept_text_def split: if_splits option.splits)
  show "\<exists>n. MIN_CLIPPED_CHARS \<le> n \<and> sl' = sl\<lparr>sl_kept_chars := Some n\<rparr> \<and> t = cut_text sl n"
    using assms unfolding cut_by_def Let_def by (simp split: if_splits) (metis max.cobounded2)
qed

lemma cut_by_clips:
  assumes "cut_by tk excess sl = Some (sl', t)" "slot_at L msgs sl" "L \<le> MIN_CLIPPED_CHARS"
  shows "list_all2 (clipped L) msgs (write_slot msgs sl' t)" "slot_at L (write_slot msgs sl' t) sl'"
    "slot_at L msgs sl'' \<Longrightarrow> slot_at L (write_slot msgs sl' t) sl''"
proof -
  from cut_by_facts [OF assms(1)] obtain n where n: "MIN_CLIPPED_CHARS < length (sl_original sl)" "MIN_CLIPPED_CHARS \<le> n"
      "sl' = sl\<lparr>sl_kept_chars := Some n\<rparr>" "t = cut_text sl n" by blast
  have w: "write_slot msgs sl' u = write_slot msgs sl u" for u by (simp add: n(3) write_slot_def)
  have at: "slot_at L ms sl' = slot_at L ms sl" for ms by (simp add: n(3) slot_at_def)
  have L: "L \<le> n" "L < length (sl_original sl)" using n assms(3) by simp_all
  note f = write_slot_clips [OF assms(2) L(2) cut_text_facts [OF L]]
  show "list_all2 (clipped L) msgs (write_slot msgs sl' t)" unfolding w n(4) by (rule f(1))
  show "slot_at L (write_slot msgs sl' t) sl'" unfolding w n(4) at by (rule f(2)) (rule assms(2))
  show "slot_at L (write_slot msgs sl' t) sl''" if "slot_at L msgs sl''" unfolding w n(4) by (rule f(2)) (rule that)
qed

lemma longest_bound: "longest slots = Some i \<Longrightarrow> i < length slots"
  by (induction slots arbitrary: i) (auto split: option.splits if_splits)

lemma longest_None: "longest slots = None \<longleftrightarrow> slots = []"
  by (cases slots) (auto split: option.splits)

lemma clip_passes_clips:
  assumes "clip_passes tk max_tokens n slots msgs = Inr msgs'" "\<forall>sl \<in> set slots. slot_at L msgs sl" "L \<le> MIN_CLIPPED_CHARS"
  shows "list_all2 (clipped L) msgs msgs'"
  using assms
proof (induction tk max_tokens n slots msgs rule: clip_passes.induct)
  case (2 tk max_tokens n slots msgs)
  from "2.prems"(1) obtain tokens where tokens: "count_message_tokens tk msgs = Inr tokens" by (auto simp: res_simps)
  show ?case
  proof (cases "int tokens - max_tokens \<le> 0")
    case True
    with "2.prems"(1) tokens show ?thesis by simp
  next
    case False
    then obtain i where i: "longest slots = Some i" using "2.prems"(1) tokens by (auto split: option.splits)
    show ?thesis
    proof (cases "cut_by tk (int tokens - max_tokens) (slots ! i)")
      case None
      with "2.prems"(1) tokens False i show ?thesis by simp
    next
      case (Some r)
      obtain sl t where r: "r = (sl, t)" by fastforce
      note c = Some [unfolded r]
      have at: "slot_at L msgs (slots ! i)" using "2.prems"(2) longest_bound [OF i] by simp
      note f = cut_by_clips [OF c at "2.prems"(3)]
      have "clip_passes tk max_tokens n (slots[i := sl]) (write_slot msgs sl t) = Inr msgs'"
        using "2.prems"(1) tokens False i c by simp
      moreover have "\<forall>sl' \<in> set (slots[i := sl]). slot_at L (write_slot msgs sl t) sl'"
        using "2.prems"(2) f set_update_subset_insert [of slots i sl] by blast
      ultimately have "list_all2 (clipped L) (write_slot msgs sl t) msgs'"
        using "2.IH" [OF tokens False i c refl] "2.prems"(3) by blast
      then show ?thesis using f(1) clipped_all_trans by blast
    qed
  qed
qed simp

lemma all_slots_at: "sl \<in> set (all_slots msgs) \<Longrightarrow> slot_at L msgs sl \<and> sl_kept_chars sl = None"
  by (auto simp: all_slots_def in_set_enumerate_eq slot_at_def set_payload_slots)

lemma clip_tool_results_clips:
  "clip_tool_results tk max_tokens msgs = Inr msgs' \<Longrightarrow> list_all2 (clipped MIN_CLIPPED_CHARS) msgs msgs'"
  using clip_passes_clips [of tk max_tokens "2 * length (all_slots msgs) + 2" "all_slots msgs" msgs msgs' MIN_CLIPPED_CHARS]
  by (auto simp: clip_tool_results_def all_slots_at simp del: clip_passes.simps split: if_splits)

lemma cap_slot_clips:
  assumes "slot_at L msgs sl" "sl_kept_chars sl = None" "L \<le> MIN_CLIPPED_CHARS" "L \<le> max_tokens * MAX_CHARS_PER_TOKEN"
  shows "list_all2 (clipped L) msgs (cap_slot tk max_tokens sl msgs)"
    "slot_at L msgs sl' \<Longrightarrow> slot_at L (cap_slot tk max_tokens sl msgs) sl'"
proof -
  let ?c = "max_tokens * MAX_CHARS_PER_TOKEN"
  let ?sl = "if ?c < length (sl_original sl) then sl\<lparr>sl_kept_chars := Some ?c\<rparr> else sl"
  let ?e = "int (slot_tokens tk ?sl (kept_text ?sl)) - int max_tokens"
  have at: "slot_at L msgs ?sl" using assms(1) by (simp add: slot_at_def)
  consider (same) "cap_slot tk max_tokens sl msgs = msgs"
    | (cut) sl1 t where "cut_by tk ?e ?sl = Some (sl1, t)" "cap_slot tk max_tokens sl msgs = write_slot msgs sl1 t"
    | (cap) "?c < length (sl_original sl)" "cap_slot tk max_tokens sl msgs = write_slot msgs sl (cut_text sl ?c)"
  proof (cases "0 < ?e")
    case True
    with that show thesis by (cases "cut_by tk ?e ?sl") (auto simp: cap_slot_def Let_def)
  next
    case False
    with that assms(2) show thesis by (cases "?c < length (sl_original sl)") (auto simp: cap_slot_def Let_def write_slot_def cut_text_def)
  qed
  note c = this
  show "list_all2 (clipped L) msgs (cap_slot tk max_tokens sl msgs)"
    using c
  proof cases
    case cut
    then show ?thesis using cut_by_clips(1) [OF _ at assms(3)] by simp
  next
    case cap
    then have L: "L < length (sl_original sl)" using assms(4) by simp
    show ?thesis unfolding cap(2) by (rule write_slot_clips(1) [OF assms(1) L cut_text_facts [OF assms(4) L]])
  qed simp
  show "slot_at L (cap_slot tk max_tokens sl msgs) sl'" if s: "slot_at L msgs sl'"
    using c
  proof cases
    case cut
    then show ?thesis using cut_by_clips(3) [OF _ at assms(3) s] by simp
  next
    case cap
    then have L: "L < length (sl_original sl)" using assms(4) by simp
    show ?thesis unfolding cap(2) by (rule write_slot_clips(2) [OF assms(1) L cut_text_facts [OF assms(4) L] s])
  qed (use s in simp)
qed

lemma cap_slots_clip:
  assumes "\<forall>sl \<in> set slots. slot_at L msgs sl \<and> sl_kept_chars sl = None" "L \<le> MIN_CLIPPED_CHARS"
    "L \<le> max_tokens * MAX_CHARS_PER_TOKEN"
  shows "list_all2 (clipped L) msgs (fold (cap_slot tk max_tokens) slots msgs)"
  using assms
proof (induction slots arbitrary: msgs)
  case (Cons sl slots)
  then have at: "slot_at L msgs sl" "sl_kept_chars sl = None" by simp_all
  note f = cap_slot_clips [OF at Cons.prems(2,3), where tk = tk]
  have "list_all2 (clipped L) (cap_slot tk max_tokens sl msgs) (fold (cap_slot tk max_tokens) slots (cap_slot tk max_tokens sl msgs))"
    by (rule Cons.IH) (use Cons.prems f(2) in auto)
  from clipped_all_trans [OF f(1) this] show ?case by simp
qed simp

lemma cap_each_clips:
  "list_all2 (clipped (min MIN_CLIPPED_CHARS (n * MAX_CHARS_PER_TOKEN))) msgs (cap_each_tool_result tk n msgs)"
  by (auto simp: cap_each_tool_result_def all_slots_at intro!: cap_slots_clip)

lemma clipped_mono: "clipped L m m' \<Longrightarrow> L' \<le> L \<Longrightarrow> clipped L' m m'"
proof (induction rule: clipped.induct)
  case (clipped_cut L m m' q s t)
  have "cut L' s t" if "cut L s t" "L' \<le> L"
  proof -
    from that(1) have "take L' (take L t) = take L' (take L s)" by (simp add: cut_def)
    then have "take L' t = take L' s" using that(2) by (simp add: min_absorb1)
    with that show ?thesis by (auto simp: cut_def)
  qed
  with clipped_cut show ?case by (auto intro: clipped.clipped_cut)
qed (rule clipped_refl)

section \<open>Rounds\<close>

text \<open>A history is paired when every tool call is followed by a result and no result comes without a call.\<close>

datatype round_state = Idle | Waiting | Answered

fun paired :: "round_state \<Rightarrow> pydict list \<Rightarrow> bool" where
  "paired st [] \<longleftrightarrow> st \<noteq> Waiting"
| "paired st (m # ms) \<longleftrightarrow>
     (if st \<noteq> Idle \<and> is_tool_result_message m then paired Answered ms
      else if st = Waiting then False
      else if is_tool_use_message m then paired Waiting ms
      else \<not> is_tool_result_message m \<and> paired Idle ms)"

lemma paired_clipped:
  "list_all2 (clipped L) ms ms' \<Longrightarrow> paired st ms' = paired st ms"
  by (induction arbitrary: st rule: list_all2_induct) (auto simp: clipped_kind)

lemma paired_results: "rs \<noteq> [] \<Longrightarrow> list_all is_tool_result_message rs \<Longrightarrow> st \<noteq> Idle \<Longrightarrow> paired st (rs @ ms) = paired Answered ms"
proof (induction rs arbitrary: st)
  case (Cons r rs)
  then show ?case by (cases "rs = []") auto
qed simp

text \<open>Units as grouping makes them.\<close>

definition round_unit :: "pydict list \<Rightarrow> bool" where
  "round_unit u \<longleftrightarrow>
     (\<exists>m. u = [m] \<and> \<not> is_tool_use_message m \<and> \<not> is_tool_result_message m)
     \<or> (\<exists>m rs ns. u = m # rs @ ns \<and> is_tool_use_message m \<and> rs \<noteq> [] \<and> list_all is_tool_result_message rs
          \<and> (ns = [] \<or> (\<exists>n. ns = [n] \<and> is_plain_user_message n)))"

lemma set_takeWhile_all: "takeWhile P xs = ys \<Longrightarrow> list_all P ys"
  by (auto simp: list_all_iff dest: set_takeWhileD)

lemma group_units: "u \<in> set (group_into_units ms) \<Longrightarrow> round_unit u"
proof (induction ms rule: group_into_units.induct)
  case (2 m ms)
  show ?case
  proof (cases "is_tool_use_message m")
    case use: True
    show ?thesis
    proof (cases "takeWhile is_tool_result_message ms")
      case Nil
      with use 2 show ?thesis by (auto split: list.splits)
    next
      case (Cons r rs)
      note all = set_takeWhile_all [OF Cons]
      have unit: "round_unit (m # (r # rs) @ ns)" if "ns = [] \<or> (\<exists>n. ns = [n] \<and> is_plain_user_message n)" for ns
        unfolding round_unit_def using use all that by blast
      from unit [of "[]"] have u0: "round_unit (m # r # rs)" by simp
      show ?thesis
      proof (cases "dropWhile is_tool_result_message ms")
        case Nil
        with 2(6) use Cons u0 show ?thesis by simp
      next
        case d: (Cons n rest)
        from unit [of "[n]"] have "is_plain_user_message n \<Longrightarrow> round_unit (m # r # rs @ [n])" by simp
        with 2 use Cons d u0 show ?thesis by (auto split: if_splits)
      qed
    qed
  next
    case False
    with 2 show ?thesis by (auto simp: round_unit_def split: if_splits)
  qed
qed simp

lemma paired_units: "list_all round_unit us \<Longrightarrow> st \<noteq> Waiting \<Longrightarrow> paired st (concat us)"
proof (induction us arbitrary: st)
  case (Cons u us)
  then have IH: "paired st (concat us)" if "st \<noteq> Waiting" for st using that by simp
  from Cons.prems have "round_unit u" by simp
  then consider (single) m where "u = [m]" "\<not> is_tool_use_message m" "\<not> is_tool_result_message m"
    | (round) m rs ns where "u = m # rs @ ns" "is_tool_use_message m" "rs \<noteq> []" "list_all is_tool_result_message rs"
        "ns = [] \<or> (\<exists>n. ns = [n] \<and> is_plain_user_message n)"
    unfolding round_unit_def by blast
  then show ?case
  proof cases
    case single
    with IH Cons.prems(2) show ?thesis by simp
  next
    case round
    have "paired Answered (ns @ concat us)" using round(5) IH by (auto simp: is_plain_user_message_def)
    then have r: "paired st (rs @ ns @ concat us)" if "st \<noteq> Idle" for st
      using paired_results [OF round(3,4) that] by simp
    with Cons.prems(2) round(1,2) show ?thesis by (cases st) auto
  qed
qed simp

text \<open>Grouping depends on the kinds of messages only.\<close>

lemma list_all2_takeWhile:
  assumes "list_all2 R xs ys" "\<And>x y. R x y \<Longrightarrow> P y = P x"
  shows "list_all2 R (takeWhile P xs) (takeWhile P ys)" "list_all2 R (dropWhile P xs) (dropWhile P ys)"
  using assms(1) by (induction) (auto simp: assms(2))

lemma group_round:
  assumes "is_tool_use_message m" "takeWhile is_tool_result_message ms = r # rs" "dropWhile is_tool_result_message ms = n # rest"
  shows "group_into_units (m # ms) = (if is_plain_user_message n then (m # r # rs @ [n]) # group_into_units rest
     else (m # r # rs) # group_into_units (n # rest))"
  by (subst group_into_units.simps(2)) (simp add: assms del: group_into_units.simps)

lemma group_clipped:
  assumes "list_all2 (clipped L) ms ms'"
  shows "list_all2 (list_all2 (clipped L)) (group_into_units ms) (group_into_units ms')"
  using assms
proof (induction ms arbitrary: ms' rule: group_into_units.induct)
  case (2 m ms)
  let ?R = "list_all2 (clipped L)"
  from "2.prems" obtain m' ts where ms': "ms' = m' # ts" and m: "clipped L m m'" and t: "?R ms ts"
    by (auto simp: list_all2_Cons1)
  note k = clipped_kind [OF m]
  have tw: "?R (takeWhile is_tool_result_message ms) (takeWhile is_tool_result_message ts)"
    "?R (dropWhile is_tool_result_message ms) (dropWhile is_tool_result_message ts)"
    by (rule list_all2_takeWhile [OF t], erule clipped_kind)+
  show ?case
  proof (cases "is_tool_use_message m")
    case use: True
    show ?thesis
    proof (cases "takeWhile is_tool_result_message ms")
      case Nil
      with tw(1) have "takeWhile is_tool_result_message ts = []" by simp
      with Nil use 2 k t ms' show ?thesis by (auto split: list.splits)
    next
      case (Cons r rs)
      with tw(1) obtain r' rs' where r': "takeWhile is_tool_result_message ts = r' # rs'" "clipped L r r'" "?R rs rs'"
        by (auto simp: list_all2_Cons1)
      show ?thesis
      proof (cases "dropWhile is_tool_result_message ms")
        case Nil
        with tw(2) have "dropWhile is_tool_result_message ts = []" by (simp del: dropWhile_eq_Nil_conv)
        with Nil use Cons k m r' ms' show ?thesis by (simp del: dropWhile_eq_Nil_conv)
      next
        case d: (Cons n rest)
        with tw(2) obtain n' rest' where n': "dropWhile is_tool_result_message ts = n' # rest'" "clipped L n n'" "?R rest rest'"
          by (auto simp: list_all2_Cons1)
        have use': "is_tool_use_message m'" using use k by simp
        show ?thesis
        proof (cases "is_plain_user_message n")
          case True
          then have "list_all2 ?R (group_into_units rest) (group_into_units rest')"
            using 2(2) [OF use refl Cons d] n'(3) by simp
          with True m r' n' ms' show ?thesis
            by (simp add: group_round [OF use Cons d] group_round [OF use' r'(1) n'(1)] clipped_kind [OF n'(2)] list_all2_appendI
                del: group_into_units.simps)
        next
          case False
          then have "list_all2 ?R (group_into_units (n # rest)) (group_into_units (n' # rest'))"
            using 2(3) [OF use refl Cons d] n'(2,3) by (simp del: group_into_units.simps)
          with False m r' n' ms' show ?thesis
            by (simp add: group_round [OF use Cons d] group_round [OF use' r'(1) n'(1)] clipped_kind [OF n'(2)]
                del: group_into_units.simps)
        qed
      qed
    qed
  next
    case False
    with 2 k m t ms' show ?thesis by simp
  qed
qed simp

section \<open>Dropping units\<close>

definition only :: "nat set \<Rightarrow> 'a list list \<Rightarrow> 'a list list" where
  "only K units = map (\<lambda>i. if i \<in> K then units ! i else []) [0..<length units]"

lemma length_only [simp]: "length (only K units) = length units"
  by (simp add: only_def)

lemma nth_only [simp]: "i < length units \<Longrightarrow> only K units ! i = (if i \<in> K then units ! i else [])"
  by (simp add: only_def)

lemma only_all: "only {..<length units} units = units"
  by (rule nth_equalityI) simp_all

lemma only_empty: "i < length units \<Longrightarrow> (only K units)[i := []] = only (K - {i}) units"
  by (rule nth_equalityI) (auto simp: nth_list_update)

lemma concat_only: "concat (only K units) = concat (nths units K)"
proof -
  have "concat (map (\<lambda>p. if snd p \<in> K then fst p else []) ps) = concat (map fst (filter (\<lambda>p. snd p \<in> K) ps))"
    for ps :: "('a list \<times> nat) list" by (induction ps) auto
  moreover have "only K units = map (\<lambda>p. if snd p \<in> K then fst p else []) (zip units [0..<length units])"
    by (rule nth_equalityI) simp_all
  ultimately show ?thesis by (simp add: nths_def)
qed

lemma list_all2_concat: "list_all2 (list_all2 R) xss yss \<Longrightarrow> list_all2 R (concat xss) (concat yss)"
  by (induction rule: list_all2_induct) (auto intro: list_all2_appendI)

lemma concat_nths_clipped:
  assumes "list_all2 (list_all2 R) us us'"
  shows "list_all2 R (concat (nths us K)) (concat (nths us' K))"
  unfolding concat_only [symmetric]
  by (rule list_all2_concat) (use assms in \<open>auto simp: list_all2_conv_all_nth\<close>)

lemma count_append:
  "count_message_tokens tk (xs @ ys)
   = res_bind (count_message_tokens tk xs) (\<lambda>n. res_map (\<lambda>k. n + k) (count_message_tokens tk ys))"
proof (induction xs)
  case Nil
  show ?case by (cases "count_message_tokens tk ys") simp_all
next
  case (Cons x xs)
  then show ?case
    by (cases "message_tokens tk x"; cases "count_message_tokens tk xs"; cases "count_message_tokens tk ys") simp_all
qed

lemma drop_units_only:
  assumes "drop_units tk available held is (only K us) = Inr us'" "\<forall>i \<in> set is. i < length us"
  shows "\<exists>K' \<subseteq> K. us' = only K' us \<and> K \<inter> set held \<subseteq> K'
     \<and> (fits tk available us' = Inr True \<or> K' \<inter> set is \<subseteq> set held)"
  using assms
proof (induction "is" arbitrary: K)
  case Nil
  then show ?case by auto
next
  case (Cons i "is")
  obtain b where b: "fits tk available (only K us) = Inr b" using Cons.prems(1) by (auto simp: res_simps)
  show ?case
  proof (cases "b \<or> i \<in> set held")
    case True
    show ?thesis
    proof (cases b)
      case True
      with b Cons.prems(1) show ?thesis by auto
    next
      case False
      with True b Cons.prems(1) have "drop_units tk available held is (only K us) = Inr us'" by simp
      from Cons.IH [OF this] Cons.prems(2) obtain K' where "K' \<subseteq> K" "us' = only K' us" "K \<inter> set held \<subseteq> K'"
          "fits tk available us' = Inr True \<or> K' \<inter> set is \<subseteq> set held" by auto
      with True False show ?thesis by (intro exI [of _ K']) auto
    qed
  next
    case False
    then have "drop_units tk available held is (only (K - {i}) us) = Inr us'"
      using b Cons.prems by (simp add: only_empty)
    from Cons.IH [OF this] Cons.prems(2) obtain K' where "K' \<subseteq> K - {i}" "us' = only K' us" "(K - {i}) \<inter> set held \<subseteq> K'"
        "fits tk available us' = Inr True \<or> K' \<inter> set is \<subseteq> set held" by auto
    with False show ?thesis by (intro exI [of _ K']) auto
  qed
qed

lemma evidence_bound: "units \<noteq> [] \<Longrightarrow> evidence_of units < length units"
proof (cases "filter (\<lambda>i. list_ex is_tool_result_message (units ! i)) (rev [0..<length units])")
  case (Cons i "is")
  then have "i \<in> set (filter (\<lambda>i. list_ex is_tool_result_message (units ! i)) (rev [0..<length units]))" by simp
  then have "i < length units" by simp
  with Cons show ?thesis by (simp add: evidence_of_def)
qed (simp add: evidence_of_def)

lemma evidence_clipped:
  assumes "list_all2 (list_all2 (clipped L)) us us'"
  shows "evidence_of us' = evidence_of us"
proof -
  have len: "length us' = length us" using assms by (simp add: list_all2_lengthD)
  have ex: "list_ex is_tool_result_message xs' = list_ex is_tool_result_message xs" if "list_all2 (clipped L) xs xs'" for xs xs'
    using that by (induction rule: list_all2_induct) (auto simp: clipped_kind)
  have "filter (\<lambda>i. list_ex is_tool_result_message (us' ! i)) (rev [0..<length us])
      = filter (\<lambda>i. list_ex is_tool_result_message (us ! i)) (rev [0..<length us])"
    by (rule filter_cong [OF refl]) (use assms ex in \<open>auto simp: list_all2_conv_all_nth\<close>)
  then show ?thesis unfolding evidence_of_def len by simp
qed

text \<open>The last resort: clip the results of what is held back, and then without the opening unit.\<close>

lemma clip_or_drop_result:
  assumes "clip_or_drop_opening tk available (only K us) = Inr flat" "us \<noteq> []" "\<forall>u \<in> set us. u \<noteq> []" "K \<subseteq> {..<length us}"
    and "length us - 1 \<in> K"
  shows "\<exists>K' \<subseteq> K. K - {0} \<subseteq> K' \<and> length us - 1 \<in> K' \<and> list_all2 (clipped MIN_CLIPPED_CHARS) (concat (nths us K')) flat
     \<and> (\<forall>n. count_message_tokens tk flat = Inr n \<longrightarrow> available < int n \<longrightarrow> 0 \<in> K' \<longrightarrow> K' = {0})"
proof -
  obtain flat0 n where f: "clip_tool_results tk available (concat (only K us)) = Inr flat0"
      "count_message_tokens tk flat0 = Inr n"
    using assms(1) by (auto simp: clip_or_drop_opening_def res_simps)
  have c0: "list_all2 (clipped MIN_CLIPPED_CHARS) (concat (nths us K)) flat0"
    using clip_tool_results_clips [OF f(1)] by (simp add: concat_only)
  have nonempty: "only K us ! i \<noteq> [] \<longleftrightarrow> i \<in> K" if "i < length us" for i using that assms(3) by simp
  have others: "list_ex (\<lambda>u. u \<noteq> []) (tl (only K us)) \<longleftrightarrow> (\<exists>i \<in> K. i \<noteq> 0)"
  proof -
    have "list_ex (\<lambda>u. u \<noteq> []) (tl (only K us)) \<longleftrightarrow> (\<exists>i < length us - 1. only K us ! Suc i \<noteq> [])"
      by (auto simp: list_ex_length nth_tl simp del: nth_only)
    also have "\<dots> \<longleftrightarrow> (\<exists>i < length us - 1. Suc i \<in> K)" using assms(3) by (intro ex_cong1) (auto split: if_splits)
    also have "\<dots> \<longleftrightarrow> (\<exists>i \<in> K. i \<noteq> 0)"
    proof
      assume "\<exists>i \<in> K. i \<noteq> 0"
      then obtain i where "i \<in> K" "i \<noteq> 0" by blast
      with assms(4) have "Suc (i - 1) \<in> K" "i - 1 < length us - 1" by auto
      then show "\<exists>i < length us - 1. Suc i \<in> K" by blast
    qed blast
    finally show ?thesis .
  qed
  have zero: "only K us ! 0 \<noteq> [] \<longleftrightarrow> 0 \<in> K" using nonempty [of 0] assms(2) by simp
  show ?thesis
  proof (cases "available < int n \<and> 0 \<in> K \<and> (\<exists>i \<in> K. i \<noteq> 0)")
    case True
    then have "clip_tool_results tk available (concat (only (K - {0}) us)) = Inr flat"
      using assms(1,2) f others zero by (simp add: clip_or_drop_opening_def only_empty)
    from clip_tool_results_clips [OF this] have c: "list_all2 (clipped MIN_CLIPPED_CHARS) (concat (nths us (K - {0}))) flat"
      by (simp add: concat_only)
    from True assms(4) have "length us - 1 \<noteq> 0" by (auto simp: subset_iff)
    with c assms(5) show ?thesis by (intro exI [of _ "K - {0}"]) auto
  next
    case False
    then have "flat = flat0" using assms(1,2) f others zero by (auto simp: clip_or_drop_opening_def)
    with False c0 f(2) assms(5) show ?thesis by (intro exI [of _ K]) auto
  qed
qed

section \<open>Truncation\<close>

definition system_part :: "bool \<Rightarrow> pydict list \<Rightarrow> pydict list" where
  "system_part preserve msgs = filter (\<lambda>m. is_system_message m \<and> preserve) msgs"

definition rounds_of :: "bool \<Rightarrow> pydict list \<Rightarrow> pydict list list" where
  "rounds_of preserve msgs = group_into_units (filter (\<lambda>m. \<not> (is_system_message m \<and> preserve)) msgs)"

definition clip_floor :: "int \<Rightarrow> nat" where
  "clip_floor available = min MIN_CLIPPED_CHARS (nat (available div 2) * MAX_CHARS_PER_TOKEN)"

text \<open>What truncation makes of the rounds of a history: those numbered by \<open>K\<close>, clipped.\<close>

definition selection :: "int \<Rightarrow> pydict list list \<Rightarrow> nat set \<Rightarrow> pydict list \<Rightarrow> bool" where
  "selection available units K flat \<longleftrightarrow>
     K \<subseteq> {..<length units} \<and> (units \<noteq> [] \<longrightarrow> length units - 1 \<in> K \<and> (evidence_of units = 0 \<or> evidence_of units \<in> K))
     \<and> list_all2 (clipped (clip_floor available)) (concat (nths units K)) flat"

lemma round_unit_nonempty: "round_unit u \<Longrightarrow> u \<noteq> []"
  by (auto simp: round_unit_def)

lemma truncate_units_Some:
  assumes "truncate_units tk available system units = Inr (Some msgs')" "units \<noteq> []"
  obtains us b where "drop_units tk available [0, evidence_of units, length units - 1] [0..<length units] units = Inr us"
    "fits tk available us = Inr b"
    "if b then msgs' = system @ concat us else \<exists>flat. msgs' = system @ flat \<and> clip_or_drop_opening tk available us = Inr flat"
proof -
  from assms obtain us b where "drop_units tk available [0, evidence_of units, length units - 1] [0..<length units] units = Inr us"
    "fits tk available us = Inr b"
    "(if b then Inr (Some (system @ concat us))
      else res_map (\<lambda>flat. Some (system @ flat)) (clip_or_drop_opening tk available us)) = Inr (Some msgs')"
    by (auto simp: truncate_units_def res_bind_Inr simp del: drop_units.simps)
  then show thesis by (intro that [of us b]) (auto simp: res_map_Inr split: if_splits)
qed

lemma truncate_units_result:
  assumes T: "truncate_units tk av system us0 = Inr (Some msgs')" and ne: "\<forall>u \<in> set us0. u \<noteq> []"
  obtains K flat where "msgs' = system @ flat" "K \<subseteq> {..<length us0}"
    "us0 \<noteq> [] \<Longrightarrow> length us0 - 1 \<in> K \<and> (evidence_of us0 = 0 \<or> evidence_of us0 \<in> K)"
    "list_all2 (clipped MIN_CLIPPED_CHARS) (concat (nths us0 K)) flat"
    "\<And>k. count_message_tokens tk flat = Inr k \<Longrightarrow> av < int k \<Longrightarrow>
       K \<subseteq> {evidence_of us0, length us0 - 1} \<and> (0 \<in> K \<longrightarrow> length us0 = 1)"
proof (cases "us0 = []")
  case True
  with T have "msgs' = system @ []" by (simp add: truncate_units_def)
  then show thesis by (rule that [of _ "{}"]) (use True in auto)
next
  case False
  let ?held = "[0, evidence_of us0, length us0 - 1]"
  from truncate_units_Some [OF T False] obtain us b where us: "drop_units tk av ?held [0..<length us0] us0 = Inr us"
      "fits tk av us = Inr b"
      "if b then msgs' = system @ concat us else \<exists>flat. msgs' = system @ flat \<and> clip_or_drop_opening tk av us = Inr flat" .
  have "drop_units tk av ?held [0..<length us0] (only {..<length us0} us0) = Inr us" using us(1) by (simp add: only_all)
  from drop_units_only [OF this] obtain K where K: "K \<subseteq> {..<length us0}" "us = only K us0" "{..<length us0} \<inter> set ?held \<subseteq> K"
      "fits tk av us = Inr True \<or> K \<inter> set [0..<length us0] \<subseteq> set ?held" by auto
  have kept: "length us0 - 1 \<in> K" "evidence_of us0 \<in> K" using K(3) False evidence_bound [OF False] by auto
  show thesis
  proof (cases b)
    case True
    then have m: "msgs' = system @ concat us" using us(3) by simp
    have fit: "int k \<le> av" if "count_message_tokens tk (concat us) = Inr k" for k using us(2) True that by (simp add: fits_def)
    show thesis by (rule that [OF m K(1)]) (use kept fit in \<open>force simp: K(2) concat_only\<close>)+
  next
    case False
    then obtain flat where flat: "msgs' = system @ flat" "clip_or_drop_opening tk av us = Inr flat" using us(3) by auto
    from K(1) have "K \<inter> set [0..<length us0] = K" by auto
    with K(4) us(2) False have held: "K \<subseteq> set ?held" by simp
    from clip_or_drop_result [OF flat(2) [unfolded K(2)] \<open>us0 \<noteq> []\<close> ne K(1) kept(1)] obtain K' where
      K': "K' \<subseteq> K" "K - {0} \<subseteq> K'" "length us0 - 1 \<in> K'" "list_all2 (clipped MIN_CLIPPED_CHARS) (concat (nths us0 K')) flat"
      "\<And>k. count_message_tokens tk flat = Inr k \<Longrightarrow> av < int k \<Longrightarrow> 0 \<in> K' \<Longrightarrow> K' = {0}" by blast
    have over: "K' \<subseteq> {evidence_of us0, length us0 - 1} \<and> (0 \<in> K' \<longrightarrow> length us0 = 1)"
      if "count_message_tokens tk flat = Inr k" "av < int k" for k
    proof (cases "0 \<in> K'")
      case True
      then have z: "K' = {0}" using K'(5) that by simp
      with K'(3) \<open>us0 \<noteq> []\<close> have "length us0 = 1" by (cases us0) auto
      with z show ?thesis by simp
    next
      case False
      with K'(1) held show ?thesis by auto
    qed
    have "K' \<subseteq> {..<length us0}" using K'(1) K(1) by blast
    moreover have "evidence_of us0 = 0 \<or> evidence_of us0 \<in> K'" using K'(2) kept(2) by blast
    ultimately show thesis by (intro that [OF flat(1), of K']) (use K'(3,4) over in simp_all)
  qed
qed

lemma truncate_selection:
  assumes "truncate_messages_to_fit tk preserve max_tokens msgs = Inr (Some msgs')"
  obtains K flat n where "msgs' = system_part preserve msgs @ flat"
    "count_message_tokens tk (system_part preserve msgs) = Inr n"
    "selection (max_tokens - int n) (rounds_of preserve msgs) K flat"
    "\<And>k. count_message_tokens tk flat = Inr k \<Longrightarrow> max_tokens < int n + int k \<Longrightarrow>
       K \<subseteq> {evidence_of (rounds_of preserve msgs), length (rounds_of preserve msgs) - 1}
       \<and> (0 \<in> K \<longrightarrow> length (rounds_of preserve msgs) = 1)"
proof -
  let ?conv = "filter (\<lambda>m. \<not> (is_system_message m \<and> preserve)) msgs"
  obtain n where n: "count_message_tokens tk (system_part preserve msgs) = Inr n"
    "truncate_units tk (max_tokens - int n) (system_part preserve msgs)
       (group_into_units (cap_each_tool_result tk (nat ((max_tokens - int n) div 2)) ?conv)) = Inr (Some msgs')"
    using assms by (auto simp: truncate_messages_to_fit_def Let_def system_part_def res_bind_Inr split: if_splits)
  define L where "L = clip_floor (max_tokens - int n)"
  define capped where "capped = group_into_units (cap_each_tool_result tk (nat ((max_tokens - int n) div 2)) ?conv)"
  define given where "given = rounds_of preserve msgs"
  have cap: "list_all2 (list_all2 (clipped L)) given capped"
    unfolding given_def capped_def L_def rounds_of_def clip_floor_def by (rule group_clipped) (rule cap_each_clips)
  then have len: "length capped = length given" by (simp add: list_all2_lengthD)
  note ev = evidence_clipped [OF cap]
  have ne: "\<forall>u \<in> set capped. u \<noteq> []" unfolding capped_def using group_units round_unit_nonempty by blast
  obtain K flat where
    K: "msgs' = system_part preserve msgs @ flat" "K \<subseteq> {..<length capped}"
      "capped \<noteq> [] \<Longrightarrow> length capped - 1 \<in> K \<and> (evidence_of capped = 0 \<or> evidence_of capped \<in> K)"
      "list_all2 (clipped MIN_CLIPPED_CHARS) (concat (nths capped K)) flat"
      "\<And>k. count_message_tokens tk flat = Inr k \<Longrightarrow> max_tokens - int n < int k \<Longrightarrow>
         K \<subseteq> {evidence_of capped, length capped - 1} \<and> (0 \<in> K \<longrightarrow> length capped = 1)"
    by (rule truncate_units_result [OF n(2) [folded capped_def] ne]) blast
  have "list_all2 (clipped L) (concat (nths capped K)) flat"
    using K(4) by (rule list_all2_mono) (auto intro: clipped_mono simp: L_def clip_floor_def)
  from clipped_all_trans [OF concat_nths_clipped [OF cap] this]
  have "selection (max_tokens - int n) given K flat"
    using K(2,3) len ev by (cases "capped = []") (auto simp: selection_def L_def)
  then show thesis
    using that [OF K(1) n(1), of K] K(5) unfolding given_def [symmetric] len ev by (auto simp: algebra_simps)
qed

lemma selection_paired:
  assumes "selection available (rounds_of preserve msgs) K flat"
  shows "paired Idle flat"
proof -
  have "list_all round_unit (nths (rounds_of preserve msgs) K)"
    using group_units by (auto simp: list_all_iff rounds_of_def dest: in_set_nthsD)
  then have "paired Idle (concat (nths (rounds_of preserve msgs) K))" by (simp add: paired_units)
  with assms show ?thesis by (auto simp: selection_def paired_clipped)
qed

text \<open>C24. What truncation gives up, and in which order: it keeps whole rounds of the conversation, in order, the
  newest one and the newest one with tool results (unless that one opens the conversation) among them; their
  messages are changed only in tool-result payloads, of which at least the first 200 characters (or eight per
  token of half the budget) stay; and it exceeds the budget only when nothing is left but those two rounds.\<close>

theorem truncation_keeps_newest_rounds:
  assumes "truncate_messages_to_fit tk preserve max_tokens msgs = Inr (Some msgs')"
    and "count_message_tokens tk (filter (\<lambda>m. is_system_message m \<and> preserve) msgs) = Inr n"
  shows "let units = group_into_units (filter (\<lambda>m. \<not> (is_system_message m \<and> preserve)) msgs)
    in \<exists>K flat. msgs' = filter (\<lambda>m. is_system_message m \<and> preserve) msgs @ flat
      \<and> K \<subseteq> {..<length units}
      \<and> (units \<noteq> [] \<longrightarrow> length units - 1 \<in> K \<and> (evidence_of units = 0 \<or> evidence_of units \<in> K))
      \<and> list_all2 (clipped (min 200 (nat ((max_tokens - int n) div 2) * 8))) (concat (nths units K)) flat
      \<and> (\<forall>k. count_message_tokens tk msgs' = Inr k \<and> max_tokens < int k \<longrightarrow>
           K \<subseteq> {evidence_of units, length units - 1} \<and> (0 \<in> K \<longrightarrow> length units = 1))"
proof (rule truncate_selection [OF assms(1)])
  fix K flat k
  assume a: "msgs' = system_part preserve msgs @ flat" "count_message_tokens tk (system_part preserve msgs) = Inr k"
    "selection (max_tokens - int k) (rounds_of preserve msgs) K flat"
    and b: "\<And>k'. count_message_tokens tk flat = Inr k' \<Longrightarrow> max_tokens < int k + int k' \<Longrightarrow>
       K \<subseteq> {evidence_of (rounds_of preserve msgs), length (rounds_of preserve msgs) - 1}
       \<and> (0 \<in> K \<longrightarrow> length (rounds_of preserve msgs) = 1)"
  have n: "k = n" using a(2) assms(2) by (simp add: system_part_def)
  have over: "K \<subseteq> {evidence_of (rounds_of preserve msgs), length (rounds_of preserve msgs) - 1}
       \<and> (0 \<in> K \<longrightarrow> length (rounds_of preserve msgs) = 1)"
    if "count_message_tokens tk msgs' = Inr t" "max_tokens < int t" for t
  proof -
    from that a(1,2) obtain k' where "count_message_tokens tk flat = Inr k'" "t = k + k'" by (auto simp: count_append res_simps)
    with b [of k'] that(2) show ?thesis by simp
  qed
  show ?thesis
    unfolding Let_def rounds_of_def [symmetric] system_part_def [symmetric]
    using a(1,3) over by (intro exI [of _ K] exI [of _ flat])
      (simp add: n selection_def clip_floor_def MIN_CLIPPED_CHARS_def MAX_CHARS_PER_TOKEN_def)
qed

section \<open>When truncation raises\<close>

lemma json_ok_list: "is_ok (json_dumps fr (PList xs)) \<longleftrightarrow> (\<forall>x \<in> set xs. is_ok (json_dumps fr x))"
proof -
  have map: "is_ok (res_map f r) = is_ok r" for f :: "string list \<Rightarrow> string" and r :: "string list res" by (cases r) auto
  have "is_ok (traverse f xs) \<longleftrightarrow> (\<forall>x \<in> set xs. is_ok (f x))" for f :: "pyval \<Rightarrow> string res"
  proof (induction xs)
    case (Cons x xs)
    then show ?case by (cases "f x"; cases "traverse f xs") auto
  qed simp
  with map show ?thesis by simp
qed

lemma json_ok_dict: "is_ok (json_dumps fr (PDict d)) \<longleftrightarrow> (\<forall>(k, v) \<in> set d. is_ok (json_dumps fr v))"
proof -
  have map: "is_ok (res_map f r) = is_ok r" for f :: "string list \<Rightarrow> string" and r :: "string list res" by (cases r) auto
  have map': "is_ok (res_map f r) = is_ok r" for f :: "string \<Rightarrow> string" and r :: "string res" by (cases r) auto
  have "is_ok (traverse f d) \<longleftrightarrow> (\<forall>x \<in> set d. is_ok (f x))" for f :: "string \<times> pyval \<Rightarrow> string res"
  proof (induction d)
    case (Cons x xs)
    then show ?case by (cases "f x"; cases "traverse f xs") auto
  qed simp
  with map map' show ?thesis by (auto simp: split_beta)
qed

lemma json_ok_dset:
  assumes "is_ok (json_dumps fr (PDict d))" "is_ok (json_dumps fr v)"
  shows "is_ok (json_dumps fr (PDict (dset d k v)))"
proof -
  have "set (AList.update k v d) \<subseteq> insert (k, v) (set d)" by (induction d) auto
  then show ?thesis using assms unfolding json_ok_dict dset_def by fastforce
qed

lemma message_tokens_ok:
  "is_ok (message_tokens tk m) \<longleftrightarrow>
     (\<forall>xs. dget m ''content'' = Some (PList xs) \<longrightarrow> is_ok (json_dumps (tk_float tk) (PList xs)))"
proof -
  have map: "is_ok (res_map f r) = is_ok r" for f :: "nat \<Rightarrow> nat" and r by (cases r) auto
  have map': "is_ok (res_map f r) = is_ok r" for f :: "string \<Rightarrow> nat" and r :: "string res" by (cases r) auto
  show ?thesis
    by (auto simp: message_tokens_def map map' dget_default_def simp del: json_dumps.simps split: option.splits pyval.splits)
qed

lemma put_payload_ok:
  assumes "payload_at m q = Some s" "is_ok (message_tokens tk m)"
  shows "is_ok (message_tokens tk (put_payload m q t))"
  using assms(1)
proof (cases rule: payload_at_cases)
  case 1
  then show ?thesis by (simp add: message_tokens_ok)
next
  case (2 i bs d)
  from assms(2) 2(2) have ok: "is_ok (json_dumps (tk_float tk) (PList bs))" by (simp add: message_tokens_ok del: json_dumps.simps)
  with 2(3,4) have "is_ok (json_dumps (tk_float tk) (PDict d))" unfolding json_ok_list by (metis nth_mem)
  then have "is_ok (json_dumps (tk_float tk) (PDict (dset d ''content'' (PStr t))))" by (rule json_ok_dset) simp
  with ok have "is_ok (json_dumps (tk_float tk) (PList (bs[i := PDict (dset d ''content'' (PStr t))])))"
    unfolding json_ok_list by (blast dest: set_update_subset_insert [THEN subsetD])
  then show ?thesis unfolding 2(1) put_block [OF 2(2,4)] by (simp add: message_tokens_ok del: json_dumps.simps)
next
  case (3 i ps d fr r)
  with assms(2) show ?thesis unfolding 3(1) put_part [OF 3(2,4,5,6)] by (simp add: message_tokens_ok del: json_dumps.simps)
qed

lemma clipped_ok: "clipped L m m' \<Longrightarrow> is_ok (message_tokens tk m) \<Longrightarrow> is_ok (message_tokens tk m')"
  by (induction rule: clipped.induct) (auto simp: set_payload_slots put_payload_ok)

lemma count_ok: "is_ok (count_message_tokens tk ms) \<longleftrightarrow> (\<forall>m \<in> set ms. is_ok (message_tokens tk m))"
proof (induction ms)
  case (Cons m ms)
  then show ?case by (cases "message_tokens tk m"; cases "count_message_tokens tk ms") auto
qed simp

text \<open>Messages whose tool results are texts, as the history adapters build them.\<close>

definition textual :: "token_env \<Rightarrow> pydict \<Rightarrow> bool" where
  "textual tk m \<longleftrightarrow> is_ok (message_tokens tk m) \<and> (is_tool_result_message m \<longrightarrow> payload_slots m \<noteq> [])"

lemma clipped_textual: "clipped L m m' \<Longrightarrow> textual tk m \<Longrightarrow> textual tk m'"
proof (induction rule: clipped.induct)
  case (clipped_cut L m m' q s t)
  then have q: "payload_at m' q = Some s" and m': "textual tk m'" by (simp_all add: set_payload_slots)
  have "(q, t) \<in> set (payload_slots (put_payload m' q t))" by (simp add: set_payload_slots payload_at_put [OF q])
  then have "payload_slots (put_payload m' q t) \<noteq> []" by auto
  with m' q show ?case by (simp add: textual_def put_payload_ok)
qed simp

lemma textual_all: "list_all2 (clipped L) ms ms' \<Longrightarrow> list_all (textual tk) ms \<Longrightarrow> list_all (textual tk) ms'"
  by (induction rule: list_all2_induct) (auto dest: clipped_textual)

lemma textual_count: "list_all (textual tk) ms \<Longrightarrow> is_ok (count_message_tokens tk ms)"
  by (auto simp: count_ok list_all_iff textual_def)

lemma all_slots_nonempty:
  assumes "list_all (textual tk) ms" "list_ex is_tool_result_message ms"
  shows "all_slots ms \<noteq> []"
proof -
  from assms(2) obtain i where i: "i < length ms" "is_tool_result_message (ms ! i)" by (auto simp: list_ex_length)
  with assms(1) have "payload_slots (ms ! i) \<noteq> []" by (simp add: list_all_length textual_def)
  moreover have "(i, ms ! i) \<in> set (enumerate 0 ms)" using i(1) by (simp add: in_set_enumerate_eq)
  ultimately show ?thesis by (force simp: all_slots_def)
qed

lemma clip_passes_ok:
  assumes "slots \<noteq> []" "\<forall>sl \<in> set slots. slot_at 0 msgs sl" "list_all (textual tk) msgs"
  shows "is_ok (clip_passes tk max_tokens n slots msgs)"
  using assms
proof (induction n arbitrary: slots msgs)
  case (Suc n)
  obtain tokens where tokens: "count_message_tokens tk msgs = Inr tokens"
    using textual_count [OF Suc.prems(3)] by (auto simp: is_ok_iff)
  obtain i where i: "longest slots = Some i" using Suc.prems(1) longest_None by (cases "longest slots") auto
  show ?case
  proof (cases "int tokens - max_tokens \<le> 0 \<or> cut_by tk (int tokens - max_tokens) (slots ! i) = None")
    case True
    with tokens i show ?thesis by auto
  next
    case False
    then obtain sl t where c: "cut_by tk (int tokens - max_tokens) (slots ! i) = Some (sl, t)" by auto
    have at: "slot_at 0 msgs (slots ! i)" using Suc.prems(2) longest_bound [OF i] by simp
    note f = cut_by_clips [OF c at, simplified]
    have "is_ok (clip_passes tk max_tokens n (slots[i := sl]) (write_slot msgs sl t))"
    proof (rule Suc.IH)
      show "\<forall>sl' \<in> set (slots[i := sl]). slot_at 0 (write_slot msgs sl t) sl'"
        using Suc.prems(2) f set_update_subset_insert [of slots i sl] by blast
      show "list_all (textual tk) (write_slot msgs sl t)" by (rule textual_all [OF f(1) Suc.prems(3)])
    qed (use Suc.prems(1) in simp)
    with False tokens i c show ?thesis by simp
  qed
qed simp

lemma clip_tool_results_ok: "list_all (textual tk) msgs \<Longrightarrow> is_ok (clip_tool_results tk max_tokens msgs)"
  by (simp add: clip_tool_results_def all_slots_at all_slots_nonempty clip_passes_ok del: clip_passes.simps)

lemma drop_units_ok:
  "list_all (list_all (textual tk)) units \<Longrightarrow> is_ok (drop_units tk available held is units)"
proof (induction "is" arbitrary: units)
  case (Cons i "is")
  have "list_all (textual tk) (concat units)" using Cons.prems by (auto simp: list_all_iff)
  then obtain n where "count_message_tokens tk (concat units) = Inr n" using textual_count is_ok_iff by metis
  moreover have "list_all (list_all (textual tk)) (units[i := []])"
    using Cons.prems set_update_subset_insert [of units i "[]"] by (force simp: list_all_iff)
  ultimately show ?case using Cons by (auto simp: fits_def)
qed simp

lemma drop_units_textual:
  "drop_units tk available held is units = Inr us \<Longrightarrow> list_all (list_all (textual tk)) units \<Longrightarrow> list_all (list_all (textual tk)) us"
proof (induction "is" arbitrary: units)
  case (Cons i "is")
  have "list_all (list_all (textual tk)) (units[i := []])"
    using Cons.prems(2) set_update_subset_insert [of units i "[]"] by (force simp: list_all_iff)
  with Cons show ?case by (auto simp: res_bind_Inr split: if_splits)
qed simp

lemma group_set: "set (concat (group_into_units ms)) \<subseteq> set ms"
proof (induction ms rule: group_into_units.induct)
  case (2 m ms)
  have s: "set ms = set (takeWhile is_tool_result_message ms) \<union> set (dropWhile is_tool_result_message ms)"
    by (metis set_append takeWhile_dropWhile_id)
  show ?case
  proof (cases "is_tool_use_message m")
    case use: True
    show ?thesis
    proof (cases "takeWhile is_tool_result_message ms")
      case Nil
      with use 2(1) [OF use] show ?thesis by auto
    next
      case (Cons r rs)
      show ?thesis
      proof (cases "dropWhile is_tool_result_message ms")
        case Nil
        with use Cons s show ?thesis by (simp del: dropWhile_eq_Nil_conv)
      next
        case d: (Cons n rest)
        have "set (concat (group_into_units rest)) \<subseteq> set rest" if "is_plain_user_message n"
          using 2(2) [OF use refl Cons d that] .
        moreover have "set (concat (group_into_units (n # rest))) \<subseteq> set (n # rest)" if "\<not> is_plain_user_message n"
          using 2(3) [OF use refl Cons d that] .
        ultimately show ?thesis using s [unfolded Cons d]
          by (auto simp: group_round [OF use Cons d] simp del: group_into_units.simps)
      qed
    qed
  next
    case False
    with 2 show ?thesis by (auto split: if_splits)
  qed
qed simp

text \<open>C37. Truncation never raises on histories whose tool results are texts, as the history adapters build them,
  and whose contents are JSON values.\<close>

theorem truncation_succeeds:
  assumes "\<forall>m \<in> set msgs. is_ok (message_tokens tk m) \<and> (is_tool_result_message m \<longrightarrow> payload_slots m \<noteq> [])"
  shows "is_ok (truncate_messages_to_fit tk preserve max_tokens msgs)"
proof -
  let ?conv = "filter (\<lambda>m. \<not> (is_system_message m \<and> preserve)) msgs"
  have T: "list_all (textual tk) msgs" using assms by (simp add: list_all_iff textual_def)
  have units: "is_ok (truncate_units tk av system us)" if us: "list_all (list_all (textual tk)) us" for av system us
  proof (cases "us = []")
    case False
    obtain us' where us': "drop_units tk av [0, evidence_of us, length us - 1] [0..<length us] us = Inr us'"
      using drop_units_ok [OF us] is_ok_iff by metis
    have t: "list_all (list_all (textual tk)) us'" using drop_units_textual [OF us' us] .
    then have c: "list_all (textual tk) (concat us')" by (auto simp: list_all_iff)
    have "list_all (list_all (textual tk)) (us'[0 := []])"
      using t set_update_subset_insert [of us' 0 "[]"] by (force simp: list_all_iff)
    then have c': "list_all (textual tk) (concat (us'[0 := []]))" by (force simp: list_all_iff)
    obtain flat where flat: "clip_tool_results tk av (concat us') = Inr flat" using clip_tool_results_ok [OF c] is_ok_iff by metis
    have "list_all (textual tk) flat" by (rule textual_all [OF clip_tool_results_clips [OF flat] c])
    then obtain k where "count_message_tokens tk flat = Inr k" using textual_count is_ok_iff by metis
    with flat clip_tool_results_ok [OF c'] have "is_ok (clip_or_drop_opening tk av us')"
      by (simp add: clip_or_drop_opening_def)
    moreover obtain n where "count_message_tokens tk (concat us') = Inr n" using textual_count [OF c] is_ok_iff by metis
    ultimately show ?thesis using False us' by (auto simp: truncate_units_def fits_def is_ok_iff)
  qed (simp add: truncate_units_def)
  have "list_all (textual tk) ?conv" using T by (auto simp: list_all_iff)
  then have "list_all (textual tk) (cap_each_tool_result tk n ?conv)" for n using textual_all [OF cap_each_clips] by blast
  then have "list_all (list_all (textual tk)) (group_into_units (cap_each_tool_result tk n ?conv))" for n
    using group_set by (fastforce simp: list_all_iff)
  note u = units [OF this]
  obtain n where "count_message_tokens tk msgs = Inr n" using textual_count [OF T] is_ok_iff by metis
  moreover obtain k where "count_message_tokens tk (filter (\<lambda>m. is_system_message m \<and> preserve) msgs) = Inr k"
    using T textual_count [of tk "filter (\<lambda>m. is_system_message m \<and> preserve) msgs"] is_ok_iff by (fastforce simp: list_all_iff)
  ultimately show ?thesis using u by (simp add: truncate_messages_to_fit_def Let_def)
qed

text \<open>C38. A tool round over the budget whose results hold no text (a tool message with a list of content blocks,
  say) is not returned over budget: the clipping takes the longest of no payloads and raises ValueError.\<close>

theorem truncation_raises_without_payload:
  assumes "is_tool_use_message u" "is_tool_result_message r" "payload_slots u = []" "payload_slots r = []"
    and "\<not> is_system_message u" "\<not> is_system_message r"
    and "count_message_tokens tk [u, r] = Inr n" "max_tokens < int n" "0 < max_tokens"
  shows "truncate_messages_to_fit tk preserve max_tokens [u, r] = Inl ValueError"
proof -
  have slots: "all_slots [u, r] = []" using assms(3,4) by (simp add: all_slots_def)
  then have "cap_each_tool_result tk k [u, r] = [u, r]" for k by (simp add: cap_each_tool_result_def)
  moreover have "group_into_units [u, r] = [[u, r]]" using assms(1,2) by simp
  moreover have e: "evidence_of [[u, r]] = 0" using assms(2) by (simp add: evidence_of_def)
  moreover have "clip_tool_results tk max_tokens [u, r] = Inl ValueError"
    using assms(2,7,8) slots by (simp add: clip_tool_results_def numeral_2_eq_2 del: count_message_tokens.simps)
  then have "truncate_units tk max_tokens [] [[u, r]] = Inl ValueError"
    using assms(7,8) e by (simp add: truncate_units_def fits_def clip_or_drop_opening_def del: count_message_tokens.simps)
  ultimately show ?thesis
    using assms by (simp add: truncate_messages_to_fit_def Let_def del: count_message_tokens.simps) simp
qed

section \<open>Thinking blocks\<close>

lemma strip_has_block:
  assumes "dget m ''content'' = Some (PList bs)" "\<not> List.member THINKING_BLOCK_TYPES t"
  shows "has_content_block (dset m ''content'' (PList (filter (\<lambda>b. \<not> is_thinking_block b) bs))) t = has_content_block m t"
proof -
  have "\<not> is_thinking_block b" if "as_dict b = Some d" "dget d ''type'' = Some (PStr t)" for b d
    using that assms(2) by (simp add: is_thinking_block_def)
  then show ?thesis by (auto simp: has_content_block_list [OF assms(1)] has_content_block_list list_ex_iff split: option.splits)
qed

lemma strip_kind:
  assumes "dget m ''content'' = Some (PList bs)"
  defines "m' \<equiv> dset m ''content'' (PList (filter (\<lambda>b. \<not> is_thinking_block b) bs))"
  shows "is_tool_use_message m' = is_tool_use_message m" "is_tool_result_message m' = is_tool_result_message m"
  unfolding m'_def using strip_has_block [OF assms(1)]
  by (simp_all add: is_tool_use_message_def is_tool_result_message_def has_part_key_def THINKING_BLOCK_TYPES_def)

lemma paired_Answered: "paired Idle ms \<Longrightarrow> paired Answered ms"
proof (induction "length ms" arbitrary: ms rule: less_induct)
  case less
  show ?case
  proof (cases ms)
    case (Cons m ns)
    show ?thesis
    proof (cases "is_tool_use_message m \<and> is_tool_result_message m")
      case True
      with less.prems Cons have "paired Waiting ns" by simp
      then obtain r rs where "ns = r # rs" "is_tool_result_message r" "paired Answered rs"
        by (cases ns) (auto split: if_splits)
      with True Cons show ?thesis by simp
    next
      case False
      with less.prems Cons show ?thesis by (auto split: if_splits)
    qed
  qed simp
qed

definition thinking_blocks :: "pydict \<Rightarrow> nat" where
  "thinking_blocks m = length (filter is_thinking_block (items_of (dget_none m ''content'')))"

text \<open>The three cases of a message.\<close>

lemma strip_cases:
  obtains (same) "thinking_blocks m = 0" "strip_thinking_blocks (m # ms) = (m # fst (strip_thinking_blocks ms), snd (strip_thinking_blocks ms))"
  | (part) bs where "dget m ''content'' = Some (PList bs)" "filter (\<lambda>b. \<not> is_thinking_block b) bs \<noteq> []" "thinking_blocks m \<noteq> 0"
      "strip_thinking_blocks (m # ms) = (dset m ''content'' (PList (filter (\<lambda>b. \<not> is_thinking_block b) bs)) # fst (strip_thinking_blocks ms),
        thinking_blocks m + snd (strip_thinking_blocks ms))"
  | (emptied) bs where "dget m ''content'' = Some (PList bs)" "bs \<noteq> []" "list_all is_thinking_block bs"
      "strip_thinking_blocks (m # ms) = (fst (strip_thinking_blocks ms), thinking_blocks m + snd (strip_thinking_blocks ms))"
proof (cases "as_list (dget_none m ''content'')")
  case None
  then show ?thesis using that(1) by (simp add: thinking_blocks_def items_of_def split_beta Let_def)
next
  case (Some bs)
  then have bs: "dget m ''content'' = Some (PList bs)"
    by (auto simp: as_list_def dget_default_def split: pyval.splits option.splits)
  have n: "thinking_blocks m = length (filter is_thinking_block bs)" by (simp add: thinking_blocks_def items_of_def Some)
  have len: "length bs = length (filter is_thinking_block bs) + length (filter (\<lambda>b. \<not> is_thinking_block b) bs)"
    by (simp add: sum_length_filter_compl)
  show ?thesis
  proof (cases "filter is_thinking_block bs = []")
    case True
    then show ?thesis using that(1) Some n len by (simp add: split_beta Let_def del: filter_empty_conv)
  next
    case False
    show ?thesis
    proof (cases "filter (\<lambda>b. \<not> is_thinking_block b) bs = []")
      case True
      then have all: "list_all is_thinking_block bs" by (simp add: list_all_iff filter_empty_conv)
      have ne: "bs \<noteq> []" using False by auto
      have l: "length bs = thinking_blocks m" using n len True by simp
      from l ne have "thinking_blocks m \<noteq> 0" by (metis length_0_conv)
      with l ne show ?thesis using True Some
        by (intro that(3) [OF bs _ all]) (simp_all add: split_beta Let_def del: filter_empty_conv)
    next
      case ne: False
      then show ?thesis using False Some n len
        by (intro that(2) [OF bs ne]) (simp_all add: split_beta Let_def del: filter_empty_conv)
    qed
  qed
qed

lemma strip_none:
  assumes "thinking_blocks m = 0"
  shows "strip_thinking_blocks (m # ms) = (m # fst (strip_thinking_blocks ms), snd (strip_thinking_blocks ms))"
proof (rule strip_cases [of m ms])
  fix bs assume "dget m ''content'' = Some (PList bs)" "bs \<noteq> []" "list_all is_thinking_block bs"
  then have "thinking_blocks m = length bs" by (simp add: thinking_blocks_def dget_default_def list_all_iff)
  with assms \<open>bs \<noteq> []\<close> show ?thesis by simp
qed (use assms in simp_all)

lemma strip_result:
  "list_all (\<lambda>m. thinking_blocks m = 0) (fst (strip_thinking_blocks ms)) \<and> snd (strip_thinking_blocks ms) = sum_list (map thinking_blocks ms)"
proof (induction ms)
  case (Cons m ms)
  show ?case
  proof (rule strip_cases [of m ms])
    fix bs
    let ?m = "dset m ''content'' (PList (filter (\<lambda>b. \<not> is_thinking_block b) bs))"
    have "thinking_blocks ?m = 0" by (simp add: thinking_blocks_def)
    then show ?case if "strip_thinking_blocks (m # ms) = (?m # fst (strip_thinking_blocks ms), thinking_blocks m + snd (strip_thinking_blocks ms))"
      using Cons that by simp
  qed (use Cons in auto)
qed simp

lemma strip_fixed: "list_all (\<lambda>m. thinking_blocks m = 0) ms \<Longrightarrow> strip_thinking_blocks ms = (ms, 0)"
  by (induction ms) (simp_all add: strip_none del: strip_thinking_blocks.simps(2))

lemma strip_paired:
  assumes "paired st ms" "\<forall>m \<in> set ms. list_all is_thinking_block (items_of (dget_none m ''content''))
           \<and> items_of (dget_none m ''content'') \<noteq> [] \<longrightarrow> \<not> is_tool_use_message m \<and> \<not> is_tool_result_message m"
  shows "paired st (fst (strip_thinking_blocks ms))"
  using assms
proof (induction ms arbitrary: st)
  case (Cons m ms)
  from Cons.prems(2) have later: "\<forall>m \<in> set ms. list_all is_thinking_block (items_of (dget_none m ''content''))
         \<and> items_of (dget_none m ''content'') \<noteq> [] \<longrightarrow> \<not> is_tool_use_message m \<and> \<not> is_tool_result_message m" by simp
  note IH = Cons.IH [OF _ later]
  show ?case
  proof (rule strip_cases [of m ms])
    assume "strip_thinking_blocks (m # ms) = (m # fst (strip_thinking_blocks ms), snd (strip_thinking_blocks ms))"
    with Cons.prems(1) IH show ?thesis by (auto split: if_splits)
  next
    fix bs assume "dget m ''content'' = Some (PList bs)"
      "strip_thinking_blocks (m # ms) = (dset m ''content'' (PList (filter (\<lambda>b. \<not> is_thinking_block b) bs))
        # fst (strip_thinking_blocks ms), thinking_blocks m + snd (strip_thinking_blocks ms))"
    with Cons.prems(1) IH show ?thesis by (auto simp: strip_kind split: if_splits)
  next
    fix bs assume bs: "dget m ''content'' = Some (PList bs)" "bs \<noteq> []" "list_all is_thinking_block bs"
      and s: "strip_thinking_blocks (m # ms) = (fst (strip_thinking_blocks ms), thinking_blocks m + snd (strip_thinking_blocks ms))"
    then have "\<not> is_tool_use_message m \<and> \<not> is_tool_result_message m" using Cons.prems(2) by (simp add: dget_default_def)
    then have "paired Idle ms" "st \<noteq> Waiting" using Cons.prems(1) by (auto split: if_splits)
    then have "paired st ms" using paired_Answered by (cases st) auto
    with IH s show ?thesis by simp
  qed
qed simp

text \<open>What stripping should do to a message, and which messages it should leave out.\<close>

definition only_thinking :: "pydict \<Rightarrow> bool" where
  "only_thinking m \<longleftrightarrow> items_of (dget_none m ''content'') \<noteq> [] \<and> list_all is_thinking_block (items_of (dget_none m ''content''))"

definition without_thinking :: "pydict \<Rightarrow> pydict \<Rightarrow> bool" where
  "without_thinking m m' \<longleftrightarrow>
     (if list_ex is_thinking_block (items_of (dget_none m ''content''))
      then map fst m' = map fst m \<and> (\<forall>k. k \<noteq> ''content'' \<longrightarrow> dget m' k = dget m k)
         \<and> dget m' ''content'' = Some (PList (filter (\<lambda>b. \<not> is_thinking_block b) (items_of (dget_none m ''content''))))
      else m' = m)"

lemma dset_keys: "dget m k = Some v \<Longrightarrow> map fst (dset m k w) = map fst m"
  by (force simp: dset_def update_keys dget_def dest: map_of_SomeD)

lemma strip_exact: "list_all2 without_thinking (filter (\<lambda>m. \<not> only_thinking m) ms) (fst (strip_thinking_blocks ms))"
proof (induction ms)
  case (Cons m ms)
  show ?case
  proof (rule strip_cases [of m ms])
    assume "thinking_blocks m = 0"
      and s: "strip_thinking_blocks (m # ms) = (m # fst (strip_thinking_blocks ms), snd (strip_thinking_blocks ms))"
    then have "\<not> list_ex is_thinking_block (items_of (dget_none m ''content''))"
      by (simp add: thinking_blocks_def list_ex_iff filter_empty_conv)
    then have "\<not> only_thinking m" "without_thinking m m"
      by (auto simp: only_thinking_def without_thinking_def list_ex_iff list_all_iff neq_Nil_conv)
    with Cons s show ?thesis by (simp del: strip_thinking_blocks.simps)
  next
    fix bs
    let ?m = "dset m ''content'' (PList (filter (\<lambda>b. \<not> is_thinking_block b) bs))"
    assume bs: "dget m ''content'' = Some (PList bs)" "filter (\<lambda>b. \<not> is_thinking_block b) bs \<noteq> []" "thinking_blocks m \<noteq> 0"
      and s: "strip_thinking_blocks (m # ms) = (?m # fst (strip_thinking_blocks ms), thinking_blocks m + snd (strip_thinking_blocks ms))"
    have items: "items_of (dget_none m ''content'') = bs" using bs(1) by (simp add: dget_default_def)
    have "\<not> only_thinking m" using bs(2) by (auto simp: only_thinking_def items list_all_iff filter_empty_conv)
    moreover have "list_ex is_thinking_block bs"
      using bs(3) by (auto simp: thinking_blocks_def items list_ex_iff filter_empty_conv)
    then have "without_thinking m ?m" using dset_keys [OF bs(1)] by (simp add: without_thinking_def items)
    ultimately show ?thesis using Cons s by (simp del: strip_thinking_blocks.simps)
  next
    fix bs assume bs: "dget m ''content'' = Some (PList bs)" "bs \<noteq> []" "list_all is_thinking_block bs"
      and s: "strip_thinking_blocks (m # ms) = (fst (strip_thinking_blocks ms), thinking_blocks m + snd (strip_thinking_blocks ms))"
    then have "only_thinking m" by (simp add: only_thinking_def dget_default_def)
    with Cons s show ?thesis by (simp del: strip_thinking_blocks.simps)
  qed
qed simp

text \<open>C39. Stripping thinking blocks removes exactly them: what comes back is the messages given, in order, less
  those that hold thinking blocks and nothing else; a message without a thinking block is as it was, one with some
  keeps every field, and of its content every other block, in order; the number reported is how many there were,
  doing it again changes nothing, and a history whose calls and results are paired stays so, provided no message
  of a round consists of thinking alone.\<close>

theorem stripping_removes_thinking:
  assumes "strip_thinking_blocks ms = (ms', n)"
  shows "list_all2 without_thinking (filter (\<lambda>m. \<not> only_thinking m) ms) ms'
    \<and> (\<forall>m \<in> set ms'. \<forall>b \<in> set (items_of (dget_none m ''content'')). \<not> is_thinking_block b)
    \<and> n = sum_list (map (\<lambda>m. length (filter is_thinking_block (items_of (dget_none m ''content'')))) ms)
    \<and> strip_thinking_blocks ms' = (ms', 0)
    \<and> (paired Idle ms \<and> (\<forall>m \<in> set ms. only_thinking m \<longrightarrow> \<not> is_tool_use_message m \<and> \<not> is_tool_result_message m)
        \<longrightarrow> paired Idle ms')"
proof -
  have r: "list_all (\<lambda>m. thinking_blocks m = 0) ms'" "n = sum_list (map thinking_blocks ms)"
    using strip_result [of ms] assms by simp_all
  show ?thesis
    using r strip_fixed [OF r(1)] strip_paired [of Idle ms] strip_exact [of ms] assms
    by (auto simp: thinking_blocks_def [abs_def] list_all_iff filter_empty_conv only_thinking_def)
qed

section \<open>A conversation\<close>

text \<open>A token is a character here.\<close>

definition by_length :: token_env where
  "by_length = \<lparr>tk_encode = (\<lambda>s. Some (length s)), tk_float = (\<lambda>_. []), tk_str = (\<lambda>_. [])\<rparr>"

definition text_message :: "string \<Rightarrow> string \<Rightarrow> pydict" where
  "text_message role text = [(''role'', PStr role), (''content'', PStr text)]"

definition call_message :: pydict where
  "call_message = [(''role'', PStr ''assistant''), (''content'', PNone),
     (''tool_calls'', PList [PDict [(''id'', PStr ''c1''), (''type'', PStr ''function'')]])]"

definition demo_conversation :: "pydict list" where
  "demo_conversation = [text_message ''system'' ''help'', text_message ''user'' ''what does she like?'',
     text_message ''assistant'' ''let me look that up for you'', call_message, text_message ''tool'' ''tea'']"

definition demo_truncated :: "pydict list" where
  "demo_truncated = [text_message ''system'' ''help'', text_message ''user'' ''what does she like?'',
     call_message, text_message ''tool'' ''tea'']"

lemma demo_truncates: "truncate_messages_to_fit by_length True 30 demo_conversation = Inr (Some demo_truncated)"
  by code_simp

theorem truncation_keeps_newest_rounds_witness:
  "\<exists>K flat. demo_truncated = text_message ''system'' ''help'' # flat \<and> (2::nat) \<in> K
     \<and> list_all2 (clipped 104) (concat (nths (group_into_units (tl demo_conversation)) K)) flat"
proof -
  have s: "filter (\<lambda>m. is_system_message m \<and> True) demo_conversation = [text_message ''system'' ''help'']"
    and c: "filter (\<lambda>m. \<not> (is_system_message m \<and> True)) demo_conversation = tl demo_conversation"
    and n: "count_message_tokens by_length [text_message ''system'' ''help''] = Inr 4"
    and l: "length (group_into_units (tl demo_conversation)) = 3" by code_simp+
  have ne: "group_into_units (tl demo_conversation) \<noteq> []" using l by auto
  from truncation_keeps_newest_rounds [OF demo_truncates, unfolded s c, OF n, unfolded Let_def l]
  obtain K flat where "demo_truncated = [text_message ''system'' ''help''] @ flat" "3 - 1 \<in> K"
    "list_all2 (clipped (min 200 (nat ((30 - int 4) div 2) * 8))) (concat (nths (group_into_units (tl demo_conversation)) K)) flat"
    using ne by blast
  then show ?thesis by (intro exI [of _ K] exI [of _ flat]) (simp add: numeral_2_eq_2)
qed

theorem truncation_succeeds_witness: "is_ok (truncate_messages_to_fit by_length True 12 demo_conversation)"
proof (rule truncation_succeeds)
  show "\<forall>m \<in> set demo_conversation. is_ok (message_tokens by_length m) \<and> (is_tool_result_message m \<longrightarrow> payload_slots m \<noteq> [])"
    by code_simp
qed

theorem truncation_raises_without_payload_witness:
  "truncate_messages_to_fit by_length True 5
     [call_message, [(''role'', PStr ''tool''), (''content'', PList [PDict [(''text'', PStr ''tea'')]])]] = Inl ValueError"
proof (rule truncation_raises_without_payload)
  show "count_message_tokens by_length [call_message,
     [(''role'', PStr ''tool''), (''content'', PList [PDict [(''text'', PStr ''tea'')]])]] = Inr 17" by code_simp
qed (code_simp+)

theorem stripping_removes_thinking_witness:
  "fst (strip_thinking_blocks [text_message ''user'' ''hi'', [(''role'', PStr ''assistant''), (''content'', PList
     [PDict [(''type'', PStr ''thinking'')], PDict [(''type'', PStr ''text''), (''text'', PStr ''ok'')]])]])
   = [text_message ''user'' ''hi'', [(''role'', PStr ''assistant''), (''content'', PList
       [PDict [(''type'', PStr ''text''), (''text'', PStr ''ok'')]])]]
   \<and> strip_thinking_blocks (fst (strip_thinking_blocks [text_message ''user'' ''hi'', [(''role'', PStr ''assistant''), (''content'', PList
     [PDict [(''type'', PStr ''thinking'')], PDict [(''type'', PStr ''text''), (''text'', PStr ''ok'')]])]]))
   = (fst (strip_thinking_blocks [text_message ''user'' ''hi'', [(''role'', PStr ''assistant''), (''content'', PList
     [PDict [(''type'', PStr ''thinking'')], PDict [(''type'', PStr ''text''), (''text'', PStr ''ok'')]])]]), 0)"
  by (rule conjI, code_simp) (use stripping_removes_thinking [OF prod.collapse [symmetric]] in blast)

section \<open>Positions of the rounds\<close>

text \<open>Positions \<open>P\<close> of a conversation that keep its rounds whole: a call and all the results behind it are kept or
  dropped together, a result is kept only behind its call, and a call only with a result.\<close>

definition whole_rounds :: "pydict list \<Rightarrow> nat set \<Rightarrow> bool" where
  "whole_rounds ms P \<longleftrightarrow>
     (\<forall>i j. i < j \<and> j < length ms \<and> is_tool_use_message (ms ! i)
        \<and> (\<forall>k. i < k \<and> k \<le> j \<longrightarrow> is_tool_result_message (ms ! k)) \<longrightarrow> (i \<in> P) = (j \<in> P))
     \<and> (\<forall>j \<in> P. is_tool_result_message (ms ! j) \<and> \<not> is_tool_use_message (ms ! j) \<longrightarrow>
          (\<exists>i \<in> P. i < j \<and> is_tool_use_message (ms ! i) \<and> (\<forall>k. i < k \<and> k < j \<longrightarrow> is_tool_result_message (ms ! k))))
     \<and> (\<forall>i \<in> P. is_tool_use_message (ms ! i) \<and> \<not> is_tool_result_message (ms ! i) \<longrightarrow>
          Suc i < length ms \<and> is_tool_result_message (ms ! Suc i))"

text \<open>A segment that is kept or dropped whole, in front of the others.\<close>

definition segment_ok :: "pydict list \<Rightarrow> bool" where
  "segment_ok seg \<longleftrightarrow> whole_rounds seg {..<length seg}"

definition closed_off :: "pydict list \<Rightarrow> pydict list \<Rightarrow> bool" where
  "closed_off seg rest \<longleftrightarrow> rest = [] \<or> \<not> is_tool_result_message (hd rest)
     \<or> (\<forall>i < length seg. is_tool_use_message (seg ! i) \<longrightarrow>
          (\<exists>k. i < k \<and> k < length seg \<and> \<not> is_tool_result_message (seg ! k)))"

lemma whole_append:
  assumes P: "whole_rounds rest P" "P \<subseteq> {..<length rest}" and off: "closed_off seg rest" and b: "b \<Longrightarrow> segment_ok seg"
  shows "whole_rounds (seg @ rest) ((if b then {..<length seg} else {}) \<union> (\<lambda>j. j + length seg) ` P)"
    (is "whole_rounds ?ms ?Q")
proof -
  let ?n = "length seg"
  have low: "i \<in> ?Q \<longleftrightarrow> b" if "i < ?n" for i using that by auto
  have high: "i \<in> ?Q \<longleftrightarrow> i - ?n \<in> P" if "\<not> i < ?n" for i
    using that by (auto simp: image_iff intro: bexI [of _ "i - ?n"])
  have run: "(i \<in> ?Q) = (j \<in> ?Q)"
    if "i < j" "j < length ?ms" "is_tool_use_message (?ms ! i)" "\<forall>k. i < k \<and> k \<le> j \<longrightarrow> is_tool_result_message (?ms ! k)" for i j
  proof (cases "j < ?n")
    case True
    with that low show ?thesis by simp
  next
    case j: False
    show ?thesis
    proof (cases "i < ?n")
      case True
      have "is_tool_result_message (?ms ! ?n)" using that(1,4) True j by simp
      moreover have "rest \<noteq> []" using that(2) j by auto
      ultimately have "is_tool_result_message (hd rest)" by (simp add: nth_append hd_conv_nth)
      moreover have "is_tool_result_message (seg ! k)" if "i < k" "k < ?n" for k
        using \<open>\<forall>k. i < k \<and> k \<le> j \<longrightarrow> is_tool_result_message (?ms ! k)\<close> that j by (auto simp: nth_append dest: spec [of _ k])
      ultimately show ?thesis using off \<open>rest \<noteq> []\<close> True that(3) by (auto simp: closed_off_def nth_append)
    next
      case False
      have "(i - ?n \<in> P) = (j - ?n \<in> P)"
      proof -
        have "is_tool_result_message (rest ! k)" if "i - ?n < k" "k \<le> j - ?n" for k
          using \<open>\<forall>k. i < k \<and> k \<le> j \<longrightarrow> is_tool_result_message (?ms ! k)\<close> [rule_format, of "k + ?n"] that False j by (simp add: nth_append not_less less_diff_conv2 le_diff_conv2)
        moreover have "is_tool_use_message (rest ! (i - ?n))" "i - ?n < j - ?n" "j - ?n < length rest"
          using that False by (auto simp: nth_append)
        ultimately show ?thesis using P(1) unfolding whole_rounds_def by blast
      qed
      with high [OF False] high [OF j] show ?thesis by simp
    qed
  qed
  have result: "\<exists>i \<in> ?Q. i < j \<and> is_tool_use_message (?ms ! i) \<and> (\<forall>k. i < k \<and> k < j \<longrightarrow> is_tool_result_message (?ms ! k))"
    if q: "j \<in> ?Q" "is_tool_result_message (?ms ! j)" "\<not> is_tool_use_message (?ms ! j)" for j
  proof (cases "j < ?n")
    case True
    then have B: b "segment_ok seg" using low [OF True] q(1) b by simp_all
    then obtain i where "i < ?n" "i < j" "is_tool_use_message (seg ! i)" "\<forall>k. i < k \<and> k < j \<longrightarrow> is_tool_result_message (seg ! k)"
      using B(2) q(2,3) True unfolding segment_ok_def whole_rounds_def by (auto simp: nth_append)
    then show ?thesis using B(1) True by (intro bexI [of _ i]) (auto simp: nth_append)
  next
    case False
    then have "j - ?n \<in> P" using high q(1) by simp
    then obtain i where i: "i \<in> P" "i < j - ?n" "is_tool_use_message (rest ! i)" "\<forall>k. i < k \<and> k < j - ?n \<longrightarrow> is_tool_result_message (rest ! k)"
      using P(1) q(2,3) False unfolding whole_rounds_def by (auto simp: nth_append)
    have "is_tool_result_message (?ms ! k)" if "i + ?n < k" "k < j" for k
    proof -
      have "i < k - ?n" "k - ?n < j - ?n" "\<not> k < ?n" using that by linarith+
      then show ?thesis using i(4) by (simp add: nth_append)
    qed
    then show ?thesis using i False by (intro bexI [of _ "i + ?n"]) (auto simp: nth_append)
  qed
  have call: "Suc i < length ?ms \<and> is_tool_result_message (?ms ! Suc i)"
    if q: "i \<in> ?Q" "is_tool_use_message (?ms ! i)" "\<not> is_tool_result_message (?ms ! i)" for i
  proof (cases "i < ?n")
    case True
    then have "segment_ok seg" using low [OF True] q(1) b by simp
    then have "Suc i < ?n \<and> is_tool_result_message (seg ! Suc i)"
      using q(2,3) True unfolding segment_ok_def whole_rounds_def by (auto simp: nth_append)
    then show ?thesis by (simp add: nth_append)
  next
    case False
    then have "i - ?n \<in> P" using high q(1) by simp
    then have "Suc (i - ?n) < length rest \<and> is_tool_result_message (rest ! Suc (i - ?n))"
      using P(1) q(2,3) False unfolding whole_rounds_def by (auto simp: nth_append)
    with False show ?thesis by (auto simp: nth_append Suc_diff_le not_less)
  qed
  show ?thesis unfolding whole_rounds_def using run result call by blast
qed

lemma nths_segment:
  assumes "P \<subseteq> {..<length rest}"
  shows "nths (seg @ rest) ((if b then {..<length seg} else {}) \<union> (\<lambda>j. j + length seg) ` P)
    = (if b then seg else []) @ nths rest P"
proof -
  let ?Q = "(if b then {..<length seg} else {}) \<union> (\<lambda>j. j + length seg) ` P"
  have "nths seg ?Q = (if b then seg else [])"
  proof (cases b)
    case True
    then have "nths seg ?Q = nths seg UNIV"
      unfolding nths_def by (intro arg_cong [where f = "map fst"] filter_cong) (auto dest: set_zip_rightD)
    with True show ?thesis by (simp add: nths_all)
  next
    case False
    then have "nths seg ?Q = nths seg {}"
      unfolding nths_def by (intro arg_cong [where f = "map fst"] filter_cong) (auto dest: set_zip_rightD)
    with False show ?thesis by simp
  qed
  moreover have "{j. j + length seg \<in> ?Q} = P" by (auto split: if_splits)
  ultimately show ?thesis by (simp add: nths_append)
qed

definition chosen :: "pydict list \<Rightarrow> pydict list list \<Rightarrow> bool" where
  "chosen ms us \<longleftrightarrow> (\<forall>K. \<exists>P \<subseteq> {..<length ms}. nths ms P = concat (nths us K) \<and> whole_rounds ms P)"

lemma chosen_append:
  assumes "chosen rest us" "closed_off seg rest"
  shows chosen_skip: "chosen (seg @ rest) us" and chosen_unit: "segment_ok seg \<Longrightarrow> chosen (seg @ rest) (seg # us)"
proof -
  have pick: "\<exists>Q \<subseteq> {..<length (seg @ rest)}. nths (seg @ rest) Q = (if b then seg else []) @ concat (nths us K)
      \<and> whole_rounds (seg @ rest) Q" if "b \<Longrightarrow> segment_ok seg" for b K
  proof -
    obtain P where P: "P \<subseteq> {..<length rest}" "nths rest P = concat (nths us K)" "whole_rounds rest P"
      using assms(1) unfolding chosen_def by blast
    let ?Q = "(if b then {..<length seg} else {}) \<union> (\<lambda>j. j + length seg) ` P"
    have "?Q \<subseteq> {..<length (seg @ rest)}" using P(1) by (auto split: if_splits)
    moreover have "whole_rounds (seg @ rest) ?Q" by (rule whole_append [OF P(3,1) assms(2) that])
    ultimately show ?thesis using nths_segment [OF P(1), of seg b] P(2) by (intro exI [of _ ?Q]) simp
  qed
  from pick [of False] show "chosen (seg @ rest) us" by (simp add: chosen_def)
  show "chosen (seg @ rest) (seg # us)" if "segment_ok seg"
    unfolding chosen_def nths_Cons
  proof
    fix K
    show "\<exists>P \<subseteq> {..<length (seg @ rest)}. nths (seg @ rest) P = concat ((if 0 \<in> K then [seg] else []) @ nths us {j. Suc j \<in> K})
        \<and> whole_rounds (seg @ rest) P"
      using pick [OF that, of "0 \<in> K" "{j. Suc j \<in> K}"] by (cases "0 \<in> K") simp_all
  qed
qed

lemma segment_single: "\<not> is_tool_use_message m \<Longrightarrow> \<not> is_tool_result_message m \<Longrightarrow> segment_ok [m]"
  by (simp add: segment_ok_def whole_rounds_def)

lemma segment_round:
  assumes "is_tool_use_message m" "list_all is_tool_result_message rs" "rs \<noteq> []" "ns = [] \<or> ns = [n] \<and> is_plain_user_message n"
  shows "segment_ok (m # rs @ ns)"
proof -
  let ?seg = "m # rs @ ns"
  have res: "is_tool_result_message (?seg ! k)" if "0 < k" "k \<le> length rs" for k
    using that assms(2) by (cases k) (auto simp: nth_append list_all_length)
  have last: "\<not> is_tool_use_message (?seg ! k) \<and> \<not> is_tool_result_message (?seg ! k)"
    if "length rs < k" "k < length ?seg" for k
    using that assms(4) by (auto simp: nth_append nth_Cons' is_plain_user_message_def)
  have result: "\<exists>i \<in> {..<length ?seg}. i < j \<and> is_tool_use_message (?seg ! i) \<and> (\<forall>k. i < k \<and> k < j \<longrightarrow> is_tool_result_message (?seg ! k))"
    if "j < length ?seg" "is_tool_result_message (?seg ! j)" "\<not> is_tool_use_message (?seg ! j)" for j
  proof -
    have "j \<noteq> 0" using that(3) assms(1) by (cases j) auto
    moreover have "j \<le> length rs" using last [of j] that(1,2) by (meson not_le)
    ultimately show ?thesis using assms(1) res by (intro bexI [of _ 0]) auto
  qed
  have call: "Suc i < length ?seg \<and> is_tool_result_message (?seg ! Suc i)"
    if "i < length ?seg" "is_tool_use_message (?seg ! i)" "\<not> is_tool_result_message (?seg ! i)" for i
  proof -
    have "i = 0" using that res [of i] last [of i] by (metis not_gr0 not_le)
    moreover have "0 < length rs" using assms(3) by simp
    ultimately show ?thesis using res [of "Suc 0"] by (simp add: Suc_le_eq)
  qed
  show ?thesis unfolding segment_ok_def whole_rounds_def
  proof (intro conjI ballI impI)
    fix j
    assume "j \<in> {..<length ?seg}" "is_tool_result_message (?seg ! j) \<and> \<not> is_tool_use_message (?seg ! j)"
    then show "\<exists>i \<in> {..<length ?seg}. i < j \<and> is_tool_use_message (?seg ! i)
        \<and> (\<forall>k. i < k \<and> k < j \<longrightarrow> is_tool_result_message (?seg ! k))" using result by blast
  qed (use call in auto)
qed

lemma closed_head: "\<not> is_tool_result_message n \<Longrightarrow> closed_off seg (n # rest)" "closed_off seg []"
  by (simp_all add: closed_off_def)

lemma closed_note: "is_plain_user_message n \<Longrightarrow> closed_off (seg @ [n]) rest"
  unfolding closed_off_def
  by (intro disjI2 allI impI exI [of _ "length seg"])
    (auto simp: is_plain_user_message_def nth_append less_Suc_eq)

lemma group_chosen: "chosen ms (group_into_units ms)"
proof (induction ms rule: group_into_units.induct)
  case 1
  show ?case by (simp add: chosen_def whole_rounds_def)
next
  case (2 m ms)
  show ?case
  proof (cases "is_tool_use_message m")
    case use: True
    show ?thesis
    proof (cases "takeWhile is_tool_result_message ms")
      case Nil
      then have "closed_off [m] ms" by (cases ms) (auto simp: closed_off_def split: if_splits)
      moreover have "chosen ms (group_into_units ms)"
        using 2(1) [OF use refl Nil] by simp
      ultimately show ?thesis using chosen_skip [of ms _ "[m]"] use Nil by simp
    next
      case (Cons r rs)
      note all = set_takeWhile_all [OF Cons]
      have seg: "segment_ok (m # (r # rs) @ ns)" if "ns = [] \<or> (ns = [n] \<and> is_plain_user_message n)" for ns n
        using segment_round [OF use all _ that] by simp
      have ms: "ms = (r # rs) @ dropWhile is_tool_result_message ms"
        using takeWhile_dropWhile_id [of is_tool_result_message ms] Cons by simp
      show ?thesis
      proof (cases "dropWhile is_tool_result_message ms")
        case Nil
        have "chosen [] []" by (simp add: chosen_def whole_rounds_def)
        from chosen_unit [OF this closed_head(2) seg [of "[]"]] show ?thesis
          using use Cons Nil ms by (simp del: dropWhile_eq_Nil_conv)
      next
        case d: (Cons n rest)
        have n: "\<not> is_tool_result_message n" using hd_dropWhile [of is_tool_result_message ms] d by simp
        have all_ms: "m # ms = (m # r # rs) @ n # rest" using ms d by simp
        show ?thesis
        proof (cases "is_plain_user_message n")
          case True
          have IH: "chosen rest (group_into_units rest)" using 2(2) [OF use refl Cons d True] .
          have "closed_off ((m # r # rs) @ [n]) rest" using True by (rule closed_note)
          moreover have "segment_ok ((m # r # rs) @ [n])" using seg [of "[n]" n] True by simp
          ultimately have "chosen (((m # r # rs) @ [n]) @ rest) (((m # r # rs) @ [n]) # group_into_units rest)"
            by (rule chosen_unit [OF IH])
          with True all_ms show ?thesis using group_round [OF use Cons d] by simp
        next
          case False
          have IH: "chosen (n # rest) (group_into_units (n # rest))" using 2(3) [OF use refl Cons d False] .
          have "chosen ((m # r # rs) @ n # rest) ((m # r # rs) # group_into_units (n # rest))"
            using seg [of "[]"] by (intro chosen_unit [OF IH closed_head(1) [OF n]]) simp
          with False all_ms show ?thesis using group_round [OF use Cons d] by (simp del: group_into_units.simps)
        qed
      qed
    qed
  next
    case no: False
    show ?thesis
    proof (cases "is_tool_result_message m")
      case True
      have "closed_off [m] ms" using no by (simp add: closed_off_def)
      with chosen_skip [OF 2(4) [OF no True], of "[m]"] no True show ?thesis by simp
    next
      case False
      have "closed_off [m] ms" using no by (simp add: closed_off_def)
      with chosen_unit [OF 2(5) [OF no False], of "[m]"] segment_single [OF no False] no False show ?thesis by simp
    qed
  qed
qed

text \<open>C11. Truncation keeps the system messages whole and in front and never breaks a tool call from its results:
  what follows them is the conversation at positions that keep a call together with every one of its results,
  changed only in the payloads of tool results, and each call in it is followed by its results and no result lacks
  its call.\<close>

theorem truncation_keeps_tool_pairs:
  assumes "truncate_messages_to_fit tk preserve max_tokens msgs = Inr (Some msgs')"
  shows "let conversation = filter (\<lambda>m. \<not> (is_system_message m \<and> preserve)) msgs
    in \<exists>P flat. P \<subseteq> {..<length conversation}
      \<and> msgs' = filter (\<lambda>m. is_system_message m \<and> preserve) msgs @ flat
      \<and> list_all2 (clipped 0) (nths conversation P) flat
      \<and> whole_rounds conversation P \<and> paired Idle flat"
proof (rule truncate_selection [OF assms])
  fix K flat n
  assume a: "msgs' = system_part preserve msgs @ flat" "selection (max_tokens - int n) (rounds_of preserve msgs) K flat"
  let ?conv = "filter (\<lambda>m. \<not> (is_system_message m \<and> preserve)) msgs"
  obtain P where P: "P \<subseteq> {..<length ?conv}" "nths ?conv P = concat (nths (rounds_of preserve msgs) K)" "whole_rounds ?conv P"
    using group_chosen [of ?conv] unfolding chosen_def rounds_of_def by blast
  have "list_all2 (clipped 0) (nths ?conv P) flat"
    using a(2) unfolding P(2) selection_def by (auto elim!: list_all2_mono clipped_mono)
  then show ?thesis using a P(1,3) selection_paired [OF a(2)]
    unfolding Let_def system_part_def by blast
qed

theorem truncation_keeps_tool_pairs_witness:
  "\<exists>P flat. demo_truncated = text_message ''system'' ''help'' # flat
     \<and> list_all2 (clipped 0) (nths (tl demo_conversation) P) flat
     \<and> whole_rounds (tl demo_conversation) P \<and> paired Idle flat"
proof -
  have "filter (\<lambda>m. is_system_message m \<and> True) demo_conversation = [text_message ''system'' ''help'']"
    and "filter (\<lambda>m. \<not> (is_system_message m \<and> True)) demo_conversation = tl demo_conversation" by code_simp+
  with truncation_keeps_tool_pairs [OF demo_truncates] show ?thesis by (auto simp: Let_def)
qed

end
