(* ===== verification/Capabilities.thy ===== *)
theory Capabilities
  imports Prelude
begin

text \<open>
  What one model accepts in a request (src/src/llm/capabilities.py): the version in a Claude model id and the row
  of the table it gets.
\<close>

datatype transport = Anthropic | OpenAI | Gemini

datatype thinking_mode = BudgetThinking | AdaptiveThinking

datatype forced_tool_choice = ConflictsWithThinking | SkipsThinking | Rejected

record model_capabilities =
  mc_thinking :: thinking_mode
  mc_supports_prefill :: bool
  mc_forced_tool_choice :: forced_tool_choice
  mc_preserved_thinking :: bool

definition LEGACY :: model_capabilities where
  "LEGACY = \<lparr>mc_thinking = BudgetThinking, mc_supports_prefill = True,
             mc_forced_tool_choice = ConflictsWithThinking, mc_preserved_thinking = False\<rparr>"

definition CLAUDE_4 :: model_capabilities where
  "CLAUDE_4 = \<lparr>mc_thinking = BudgetThinking, mc_supports_prefill = False,
               mc_forced_tool_choice = ConflictsWithThinking, mc_preserved_thinking = False\<rparr>"

definition CLAUDE_ADAPTIVE :: model_capabilities where
  "CLAUDE_ADAPTIVE = \<lparr>mc_thinking = AdaptiveThinking, mc_supports_prefill = False,
                      mc_forced_tool_choice = ConflictsWithThinking, mc_preserved_thinking = False\<rparr>"

definition CLAUDE_NEWEST :: model_capabilities where
  "CLAUDE_NEWEST = \<lparr>mc_thinking = AdaptiveThinking, mc_supports_prefill = False,
                    mc_forced_tool_choice = Rejected, mc_preserved_thinking = True\<rparr>"

definition CLAUDE_HAIKU_5_5 :: model_capabilities where
  "CLAUDE_HAIKU_5_5 = \<lparr>mc_thinking = AdaptiveThinking, mc_supports_prefill = False,
                       mc_forced_tool_choice = SkipsThinking, mc_preserved_thinking = True\<rparr>"

definition CLAUDE_EXCEPTIONS :: "((string \<times> int \<times> int) \<times> model_capabilities) list" where
  "CLAUDE_EXCEPTIONS =
     [((''opus'', 5, 0), CLAUDE_ADAPTIVE), ((''sonnet'', 5, 0), CLAUDE_ADAPTIVE), ((''fable'', 5, 0), CLAUDE_ADAPTIVE),
      ((''mythos'', 5, 0), CLAUDE_ADAPTIVE), ((''haiku'', 5, 5), CLAUDE_HAIKU_5_5)]"

section \<open>The model id\<close>

definition is_lower :: "char \<Rightarrow> bool" where
  "is_lower c = (let n = (of_char c :: nat) in 97 \<le> n \<and> n \<le> 122)"

definition is_digit :: "char \<Rightarrow> bool" where
  "is_digit c = (let n = (of_char c :: nat) in 48 \<le> n \<and> n \<le> 57)"

fun decimal :: "int \<Rightarrow> string \<Rightarrow> int" where
  "decimal acc [] = acc"
| "decimal acc (c # cs) = decimal (10 * acc + (int (of_char c) - 48)) cs"

text \<open>The pattern \<open>claude-([a-z]+)-([0-9]+)([-.]([0-9]{1,2})(?![0-9]))?\<close> at the start of a string: each run is as long as
  it can be, and a third run of more than two digits is not taken.\<close>

definition minor_at :: "string \<Rightarrow> int option" where
  "minor_at s =
     (case s of
        c # cs \<Rightarrow>
          (let ds = takeWhile is_digit cs
           in if (c = CHR ''-'' \<or> c = CHR ''.'') \<and> ds \<noteq> [] \<and> length ds \<le> 2 then Some (decimal 0 ds) else None)
      | [] \<Rightarrow> None)"

definition model_at :: "string \<Rightarrow> (string \<times> int \<times> int) option" where
  "model_at s =
     (if starts_with ''claude-'' s then
        let r = drop 7 s; family = takeWhile is_lower r
        in case dropWhile is_lower r of
             c # r' \<Rightarrow>
               (let major = takeWhile is_digit r'
                in if family \<noteq> [] \<and> c = CHR ''-'' \<and> major \<noteq> []
                   then Some (family, decimal 0 major, (case minor_at (dropWhile is_digit r') of Some m \<Rightarrow> m | None \<Rightarrow> 0))
                   else None)
           | [] \<Rightarrow> None
      else None)"

text \<open>\<open>search\<close>: the first position that matches.\<close>

fun find_model :: "string \<Rightarrow> (string \<times> int \<times> int) option" where
  "find_model [] = None"
| "find_model (c # cs) = (case model_at (c # cs) of Some m \<Rightarrow> Some m | None \<Rightarrow> find_model cs)"

definition anthropic_capabilities :: "string \<Rightarrow> model_capabilities" where
  "anthropic_capabilities model =
     (case find_model model of
        None \<Rightarrow> LEGACY
      | Some (family, major, minor) \<Rightarrow>
          (case map_of CLAUDE_EXCEPTIONS (family, major, minor) of
             Some c \<Rightarrow> c
           | None \<Rightarrow>
               if major < 4 then LEGACY
               else if major < 4 \<or> major = 4 \<and> minor < 6 then CLAUDE_4
               else if major < 5 then CLAUDE_ADAPTIVE
               else CLAUDE_NEWEST))"

fun capabilities_for :: "transport \<Rightarrow> string \<Rightarrow> model_capabilities" where
  "capabilities_for Anthropic model = anthropic_capabilities model"
| "capabilities_for OpenAI model = LEGACY"
| "capabilities_for Gemini model = LEGACY"

end
