(* ===== verification/ToolLoop.thy ===== *)
theory ToolLoop
  imports Conversation Capabilities "HOL-Library.List_Lexorder" "HOL-Library.Char_ord"
begin

text \<open>
  The tool loop (src/src/llm/tool_loop.py) with the message shapes of the three providers
  (src/src/llm/history_adapters.py), the retry condition (src/src/llm/errors.py) and the choice of the model for an
  attempt (src/src/llm/runtime.py). The provider, the tools and the budget line are parameters over a world they
  change; telemetry, sampling parameters and sleeping are left out. The state also records the requests sent.
\<close>

section \<open>Responses and messages\<close>

record tool_call =
  tc_id :: string
  tc_name :: string
  tc_input :: pyval
  tc_signature :: pyval

datatype answer = AnswerText string | AnswerParsed | AnswerNone

record completion =
  cp_content :: answer
  cp_tool_calls :: "tool_call list"
  cp_input_tokens :: int
  cp_output_tokens :: int
  cp_cache_creation_tokens :: int
  cp_cache_read_tokens :: int
  cp_thinking_content :: "string option"
  cp_thinking_blocks :: "pyval list"
  cp_reasoning_details :: "pyval list"
  cp_hit_input_token_cap :: bool

record tool_result =
  tr_id :: string
  tr_name :: string
  tr_text :: string
  tr_is_error :: bool

definition text_blocks :: "string \<Rightarrow> answer \<Rightarrow> pyval list" where
  "text_blocks extra content =
     (case content of
        AnswerText s \<Rightarrow> if s = [] then []
                       else [PDict ((if extra = [] then [] else [(''type'', PStr extra)]) @ [(''text'', PStr s)])]
      | _ \<Rightarrow> [])"

definition anthropic_tool_message :: "completion \<Rightarrow> pydict" where
  "anthropic_tool_message c =
     [(''role'', PStr ''assistant''),
      (''content'', PList (cp_thinking_blocks c @ text_blocks ''text'' (cp_content c)
         @ map (\<lambda>tc. PDict [(''type'', PStr ''tool_use''), (''id'', PStr (tc_id tc)), (''name'', PStr (tc_name tc)),
                           (''input'', tc_input tc)]) (cp_tool_calls c)))]"

definition anthropic_tool_results :: "tool_result list \<Rightarrow> pydict list" where
  "anthropic_tool_results rs =
     [[(''role'', PStr ''user''),
       (''content'', PList (map (\<lambda>r. PDict [(''type'', PStr ''tool_result''), (''tool_use_id'', PStr (tr_id r)),
          (''content'', PStr (tr_text r)), (''is_error'', PBool (tr_is_error r))]) rs))]]"

definition gemini_tool_message :: "completion \<Rightarrow> pydict" where
  "gemini_tool_message c =
     [(''role'', PStr ''model''),
      (''parts'', PList (text_blocks [] (cp_content c)
         @ map (\<lambda>tc. PDict ((''function_call'', PDict [(''name'', PStr (tc_name tc)), (''args'', tc_input tc)])
                           # (if tc_signature tc = PNone then [] else [(''thought_signature'', tc_signature tc)])))
             (cp_tool_calls c)))]"

definition gemini_tool_results :: "tool_result list \<Rightarrow> pydict list" where
  "gemini_tool_results rs =
     [[(''role'', PStr ''user''),
       (''parts'', PList (map (\<lambda>r. PDict [(''function_response'', PDict [(''name'', PStr (tr_name r)),
          (''response'', PDict [(''result'', PStr (tr_text r))])])]) rs))]]"

definition openai_tool_call :: "(pyfloat \<Rightarrow> string) \<Rightarrow> tool_call \<Rightarrow> pyval res" where
  "openai_tool_call fr tc =
     res_map (\<lambda>args. PDict [(''id'', PStr (tc_id tc)), (''type'', PStr ''function''),
         (''function'', PDict [(''name'', PStr (tc_name tc)), (''arguments'', PStr args)])])
       (json_dumps fr (tc_input tc))"

definition openai_tool_message :: "(pyfloat \<Rightarrow> string) \<Rightarrow> completion \<Rightarrow> pydict res" where
  "openai_tool_message fr c =
     res_map (\<lambda>calls.
         [(''role'', PStr ''assistant''),
          (''content'', case cp_content c of AnswerText s \<Rightarrow> PStr s | _ \<Rightarrow> PNone),
          (''tool_calls'', PList calls)]
         @ (if cp_reasoning_details c \<noteq> [] then [(''reasoning_details'', PList (cp_reasoning_details c))]
            else if truthy_str (cp_thinking_content c) then [(''reasoning_content'', opt_str (cp_thinking_content c))]
            else []))
       (traverse (openai_tool_call fr) (cp_tool_calls c))"

definition openai_tool_results :: "tool_result list \<Rightarrow> pydict list" where
  "openai_tool_results rs =
     map (\<lambda>r. [(''role'', PStr ''tool''), (''tool_call_id'', PStr (tr_id r)), (''content'', PStr (tr_text r))]) rs"

text \<open>\<open>history_adapter_for_provider\<close>\<close>

fun format_assistant_tool_message :: "(pyfloat \<Rightarrow> string) \<Rightarrow> transport \<Rightarrow> completion \<Rightarrow> pydict res" where
  "format_assistant_tool_message fr Anthropic c = Inr (anthropic_tool_message c)"
| "format_assistant_tool_message fr Gemini c = Inr (gemini_tool_message c)"
| "format_assistant_tool_message fr OpenAI c = openai_tool_message fr c"

fun format_tool_results :: "transport \<Rightarrow> tool_result list \<Rightarrow> pydict list" where
  "format_tool_results Anthropic rs = anthropic_tool_results rs"
| "format_tool_results Gemini rs = gemini_tool_results rs"
| "format_tool_results OpenAI rs = openai_tool_results rs"

definition user_message :: "string \<Rightarrow> pydict" where
  "user_message text = [(''role'', PStr ''user''), (''content'', PStr text)]"

section \<open>Attempts\<close>

record attempt_plan =
  pl_provider :: transport
  pl_model :: string
  pl_is_fallback :: bool

record llm_request =
  rq_plan :: attempt_plan
  rq_messages :: "pydict list"
  rq_tools :: "pydict list"
  rq_tool_choice :: pyval
  rq_iteration :: nat
  rq_attempt :: nat

text \<open>A status error of a provider's SDK, the miss of a structured answer, another exception, and one that is no
  \<open>Exception\<close> (a cancellation).\<close>

datatype llm_error = ProviderStatus "int option" | StructuredOutputError | OtherError | NotAnException

definition RETRYABLE_CLIENT_STATUSES :: "int list" where
  "RETRYABLE_CLIENT_STATUSES = [408, 409, 425, 429]"

fun is_non_retryable_client_error :: "llm_error \<Rightarrow> bool" where
  "is_non_retryable_client_error (ProviderStatus (Some status)) =
     (400 \<le> status \<and> status < 500 \<and> \<not> List.member RETRYABLE_CLIENT_STATUSES status)"
| "is_non_retryable_client_error _ = False"

definition llm_retry_condition :: "bool \<Rightarrow> llm_error \<Rightarrow> bool" where
  "llm_retry_condition can_fall_back e =
     (e \<noteq> NotAnException \<and> (can_fall_back \<or> \<not> is_non_retryable_client_error e))"

datatype tool_outcome = ToolReturned string bool | ToolRaised string

record 'w loop_env =
  le_call :: "'w \<Rightarrow> llm_request \<Rightarrow> 'w \<times> (llm_error + completion)"
  le_tool :: "'w \<Rightarrow> string \<Rightarrow> pyval \<Rightarrow> 'w \<times> tool_outcome"
  le_budget_line :: "(nat \<Rightarrow> nat \<Rightarrow> string option) option"
  le_tokens :: token_env

record loop_config =
  lc_prompt :: string
  lc_messages :: "pydict list"
  lc_tools :: "pydict list"
  lc_tool_choice :: pyval
  lc_max_tool_iterations :: int
  lc_response_model :: bool
  lc_enable_retry :: bool
  lc_retry_attempts :: nat
  lc_max_input_tokens :: "int option"
  lc_primary :: attempt_plan
  lc_fallback :: "attempt_plan option"
  lc_stream_final :: bool
  lc_force_tools_until :: "string list"
  lc_max_forced_iterations :: int
  lc_final_call_tools :: "pydict list"

definition MIN_TOOL_ITERATIONS :: int where "MIN_TOOL_ITERATIONS = 1"
definition MAX_TOOL_ITERATIONS :: int where "MAX_TOOL_ITERATIONS = 100"

text \<open>The primary on every attempt but the last, if there is a fallback.\<close>

definition plan_attempt :: "loop_config \<Rightarrow> nat \<Rightarrow> attempt_plan" where
  "plan_attempt cfg attempt =
     (case lc_fallback cfg of
        None \<Rightarrow> lc_primary cfg
      | Some fb \<Rightarrow> if attempt \<noteq> lc_retry_attempts cfg then lc_primary cfg else fb)"

definition without_stale_thinking :: "attempt_plan \<Rightarrow> nat \<Rightarrow> pydict list \<Rightarrow> pydict list" where
  "without_stale_thinking plan stale_before msgs =
     (if stale_before = 0 \<or> \<not> mc_preserved_thinking (capabilities_for (pl_provider plan) (pl_model plan)) then msgs
      else let (front, removed) = strip_thinking_blocks (take stale_before msgs)
           in if removed = 0 then msgs else front @ drop stale_before msgs)"

definition structured_answer :: "bool \<Rightarrow> bool \<Rightarrow> completion \<Rightarrow> bool" where
  "structured_answer response_model allow_empty c =
     (\<not> response_model \<or> cp_tool_calls c \<noteq> []
      \<or> (case cp_content c of
           AnswerParsed \<Rightarrow> True
         | AnswerText s \<Rightarrow> allow_empty \<and> py_strip s = []
         | AnswerNone \<Rightarrow> False))"

record call_args =
  ca_messages :: "pydict list"
  ca_tools :: "pydict list"
  ca_tool_choice :: pyval
  ca_iteration :: nat
  ca_check :: bool
  ca_allow_empty :: bool
  ca_stale_before :: nat

definition request_of :: "loop_config \<Rightarrow> call_args \<Rightarrow> nat \<Rightarrow> llm_request" where
  "request_of cfg ca attempt =
     \<lparr>rq_plan = plan_attempt cfg attempt,
      rq_messages = without_stale_thinking (plan_attempt cfg attempt) (ca_stale_before ca) (ca_messages ca),
      rq_tools = ca_tools ca, rq_tool_choice = ca_tool_choice ca, rq_iteration = ca_iteration ca, rq_attempt = attempt\<rparr>"

definition call_once ::
  "'w loop_env \<Rightarrow> loop_config \<Rightarrow> call_args \<Rightarrow> nat \<Rightarrow> 'w \<Rightarrow> 'w \<times> (llm_error + completion)" where
  "call_once env cfg ca attempt w =
     (case le_call env w (request_of cfg ca attempt) of
        (w', Inr c) \<Rightarrow>
          (w', if ca_check ca \<and> \<not> structured_answer (lc_response_model cfg) (ca_allow_empty ca) c
               then Inl StructuredOutputError else Inr c)
      | r \<Rightarrow> r)"

text \<open>The requests sent, the attempt that ended it, and the outcome. \<open>left\<close> is the number of attempts after this one.\<close>

fun attempts ::
  "'w loop_env \<Rightarrow> loop_config \<Rightarrow> call_args \<Rightarrow> nat \<Rightarrow> nat \<Rightarrow> 'w
    \<Rightarrow> 'w \<times> llm_request list \<times> nat \<times> (llm_error + completion)" where
  "attempts env cfg ca 0 attempt w =
     (let (w', r) = call_once env cfg ca attempt w in (w', [request_of cfg ca attempt], attempt, r))"
| "attempts env cfg ca (Suc left) attempt w =
     (case call_once env cfg ca attempt w of
        (w', Inl e) \<Rightarrow>
          (if llm_retry_condition (lc_fallback cfg \<noteq> None) e
           then let (w'', rqs, n, r) = attempts env cfg ca left (attempt + 1) w'
                in (w'', request_of cfg ca attempt # rqs, n, r)
           else (w', [request_of cfg ca attempt], attempt, Inl e))
      | (w', Inr c) \<Rightarrow> (w', [request_of cfg ca attempt], attempt, Inr c))"

definition call_with_retry ::
  "'w loop_env \<Rightarrow> loop_config \<Rightarrow> call_args \<Rightarrow> 'w \<Rightarrow> 'w \<times> llm_request list \<times> nat \<times> (llm_error + completion)" where
  "call_with_retry env cfg ca w =
     attempts env cfg ca (if lc_enable_retry cfg then lc_retry_attempts cfg - 1 else 0) 1 w"

section \<open>Tools\<close>

record executed_call =
  ec_name :: string
  ec_input :: pyval
  ec_result :: string

text \<open>The world, the results for the model, the calls that returned, and the names of the tools that succeeded.\<close>

fun execute_tool_calls ::
  "'w loop_env \<Rightarrow> tool_call list \<Rightarrow> 'w \<Rightarrow> 'w \<times> tool_result list \<times> executed_call list \<times> string list" where
  "execute_tool_calls env [] w = (w, [], [], [])"
| "execute_tool_calls env (tc # tcs) w =
     (let (w', out) = le_tool env w (tc_name tc) (tc_input tc);
          (w'', results, executed, succeeded) = execute_tool_calls env tcs w'
      in case out of
           ToolReturned text is_error \<Rightarrow>
             (w'', \<lparr>tr_id = tc_id tc, tr_name = tc_name tc, tr_text = text, tr_is_error = False\<rparr> # results,
              \<lparr>ec_name = tc_name tc, ec_input = tc_input tc, ec_result = text\<rparr> # executed,
              (if is_error then succeeded else tc_name tc # succeeded))
         | ToolRaised text \<Rightarrow>
             (w'', \<lparr>tr_id = tc_id tc, tr_name = tc_name tc, tr_text = ''Error: '' @ text, tr_is_error = True\<rparr> # results,
              executed, succeeded))"

definition budget_message :: "'w loop_env \<Rightarrow> nat \<Rightarrow> nat \<Rightarrow> pydict list" where
  "budget_message env used limit =
     (case le_budget_line env of
        None \<Rightarrow> []
      | Some line \<Rightarrow> (case line used limit of Some text \<Rightarrow> if text = [] then [] else [user_message text] | None \<Rightarrow> []))"

section \<open>The loop\<close>

record 'w loop_state =
  ls_world :: 'w
  ls_messages :: "pydict list"
  ls_iteration :: nat
  ls_executed :: "executed_call list"
  ls_input_tokens :: int
  ls_output_tokens :: int
  ls_cache_creation_tokens :: int
  ls_cache_read_tokens :: int
  ls_empty_retries :: nat
  ls_hit_cap :: bool
  ls_tool_choice :: pyval
  ls_forced_rounds :: int
  ls_stale_before :: nat
  ls_attempt :: nat
  ls_requests :: "llm_request list"

datatype loop_content = LoopAnswer answer | FinalStream attempt_plan "pydict list"

record loop_result =
  lr_content :: loop_content
  lr_executed :: "executed_call list"
  lr_input_tokens :: int
  lr_output_tokens :: int
  lr_cache_creation_tokens :: int
  lr_cache_read_tokens :: int
  lr_iterations :: nat
  lr_hit_input_token_cap :: bool
  lr_hit_iteration_limit :: bool

datatype loop_error = LoopRefused | LoopLlm llm_error | LoopRaised pyexc

datatype 'w loop_step = LoopDone "loop_error + loop_result" "'w loop_state" | LoopOn "'w loop_state"

definition gate :: "loop_config \<Rightarrow> string list option" where
  "gate cfg = (if lc_force_tools_until cfg = [] then None else Some (lc_force_tools_until cfg))"

definition forced :: "pyval \<Rightarrow> bool" where
  "forced choice = (choice = PStr ''required'' \<or> choice = PStr ''any'')"

text \<open>Truncation before a call.\<close>

definition fit_input :: "'w loop_env \<Rightarrow> loop_config \<Rightarrow> 'w loop_state \<Rightarrow> 'w loop_state res" where
  "fit_input env cfg st =
     (case lc_max_input_tokens cfg of
        None \<Rightarrow> Inr st
      | Some cap \<Rightarrow>
          res_bind (count_message_tokens (le_tokens env) (ls_messages st)) (\<lambda>n.
          res_map (\<lambda>r.
              let st = st\<lparr>ls_hit_cap := ls_hit_cap st \<or> cap < int n\<rparr>
              in case r of None \<Rightarrow> st | Some msgs \<Rightarrow> st\<lparr>ls_messages := msgs, ls_stale_before := length msgs\<rparr>)
            (truncate_messages_to_fit (le_tokens env) True cap (ls_messages st))))"

definition add_usage :: "completion \<Rightarrow> 'w loop_state \<Rightarrow> 'w loop_state" where
  "add_usage c st = st\<lparr>ls_input_tokens := ls_input_tokens st + cp_input_tokens c,
     ls_output_tokens := ls_output_tokens st + cp_output_tokens c,
     ls_cache_creation_tokens := ls_cache_creation_tokens st + cp_cache_creation_tokens c,
     ls_cache_read_tokens := ls_cache_read_tokens st + cp_cache_read_tokens c\<rparr>"

definition result_of :: "loop_content \<Rightarrow> bool \<Rightarrow> bool \<Rightarrow> 'w loop_state \<Rightarrow> loop_result" where
  "result_of content response_hit_cap limit st =
     \<lparr>lr_content = content, lr_executed = ls_executed st, lr_input_tokens = ls_input_tokens st,
      lr_output_tokens = ls_output_tokens st, lr_cache_creation_tokens = ls_cache_creation_tokens st,
      lr_cache_read_tokens = ls_cache_read_tokens st, lr_iterations = ls_iteration st + 1,
      lr_hit_input_token_cap = (response_hit_cap \<or> ls_hit_cap st), lr_hit_iteration_limit = limit\<rparr>"

definition nudge :: "string \<Rightarrow> 'w loop_state \<Rightarrow> 'w loop_state" where
  "nudge text st = st\<lparr>ls_messages := ls_messages st @ [user_message text], ls_iteration := ls_iteration st + 1\<rparr>"

text \<open>A response without tool calls: a nudge while the gate is unmet, one nudge for an empty answer, or the end.\<close>

definition gate_nudge_due :: "loop_config \<Rightarrow> nat \<Rightarrow> 'w loop_state \<Rightarrow> bool" where
  "gate_nudge_due cfg left st =
     (gate cfg \<noteq> None \<and> forced (ls_tool_choice st) \<and> ls_forced_rounds st + 1 < lc_max_forced_iterations cfg \<and> 0 < left)"

definition empty_nudge_due :: "nat \<Rightarrow> 'w loop_state \<Rightarrow> bool" where
  "empty_nudge_due left st = (ls_empty_retries st < 1 \<and> 0 < left)"

definition gate_nudge_text :: "loop_config \<Rightarrow> string" where
  "gate_nudge_text cfg = ''Your last response called no tool. Call one of ''
     @ join_str '', '' (sort (remdups (lc_force_tools_until cfg)))
     @ '' to read the relevant memory before answering.''"

definition EMPTY_NUDGE :: string where
  "EMPTY_NUDGE = ''Your last response was empty. Provide a concise answer to the original query using the available context.''"

definition answer_step :: "loop_config \<Rightarrow> nat \<Rightarrow> completion \<Rightarrow> 'w loop_state \<Rightarrow> 'w loop_step" where
  "answer_step cfg left c st =
     (if gate_nudge_due cfg left st
      then LoopOn (nudge (gate_nudge_text cfg) (st\<lparr>ls_forced_rounds := ls_forced_rounds st + 1\<rparr>))
      else if (case cp_content c of AnswerText s \<Rightarrow> py_strip s = [] | _ \<Rightarrow> False) \<and> empty_nudge_due left st
      then LoopOn (nudge EMPTY_NUDGE (st\<lparr>ls_empty_retries := ls_empty_retries st + 1\<rparr>))
      else LoopDone (Inr (result_of (LoopAnswer (cp_content c)) (cp_hit_input_token_cap c \<and> \<not> lc_stream_final cfg) False st)) st)"

text \<open>A response with tool calls: the message in the shape of the provider that answered, the results, the budget line.\<close>

definition relax_choice :: "loop_config \<Rightarrow> string list \<Rightarrow> 'w loop_state \<Rightarrow> 'w loop_state" where
  "relax_choice cfg succeeded st =
     (if forced (ls_tool_choice st) then
        let rounds = ls_forced_rounds st + 1;
            gate_met = (case gate cfg of None \<Rightarrow> True | Some g \<Rightarrow> list_ex (List.member g) succeeded)
        in st\<lparr>ls_forced_rounds := rounds,
              ls_tool_choice := (if gate_met \<or> lc_max_forced_iterations cfg \<le> rounds then PStr ''auto'' else ls_tool_choice st)\<rparr>
      else st)"

definition tool_step :: "'w loop_env \<Rightarrow> loop_config \<Rightarrow> completion \<Rightarrow> 'w loop_state \<Rightarrow> 'w loop_step" where
  "tool_step env cfg c st =
     (let provider = pl_provider (plan_attempt cfg (ls_attempt st)) in
      case format_assistant_tool_message (tk_float (le_tokens env)) provider c of
        Inl e \<Rightarrow> LoopDone (Inl (LoopRaised e)) st
      | Inr assistant \<Rightarrow>
          (let (w, results, executed, succeeded) = execute_tool_calls env (cp_tool_calls c) (ls_world st)
           in LoopOn (relax_choice cfg succeeded
                (st\<lparr>ls_world := w,
                    ls_messages := ls_messages st @ [assistant] @ format_tool_results provider results
                      @ budget_message env (ls_iteration st + 1) (nat (lc_max_tool_iterations cfg)),
                    ls_executed := ls_executed st @ executed,
                    ls_iteration := ls_iteration st + 1\<rparr>))))"

text \<open>One turn of the loop; \<open>left\<close> is the number of turns after it.\<close>

definition loop_call_args :: "loop_config \<Rightarrow> nat \<Rightarrow> 'w loop_state \<Rightarrow> call_args" where
  "loop_call_args cfg left st =
     \<lparr>ca_messages = ls_messages st, ca_tools = lc_tools cfg, ca_tool_choice = ls_tool_choice st,
      ca_iteration = ls_iteration st + 1, ca_check = (\<not> gate_nudge_due cfg left st),
      ca_allow_empty = empty_nudge_due left st, ca_stale_before = ls_stale_before st\<rparr>"

definition loop_turn :: "'w loop_env \<Rightarrow> loop_config \<Rightarrow> nat \<Rightarrow> 'w loop_state \<Rightarrow> 'w loop_step" where
  "loop_turn env cfg left st =
     (case fit_input env cfg st of
        Inl e \<Rightarrow> LoopDone (Inl (LoopRaised e)) st
      | Inr st \<Rightarrow>
          (case call_with_retry env cfg (loop_call_args cfg left st) (ls_world st) of
             (w, requests, attempt, Inl e) \<Rightarrow>
               LoopDone (Inl (LoopLlm e)) (st\<lparr>ls_world := w, ls_requests := ls_requests st @ requests\<rparr>)
           | (w, requests, attempt, Inr c) \<Rightarrow>
               let st = add_usage c (st\<lparr>ls_world := w, ls_attempt := attempt, ls_requests := ls_requests st @ requests\<rparr>)
               in if cp_tool_calls c = [] then answer_step cfg left c st else tool_step env cfg c st))"

definition synthesis_prompt :: "loop_config \<Rightarrow> string res" where
  "synthesis_prompt cfg =
     (if lc_final_call_tools cfg \<noteq> [] then
        res_map (\<lambda>names. ''You have reached the maximum number of tool calls. You may make one final call to ''
            @ join_str '', '' names @ '' to save what you have decided on; no other tools are available. ''
            @ ''If there is nothing to save, respond without calling a tool.'')
          (traverse (\<lambda>t. case dget t ''name'' of None \<Rightarrow> Inl KeyError
                          | Some v \<Rightarrow> res_map (\<lambda>s. ''`'' @ s @ ''`'') (fstr v)) (lc_final_call_tools cfg))
      else Inr (''You have reached the maximum number of tool calls. Based on all the information you have gathered, ''
            @ ''provide your final response now. Do not attempt to call any more tools.''))"

definition offered :: "loop_config \<Rightarrow> tool_call \<Rightarrow> bool" where
  "offered cfg tc = list_ex (\<lambda>t. dget t ''name'' = Some (PStr (tc_name tc))) (lc_final_call_tools cfg)"

definition final_answer :: "'w loop_env \<Rightarrow> loop_config \<Rightarrow> 'w loop_state \<Rightarrow> (loop_error + loop_result) \<times> 'w loop_state" where
  "final_answer env cfg st =
     (let ca = \<lparr>ca_messages = ls_messages st, ca_tools = lc_final_call_tools cfg, ca_tool_choice = PNone,
                ca_iteration = ls_iteration st + 1, ca_check = True, ca_allow_empty = False,
                ca_stale_before = (if lc_final_call_tools cfg = [] \<or> lc_final_call_tools cfg \<noteq> lc_tools cfg
                                   then length (ls_messages st) else ls_stale_before st)\<rparr>
      in case call_with_retry env cfg ca (ls_world st) of
           (w, requests, attempt, Inl e) \<Rightarrow>
             (Inl (LoopLlm e), st\<lparr>ls_world := w, ls_requests := ls_requests st @ requests\<rparr>)
         | (w, requests, attempt, Inr c) \<Rightarrow>
             let (w', results, executed, succeeded) =
                   execute_tool_calls env (if lc_final_call_tools cfg = [] then [] else filter (offered cfg) (cp_tool_calls c)) w;
                 st = add_usage c (st\<lparr>ls_world := w', ls_requests := ls_requests st @ requests,
                                     ls_executed := ls_executed st @ executed\<rparr>)
             in (Inr (result_of (LoopAnswer (cp_content c)) (cp_hit_input_token_cap c) True st), st))"

text \<open>The synthesis after the last turn; under \<open>stream_final\<close> the call is left to whoever drains the stream.\<close>

definition synthesis :: "'w loop_env \<Rightarrow> loop_config \<Rightarrow> 'w loop_state \<Rightarrow> (loop_error + loop_result) \<times> 'w loop_state" where
  "synthesis env cfg st =
     (case res_bind (synthesis_prompt cfg)
             (\<lambda>p. fit_input env cfg (st\<lparr>ls_messages := ls_messages st @ [user_message p]\<rparr>)) of
        Inl e \<Rightarrow> (Inl (LoopRaised e), st)
      | Inr st \<Rightarrow>
          if lc_stream_final cfg
          then let plan = plan_attempt cfg (ls_attempt st)
               in (Inr (result_of (FinalStream plan (without_stale_thinking plan (length (ls_messages st)) (ls_messages st)))
                     False True st), st)
          else final_answer env cfg st)"

text \<open>The whole loop: the number is that of the turns left.\<close>

fun turns :: "'w loop_env \<Rightarrow> loop_config \<Rightarrow> nat \<Rightarrow> 'w loop_state \<Rightarrow> (loop_error + loop_result) \<times> 'w loop_state" where
  "turns env cfg 0 st = synthesis env cfg st"
| "turns env cfg (Suc left) st =
     (case loop_turn env cfg left st of
        LoopDone r st' \<Rightarrow> (r, st')
      | LoopOn st' \<Rightarrow> turns env cfg left st')"

definition initial_loop :: "loop_config \<Rightarrow> 'w \<Rightarrow> 'w loop_state" where
  "initial_loop cfg w =
     \<lparr>ls_world = w, ls_messages = (if lc_messages cfg = [] then [user_message (lc_prompt cfg)] else lc_messages cfg),
      ls_iteration = 0, ls_executed = [], ls_input_tokens = 0, ls_output_tokens = 0, ls_cache_creation_tokens = 0,
      ls_cache_read_tokens = 0, ls_empty_retries = 0, ls_hit_cap = False, ls_tool_choice = lc_tool_choice cfg,
      ls_forced_rounds = 0, ls_stale_before = 0, ls_attempt = 1, ls_requests = []\<rparr>"

definition execute_tool_loop ::
  "'w loop_env \<Rightarrow> loop_config \<Rightarrow> 'w \<Rightarrow> (loop_error + loop_result) \<times> 'w loop_state" where
  "execute_tool_loop env cfg w =
     (if \<not> (MIN_TOOL_ITERATIONS \<le> lc_max_tool_iterations cfg \<and> lc_max_tool_iterations cfg \<le> MAX_TOOL_ITERATIONS)
         \<or> lc_final_call_tools cfg \<noteq> [] \<and> lc_stream_final cfg
      then (Inl LoopRefused, initial_loop cfg w)
      else turns env cfg (nat (lc_max_tool_iterations cfg)) (initial_loop cfg w))"

end
