(* ===== verification/ToolLoopProps.thy ===== *)
theory ToolLoopProps
  imports ToolLoop ConversationProps
begin

text \<open>
  What the tool loop promises whatever the provider answers: a bounded number of calls, a well-formed history in
  each of them, and a forced tool choice that is given up after a bounded number of rounds. \<open>loop_turn_cases\<close> is the
  case analysis of one turn that the invariants share.
\<close>

section \<open>One turn\<close>

lemma fit_input_fields:
  assumes "fit_input env cfg st = Inr st'"
  shows "ls_world st' = ls_world st" "ls_iteration st' = ls_iteration st" "ls_requests st' = ls_requests st"
    "ls_empty_retries st' = ls_empty_retries st" "ls_forced_rounds st' = ls_forced_rounds st"
    "ls_tool_choice st' = ls_tool_choice st" "ls_executed st' = ls_executed st"
  using assms by (auto simp: fit_input_def res_simps Let_def split: option.splits)

lemma loop_turn_cases:
  assumes "loop_turn env cfg left st = r"
  obtains (raised) e where "fit_input env cfg st = Inl e" "r = LoopDone (Inl (LoopRaised e)) st"
  | (failed) st1 w rqs n e where "fit_input env cfg st = Inr st1"
      "call_with_retry env cfg (loop_call_args cfg left st1) (ls_world st1) = (w, rqs, n, Inl e)"
      "r = LoopDone (Inl (LoopLlm e)) (st1\<lparr>ls_world := w, ls_requests := ls_requests st1 @ rqs\<rparr>)"
  | (answered) st1 w rqs n c st2 where "fit_input env cfg st = Inr st1"
      "call_with_retry env cfg (loop_call_args cfg left st1) (ls_world st1) = (w, rqs, n, Inr c)"
      "st2 = add_usage c (st1\<lparr>ls_world := w, ls_attempt := n, ls_requests := ls_requests st1 @ rqs\<rparr>)"
      "r = (if cp_tool_calls c = [] then answer_step cfg left c st2 else tool_step env cfg c st2)"
proof (cases "fit_input env cfg st")
  case (Inl e)
  with assms raised show ?thesis by (simp add: loop_turn_def)
next
  case (Inr st1)
  obtain w rqs n o1 where o: "call_with_retry env cfg (loop_call_args cfg left st1) (ls_world st1) = (w, rqs, n, o1)"
    by (metis prod_cases4)
  show ?thesis
  proof (cases o1)
    case (Inl e)
    with assms failed [OF Inr] o Inr show ?thesis by (simp add: loop_turn_def)
  next
    case (Inr c)
    with assms answered [OF \<open>fit_input env cfg st = Inr st1\<close>] o \<open>fit_input env cfg st = Inr st1\<close>
    show ?thesis by (simp add: loop_turn_def Let_def)
  qed
qed

lemma answer_step_fields:
  assumes "answer_step cfg left c st = LoopOn st'"
  shows "ls_requests st' = ls_requests st" "ls_iteration st' = ls_iteration st + 1" "ls_tool_choice st' = ls_tool_choice st"
  using assms by (auto simp: answer_step_def nudge_def split: if_splits)

lemma answer_step_done: "answer_step cfg left c st = LoopDone r st' \<Longrightarrow>
   st' = st \<and> (\<exists>cap. r = Inr (result_of (LoopAnswer (cp_content c)) cap False st))"
  by (auto simp: answer_step_def split: if_splits)

lemma tool_step_on:
  assumes "tool_step env cfg c st = LoopOn st'"
  obtains m w rs ex su where
    "format_assistant_tool_message (tk_float (le_tokens env)) (pl_provider (plan_attempt cfg (ls_attempt st))) c = Inr m"
    "execute_tool_calls env (cp_tool_calls c) (ls_world st) = (w, rs, ex, su)"
    "st' = relax_choice cfg su (st\<lparr>ls_world := w,
       ls_messages := ls_messages st @ [m] @ format_tool_results (pl_provider (plan_attempt cfg (ls_attempt st))) rs
         @ budget_message env (ls_iteration st + 1) (nat (lc_max_tool_iterations cfg)),
       ls_executed := ls_executed st @ ex, ls_iteration := ls_iteration st + 1\<rparr>)"
  using assms by (auto simp: tool_step_def Let_def split: sum.splits prod.splits)

lemma relax_choice_fields [simp]:
  "ls_requests (relax_choice cfg su st) = ls_requests st" "ls_iteration (relax_choice cfg su st) = ls_iteration st"
  "ls_messages (relax_choice cfg su st) = ls_messages st" "ls_stale_before (relax_choice cfg su st) = ls_stale_before st"
  "ls_empty_retries (relax_choice cfg su st) = ls_empty_retries st"
  by (simp_all add: relax_choice_def Let_def)

lemma tool_step_fields:
  assumes "tool_step env cfg c st = LoopOn st'"
  shows "ls_requests st' = ls_requests st" "ls_iteration st' = ls_iteration st + 1"
  using assms by (auto elim!: tool_step_on)

lemma tool_step_done: "tool_step env cfg c st = LoopDone r st' \<Longrightarrow> st' = st \<and> (\<exists>e. r = Inl (LoopRaised e))"
  by (auto simp: tool_step_def Let_def split: sum.splits prod.splits)

lemma add_usage_fields [simp]:
  "ls_requests (add_usage c st) = ls_requests st" "ls_iteration (add_usage c st) = ls_iteration st"
  "ls_messages (add_usage c st) = ls_messages st" "ls_stale_before (add_usage c st) = ls_stale_before st"
  "ls_empty_retries (add_usage c st) = ls_empty_retries st" "ls_forced_rounds (add_usage c st) = ls_forced_rounds st"
  "ls_tool_choice (add_usage c st) = ls_tool_choice st" "ls_attempt (add_usage c st) = ls_attempt st"
  by (simp_all add: add_usage_def)

section \<open>Number of calls\<close>

text \<open>The requests of one call: the attempts in order, each for the same arguments.\<close>

lemma attempts_requests:
  assumes "attempts env cfg ca left n w = (w', rqs, k, r)"
  shows "length rqs \<le> Suc left" "rqs \<noteq> []" "n \<le> k" "k \<le> n + left" "\<forall>rq \<in> set rqs. \<exists>m \<le> n + left. rq = request_of cfg ca m"
proof -
  have "length rqs \<le> Suc left \<and> rqs \<noteq> [] \<and> n \<le> k \<and> k \<le> n + left \<and> (\<forall>rq \<in> set rqs. \<exists>m \<le> n + left. rq = request_of cfg ca m)"
    using assms
  proof (induction left arbitrary: n w w' rqs k r)
    case 0
    then show ?case by (auto simp: Let_def split: prod.splits)
  next
    case (Suc left)
    obtain w1 o1 where c: "call_once env cfg ca n w = (w1, o1)" by fastforce
    show ?case
    proof (cases "\<exists>e. o1 = Inl e \<and> llm_retry_condition (lc_fallback cfg \<noteq> None) e")
      case True
      then obtain e where e: "o1 = Inl e" "llm_retry_condition (lc_fallback cfg \<noteq> None) e" by blast
      obtain w2 rqs2 k2 r2 where a: "attempts env cfg ca left (n + 1) w1 = (w2, rqs2, k2, r2)" by (metis prod_cases4)
      have "rqs = request_of cfg ca n # rqs2" "k = k2" using Suc.prems c e a by auto
      moreover have "n + 1 + left = n + Suc left" by simp
      ultimately show ?thesis using Suc.IH [OF a] by (auto intro: exI [of _ n])
    next
      case False
      then have "rqs = [request_of cfg ca n]" "k = n" using Suc.prems c by (auto split: sum.splits if_splits)
      then show ?thesis by (auto intro: exI [of _ n])
    qed
  qed
  then show "length rqs \<le> Suc left" "rqs \<noteq> []" "n \<le> k" "k \<le> n + left" "\<forall>rq \<in> set rqs. \<exists>m \<le> n + left. rq = request_of cfg ca m"
    by blast+
qed

lemma call_requests:
  assumes "call_with_retry env cfg ca w = (w', rqs, k, r)"
  shows "length rqs \<le> max 1 (lc_retry_attempts cfg)" "\<forall>rq \<in> set rqs. \<exists>m \<le> max 1 (lc_retry_attempts cfg). rq = request_of cfg ca m"
proof -
  let ?left = "if lc_enable_retry cfg then lc_retry_attempts cfg - 1 else 0"
  have le: "Suc ?left \<le> max 1 (lc_retry_attempts cfg)" by (cases "lc_retry_attempts cfg") auto
  note f = attempts_requests [OF assms [unfolded call_with_retry_def]]
  show "length rqs \<le> max 1 (lc_retry_attempts cfg)" using f(1) le by linarith
  show "\<forall>rq \<in> set rqs. \<exists>m \<le> max 1 (lc_retry_attempts cfg). rq = request_of cfg ca m"
    using f(5) le by (metis One_nat_def plus_1_eq_Suc order_trans)
qed

lemma loop_turn_requests:
  assumes "loop_turn env cfg left st = r"
  shows "\<exists>st' rqs. (\<exists>x. r = LoopDone x st') \<or> r = LoopOn st'"
    and "r = LoopOn st' \<Longrightarrow> ls_iteration st' = ls_iteration st + 1
           \<and> length (ls_requests st') \<le> length (ls_requests st) + max 1 (lc_retry_attempts cfg)"
    and "r = LoopDone x st' \<Longrightarrow> ls_iteration st' = ls_iteration st
           \<and> length (ls_requests st') \<le> length (ls_requests st) + max 1 (lc_retry_attempts cfg)
           \<and> (\<forall>res. x = Inr res \<longrightarrow> lr_iterations res = ls_iteration st + 1 \<and> \<not> lr_hit_iteration_limit res)"
proof -
  show "\<exists>st' rqs. (\<exists>x. r = LoopDone x st') \<or> r = LoopOn st'" by (cases r) auto
  show "ls_iteration st' = ls_iteration st + 1 \<and> length (ls_requests st') \<le> length (ls_requests st) + max 1 (lc_retry_attempts cfg)"
    if "r = LoopOn st'"
  proof (cases rule: loop_turn_cases [OF assms, case_names raised failed answered])
    case (answered st1 w rqs n c st2)
    with that show ?thesis
      using fit_input_fields [OF answered(1)] call_requests(1) [OF answered(2)]
      by (auto simp: answer_step_fields tool_step_fields split: if_splits)
  qed (use that in simp_all)
  show "ls_iteration st' = ls_iteration st \<and> length (ls_requests st') \<le> length (ls_requests st) + max 1 (lc_retry_attempts cfg)
      \<and> (\<forall>res. x = Inr res \<longrightarrow> lr_iterations res = ls_iteration st + 1 \<and> \<not> lr_hit_iteration_limit res)" if "r = LoopDone x st'"
  proof (cases rule: loop_turn_cases [OF assms, case_names raised failed answered])
    case (failed st1 w rqs n e)
    with that show ?thesis using fit_input_fields [OF failed(1)] call_requests(1) [OF failed(2)] by auto
  next
    case (answered st1 w rqs n c st2)
    note f = fit_input_fields [OF answered(1)] call_requests(1) [OF answered(2)]
    show ?thesis
    proof (cases "cp_tool_calls c = []")
      case True
      then have "answer_step cfg left c st2 = LoopDone x st'" using answered(4) that by simp
      from answer_step_done [OF this] f answered(3) show ?thesis by (auto simp: result_of_def)
    next
      case False
      then have "tool_step env cfg c st2 = LoopDone x st'" using answered(4) that by simp
      from tool_step_done [OF this] f answered(3) show ?thesis by auto
    qed
  qed (use that in simp_all)
qed

lemma synthesis_requests:
  assumes "synthesis env cfg st = (r, st')"
  shows "length (ls_requests st') \<le> length (ls_requests st) + max 1 (lc_retry_attempts cfg)"
    "r = Inr res \<Longrightarrow> lr_iterations res = ls_iteration st + 1 \<and> lr_hit_iteration_limit res"
proof -
  have "length (ls_requests st') \<le> length (ls_requests st) + max 1 (lc_retry_attempts cfg)
     \<and> (\<forall>res. r = Inr res \<longrightarrow> lr_iterations res = ls_iteration st + 1 \<and> lr_hit_iteration_limit res)"
  proof (cases "res_bind (synthesis_prompt cfg) (\<lambda>p. fit_input env cfg (st\<lparr>ls_messages := ls_messages st @ [user_message p]\<rparr>))")
    case (Inl e)
    with assms show ?thesis by (auto simp: synthesis_def)
  next
    case (Inr st1)
    then obtain p where p: "fit_input env cfg (st\<lparr>ls_messages := ls_messages st @ [user_message p]\<rparr>) = Inr st1"
      by (auto simp: res_simps)
    note f = fit_input_fields [OF p]
    show ?thesis
    proof (cases "lc_stream_final cfg")
      case True
      with assms Inr f show ?thesis by (auto simp: synthesis_def Let_def result_of_def)
    next
      case False
      then have a: "final_answer env cfg st1 = (r, st')" using assms Inr by (simp add: synthesis_def)
      show ?thesis
        using a f call_requests(1)
        by (fastforce simp: final_answer_def Let_def result_of_def split: prod.splits sum.splits)
    qed
  qed
  then show "length (ls_requests st') \<le> length (ls_requests st) + max 1 (lc_retry_attempts cfg)"
    "r = Inr res \<Longrightarrow> lr_iterations res = ls_iteration st + 1 \<and> lr_hit_iteration_limit res" by blast+
qed

lemma turns_requests:
  assumes "turns env cfg n st = (r, st')"
  shows "length (ls_requests st') \<le> length (ls_requests st) + (n + 1) * max 1 (lc_retry_attempts cfg)
    \<and> (\<forall>res. r = Inr res \<longrightarrow> ls_iteration st < lr_iterations res \<and> lr_iterations res \<le> ls_iteration st + n + 1
         \<and> lr_hit_iteration_limit res = (lr_iterations res = ls_iteration st + n + 1))"
  using assms
proof (induction n arbitrary: st)
  case 0
  with synthesis_requests [of env cfg st r st'] show ?case by fastforce
next
  case (Suc n)
  show ?case
  proof (cases "loop_turn env cfg n st")
    case (LoopDone x st1)
    with Suc.prems loop_turn_requests(3) [OF LoopDone refl] show ?thesis by fastforce
  next
    case (LoopOn st1)
    with Suc.prems have "turns env cfg n st1 = (r, st')" by simp
    from Suc.IH [OF this] loop_turn_requests(2) [OF LoopOn refl] show ?thesis by fastforce
  qed
qed

text \<open>C22. The loop makes at most one call per iteration and one more at the limit, each of at most the budgeted
  attempts, whatever the model answers; the iterations it reports count them, and it reports the limit exactly
  when the extra call was due.\<close>

theorem tool_loop_bounded:
  "length (ls_requests (snd (execute_tool_loop env cfg w)))
     \<le> (nat (lc_max_tool_iterations cfg) + 1) * max 1 (lc_retry_attempts cfg)
   \<and> (case fst (execute_tool_loop env cfg w) of
        Inl e \<Rightarrow> True
      | Inr r \<Rightarrow> 1 \<le> lr_iterations r \<and> int (lr_iterations r) \<le> lc_max_tool_iterations cfg + 1
          \<and> lr_hit_iteration_limit r = (int (lr_iterations r) = lc_max_tool_iterations cfg + 1))"
proof (cases "\<not> (MIN_TOOL_ITERATIONS \<le> lc_max_tool_iterations cfg \<and> lc_max_tool_iterations cfg \<le> MAX_TOOL_ITERATIONS)
         \<or> lc_final_call_tools cfg \<noteq> [] \<and> lc_stream_final cfg")
  case True
  then show ?thesis by (simp add: execute_tool_loop_def initial_loop_def)
next
  case False
  obtain r st' where t: "turns env cfg (nat (lc_max_tool_iterations cfg)) (initial_loop cfg w) = (r, st')" by fastforce
  have "execute_tool_loop env cfg w = (r, st')" using False t by (auto simp: execute_tool_loop_def)
  moreover have "1 \<le> lc_max_tool_iterations cfg" using False by (simp add: MIN_TOOL_ITERATIONS_def)
  ultimately show ?thesis using turns_requests [OF t] by (auto simp: initial_loop_def split: sum.split)
qed

section \<open>Histories\<close>

text \<open>A message that belongs to no round when it is a system message or nothing but thinking.\<close>

definition sound_message :: "pydict \<Rightarrow> bool" where
  "sound_message m \<longleftrightarrow>
     (is_system_message m \<or> items_of (dget_none m ''content'') \<noteq> []
        \<and> list_all is_thinking_block (items_of (dget_none m ''content''))
      \<longrightarrow> \<not> is_tool_use_message m \<and> \<not> is_tool_result_message m)"

definition sound_history :: "pydict list \<Rightarrow> bool" where
  "sound_history msgs \<longleftrightarrow> paired Idle msgs \<and> list_all sound_message msgs"

lemma paired_append: "paired st xs \<Longrightarrow> paired Idle ys \<Longrightarrow> paired st (xs @ ys)"
proof (induction xs arbitrary: st)
  case Nil
  then show ?case using paired_Answered by (cases st) auto
next
  case (Cons x xs)
  then show ?case by (auto split: if_splits)
qed

lemma sound_append: "sound_history xs \<Longrightarrow> sound_history ys \<Longrightarrow> sound_history (xs @ ys)"
  by (simp add: sound_history_def paired_append)

lemma user_message_plain: "is_plain_user_message (user_message text)" "sound_message (user_message text)"
  by (simp_all add: is_plain_user_message_def sound_message_def user_message_def is_tool_use_message_def
      is_tool_result_message_def has_content_block_def has_part_key_def)

lemma sound_user_message: "sound_history [user_message s]"
  using user_message_plain [of s] by (simp add: sound_history_def is_plain_user_message_def)

lemma assistant_message_sound:
  assumes "format_assistant_tool_message fr p c = Inr m" "cp_tool_calls c \<noteq> []"
  shows "is_tool_use_message m" "sound_message m"
proof -
  obtain tc tcs where tcs: "cp_tool_calls c = tc # tcs" using assms(2) by (cases "cp_tool_calls c") auto
  have "is_tool_use_message m \<and> sound_message m"
  proof (cases p)
    case Anthropic
    then have m: "m = anthropic_tool_message c" using assms(1) by simp
    have "\<not> is_thinking_block (PDict [(''type'', PStr ''tool_use''), (''id'', PStr (tc_id tc)), (''name'', PStr (tc_name tc)),
                               (''input'', tc_input tc)])" by (simp add: is_thinking_block_def as_dict_def THINKING_BLOCK_TYPES_def)
    then show ?thesis unfolding m
      by (simp add: anthropic_tool_message_def is_tool_use_message_def sound_message_def is_system_message_def
          has_content_block_def tcs as_dict_def)
  next
    case Gemini
    then have "m = gemini_tool_message c" using assms(1) by simp
    then show ?thesis
      by (simp add: gemini_tool_message_def is_tool_use_message_def sound_message_def is_system_message_def has_part_key_def
          tcs as_dict_def has_key_def)
  next
    case OpenAI
    then obtain calls where "traverse (openai_tool_call fr) (cp_tool_calls c) = Inr calls"
      and m: "m = [(''role'', PStr ''assistant''),
          (''content'', case cp_content c of AnswerText s \<Rightarrow> PStr s | _ \<Rightarrow> PNone),
          (''tool_calls'', PList calls)]
         @ (if cp_reasoning_details c \<noteq> [] then [(''reasoning_details'', PList (cp_reasoning_details c))]
            else if truthy_str (cp_thinking_content c) then [(''reasoning_content'', opt_str (cp_thinking_content c))]
            else [])"
      using assms(1) by (auto simp: openai_tool_message_def res_map_Inr)
    from traverse_length [OF this(1)] have "calls \<noteq> []" using tcs by auto
    then show ?thesis unfolding m
      by (simp add: is_tool_use_message_def sound_message_def is_system_message_def split: answer.split)
  qed
  then show "is_tool_use_message m" "sound_message m" by simp_all
qed

lemma tool_results_sound:
  assumes "rs \<noteq> []"
  shows "format_tool_results p rs \<noteq> []" "list_all is_tool_result_message (format_tool_results p rs)"
    "list_all sound_message (format_tool_results p rs)"
proof -
  obtain r rs' where rs: "rs = r # rs'" using assms by (cases rs) auto
  have "format_tool_results p rs \<noteq> [] \<and> list_all (\<lambda>m. is_tool_result_message m \<and> sound_message m) (format_tool_results p rs)"
    by (cases p) (simp_all add: rs anthropic_tool_results_def gemini_tool_results_def openai_tool_results_def is_tool_result_message_def sound_message_def is_system_message_def has_content_block_def
        has_part_key_def as_dict_def has_key_def is_thinking_block_def THINKING_BLOCK_TYPES_def list_all_iff)
  then show "format_tool_results p rs \<noteq> []" "list_all is_tool_result_message (format_tool_results p rs)"
    "list_all sound_message (format_tool_results p rs)" by (auto simp: list_all_iff)
qed

lemma execute_length: "execute_tool_calls env tcs w = (w', rs, ex, su) \<Longrightarrow> length rs = length tcs"
  by (induction tcs arbitrary: w w' rs ex su) (auto simp: Let_def split: prod.splits tool_outcome.splits)

lemma budget_cases: "budget_message env a b = [] \<or> (\<exists>text. budget_message env a b = [user_message text])"
  by (auto simp: budget_message_def split: option.split)

text \<open>What a round appends.\<close>

lemma round_sound:
  assumes "format_assistant_tool_message fr p c = Inr m" "cp_tool_calls c \<noteq> []"
    "execute_tool_calls env (cp_tool_calls c) w = (w', rs, ex, su)"
  shows "sound_history ([m] @ format_tool_results p rs @ budget_message env a b)"
proof -
  have ne: "rs \<noteq> []" using execute_length [OF assms(3)] assms(2) by auto
  note m = assistant_message_sound [OF assms(1,2)] and r = tool_results_sound [OF ne, of p]
  have "round_unit ([m] @ format_tool_results p rs @ budget_message env a b)"
    unfolding round_unit_def
    by (rule disjI2, rule exI [of _ m], rule exI [of _ "format_tool_results p rs"], rule exI [of _ "budget_message env a b"])
      (use m(1) r(1,2) budget_cases [of env a b] user_message_plain(1) in auto)
  then have "paired Idle (concat [[m] @ format_tool_results p rs @ budget_message env a b])" by (intro paired_units) simp_all
  moreover have "list_all sound_message (budget_message env a b)" using budget_cases [of env a b] user_message_plain(2) by auto
  ultimately show ?thesis using m(2) r(3) by (simp add: sound_history_def)
qed

section \<open>Truncated histories\<close>

lemma put_payload_thinking:
  assumes "payload_at m q = Some s"
  shows "(items_of (dget_none (put_payload m q t) ''content'') = []) = (items_of (dget_none m ''content'') = [])"
    "list_all is_thinking_block (items_of (dget_none (put_payload m q t) ''content'')) = list_all is_thinking_block (items_of (dget_none m ''content''))"
proof -
  have "(items_of (dget_none (put_payload m q t) ''content'') = []) = (items_of (dget_none m ''content'') = [])
    \<and> list_all is_thinking_block (items_of (dget_none (put_payload m q t) ''content'')) = list_all is_thinking_block (items_of (dget_none m ''content''))"
    using assms
  proof (cases rule: payload_at_cases)
    case 1
    then show ?thesis by (simp add: dget_default_def)
  next
    case (2 i bs d)
    have same: "is_thinking_block (PDict (dset d ''content'' (PStr t))) = is_thinking_block (PDict d)"
      by (simp add: is_thinking_block_def as_dict_def)
    have "list_all P (bs[i := x]) = list_all P bs" if "P x = P (bs ! i)" for P x
      using list_ex_update [OF 2(3), of "\<lambda>y. \<not> P y" x] that by (auto simp: list_all_iff list_ex_iff)
    with 2 same show ?thesis unfolding 2(1) put_block [OF 2(2,4)] by (simp add: dget_default_def [of m])
  next
    case (3 i ps d fr r)
    then show ?thesis unfolding 3(1) put_part [OF 3(2,4,5,6)] by simp
  qed
  then show "(items_of (dget_none (put_payload m q t) ''content'') = []) = (items_of (dget_none m ''content'') = [])"
    "list_all is_thinking_block (items_of (dget_none (put_payload m q t) ''content'')) = list_all is_thinking_block (items_of (dget_none m ''content''))"
    by simp_all
qed

lemma clipped_sound: "clipped L m m' \<Longrightarrow> sound_message m' = sound_message m"
  by (induction rule: clipped.induct)
    (auto simp: sound_message_def set_payload_slots put_payload_kind put_payload_thinking)

lemma clipped_all_sound: "list_all2 (clipped L) ms ms' \<Longrightarrow> list_all sound_message ms' = list_all sound_message ms"
  by (induction rule: list_all2_induct) (auto simp: clipped_sound)

lemma plain_paired: "list_all (\<lambda>m. \<not> is_tool_use_message m \<and> \<not> is_tool_result_message m) ms \<Longrightarrow> st \<noteq> Waiting \<Longrightarrow> paired st ms"
  by (induction ms arbitrary: st) auto

lemma truncation_sound:
  assumes "truncate_messages_to_fit tk preserve cap msgs = Inr (Some msgs')" "list_all sound_message msgs"
  shows "sound_history msgs'"
proof (rule truncate_selection [OF assms(1)])
  fix K flat n
  assume m: "msgs' = system_part preserve msgs @ flat" and sel: "selection (cap - int n) (rounds_of preserve msgs) K flat"
  have "list_all (\<lambda>m. \<not> is_tool_use_message m \<and> \<not> is_tool_result_message m) (system_part preserve msgs)"
    using assms(2) by (auto simp: system_part_def list_all_iff sound_message_def)
  then have "sound_history (system_part preserve msgs)"
    using assms(2) by (auto simp: sound_history_def plain_paired system_part_def list_all_iff)
  moreover have "set (concat (nths (rounds_of preserve msgs) K)) \<subseteq> set msgs"
  proof -
    have "set (concat (nths (rounds_of preserve msgs) K)) \<subseteq> set (concat (rounds_of preserve msgs))"
      by (auto dest: in_set_nthsD)
    also have "\<dots> \<subseteq> set (filter (\<lambda>m. \<not> (is_system_message m \<and> preserve)) msgs)" unfolding rounds_of_def by (rule group_set)
    finally show ?thesis by auto
  qed
  then have "list_all sound_message (concat (nths (rounds_of preserve msgs) K))" using assms(2) by (auto simp: list_all_iff)
  then have "list_all sound_message flat" using sel clipped_all_sound by (auto simp: selection_def)
  then have "sound_history flat" using selection_paired [OF sel] by (simp add: sound_history_def)
  ultimately show ?thesis unfolding m by (rule sound_append)
qed

section \<open>The history of every request\<close>

definition loop_history :: "'w loop_state \<Rightarrow> bool" where
  "loop_history st \<longleftrightarrow> ls_stale_before st \<le> length (ls_messages st)
     \<and> sound_history (take (ls_stale_before st) (ls_messages st)) \<and> sound_history (drop (ls_stale_before st) (ls_messages st))"

lemma loop_history_append:
  assumes "loop_history st" "sound_history ms" "ls_messages st' = ls_messages st @ ms" "ls_stale_before st' = ls_stale_before st"
  shows "loop_history st'"
  using assms by (simp add: loop_history_def sound_append)

lemma loop_history_whole: "loop_history st \<Longrightarrow> sound_history (ls_messages st)"
  using sound_append [of "take (ls_stale_before st) (ls_messages st)" "drop (ls_stale_before st) (ls_messages st)"]
  by (simp add: loop_history_def)

lemma loop_history_start: "sound_history msgs \<Longrightarrow> ls_messages st = msgs \<Longrightarrow> ls_stale_before st = 0 \<or> ls_stale_before st = length msgs
   \<Longrightarrow> loop_history st"
  by (auto simp: loop_history_def sound_history_def)

lemma fit_input_history:
  assumes "fit_input env cfg st = Inr st'" "loop_history st"
  shows "loop_history st'"
proof (cases "lc_max_input_tokens cfg")
  case None
  with assms show ?thesis by (simp add: fit_input_def)
next
  case (Some cap)
  with assms(1) obtain n r where r: "truncate_messages_to_fit (le_tokens env) True cap (ls_messages st) = Inr r"
      "st' = (case r of None \<Rightarrow> st\<lparr>ls_hit_cap := ls_hit_cap st \<or> cap < int n\<rparr>
        | Some msgs \<Rightarrow> st\<lparr>ls_hit_cap := ls_hit_cap st \<or> cap < int n, ls_messages := msgs, ls_stale_before := length msgs\<rparr>)"
    by (auto simp: fit_input_def res_simps Let_def)
  show ?thesis
  proof (cases r)
    case None
    with r(2) assms(2) show ?thesis by (simp add: loop_history_def)
  next
    case (Some msgs)
    have "list_all sound_message (ls_messages st)" using loop_history_whole [OF assms(2)] by (simp add: sound_history_def)
    with truncation_sound r(1) Some have "sound_history msgs" by simp
    then show ?thesis using r(2) Some by (intro loop_history_start) auto
  qed
qed

lemma stripped_paired:
  assumes "sound_history (take k ms)" "sound_history (drop k ms)"
  shows "paired Idle (without_stale_thinking plan k ms)"
proof -
  have m: "paired Idle ms" using paired_append [of Idle "take k ms" "drop k ms"] assms by (simp add: sound_history_def)
  have s: "\<forall>m \<in> set (take k ms). list_all is_thinking_block (items_of (dget_none m ''content''))
           \<and> items_of (dget_none m ''content'') \<noteq> [] \<longrightarrow> \<not> is_tool_use_message m \<and> \<not> is_tool_result_message m"
    using assms(1) by (auto simp: sound_history_def list_all_iff sound_message_def)
  have "paired Idle (take k ms)" using assms(1) by (simp add: sound_history_def)
  from strip_paired [OF this s] have "paired Idle (fst (strip_thinking_blocks (take k ms)) @ drop k ms)"
    using assms(2) by (intro paired_append) (simp_all add: sound_history_def)
  with m show ?thesis by (simp add: without_stale_thinking_def split_beta Let_def)
qed

definition requests_paired :: "'w loop_state \<Rightarrow> bool" where
  "requests_paired st \<longleftrightarrow> (\<forall>rq \<in> set (ls_requests st). paired Idle (rq_messages rq))"

lemma call_paired:
  assumes "call_with_retry env cfg ca w = (w', rqs, k, r)"
    "sound_history (take (ca_stale_before ca) (ca_messages ca))" "sound_history (drop (ca_stale_before ca) (ca_messages ca))"
  shows "\<forall>rq \<in> set rqs. paired Idle (rq_messages rq)"
  using call_requests(2) [OF assms(1)] stripped_paired [OF assms(2,3)] by (fastforce simp: request_of_def)

lemma loop_call_paired:
  assumes "call_with_retry env cfg (loop_call_args cfg left st) w = (w', rqs, k, r)" "loop_history st" "requests_paired st"
  shows "\<forall>rq \<in> set (ls_requests st @ rqs). paired Idle (rq_messages rq)"
  using call_paired [OF assms(1)] assms(2,3) by (auto simp: loop_call_args_def loop_history_def requests_paired_def)

lemma answer_step_history: "answer_step cfg left c st = LoopOn st' \<Longrightarrow> loop_history st \<Longrightarrow> loop_history st'"
proof -
  assume a: "answer_step cfg left c st = LoopOn st'" "loop_history st"
  from a(1) obtain s where "ls_messages st' = ls_messages st @ [user_message s]" "ls_stale_before st' = ls_stale_before st"
    by (auto simp: answer_step_def nudge_def split: if_splits)
  from loop_history_append [OF a(2) sound_user_message this] show ?thesis .
qed

lemma loop_turn_history:
  assumes "loop_turn env cfg left st = r" "loop_history st" "requests_paired st"
  shows "r = LoopOn st' \<Longrightarrow> loop_history st' \<and> requests_paired st'" "r = LoopDone x st' \<Longrightarrow> requests_paired st'"
proof -
  have "(r = LoopOn st' \<longrightarrow> loop_history st' \<and> requests_paired st') \<and> (r = LoopDone x st' \<longrightarrow> requests_paired st')" for x
  proof (cases rule: loop_turn_cases [OF assms(1), case_names raised failed answered])
    case raised
    then show ?thesis using assms by auto
  next
    case (failed st1 w rqs n e)
    have "requests_paired st1" using assms(3) fit_input_fields [OF failed(1)] by (simp add: requests_paired_def)
    from loop_call_paired [OF failed(2) fit_input_history [OF failed(1) assms(2)] this] failed(3)
    show ?thesis by (auto simp: requests_paired_def)
  next
    case (answered st1 w rqs n c st2)
    have h: "loop_history st1" by (rule fit_input_history [OF answered(1) assms(2)])
    have "requests_paired st1" using assms(3) fit_input_fields [OF answered(1)] by (simp add: requests_paired_def)
    from loop_call_paired [OF answered(2) h this] have p2: "requests_paired st2" by (simp add: answered(3) requests_paired_def)
    have h2: "loop_history st2" using h by (simp add: answered(3) loop_history_def)
    show ?thesis
    proof (cases "cp_tool_calls c = []")
      case True
      with answered(4) p2 answer_step_done [of cfg left c st2] answer_step_history [of cfg left c st2] h2 answer_step_fields(1) [of cfg left c st2]
      show ?thesis by (auto simp: requests_paired_def)
    next
      case False
      have "loop_history st'" if "tool_step env cfg c st2 = LoopOn st'"
      proof -
        from that obtain m w rs ex su where t:
          "format_assistant_tool_message (tk_float (le_tokens env)) (pl_provider (plan_attempt cfg (ls_attempt st2))) c = Inr m"
          "execute_tool_calls env (cp_tool_calls c) (ls_world st2) = (w, rs, ex, su)"
          "st' = relax_choice cfg su (st2\<lparr>ls_world := w,
             ls_messages := ls_messages st2 @ [m] @ format_tool_results (pl_provider (plan_attempt cfg (ls_attempt st2))) rs
               @ budget_message env (ls_iteration st2 + 1) (nat (lc_max_tool_iterations cfg)),
             ls_executed := ls_executed st2 @ ex, ls_iteration := ls_iteration st2 + 1\<rparr>)"
          by (rule tool_step_on)
        show ?thesis by (rule loop_history_append [OF h2 round_sound [OF t(1) False t(2)]]) (simp_all add: t(3))
      qed
      with False answered(4) p2 tool_step_done [of env cfg c st2] tool_step_fields(1) [of env cfg c st2]
      show ?thesis by (auto simp: requests_paired_def)
    qed
  qed
  then show "r = LoopOn st' \<Longrightarrow> loop_history st' \<and> requests_paired st'" "r = LoopDone x st' \<Longrightarrow> requests_paired st'" by blast+
qed

lemma synthesis_paired:
  assumes "synthesis env cfg st = (r, st')" "loop_history st" "requests_paired st"
  shows "requests_paired st'" "r = Inr res \<Longrightarrow> lr_content res = FinalStream plan ms \<Longrightarrow> paired Idle ms"
proof -
  have "requests_paired st' \<and> (\<forall>res plan ms. r = Inr res \<longrightarrow> lr_content res = FinalStream plan ms \<longrightarrow> paired Idle ms)"
  proof (cases "res_bind (synthesis_prompt cfg) (\<lambda>p. fit_input env cfg (st\<lparr>ls_messages := ls_messages st @ [user_message p]\<rparr>))")
    case (Inl e)
    with assms show ?thesis by (auto simp: synthesis_def)
  next
    case (Inr st1)
    then obtain p where p: "fit_input env cfg (st\<lparr>ls_messages := ls_messages st @ [user_message p]\<rparr>) = Inr st1"
      by (auto simp: res_simps)
    have "loop_history (st\<lparr>ls_messages := ls_messages st @ [user_message p]\<rparr>)"
      by (rule loop_history_append [OF assms(2) sound_user_message]) simp_all
    from fit_input_history [OF p this] have h: "loop_history st1" .
    have q: "requests_paired st1" using assms(3) fit_input_fields [OF p] by (simp add: requests_paired_def)
    note whole = loop_history_whole [OF h]
    have all: "sound_history (take (length (ls_messages st1)) (ls_messages st1))"
      "sound_history (drop (length (ls_messages st1)) (ls_messages st1))" using whole by (simp_all add: sound_history_def)
    show ?thesis
    proof (cases "lc_stream_final cfg")
      case True
      with assms(1) Inr q stripped_paired [OF all] show ?thesis by (auto simp: synthesis_def Let_def result_of_def)
    next
      case False
      then have a: "final_answer env cfg st1 = (r, st')" using assms(1) Inr by (simp add: synthesis_def)
      define ca where "ca = \<lparr>ca_messages = ls_messages st1, ca_tools = lc_final_call_tools cfg, ca_tool_choice = PNone,
                ca_iteration = ls_iteration st1 + 1, ca_check = True, ca_allow_empty = False,
                ca_stale_before = (if lc_final_call_tools cfg = [] \<or> lc_final_call_tools cfg \<noteq> lc_tools cfg
                                   then length (ls_messages st1) else ls_stale_before st1)\<rparr>"
      have "sound_history (take (ca_stale_before ca) (ca_messages ca))" "sound_history (drop (ca_stale_before ca) (ca_messages ca))"
        using all h by (simp_all add: ca_def loop_history_def)
      note paired = call_paired [OF _ this]
      obtain w rqs n o1 where c: "call_with_retry env cfg ca (ls_world st1) = (w, rqs, n, o1)" by (metis prod_cases4)
      have "\<forall>rq \<in> set (ls_requests st1 @ rqs). paired Idle (rq_messages rq)"
        using q paired [OF c] by (auto simp: requests_paired_def)
      moreover have "ls_requests st' = ls_requests st1 @ rqs \<and> (\<forall>res plan ms. r = Inr res \<longrightarrow> lr_content res \<noteq> FinalStream plan ms)"
        using a c unfolding final_answer_def ca_def [symmetric] by (auto simp: Let_def result_of_def split: sum.splits prod.splits)
      ultimately show ?thesis by (auto simp: requests_paired_def)
    qed
  qed
  then show "requests_paired st'" "r = Inr res \<Longrightarrow> lr_content res = FinalStream plan ms \<Longrightarrow> paired Idle ms" by blast+
qed

lemma turns_paired:
  assumes "turns env cfg n st = (r, st')" "loop_history st" "requests_paired st"
  shows "requests_paired st' \<and> (\<forall>res plan ms. r = Inr res \<longrightarrow> lr_content res = FinalStream plan ms \<longrightarrow> paired Idle ms)"
  using assms
proof (induction n arbitrary: st)
  case 0
  with synthesis_paired [of env cfg st r st'] show ?case by auto
next
  case (Suc n)
  show ?case
  proof (cases "loop_turn env cfg n st")
    case (LoopDone x st1)
    have "\<forall>res plan ms. x = Inr res \<longrightarrow> lr_content res \<noteq> FinalStream plan ms"
    proof (cases rule: loop_turn_cases [OF LoopDone, case_names raised failed answered])
      case (answered s1 w rqs k c st2)
      show ?thesis
      proof (cases "cp_tool_calls c = []")
        case True
        with answered(4) have "answer_step cfg n c st2 = LoopDone x st1" by simp
        from answer_step_done [OF this] show ?thesis by (auto simp: result_of_def)
      next
        case False
        with answered(4) have "tool_step env cfg c st2 = LoopDone x st1" by simp
        from tool_step_done [OF this] show ?thesis by auto
      qed
    qed auto
    with Suc.prems loop_turn_history(2) [OF LoopDone Suc.prems(2,3) refl] LoopDone show ?thesis by auto
  next
    case (LoopOn st1)
    with Suc.prems have "turns env cfg n st1 = (r, st')" by simp
    from Suc.IH [OF this] loop_turn_history(1) [OF LoopOn Suc.prems(2,3) refl] show ?thesis by blast
  qed
qed

text \<open>C8. Every request of the loop carries a well-formed history: truncation, nudges, budget lines and the stripping
  of stale thinking never part a tool call from its results, in any provider's message shape, whatever was answered
  and whichever attempt it is. The first history must be one, and its system messages must be no part of a round.\<close>

theorem tool_loop_histories_paired:
  assumes "paired Idle (ls_messages (initial_loop cfg w))"
    and "\<forall>m \<in> set (lc_messages cfg). is_system_message m \<or> items_of (dget_none m ''content'') \<noteq> []
        \<and> list_all is_thinking_block (items_of (dget_none m ''content''))
      \<longrightarrow> \<not> is_tool_use_message m \<and> \<not> is_tool_result_message m"
  shows "(\<forall>rq \<in> set (ls_requests (snd (execute_tool_loop env cfg w))). paired Idle (rq_messages rq))
    \<and> (\<forall>r plan ms. fst (execute_tool_loop env cfg w) = Inr r \<and> lr_content r = FinalStream plan ms \<longrightarrow> paired Idle ms)"
proof -
  have "list_all sound_message (ls_messages (initial_loop cfg w))"
    using assms(2) user_message_plain(2) by (auto simp: initial_loop_def list_all_iff sound_message_def)
  with assms(1) have "loop_history (initial_loop cfg w)"
    by (intro loop_history_start [OF _ refl]) (auto simp: sound_history_def initial_loop_def)
  moreover have "requests_paired (initial_loop cfg w)" by (simp add: requests_paired_def initial_loop_def)
  ultimately have t: "requests_paired st' \<and> (\<forall>res plan ms. r = Inr res \<longrightarrow> lr_content res = FinalStream plan ms \<longrightarrow> paired Idle ms)"
    if "turns env cfg n (initial_loop cfg w) = (r, st')" for n r st' using turns_paired [OF that] by blast
  obtain r st' where e: "execute_tool_loop env cfg w = (r, st')" by fastforce
  then consider "turns env cfg (nat (lc_max_tool_iterations cfg)) (initial_loop cfg w) = (r, st')"
    | "r = Inl LoopRefused" "ls_requests st' = []"
    by (auto simp: execute_tool_loop_def initial_loop_def split: if_splits)
  then show ?thesis
  proof cases
    case 1
    from t [OF 1] show ?thesis unfolding e requests_paired_def by simp
  next
    case 2
    then show ?thesis unfolding e by simp
  qed
qed

section \<open>Forced rounds\<close>

definition forced_limit :: "loop_config \<Rightarrow> int" where
  "forced_limit cfg = max 1 (lc_max_forced_iterations cfg) + 1"

definition forced_inv :: "loop_config \<Rightarrow> 'w loop_state \<Rightarrow> bool" where
  "forced_inv cfg st \<longleftrightarrow>
     (forced (ls_tool_choice st) \<longrightarrow> ls_empty_retries st \<le> 1
        \<and> int (ls_iteration st) = ls_forced_rounds st + int (ls_empty_retries st)
        \<and> (ls_forced_rounds st = 0 \<or> ls_forced_rounds st < lc_max_forced_iterations cfg))
     \<and> (\<forall>rq \<in> set (ls_requests st). forced (rq_tool_choice rq) \<longrightarrow> int (rq_iteration rq) \<le> forced_limit cfg)"

lemma not_forced [simp]: "\<not> forced (PStr ''auto'')" "\<not> forced PNone"
  by (simp_all add: forced_def)

lemma forced_request:
  assumes "forced_inv cfg st" "call_with_retry env cfg (loop_call_args cfg left st) w = (w', rqs, n, r)"
  shows "\<forall>rq \<in> set (ls_requests st @ rqs). forced (rq_tool_choice rq) \<longrightarrow> int (rq_iteration rq) \<le> forced_limit cfg"
proof -
  have "rq_tool_choice rq = ls_tool_choice st \<and> rq_iteration rq = ls_iteration st + 1" if "rq \<in> set rqs" for rq
    using call_requests(2) [OF assms(2)] that by (auto simp: request_of_def loop_call_args_def)
  with assms(1) show ?thesis by (auto simp: forced_inv_def forced_limit_def)
qed

lemma relax_choice_inv:
  assumes "forced_inv cfg st" "ls_iteration st' = ls_iteration st + 1" "ls_tool_choice st' = ls_tool_choice st"
    "ls_forced_rounds st' = ls_forced_rounds st" "ls_empty_retries st' = ls_empty_retries st" "ls_requests st' = ls_requests st"
  shows "forced_inv cfg (relax_choice cfg su st')"
  using assms by (auto simp: forced_inv_def relax_choice_def Let_def)

lemma answer_step_forced:
  assumes "answer_step cfg left c st = LoopOn st'" "forced_inv cfg st"
  shows "forced_inv cfg st'"
  using assms by (auto simp: answer_step_def nudge_def forced_inv_def gate_nudge_due_def empty_nudge_due_def split: if_splits)

lemma loop_turn_forced:
  assumes "loop_turn env cfg left st = r" "forced_inv cfg st"
  shows "r = LoopOn st' \<Longrightarrow> forced_inv cfg st'"
    "r = LoopDone x st' \<Longrightarrow> \<forall>rq \<in> set (ls_requests st'). forced (rq_tool_choice rq) \<longrightarrow> int (rq_iteration rq) \<le> forced_limit cfg"
proof -
  have "(r = LoopOn st' \<longrightarrow> forced_inv cfg st')
    \<and> (r = LoopDone x st' \<longrightarrow> (\<forall>rq \<in> set (ls_requests st'). forced (rq_tool_choice rq) \<longrightarrow> int (rq_iteration rq) \<le> forced_limit cfg))" for x
  proof (cases rule: loop_turn_cases [OF assms(1), case_names raised failed answered])
    case raised
    then show ?thesis using assms(2) by (auto simp: forced_inv_def)
  next
    case (failed s1 w rqs n e)
    have "forced_inv cfg s1" using assms(2) fit_input_fields [OF failed(1)] by (simp add: forced_inv_def)
    from forced_request [OF this failed(2)] failed(3) show ?thesis by auto
  next
    case (answered s1 w rqs n c st2)
    have i: "forced_inv cfg s1" using assms(2) fit_input_fields [OF answered(1)] by (simp add: forced_inv_def)
    note q = forced_request [OF i answered(2)]
    have i2: "forced_inv cfg st2" using i q by (simp add: answered(3) forced_inv_def)
    have on: "forced_inv cfg st'" if "tool_step env cfg c st2 = LoopOn st'"
      using that by (rule tool_step_on) (simp, rule relax_choice_inv [OF i2], simp_all)
    show ?thesis
    proof (cases "cp_tool_calls c = []")
      case True
      with answered(4) have r: "r = answer_step cfg left c st2" by simp
      show ?thesis using answer_step_forced [of cfg left c st2 st'] i2 answer_step_done [of cfg left c st2 x st']
        unfolding r forced_inv_def by blast
    next
      case False
      with answered(4) have r: "r = tool_step env cfg c st2" by simp
      show ?thesis using on i2 tool_step_done [of env cfg c st2 x st'] unfolding r forced_inv_def by blast
    qed
  qed
  then show "r = LoopOn st' \<Longrightarrow> forced_inv cfg st'"
    "r = LoopDone x st' \<Longrightarrow> \<forall>rq \<in> set (ls_requests st'). forced (rq_tool_choice rq) \<longrightarrow> int (rq_iteration rq) \<le> forced_limit cfg"
    by blast+
qed

lemma synthesis_forced:
  assumes "synthesis env cfg st = (r, st')" "forced_inv cfg st"
  shows "\<forall>rq \<in> set (ls_requests st'). forced (rq_tool_choice rq) \<longrightarrow> int (rq_iteration rq) \<le> forced_limit cfg"
proof (cases "res_bind (synthesis_prompt cfg) (\<lambda>p. fit_input env cfg (st\<lparr>ls_messages := ls_messages st @ [user_message p]\<rparr>))")
  case (Inl e)
  with assms show ?thesis by (auto simp: synthesis_def forced_inv_def)
next
  case (Inr st1)
  then obtain p where p: "fit_input env cfg (st\<lparr>ls_messages := ls_messages st @ [user_message p]\<rparr>) = Inr st1"
    by (auto simp: res_simps)
  have q: "ls_requests st1 = ls_requests st" using fit_input_fields [OF p] by simp
  show ?thesis
  proof (cases "lc_stream_final cfg")
    case True
    with assms Inr q show ?thesis by (auto simp: synthesis_def Let_def forced_inv_def)
  next
    case False
    then have a: "final_answer env cfg st1 = (r, st')" using assms(1) Inr by (simp add: synthesis_def)
    define ca where "ca = \<lparr>ca_messages = ls_messages st1, ca_tools = lc_final_call_tools cfg, ca_tool_choice = PNone,
                ca_iteration = ls_iteration st1 + 1, ca_check = True, ca_allow_empty = False,
                ca_stale_before = (if lc_final_call_tools cfg = [] \<or> lc_final_call_tools cfg \<noteq> lc_tools cfg
                                   then length (ls_messages st1) else ls_stale_before st1)\<rparr>"
    obtain w rqs n o1 where c: "call_with_retry env cfg ca (ls_world st1) = (w, rqs, n, o1)" by (metis prod_cases4)
    have "\<not> forced (rq_tool_choice rq)" if "rq \<in> set rqs" for rq
      using call_requests(2) [OF c] that by (auto simp: request_of_def ca_def)
    moreover have "ls_requests st' = ls_requests st1 @ rqs"
      using a c unfolding final_answer_def ca_def [symmetric] by (auto simp: Let_def split: sum.splits prod.splits)
    ultimately show ?thesis using assms(2) q by (auto simp: forced_inv_def)
  qed
qed

lemma turns_forced:
  assumes "turns env cfg n st = (r, st')" "forced_inv cfg st"
  shows "\<forall>rq \<in> set (ls_requests st'). forced (rq_tool_choice rq) \<longrightarrow> int (rq_iteration rq) \<le> forced_limit cfg"
  using assms
proof (induction n arbitrary: st)
  case 0
  with synthesis_forced [of env cfg st r st'] show ?case by simp
next
  case (Suc n)
  show ?case
  proof (cases "loop_turn env cfg n st")
    case (LoopDone x st1)
    with Suc.prems have "st1 = st'" by simp
    with loop_turn_forced(2) [OF LoopDone Suc.prems(2) refl] show ?thesis by simp
  next
    case (LoopOn st1)
    with Suc.prems have "turns env cfg n st1 = (r, st')" by simp
    from Suc.IH [OF this loop_turn_forced(1) [OF LoopOn Suc.prems(2) refl]] show ?thesis .
  qed
qed

text \<open>C23. A forced tool choice ends: it is sent only in the first iterations, at most one more than the configured
  number of forced rounds (the extra one is the nudge after an empty answer), so a model that never calls the
  gating tools still gets to answer.\<close>

theorem forced_tool_choice_bounded:
  "\<forall>rq \<in> set (ls_requests (snd (execute_tool_loop env cfg w))).
     rq_tool_choice rq \<in> {PStr ''required'', PStr ''any''} \<longrightarrow> int (rq_iteration rq) \<le> max 1 (lc_max_forced_iterations cfg) + 1"
proof -
  have "forced_inv cfg (initial_loop cfg w)" by (simp add: forced_inv_def initial_loop_def)
  then have t: "\<forall>rq \<in> set (ls_requests st'). forced (rq_tool_choice rq) \<longrightarrow> int (rq_iteration rq) \<le> forced_limit cfg"
    if "turns env cfg n (initial_loop cfg w) = (r, st')" for n r st' using turns_forced [OF that] by blast
  obtain r st' where e: "execute_tool_loop env cfg w = (r, st')" by fastforce
  then consider "turns env cfg (nat (lc_max_tool_iterations cfg)) (initial_loop cfg w) = (r, st')"
    | "r = Inl LoopRefused" "ls_requests st' = []"
    by (auto simp: execute_tool_loop_def initial_loop_def split: if_splits)
  then show ?thesis
  proof cases
    case 1
    from t [OF 1] show ?thesis unfolding e by (auto simp: forced_def forced_limit_def)
  next
    case 2
    then show ?thesis unfolding e by simp
  qed
qed

section \<open>The history grows\<close>

text \<open>The next request after one: a retry sends the same messages; after an answer, the messages of the request stand
  as they are in front of a nudge, if it called no tool, or of the round in the shape of the provider that
  answered: its message, one result per call, and the budget line.\<close>

definition next_messages :: "'w loop_env \<Rightarrow> loop_config \<Rightarrow> llm_request \<Rightarrow> completion \<Rightarrow> pydict list \<Rightarrow> bool" where
  "next_messages env cfg rq c msgs \<longleftrightarrow>
     (if cp_tool_calls c = []
      then \<exists>text \<in> {gate_nudge_text cfg, EMPTY_NUDGE}. msgs = rq_messages rq @ [user_message text]
      else \<exists>m results. format_assistant_tool_message (tk_float (le_tokens env)) (pl_provider (rq_plan rq)) c = Inr m
         \<and> map tr_id results = map tc_id (cp_tool_calls c) \<and> map tr_name results = map tc_name (cp_tool_calls c)
         \<and> msgs = rq_messages rq @ m # format_tool_results (pl_provider (rq_plan rq)) results
             @ budget_message env (rq_iteration rq) (nat (lc_max_tool_iterations cfg)))"

definition follows :: "'w loop_env \<Rightarrow> loop_config \<Rightarrow> llm_request \<Rightarrow> llm_request \<Rightarrow> bool" where
  "follows env cfg rq rq' \<longleftrightarrow>
     rq_iteration rq' = rq_iteration rq \<and> rq_attempt rq' = rq_attempt rq + 1 \<and> rq_messages rq' = rq_messages rq
     \<or> rq_iteration rq' = rq_iteration rq + 1 \<and> rq_attempt rq' = 1
       \<and> (\<exists>w w' c. le_call env w rq = (w', Inr c) \<and> next_messages env cfg rq c (rq_messages rq'))"

lemma execute_results:
  "execute_tool_calls env tcs w = (w', rs, ex, su) \<Longrightarrow> map tr_id rs = map tc_id tcs \<and> map tr_name rs = map tc_name tcs"
  by (induction tcs arbitrary: w w' rs ex su) (fastforce simp: Let_def split: prod.splits tool_outcome.splits)+

lemma attempts_chain:
  assumes "attempts env cfg ca left n w = (w', rqs, k, r)"
  shows "rqs \<noteq> [] \<and> hd rqs = request_of cfg ca n \<and> last rqs = request_of cfg ca k
    \<and> successively (\<lambda>a b. \<exists>i. a = request_of cfg ca i \<and> b = request_of cfg ca (i + 1)) rqs
    \<and> (\<forall>c. r = Inr c \<longrightarrow> (\<exists>w1 w2. le_call env w1 (request_of cfg ca k) = (w2, Inr c)))"
  using assms
proof (induction left arbitrary: n w w' rqs k r)
  case 0
  then show ?case by (auto simp: Let_def call_once_def split: prod.splits sum.splits if_splits)
next
  case (Suc left)
  obtain w1 o1 where c: "call_once env cfg ca n w = (w1, o1)" by fastforce
  show ?case
  proof (cases "\<exists>e. o1 = Inl e \<and> llm_retry_condition (lc_fallback cfg \<noteq> None) e")
    case True
    then obtain e where e: "o1 = Inl e" "llm_retry_condition (lc_fallback cfg \<noteq> None) e" by blast
    obtain w2 rqs2 k2 r2 where a: "attempts env cfg ca left (n + 1) w1 = (w2, rqs2, k2, r2)" by (metis prod_cases4)
    have eq: "rqs = request_of cfg ca n # rqs2" "k = k2" "r = r2" using Suc.prems c e a by auto
    show ?thesis using Suc.IH [OF a] unfolding eq by (cases rqs2) auto
  next
    case False
    then have "rqs = [request_of cfg ca n]" "k = n" "r = o1" using Suc.prems c by (auto split: sum.splits if_splits)
    then show ?thesis using c by (auto simp: call_once_def split: prod.splits sum.splits if_splits)
  qed
qed

lemma fit_input_within:
  assumes "fit_input env cfg st = Inr st'" "\<not> ls_hit_cap st'"
  shows "st' = st"
proof (cases "lc_max_input_tokens cfg")
  case None
  with assms(1) show ?thesis by (simp add: fit_input_def)
next
  case (Some cap)
  with assms obtain n where n: "count_message_tokens (le_tokens env) (ls_messages st) = Inr n" "\<not> cap < int n" "\<not> ls_hit_cap st"
    by (auto simp: fit_input_def res_simps Let_def split: option.splits)
  then have "truncate_messages_to_fit (le_tokens env) True cap (ls_messages st) = Inr None"
    by (simp add: truncate_messages_to_fit_def)
  with assms(1) Some n show ?thesis by (cases st) (simp add: fit_input_def)
qed

lemma fit_input_hit: "fit_input env cfg st = Inr st' \<Longrightarrow> ls_hit_cap st \<Longrightarrow> ls_hit_cap st'"
  by (auto simp: fit_input_def res_simps Let_def split: option.splits)

lemma step_hit:
  "answer_step cfg left c st = LoopOn st' \<Longrightarrow> ls_hit_cap st' = ls_hit_cap st"
  "tool_step env cfg c st = LoopOn st' \<Longrightarrow> ls_hit_cap st' = ls_hit_cap st"
  "ls_hit_cap (add_usage c st) = ls_hit_cap st"
  by (auto simp: answer_step_def nudge_def add_usage_def relax_choice_def Let_def elim!: tool_step_on split: if_splits)

text \<open>At the start of a turn, until the cap is hit.\<close>

definition grown :: "'w loop_env \<Rightarrow> loop_config \<Rightarrow> pydict list \<Rightarrow> 'w loop_state \<Rightarrow> bool" where
  "grown env cfg start st \<longleftrightarrow>
     ls_stale_before st = 0 \<and> successively (follows env cfg) (ls_requests st)
     \<and> (\<forall>rq \<in> set (ls_requests st). rq_iteration rq \<le> ls_iteration st)
     \<and> (if ls_requests st = [] then ls_messages st = start
        else rq_messages (hd (ls_requests st)) = start
          \<and> (\<forall>rq. rq_iteration rq = ls_iteration st + 1 \<and> rq_attempt rq = 1 \<and> rq_messages rq = ls_messages st
               \<longrightarrow> follows env cfg (last (ls_requests st)) rq))"

lemma request_plain:
  assumes "ls_stale_before st = 0"
  shows "rq_messages (request_of cfg (loop_call_args cfg left st) n) = ls_messages st"
    "rq_iteration (request_of cfg (loop_call_args cfg left st) n) = ls_iteration st + 1"
    "rq_attempt (request_of cfg (loop_call_args cfg left st) n) = n"
    "rq_plan (request_of cfg (loop_call_args cfg left st) n) = plan_attempt cfg n"
  using assms by (simp_all add: request_of_def loop_call_args_def without_stale_thinking_def)

lemma call_grown:
  assumes g: "grown env cfg start st" and c: "call_with_retry env cfg (loop_call_args cfg left st) w = (w', rqs, k, r)"
  shows "rqs \<noteq> [] \<and> last rqs = request_of cfg (loop_call_args cfg left st) k
    \<and> successively (follows env cfg) (ls_requests st @ rqs) \<and> rq_messages (hd (ls_requests st @ rqs)) = start
    \<and> (\<forall>rq \<in> set (ls_requests st @ rqs). rq_iteration rq \<le> ls_iteration st + 1)
    \<and> (\<forall>c. r = Inr c \<longrightarrow> (\<exists>w1 w2. le_call env w1 (last rqs) = (w2, Inr c)))"
proof -
  let ?rq = "request_of cfg (loop_call_args cfg left st)"
  have stale: "ls_stale_before st = 0" using g by (simp add: grown_def)
  note q = request_plain [OF stale]
  note a = attempts_chain [OF c [unfolded call_with_retry_def]]
  have retry: "follows env cfg (?rq i) (?rq (i + 1))" for i by (simp add: follows_def q)
  have s: "successively (follows env cfg) rqs"
    using a retry by (auto intro: successively_mono)
  have it: "rq_iteration rq \<le> ls_iteration st + 1" if "rq \<in> set rqs" for rq
    using call_requests(2) [OF c] that q(2) by fastforce
  have hd: "hd rqs = ?rq 1" using a by simp
  have j: "follows env cfg (last (ls_requests st)) (hd rqs)" if "ls_requests st \<noteq> []"
    using g that unfolding hd grown_def by (simp add: q)
  show ?thesis
    using a s it j g hd by (auto simp: successively_append_iff grown_def q hd_append intro: le_SucI)
qed

lemma loop_turn_hit:
  assumes "loop_turn env cfg left st = x" "ls_hit_cap st"
  shows "x = LoopOn st' \<Longrightarrow> ls_hit_cap st'" "x = LoopDone r st' \<Longrightarrow> ls_hit_cap st'"
proof -
  have "(x = LoopOn st' \<longrightarrow> ls_hit_cap st') \<and> (x = LoopDone r st' \<longrightarrow> ls_hit_cap st')"
  proof (cases rule: loop_turn_cases [OF assms(1), case_names raised failed answered])
    case (answered s1 w rqs n c st2)
    have "ls_hit_cap st2" using fit_input_hit [OF answered(1) assms(2)] by (simp add: answered(3) step_hit)
    with answered(4) show ?thesis
      using step_hit(1) [of cfg left c st2 st'] step_hit(2) [of env cfg c st2 st']
        answer_step_done [of cfg left c st2 r st'] tool_step_done [of env cfg c st2 r st'] by (auto split: if_splits)
  qed (use assms fit_input_hit in auto)
  then show "x = LoopOn st' \<Longrightarrow> ls_hit_cap st'" "x = LoopDone r st' \<Longrightarrow> ls_hit_cap st'" by blast+
qed

lemma answered_grown:
  assumes g: "grown env cfg start st" and c: "call_with_retry env cfg (loop_call_args cfg left st) (ls_world st) = (w, rqs, n, Inr c)"
    and st2: "st2 = add_usage c (st\<lparr>ls_world := w, ls_attempt := n, ls_requests := ls_requests st @ rqs\<rparr>)"
    and on: "(if cp_tool_calls c = [] then answer_step cfg left c st2 else tool_step env cfg c st2) = LoopOn st'"
  shows "grown env cfg start st'"
proof -
  note k = call_grown [OF g c]
  have stale: "ls_stale_before st = 0" using g by (simp add: grown_def)
  obtain w1 w2 where call: "le_call env w1 (last rqs) = (w2, Inr c)" using k by blast
  have last: "rq_messages (last rqs) = ls_messages st" "rq_iteration (last rqs) = ls_iteration st + 1"
    "rq_plan (last rqs) = plan_attempt cfg n" using k by (simp_all add: request_plain [OF stale])
  have s: "ls_requests st' = ls_requests st @ rqs \<and> ls_iteration st' = ls_iteration st + 1 \<and> ls_stale_before st' = 0
      \<and> next_messages env cfg (last rqs) c (ls_messages st')"
  proof (cases "cp_tool_calls c = []")
    case True
    with on show ?thesis
      by (auto simp: st2 answer_step_def nudge_def next_messages_def last stale split: if_splits)
  next
    case False
    with on have "tool_step env cfg c st2 = LoopOn st'" by simp
    then obtain m w3 rs ex su where
      m: "format_assistant_tool_message (tk_float (le_tokens env)) (pl_provider (plan_attempt cfg (ls_attempt st2))) c = Inr m"
      and e: "execute_tool_calls env (cp_tool_calls c) (ls_world st2) = (w3, rs, ex, su)"
      and st': "st' = relax_choice cfg su (st2\<lparr>ls_world := w3,
       ls_messages := ls_messages st2 @ [m] @ format_tool_results (pl_provider (plan_attempt cfg (ls_attempt st2))) rs
         @ budget_message env (ls_iteration st2 + 1) (nat (lc_max_tool_iterations cfg)),
       ls_executed := ls_executed st2 @ ex, ls_iteration := ls_iteration st2 + 1\<rparr>)"
      by (rule tool_step_on)
    have "ls_attempt st2 = n" by (simp add: st2)
    with m execute_results [OF e] False show ?thesis
      by (auto simp: st' st2 next_messages_def last stale)
  qed
  have "follows env cfg (last rqs) rq"
    if "rq_iteration rq = ls_iteration st' + 1" "rq_attempt rq = 1" "rq_messages rq = ls_messages st'" for rq
    using that call s last(2) unfolding follows_def by auto
  with s k show ?thesis by (simp add: grown_def)
qed

definition chained :: "'w loop_env \<Rightarrow> loop_config \<Rightarrow> pydict list \<Rightarrow> llm_request list \<Rightarrow> bool" where
  "chained env cfg start rqs \<longleftrightarrow> successively (follows env cfg) rqs \<and> (rqs \<noteq> [] \<longrightarrow> rq_messages (hd rqs) = start)"

lemma grown_chained: "grown env cfg start st \<Longrightarrow> chained env cfg start (ls_requests st)"
  by (simp add: grown_def chained_def split: if_splits)

lemma loop_turn_grown:
  assumes "loop_turn env cfg left st = x" "grown env cfg start st" "\<not> ls_hit_cap st'"
  shows "x = LoopOn st' \<Longrightarrow> grown env cfg start st'"
    "x = LoopDone r st' \<Longrightarrow> chained env cfg start (ls_requests st') \<and> (\<forall>rq \<in> set (ls_requests st'). rq_iteration rq \<le> ls_iteration st + 1)"
proof -
  have "(x = LoopOn st' \<longrightarrow> grown env cfg start st')
    \<and> (x = LoopDone r st' \<longrightarrow> chained env cfg start (ls_requests st') \<and> (\<forall>rq \<in> set (ls_requests st'). rq_iteration rq \<le> ls_iteration st + 1))"
  proof (cases rule: loop_turn_cases [OF assms(1), case_names raised failed answered])
    case raised
    then show ?thesis using assms(2) by (auto simp: grown_chained) (auto simp: grown_def)
  next
    case (failed s1 w rqs n e)
    show ?thesis
    proof (cases "ls_hit_cap s1")
      case True
      with failed(3) assms(3) show ?thesis by auto
    next
      case False
      then have "s1 = st" using fit_input_within [OF failed(1)] by simp
      then show ?thesis using call_grown [OF assms(2) failed(2) [unfolded \<open>s1 = st\<close>]] failed(3) by (auto simp: chained_def)
    qed
  next
    case (answered s1 w rqs n c st2)
    have hit: "ls_hit_cap st2 = ls_hit_cap s1" by (simp add: answered(3) step_hit)
    show ?thesis
    proof (cases "ls_hit_cap s1")
      case True
      then have "x \<noteq> LoopOn st' \<and> x \<noteq> LoopDone r st'" using assms(3) hit answered(4)
          step_hit(1) [of cfg left c st2 st'] step_hit(2) [of env cfg c st2 st']
          answer_step_done [of cfg left c st2 r st'] tool_step_done [of env cfg c st2 r st'] by (auto split: if_splits)
      then show ?thesis by simp
    next
      case False
      then have s1: "s1 = st" using fit_input_within [OF answered(1)] by simp
      have "grown env cfg start st'" if "x = LoopOn st'"
        using answered_grown [OF assms(2) answered(2,3) [unfolded s1]] answered(4) that by simp
      moreover have "st' = st2" if "x = LoopDone r st'"
        using answered(4) that answer_step_done [of cfg left c st2 r st'] tool_step_done [of env cfg c st2 r st']
        by (auto split: if_splits)
      moreover note call_grown [OF assms(2) answered(2) [unfolded s1]]
      ultimately show ?thesis by (auto simp: answered(3) s1 chained_def)
    qed
  qed
  then show "x = LoopOn st' \<Longrightarrow> grown env cfg start st'"
    "x = LoopDone r st' \<Longrightarrow> chained env cfg start (ls_requests st') \<and> (\<forall>rq \<in> set (ls_requests st'). rq_iteration rq \<le> ls_iteration st + 1)"
    by blast+
qed

text \<open>The requests of the synthesis come behind those of the turns and carry a later iteration.\<close>

lemma synthesis_behind:
  assumes "synthesis env cfg st = (r, st')"
  shows "\<exists>rqs. ls_requests st' = ls_requests st @ rqs \<and> (\<forall>rq \<in> set rqs. rq_iteration rq = ls_iteration st + 1)"
    "ls_hit_cap st \<Longrightarrow> ls_hit_cap st'"
proof -
  have "(\<exists>rqs. ls_requests st' = ls_requests st @ rqs \<and> (\<forall>rq \<in> set rqs. rq_iteration rq = ls_iteration st + 1))
    \<and> (ls_hit_cap st \<longrightarrow> ls_hit_cap st')"
  proof (cases "res_bind (synthesis_prompt cfg) (\<lambda>p. fit_input env cfg (st\<lparr>ls_messages := ls_messages st @ [user_message p]\<rparr>))")
    case (Inl e)
    with assms show ?thesis by (auto simp: synthesis_def)
  next
    case (Inr st1)
    then obtain p where p: "fit_input env cfg (st\<lparr>ls_messages := ls_messages st @ [user_message p]\<rparr>) = Inr st1"
      by (auto simp: res_simps)
    note f = fit_input_fields [OF p]
    have hit: "ls_hit_cap st \<longrightarrow> ls_hit_cap st1" using fit_input_hit [OF p] by simp
    show ?thesis
    proof (cases "lc_stream_final cfg")
      case True
      with assms Inr f hit show ?thesis by (auto simp: synthesis_def Let_def)
    next
      case False
      then have a: "final_answer env cfg st1 = (r, st')" using assms Inr by (simp add: synthesis_def)
      define ca where "ca = \<lparr>ca_messages = ls_messages st1, ca_tools = lc_final_call_tools cfg, ca_tool_choice = PNone,
                ca_iteration = ls_iteration st1 + 1, ca_check = True, ca_allow_empty = False,
                ca_stale_before = (if lc_final_call_tools cfg = [] \<or> lc_final_call_tools cfg \<noteq> lc_tools cfg
                                   then length (ls_messages st1) else ls_stale_before st1)\<rparr>"
      obtain w rqs n o1 where c: "call_with_retry env cfg ca (ls_world st1) = (w, rqs, n, o1)" by (metis prod_cases4)
      have "rq_iteration rq = ls_iteration st1 + 1" if "rq \<in> set rqs" for rq
        using call_requests(2) [OF c] that by (auto simp: request_of_def ca_def)
      moreover have "ls_requests st' = ls_requests st1 @ rqs \<and> ls_hit_cap st' = ls_hit_cap st1"
        using a c unfolding final_answer_def ca_def [symmetric] by (auto simp: Let_def add_usage_def split: sum.splits prod.splits)
      ultimately show ?thesis using f hit by auto
    qed
  qed
  then show "\<exists>rqs. ls_requests st' = ls_requests st @ rqs \<and> (\<forall>rq \<in> set rqs. rq_iteration rq = ls_iteration st + 1)"
    "ls_hit_cap st \<Longrightarrow> ls_hit_cap st'" by blast+
qed

lemma turns_hit: "turns env cfg n st = (r, st') \<Longrightarrow> ls_hit_cap st \<Longrightarrow> ls_hit_cap st'"
proof (induction n arbitrary: st)
  case 0
  with synthesis_behind(2) [of env cfg st r st'] show ?case by simp
next
  case (Suc n)
  show ?case
  proof (cases "loop_turn env cfg n st")
    case (LoopDone x st1)
    with Suc.prems loop_turn_hit(2) [OF LoopDone Suc.prems(2) refl] show ?thesis by simp
  next
    case (LoopOn st1)
    with Suc.prems have "turns env cfg n st1 = (r, st')" by simp
    from Suc.IH [OF this loop_turn_hit(1) [OF LoopOn Suc.prems(2) refl]] show ?thesis .
  qed
qed

lemma turns_grown:
  assumes "turns env cfg n st = (r, st')" "grown env cfg start st" "\<not> ls_hit_cap st'"
  shows "chained env cfg start (filter (\<lambda>rq. rq_iteration rq \<le> ls_iteration st + n) (ls_requests st'))"
  using assms
proof (induction n arbitrary: st)
  case 0
  then obtain rqs where "ls_requests st' = ls_requests st @ rqs" "\<forall>rq \<in> set rqs. rq_iteration rq = ls_iteration st + 1"
    using synthesis_behind(1) [of env cfg st r st'] by auto
  moreover have "\<forall>rq \<in> set (ls_requests st). rq_iteration rq \<le> ls_iteration st" using "0.prems"(2) by (simp add: grown_def)
  ultimately have "filter (\<lambda>rq. rq_iteration rq \<le> ls_iteration st) (ls_requests st') = ls_requests st" by (simp add: filter_id_conv)
  with grown_chained [OF "0.prems"(2)] show ?case by simp
next
  case (Suc n)
  show ?case
  proof (cases "loop_turn env cfg n st")
    case (LoopDone x st1)
    with Suc.prems have "st1 = st'" by simp
    with loop_turn_grown(2) [OF LoopDone Suc.prems(2,3)] have c: "chained env cfg start (ls_requests st')"
      "\<forall>rq \<in> set (ls_requests st'). rq_iteration rq \<le> ls_iteration st + 1" by blast+
    then have "\<forall>rq \<in> set (ls_requests st'). rq_iteration rq \<le> ls_iteration st + Suc n" by fastforce
    then have "filter (\<lambda>rq. rq_iteration rq \<le> ls_iteration st + Suc n) (ls_requests st') = ls_requests st'"
      by (simp add: filter_id_conv)
    with c(1) show ?thesis by simp
  next
    case (LoopOn st1)
    with Suc.prems have t: "turns env cfg n st1 = (r, st')" by simp
    have "\<not> ls_hit_cap st1" using turns_hit [OF t] Suc.prems(3) by blast
    from Suc.IH [OF t loop_turn_grown(1) [OF LoopOn Suc.prems(2) this refl] Suc.prems(3)]
    show ?thesis using loop_turn_requests(2) [OF LoopOn refl] by simp
  qed
qed

text \<open>C40. The conversation only grows: while the input cap is not hit, the first request sends the messages the loop
  was given; each later one of the turns repeats what the request before it sent, unchanged, as a retry or with the
  answer's round behind it: the message in the shape of the provider that answered, whichever is asked next, one
  result for every call in the same shape and order, and the budget line, or a nudge when no tool was called. The
  calls behind the last turn (iteration limit plus one) are left out, for they may strip thinking.\<close>

theorem conversation_only_grows:
  assumes "\<not> ls_hit_cap (snd (execute_tool_loop env cfg w))"
  shows "let rqs = filter (\<lambda>rq. rq_iteration rq \<le> nat (lc_max_tool_iterations cfg)) (ls_requests (snd (execute_tool_loop env cfg w)))
    in successively (follows env cfg) rqs
       \<and> (rqs \<noteq> [] \<longrightarrow> rq_messages (hd rqs) = (if lc_messages cfg = [] then [user_message (lc_prompt cfg)] else lc_messages cfg))"
proof -
  let ?start = "if lc_messages cfg = [] then [user_message (lc_prompt cfg)] else lc_messages cfg"
  have g: "grown env cfg ?start (initial_loop cfg w)" by (simp add: grown_def initial_loop_def)
  obtain r st' where e: "execute_tool_loop env cfg w = (r, st')" by fastforce
  then consider "turns env cfg (nat (lc_max_tool_iterations cfg)) (initial_loop cfg w) = (r, st')" | "ls_requests st' = []"
    by (auto simp: execute_tool_loop_def initial_loop_def split: if_splits)
  then show ?thesis
  proof cases
    case 1
    have "ls_iteration (initial_loop cfg w) = 0" by (simp add: initial_loop_def)
    with turns_grown [OF 1 g] assms e show ?thesis by (simp add: chained_def Let_def)
  next
    case 2
    then show ?thesis using e by simp
  qed
qed

section \<open>A run\<close>

text \<open>The primary fails once, the fallback of another provider calls a tool, and the primary answers.\<close>

definition demo_completion :: "tool_call list \<Rightarrow> completion" where
  "demo_completion tcs = \<lparr>cp_content = AnswerText ''tea'', cp_tool_calls = tcs, cp_input_tokens = 5, cp_output_tokens = 2,
     cp_cache_creation_tokens = 0, cp_cache_read_tokens = 0, cp_thinking_content = None, cp_thinking_blocks = [],
     cp_reasoning_details = [], cp_hit_input_token_cap = False\<rparr>"

definition demo_call :: tool_call where
  "demo_call = \<lparr>tc_id = ''c1'', tc_name = ''search'', tc_input = PDict [], tc_signature = PNone\<rparr>"

definition demo_loop_env :: "nat loop_env" where
  "demo_loop_env = \<lparr>
     le_call = (\<lambda>n rq. (n + 1, if n = 0 then Inl OtherError else if n = 1 then Inr (demo_completion [demo_call])
                              else Inr (demo_completion []))),
     le_tool = (\<lambda>n name inp. (n, ToolReturned ''likes tea'' False)), le_budget_line = None, le_tokens = by_length\<rparr>"

definition demo_primary :: attempt_plan where
  "demo_primary = \<lparr>pl_provider = Anthropic, pl_model = ''claude-opus-5-5'', pl_is_fallback = False\<rparr>"

definition demo_fallback :: attempt_plan where
  "demo_fallback = \<lparr>pl_provider = Gemini, pl_model = ''gemini'', pl_is_fallback = True\<rparr>"

definition demo_loop_config :: loop_config where
  "demo_loop_config = \<lparr>lc_prompt = ''what does she like?'', lc_messages = [], lc_tools = [[(''name'', PStr ''search'')]],
     lc_tool_choice = PStr ''required'', lc_max_tool_iterations = 3, lc_response_model = False, lc_enable_retry = True,
     lc_retry_attempts = 2, lc_max_input_tokens = None, lc_primary = demo_primary, lc_fallback = Some demo_fallback,
     lc_stream_final = False, lc_force_tools_until = [], lc_max_forced_iterations = 3, lc_final_call_tools = []\<rparr>"

theorem tool_loop_histories_paired_witness:
  "length (ls_requests (snd (execute_tool_loop demo_loop_env demo_loop_config 0))) = 3
   \<and> list_all (\<lambda>rq. paired Idle (rq_messages rq)) (ls_requests (snd (execute_tool_loop demo_loop_env demo_loop_config 0)))"
proof
  show "length (ls_requests (snd (execute_tool_loop demo_loop_env demo_loop_config 0))) = 3" by code_simp
  have "paired Idle (ls_messages (initial_loop demo_loop_config (0::nat)))" by code_simp
  moreover have "lc_messages demo_loop_config = []" by (simp add: demo_loop_config_def)
  ultimately show "list_all (\<lambda>rq. paired Idle (rq_messages rq)) (ls_requests (snd (execute_tool_loop demo_loop_env demo_loop_config 0)))"
    using tool_loop_histories_paired [of demo_loop_config "0::nat" demo_loop_env] by (simp add: list_all_iff)
qed

theorem forced_tool_choice_bounded_witness:
  "map rq_tool_choice (ls_requests (snd (execute_tool_loop demo_loop_env demo_loop_config 0)))
     = [PStr ''required'', PStr ''required'', PStr ''auto'']
   \<and> list_all (\<lambda>rq. int (rq_iteration rq) \<le> 4) (filter (\<lambda>rq. rq_tool_choice rq = PStr ''required'')
       (ls_requests (snd (execute_tool_loop demo_loop_env demo_loop_config 0))))"
  by (rule conjI, code_simp)
     (use forced_tool_choice_bounded [of demo_loop_env demo_loop_config 0] in \<open>auto simp: list_all_iff demo_loop_config_def\<close>)

text \<open>The fallback, Gemini, calls a tool on the second attempt; the next request is for Anthropic again and holds
  Gemini's message as it was.\<close>

theorem conversation_only_grows_witness:
  "list_all (\<lambda>(rq, rq'). follows demo_loop_env demo_loop_config rq rq')
     (zip (ls_requests (snd (execute_tool_loop demo_loop_env demo_loop_config 0)))
        (tl (ls_requests (snd (execute_tool_loop demo_loop_env demo_loop_config 0)))))
   \<and> map (\<lambda>rq. pl_provider (rq_plan rq)) (ls_requests (snd (execute_tool_loop demo_loop_env demo_loop_config 0)))
     = [Anthropic, Gemini, Anthropic]
   \<and> rq_messages (ls_requests (snd (execute_tool_loop demo_loop_env demo_loop_config 0)) ! 2) ! 1
     = [(''role'', PStr ''model''), (''parts'', PList [PDict [(''text'', PStr ''tea'')], PDict [(''function_call'',
        PDict [(''name'', PStr ''search''), (''args'', PDict [])])]])]"
proof (intro conjI)
  let ?st = "snd (execute_tool_loop demo_loop_env demo_loop_config (0 :: nat))"
  have h: "\<not> ls_hit_cap ?st" by code_simp
  have f: "filter (\<lambda>rq. rq_iteration rq \<le> nat (lc_max_tool_iterations demo_loop_config)) (ls_requests ?st) = ls_requests ?st"
    by code_simp
  have "length (ls_requests ?st) = 3" by code_simp
  then obtain a b c where "ls_requests ?st = [a, b, c]" by (auto simp: length_Suc_conv numeral_3_eq_3)
  with conversation_only_grows [OF h] show "list_all (\<lambda>(rq, rq'). follows demo_loop_env demo_loop_config rq rq')
     (zip (ls_requests ?st) (tl (ls_requests ?st)))" unfolding Let_def f by simp
qed code_simp+

end
