(* ===== verification/DreamTimers.thy ===== *)
theory DreamTimers
  imports QueuePayload
begin

text \<open>
  The timers of the dream scheduler (src/src/dreamer/dream_scheduler.py) on one event loop: the dictionary
  \<open>pending_dreams\<close>, its asyncio tasks with their done callback, and the calls that suspend while a cancelled
  task finishes. Between two \<open>await\<close>s the code runs without interruption: a step of the world is one such
  piece, and steps of different coroutines interleave in any order. Time is left out: a sleeping task may wake
  at any moment.
\<close>

section \<open>The world of the scheduler\<close>

text \<open>The arguments of \<open>schedule_dream\<close> that \<open>_delayed_dream\<close> gets.\<close>

record dream_request =
  dq_key :: string
  dq_workspace :: string
  dq_delay_minutes :: int
  dq_type :: dream_type
  dq_observer :: string
  dq_observed :: string
  dq_trigger_reason :: "string option"
  dq_delay_reason :: "string option"
  dq_documents :: "int option"
  dq_threshold :: "int option"

text \<open>A task is created, sleeps, executes the dream and finishes; then its done callbacks run.\<close>

datatype timer_stage = TimerCreated | TimerSleeping | TimerRunning | TimerFinished | TimerReaped

record timer_task =
  tt_request :: dream_request
  tt_stage :: timer_stage
  tt_cancelled :: bool

text \<open>A suspended call: the tasks it waits for and what it does then.\<close>

datatype resume_with = ThenSchedule dream_request | ThenCancel "string list" | ThenClear

record suspended_call =
  sc_tasks :: "nat list"
  sc_then :: resume_with

text \<open>Tasks are numbered in the order of their creation; \<open>dw_enqueued\<close> records which of them reached
  \<open>enqueue_dream\<close>.\<close>

record dream_world =
  dw_pending :: "(string \<times> nat) list"
  dw_tasks :: "timer_task list"
  dw_suspended :: "suspended_call list"
  dw_enqueued :: "nat list"

definition idle_scheduler :: dream_world where
  "idle_scheduler = \<lparr>dw_pending = [], dw_tasks = [], dw_suspended = [], dw_enqueued = []\<rparr>"

definition task_of :: "dream_world \<Rightarrow> nat \<Rightarrow> timer_task" where
  "task_of w t = dw_tasks w ! t"

definition task_key :: "dream_world \<Rightarrow> nat \<Rightarrow> string" where
  "task_key w t = dq_key (tt_request (task_of w t))"

definition set_task :: "nat \<Rightarrow> timer_task \<Rightarrow> dream_world \<Rightarrow> dream_world" where
  "set_task t x w = w\<lparr>dw_tasks := (dw_tasks w)[t := x]\<rparr>"

definition task_done :: "dream_world \<Rightarrow> nat \<Rightarrow> bool" where
  "task_done w t = (tt_stage (task_of w t) = TimerFinished \<or> tt_stage (task_of w t) = TimerReaped)"

section \<open>The methods of the scheduler\<close>

text \<open>\<open>create_task\<close>, the entry of the dictionary and the done callback.\<close>

definition create_timer :: "dream_request \<Rightarrow> dream_world \<Rightarrow> dream_world" where
  "create_timer r w =
     w\<lparr>dw_pending := dset (dw_pending w) (dq_key r) (length (dw_tasks w)),
       dw_tasks := dw_tasks w @ [\<lparr>tt_request = r, tt_stage = TimerCreated, tt_cancelled = False\<rparr>]\<rparr>"

text \<open>\<open>task.cancel()\<close>: a request, without effect on a task that is done.\<close>

definition request_cancel :: "nat \<Rightarrow> dream_world \<Rightarrow> dream_world" where
  "request_cancel t w =
     (if task_done w t then w else set_task t ((task_of w t)\<lparr>tt_cancelled := True\<rparr>) w)"

text \<open>\<open>cancel_dream\<close> up to its \<open>await\<close>, with the task it awaits; awaiting a task that is done does not suspend.\<close>

definition cancel_dream :: "string \<Rightarrow> dream_world \<Rightarrow> nat option \<times> dream_world" where
  "cancel_dream key w =
     (case dget (dw_pending w) key of
        None \<Rightarrow> (None, w)
      | Some t \<Rightarrow> (if task_done w t then None else Some t,
                   request_cancel t (w\<lparr>dw_pending := dpop (dw_pending w) key\<rparr>)))"

definition suspend :: "nat list \<Rightarrow> resume_with \<Rightarrow> dream_world \<Rightarrow> dream_world" where
  "suspend ts what w = w\<lparr>dw_suspended := dw_suspended w @ [\<lparr>sc_tasks = ts, sc_then = what\<rparr>]\<rparr>"

definition schedule_dream :: "bool \<Rightarrow> dream_request \<Rightarrow> dream_world \<Rightarrow> dream_world" where
  "schedule_dream enabled r w =
     (if \<not> enabled then w
      else (case cancel_dream (dq_key r) w of
              (None, w') \<Rightarrow> create_timer r w'
            | (Some t, w') \<Rightarrow> suspend [t] (ThenSchedule r) w'))"

fun cancel_each :: "string list \<Rightarrow> dream_world \<Rightarrow> dream_world" where
  "cancel_each [] w = w"
| "cancel_each (key # keys) w =
     (case cancel_dream key w of
        (None, w') \<Rightarrow> cancel_each keys w'
      | (Some t, w') \<Rightarrow> suspend [t] (ThenCancel keys) w')"

definition keys_for_observed :: "string \<Rightarrow> string \<Rightarrow> dream_world \<Rightarrow> string list res" where
  "keys_for_observed workspace_name observed w =
     res_map (\<lambda>parsed. map fst (filter (\<lambda>(key, p).
                pw_workspace_name p = Some workspace_name \<and> pw_observed p = Some observed) parsed))
       (traverse (\<lambda>(key, t). res_map (Pair key) (parse_work_unit_key key)) (dw_pending w))"

definition cancel_dreams_for_observed :: "string \<Rightarrow> string \<Rightarrow> dream_world \<Rightarrow> dream_world res" where
  "cancel_dreams_for_observed workspace_name observed w =
     res_map (\<lambda>keys. cancel_each keys w) (keys_for_observed workspace_name observed w)"

text \<open>\<open>gather\<close> waits for all the tasks.\<close>

definition shutdown_dreams :: "dream_world \<Rightarrow> dream_world" where
  "shutdown_dreams w =
     (if dw_pending w = [] then w
      else suspend (map snd (dw_pending w)) ThenClear (fold request_cancel (map snd (dw_pending w)) w))"

text \<open>A suspended call goes on when the done callbacks of its tasks have run: the scheduler's own callback was
  added first.\<close>

fun resume :: "resume_with \<Rightarrow> dream_world \<Rightarrow> dream_world" where
  "resume (ThenSchedule r) w = create_timer r w"
| "resume (ThenCancel keys) w = cancel_each keys w"
| "resume ThenClear w = w\<lparr>dw_pending := []\<rparr>"

definition resume_call :: "nat \<Rightarrow> dream_world \<Rightarrow> dream_world" where
  "resume_call n w =
     resume (sc_then (dw_suspended w ! n))
       (w\<lparr>dw_suspended := take n (dw_suspended w) @ drop (Suc n) (dw_suspended w)\<rparr>)"

section \<open>Tasks\<close>

definition set_stage :: "timer_stage \<Rightarrow> nat \<Rightarrow> dream_world \<Rightarrow> dream_world" where
  "set_stage s t w = set_task t ((task_of w t)\<lparr>tt_stage := s\<rparr>) w"

text \<open>The steps of one task. A cancellation request is delivered at its next resumption, before the first
  statement of the body if it has not started. While it executes the dream it may enqueue it once; a statement
  on its way to the database when the task is cancelled may still be committed.\<close>

inductive task_step :: "nat \<Rightarrow> dream_world \<Rightarrow> dream_world \<Rightarrow> bool" for t where
  task_start: "tt_stage (task_of w t) = TimerCreated \<Longrightarrow>
     task_step t w (set_stage (if tt_cancelled (task_of w t) then TimerFinished else TimerSleeping) t w)"
| task_wake: "tt_stage (task_of w t) = TimerSleeping \<Longrightarrow>
     task_step t w (set_stage (if tt_cancelled (task_of w t) then TimerFinished else TimerRunning) t w)"
| task_enqueue: "tt_stage (task_of w t) = TimerRunning \<Longrightarrow> t \<notin> set (dw_enqueued w) \<Longrightarrow>
     task_step t w (w\<lparr>dw_enqueued := dw_enqueued w @ [t]\<rparr>)"
| task_finish: "tt_stage (task_of w t) = TimerRunning \<Longrightarrow>
     task_step t w (set_stage TimerFinished t w)"
| task_callback: "tt_stage (task_of w t) = TimerFinished \<Longrightarrow>
     task_step t w ((set_stage TimerReaped t w)\<lparr>dw_pending := dpop (dw_pending w) (task_key w t)\<rparr>)"

section \<open>Runs\<close>

inductive scheduler_step :: "dream_world \<Rightarrow> dream_world \<Rightarrow> bool" where
  a_task_goes_on: "t < length (dw_tasks w) \<Longrightarrow> task_step t w w' \<Longrightarrow> scheduler_step w w'"
| a_call_goes_on: "n < length (dw_suspended w) \<Longrightarrow>
     \<forall>t \<in> set (sc_tasks (dw_suspended w ! n)). tt_stage (task_of w t) = TimerReaped \<Longrightarrow>
     scheduler_step w (resume_call n w)"
| activity_cancels: "cancel_dreams_for_observed workspace_name observed w = Inr w' \<Longrightarrow> scheduler_step w w'"

inductive later :: "dream_world \<Rightarrow> dream_world \<Rightarrow> bool" for w where
  later_refl: "later w w"
| later_step: "later w v \<Longrightarrow> scheduler_step v v' \<Longrightarrow> later w v'"
| later_schedule: "later w v \<Longrightarrow> later w (schedule_dream enabled r v)"
| later_shutdown: "later w v \<Longrightarrow> later w (shutdown_dreams v)"



definition armed :: "dream_world \<Rightarrow> nat \<Rightarrow> bool" where
  "armed w t \<longleftrightarrow> t < length (dw_tasks w) \<and> \<not> task_done w t \<and> \<not> tt_cancelled (task_of w t)"

section \<open>What the steps do to the tasks\<close>






named_theorems world_simps

lemma world_update_simps [world_simps]:
  "dw_pending (set_task t x w) = dw_pending w"
  "dw_suspended (set_task t x w) = dw_suspended w"
  "dw_enqueued (set_task t x w) = dw_enqueued w"
  "length (dw_tasks (set_task t x w)) = length (dw_tasks w)"
  "t < length (dw_tasks w) \<Longrightarrow> task_of (set_task t x w) t' = (if t' = t then x else task_of w t')"
  "task_of (w\<lparr>dw_pending := p\<rparr>) t' = task_of w t'"
  "task_of (w\<lparr>dw_suspended := c\<rparr>) t' = task_of w t'"
  "task_of (w\<lparr>dw_enqueued := q\<rparr>) t' = task_of w t'"
  by (auto simp: set_task_def task_of_def)

lemma create_timer_simps [world_simps]:
  "dw_pending (create_timer r w) = dset (dw_pending w) (dq_key r) (length (dw_tasks w))"
  "dw_suspended (create_timer r w) = dw_suspended w"
  "dw_enqueued (create_timer r w) = dw_enqueued w"
  "length (dw_tasks (create_timer r w)) = Suc (length (dw_tasks w))"
  "t < length (dw_tasks w) \<Longrightarrow> task_of (create_timer r w) t = task_of w t"
  "task_of (create_timer r w) (length (dw_tasks w)) = \<lparr>tt_request = r, tt_stage = TimerCreated, tt_cancelled = False\<rparr>"
  by (auto simp: create_timer_def task_of_def nth_append)

lemma request_cancel_simps [world_simps]:
  "dw_pending (request_cancel t w) = dw_pending w"
  "dw_suspended (request_cancel t w) = dw_suspended w"
  "dw_enqueued (request_cancel t w) = dw_enqueued w"
  "length (dw_tasks (request_cancel t w)) = length (dw_tasks w)"
  "t < length (dw_tasks w) \<Longrightarrow> tt_request (task_of (request_cancel t w) t') = tt_request (task_of w t')"
  "t < length (dw_tasks w) \<Longrightarrow> tt_stage (task_of (request_cancel t w) t') = tt_stage (task_of w t')"
  "t < length (dw_tasks w) \<Longrightarrow>
     tt_cancelled (task_of (request_cancel t w) t') = (tt_cancelled (task_of w t') \<or> t' = t \<and> \<not> task_done w t)"
  by (auto simp: request_cancel_def world_simps)

lemma suspend_simps [world_simps]:
  "dw_pending (suspend ts what w) = dw_pending w"
  "dw_tasks (suspend ts what w) = dw_tasks w"
  "dw_enqueued (suspend ts what w) = dw_enqueued w"
  "dw_suspended (suspend ts what w) = dw_suspended w @ [\<lparr>sc_tasks = ts, sc_then = what\<rparr>]"
  "task_of (suspend ts what w) t = task_of w t"
  by (auto simp: suspend_def task_of_def)

lemma set_stage_simps [world_simps]:
  "dw_pending (set_stage s t w) = dw_pending w"
  "dw_suspended (set_stage s t w) = dw_suspended w"
  "dw_enqueued (set_stage s t w) = dw_enqueued w"
  "length (dw_tasks (set_stage s t w)) = length (dw_tasks w)"
  "t < length (dw_tasks w) \<Longrightarrow> tt_request (task_of (set_stage s t w) t') = tt_request (task_of w t')"
  "t < length (dw_tasks w) \<Longrightarrow> tt_cancelled (task_of (set_stage s t w) t') = tt_cancelled (task_of w t')"
  "t < length (dw_tasks w) \<Longrightarrow> tt_stage (task_of (set_stage s t w) t') = (if t' = t then s else tt_stage (task_of w t'))"
  by (auto simp: set_stage_def world_simps)


section \<open>The invariants\<close>









section \<open>Every piece keeps the invariants\<close>







section \<open>Scheduling, resuming and shutting down\<close>









section \<open>Any interleaving\<close>











lemma later_trans: "later v w \<Longrightarrow> later u v \<Longrightarrow> later u w"
  by (induction rule: later.induct) (auto intro: later.intros)









section \<open>Properties\<close>



section \<open>A timer that is lost\<close>

lemmas world_eval = schedule_dream_def cancel_dream_def request_cancel_def create_timer_def suspend_def set_task_def
  set_stage_def task_of_def task_key_def task_done_def idle_scheduler_def resume_call_def shutdown_dreams_def
  dset_def dpop_def

text \<open>A run: two calls schedule \<open>r\<close> while a call that cancelled the first timer waits for it.\<close>

definition tt :: "dream_request \<Rightarrow> timer_stage \<Rightarrow> bool \<Rightarrow> timer_task" where
  "tt r s c = \<lparr>tt_request = r, tt_stage = s, tt_cancelled = c\<rparr>"

abbreviation dw :: "(string \<times> nat) list \<Rightarrow> timer_task list \<Rightarrow> suspended_call list \<Rightarrow> nat list \<Rightarrow> dream_world" where
  "dw p ts cs q \<equiv> \<lparr>dw_pending = p, dw_tasks = ts, dw_suspended = cs, dw_enqueued = q\<rparr>"

lemma later_task:
  assumes "later w v" and "t < length (dw_tasks v)" and "task_step t v u" and "u = v'"
  shows "later w v'"
  using later_step [OF assms(1) a_task_goes_on [OF assms(2,3)]] assms(4) by simp

lemma later_resume:
  assumes "later w v" and "n < length (dw_suspended v)"
    and "list_all (\<lambda>t. tt_stage (task_of v t) = TimerReaped) (sc_tasks (dw_suspended v ! n))" and "resume_call n v = v'"
  shows "later w v'"
  using later_step [OF assms(1) a_call_goes_on [of n]] assms(2-4) by (simp add: list_all_iff)

lemma sleeping_timer: "later idle_scheduler (dw [(dq_key r, 0)] [tt r TimerSleeping False] [] [])"
proof -
  have "later idle_scheduler (schedule_dream True r idle_scheduler)" by (rule later_schedule [OF later_refl])
  then have "later idle_scheduler (dw [(dq_key r, 0)] [tt r TimerCreated False] [] [])"
    by (simp add: world_eval tt_def)
  from later_task [OF this _ task_start, of 0] show ?thesis by (simp add: world_eval tt_def)
qed

lemma lost_timer_run:
  "later idle_scheduler (dw [(dq_key r, 2)] [tt r TimerReaped True, tt r TimerCreated False, tt r TimerCreated False] [] [])"
proof -
  let ?c = "\<lparr>sc_tasks = [0], sc_then = ThenSchedule r\<rparr>"
  let ?k = "dq_key r"
  have "later idle_scheduler (dw [] [tt r TimerSleeping True] [?c] [])"
    using later_schedule [OF sleeping_timer, of True r r] by (simp add: world_eval tt_def)
  from later_schedule [OF this, of True r]
  have "later idle_scheduler (dw [(?k, 1)] [tt r TimerSleeping True, tt r TimerCreated False] [?c] [])"
    by (simp add: world_eval tt_def)
  from later_task [OF this _ task_wake, of 0]
  have "later idle_scheduler (dw [(?k, 1)] [tt r TimerFinished True, tt r TimerCreated False] [?c] [])"
    by (simp add: world_eval tt_def)
  from later_task [OF this _ task_callback, of 0]
  have "later idle_scheduler (dw [] [tt r TimerReaped True, tt r TimerCreated False] [?c] [])"
    by (simp add: world_eval tt_def)
  from later_resume [OF this, of 0] show ?thesis by (simp add: world_eval tt_def eval_nat_numeral)
qed

text \<open>Two calls that schedule one key at the same time may lose a timer: the done callback of the cancelled
  timer removes the entry of the new one. Both new timers are armed, a shutdown disarms the one it finds, and the
  other one enqueues its dream after the shutdown has cleared the dictionary. One call is enough when the old
  timer has finished and its callback has not run yet.\<close>

theorem lost_dream_timer:
  fixes r :: dream_request
  shows "(\<exists>w. later idle_scheduler w \<and> armed w 1 \<and> armed w 2 \<and> task_key w 1 = dq_key r \<and> task_key w 2 = dq_key r
       \<and> dget (dw_pending w) (dq_key r) = Some 2
       \<and> (\<exists>w'. later (shutdown_dreams w) w' \<and> dw_pending w' = [] \<and> dw_suspended w' = [] \<and> dw_enqueued w' = [1]))
   \<and> (\<exists>w. later idle_scheduler w \<and> length (dw_tasks w) = 2 \<and> dw_suspended w = [] \<and> armed w 1 \<and> dw_pending w = [])"
proof -
  let ?k = "dq_key r"
  let ?w = "dw [(?k, 2)] [tt r TimerReaped True, tt r TimerCreated False, tt r TimerCreated False] [] []"
  let ?c = "\<lparr>sc_tasks = [2], sc_then = ThenClear\<rparr>"
  let ?s = "\<lambda>p s1 s2 q. dw p [tt r TimerReaped True, tt r s1 False, tt r s2 True] [?c] q"
  have s: "shutdown_dreams ?w = ?s [(?k, 2)] TimerCreated TimerCreated []"
    by (simp add: world_eval tt_def eval_nat_numeral)
  let ?L = "later (shutdown_dreams ?w)"
  have "?L (?s [(?k, 2)] TimerCreated TimerCreated [])" using later_refl [of "shutdown_dreams ?w"] unfolding s .
  from later_task [OF this _ task_start, of 1] have "?L (?s [(?k, 2)] TimerSleeping TimerCreated [])"
    by (simp add: world_eval tt_def)
  from later_task [OF this _ task_wake, of 1] have "?L (?s [(?k, 2)] TimerRunning TimerCreated [])"
    by (simp add: world_eval tt_def)
  from later_task [OF this _ task_enqueue, of 1] have "?L (?s [(?k, 2)] TimerRunning TimerCreated [1])"
    by (simp add: world_eval tt_def)
  from later_task [OF this _ task_start, of 2] have "?L (?s [(?k, 2)] TimerRunning TimerFinished [1])"
    by (simp add: world_eval tt_def eval_nat_numeral)
  from later_task [OF this _ task_callback, of 2] have "?L (?s [] TimerRunning TimerReaped [1])"
    by (simp add: world_eval tt_def eval_nat_numeral)
  from later_resume [OF this, of 0] have "?L (resume_call 0 (?s [] TimerRunning TimerReaped [1]))"
    by (simp add: world_eval tt_def eval_nat_numeral)
  moreover have "dw_pending (resume_call 0 (?s [] TimerRunning TimerReaped [1])) = []"
    "dw_suspended (resume_call 0 (?s [] TimerRunning TimerReaped [1])) = []"
    "dw_enqueued (resume_call 0 (?s [] TimerRunning TimerReaped [1])) = [1]"
    by (simp_all add: world_eval)
  moreover have "armed ?w 1" "armed ?w 2" "task_key ?w 1 = ?k" "task_key ?w 2 = ?k" "dget (dw_pending ?w) ?k = Some 2"
    by (simp_all add: armed_def world_eval tt_def eval_nat_numeral)
  moreover have "later idle_scheduler (dw [] [tt r TimerReaped False, tt r TimerCreated False] [] [])"
    (is "later _ ?v")
  proof -
    from later_task [OF sleeping_timer [of r] _ task_wake, of 0]
    have "later idle_scheduler (dw [(?k, 0)] [tt r TimerRunning False] [] [])" by (simp add: world_eval tt_def)
    from later_task [OF this _ task_finish, of 0]
    have "later idle_scheduler (dw [(?k, 0)] [tt r TimerFinished False] [] [])" by (simp add: world_eval tt_def)
    from later_schedule [OF this, of True r]
    have "later idle_scheduler (dw [(?k, 1)] [tt r TimerFinished False, tt r TimerCreated False] [] [])"
      by (simp add: world_eval tt_def)
    from later_task [OF this _ task_callback, of 0] show ?thesis by (simp add: world_eval tt_def)
  qed
  moreover have "armed ?v 1" by (simp add: armed_def world_eval tt_def)
  ultimately show ?thesis using lost_timer_run [of r]
    by (intro conjI exI [of _ ?w] exI [of _ ?v] exI [of _ "resume_call 0 (?s [] TimerRunning TimerReaped [1])"]) simp_all
qed

section \<open>Examples\<close>




end
