(* ===== verification/Spec2Isabelle.thy ===== *)
theory Spec2Isabelle
  imports Prelude WorkUnit Config Lifecycle Security ScopePeers QueuePayload QueueDb Enqueue QueueBatch
    QueueManager Worker Fleet FilterSql FilterBuild FilterSpec FilterProps
    Conclusions ConclusionProps ConclusionClaims ConclusionStore WorkingMemory WorkingMemoryProps
    Tokens Conversation ConversationProps Capabilities ToolLoop ToolLoopProps DreamTimers
begin

text \<open>
  Honcho (src/src) is a memory server. Its HTTP API stores the messages of peers in sessions of workspaces; each
  stored message may put tasks on a queue in the database. Any number of deriver processes claim work units from
  that queue, let a language model derive conclusions about the peers from the messages, and store them,
  deduplicated, per pair of an observer and an observed peer. From time to time a dream consolidates the
  conclusions of a pair. Clients read back under keys that say what they may see, with filters in a small query
  language, and agents of the server answer them in a loop of model calls and tool calls. This development models
  the parts of that program that keep state or decide, and proves what makes them correct.

  \<^bold>\<open>How the parts interact.\<close> A request is let in by Security and reads rows through Lifecycle, the filters
  and ScopePeers. A message, with the configuration Config resolves for it, becomes rows of the queue: Enqueue makes
  the payloads of QueuePayload and the keys of WorkUnit and writes the tables of QueueDb. A deriver polls and claims
  (QueueManager), fetches batches (QueueBatch) and works a claimed unit off (Worker); Fleet interleaves any number
  of derivers on one database. What they derive goes through Conclusions and ConclusionStore. The dream scheduler
  (DreamTimers) queues dreams; a dream is given its work list and notes by WorkingMemory. All agents call models
  through ToolLoop, which shapes its history with Conversation and counts it with Tokens.

  \<^bold>\<open>Conventions.\<close> A Python value is a \<open>pyval\<close>, a dictionary an association list in insertion order, a call that
  may raise a \<open>'a res\<close> (\<open>Inl\<close> the class of the exception). A table is a list of rows, a query a function of the
  tables it reads, a transaction that reads twice a function of both states it sees, so that what others commit in
  between is arbitrary. Code outside src/ is an argument: the tokenizer, pydantic's coercions, PyJWT, the collation,
  case folding and id order of the database, vector search, the model providers and the tools.

  \<^bold>\<open>The theories\<close>, each with the files under src/src it models:

  \<^item> Prelude: values, results, dictionaries, strings, timestamps, and the collections \<open>res_simps\<close>, \<open>dict_simps\<close>,
    \<open>str_simps\<close> the proofs rewrite with.
  \<^item> WorkUnit (utils/work_unit.py): building and parsing work unit keys.
  \<^item> Config (utils/config_helpers.py, utils/json_coerce.py, schemas/configuration.py): merging the levels of
    configuration, legacy keys, instructions and the resolved record.
  \<^item> Lifecycle (crud/lifecycle.py, models.py): the tables, and which rows count as live.
  \<^item> Security (security.py, utils/scopes.py, routers/keys.py and the lookups of crud/session.py and crud/scope.py):
    minting and verifying keys, the authorization of a route.
  \<^item> ScopePeers (crud/scope.py, crud/peer.py): reserved names, resolution of scopes, backfill status.
  \<^item> QueuePayload (utils/queue_payload.py): the payload of every task.
  \<^item> QueueDb (crud/deriver.py, models.py, deriver/queue_manager.py): the tables of the queue with their unique
    indexes, claims, the stale sweep, the batch gate, the metrics. The locale \<open>claim_table\<close> states what a table of
    claims promises; it is interpreted on these tables.
  \<^item> Enqueue (deriver/enqueue.py): the records of a message, observers, dreams, scope tasks, deletions.
  \<^item> QueueBatch (deriver/queue_manager.py, \<open>get_queue_item_batch\<close>): window, token cap and the cut at a change of
    configuration.
  \<^item> QueueManager (deriver/queue_manager.py): polling turns, ownership, marking items, the retry budget.
  \<^item> Worker (deriver/queue_manager.py, \<open>process_work_unit\<close>): the loop over one work unit and its release.
  \<^item> Fleet: the step relation \<open>lease_step\<close> over the statements of many derivers, its reachable worlds, and
    \<open>timely\<close> worlds, in which no sweep or exit hits a busy worker.
  \<^item> FilterSql, FilterBuild (utils/filter.py): conditions with their three-valued meaning, and building them from
    client JSON; FilterSpec says which rows a filter means, FilterProps that the two agree.
  \<^item> Conclusions (crud/document.py, \<open>create_documents\<close>): one batch of conclusions; ConclusionProps holds the
    invariants of its loop, among them the locale \<open>merge_scope\<close> of what a document may be merged into, interpreted on
    keys and on levels, and ConclusionClaims the properties.
  \<^item> ConclusionStore (crud/document.py): queries, deletion, cleanup, conclusions of clients.
  \<^item> WorkingMemory (dreamer/working_memory.py, crud/collection.py, \<open>process_dream\<close> of dreamer/orchestrator.py): cursor,
    work list and notes, and what a dream records; WorkingMemoryProps.
  \<^item> Tokens (utils/tokens.py) and Conversation (llm/conversation.py): estimates, \<open>json.dumps\<close>, grouping,
    truncation with its clipping in 64-bit floating point, stripping; ConversationProps.
  \<^item> Capabilities (llm/capabilities.py) and ToolLoop (llm/tool_loop.py, llm/history_adapters.py, llm/errors.py,
    llm/runtime.py): the whole loop; ToolLoopProps.
  \<^item> DreamTimers (dreamer/dream_scheduler.py): timers as interleaved steps of asyncio tasks and suspended calls.

  \<^bold>\<open>What the lemmas show.\<close> Keys: authorization is exactly the policy of the narrowest claim, scope keys never
  degrade, minted keys verify. Queue: what a message enqueues, all or nothing; what is claimed, fetched and marked;
  the loop ends and drains its unit; no item is worked on twice by timely workers. Filters: the condition selects
  exactly the rows meant. Conclusions: none lost, none stored twice, other pairs untouched. Dreams: work lists cover
  every conclusion in order; a reset is never overwritten; one timer per key. Model calls: bounded, in well-formed
  histories that only grow, truncated in whole rounds. Errors are part of each statement, and where the code does not
  do what it means to, a theorem shows the failure.

  \<^bold>\<open>Fuel and bounds.\<close> \<open>process_loop\<close> gets one turn more than the work unit has pending items, since every turn
  completes an item or ends the loop. Filters nest at most five deep, as in the code, so their recursion is on that
  depth. Clipping makes at most two passes per payload and two more, as in the code. The tool loop is recursion on the
  iterations left, an attempt on the attempts left. Dreams show a conclusion within three dreams in which a specialist
  succeeded, since the cursor is held at most twice.

  \<^bold>\<open>What is not modelled.\<close> The HTTP layer, schemas of requests, telemetry, logging and caches, which observe or
  pass on; migrations, the SDKs and scripts; embeddings, vector stores and provider backends, which are services
  behind parameters; prompts. Within what is modelled:

  \<^item> The consumer of a work unit changes no queue rows; the deletion of a session does (crud/session.py).
  \<^item> Error handling in Fleet is one step, where the code runs several transactions, and the manager that exits is
    any set of claims.
  \<^item> A database error other than a violated constraint, which the code raises again after a rollback, is no outcome
    of a batch of conclusions.
  \<^item> A signed peer claim that is not a string is refused by \<open>auth\<close>; in the code the membership query fails on it.
  \<^item> A block whose \<open>type\<close> cannot be hashed is no thinking block, where the code raises \<open>TypeError\<close>.
  \<^item> Attributes of the ORM classes other than columns are no filter keys.
  \<^item> What a dream timer executes (the thresholds, the lookup of the session and its configuration), the scheduler of
    the API and the follow-up dream are left out; time is, too: a timer may go off at any moment.
\<close>

end
